(* ===== verification/Prelude.thy ===== *)
theory Prelude
  imports Complex_Main "HOL-Library.Multiset" "HOL-Library.List_Lexorder"
begin

section \<open>Shared vocabulary: strings, results, sorting by a comparator\<close>

text \<open>
  What every component of the development shares.
  \<^item> A JavaScript string is the list of its UTF-16 code units (\<open>jstr\<close>); \<open>u\<close> turns an
    Isabelle literal into one.  \<open><\<close> on strings is the lexicographic order on code units, the
    order of \<open><\<close> and of \<open>Array.prototype.sort\<close> without a comparator.
  \<^item> A function that may throw returns a sum: \<open>Inl\<close> the error, \<open>Inr\<close> the value.
    Messages are not modelled, only the class of the error.
  \<^item> \<open>stable_sort\<close> is \<open>Array.prototype.sort\<close> with a comparator: the standard requires a
    stable sort, and for a consistent comparator that determines the result.
\<close>

named_theorems model_simps \<open>unfoldings of the small helper definitions of the model\<close>

subsection \<open>Strings\<close>

type_synonym jstr = "nat list"

definition u :: "string \<Rightarrow> jstr" where
  "u s = map of_char s"

lemma u_inject [simp]: "u s = u t \<longleftrightarrow> s = t"
  by (auto simp: u_def inj_map_eq_map inj_on_def)

lemma u_Nil [simp]: "u [] = []" "u s = [] \<longleftrightarrow> s = []" "[] = u s \<longleftrightarrow> s = []"
  by (auto simp: u_def)

lemma length_u [simp]: "length (u s) = length s"
  by (simp add: u_def)

text \<open>Decimal digits of a natural number, most significant first, as code units.\<close>

fun nat_digits :: "nat \<Rightarrow> jstr" where
  "nat_digits n = (if n < 10 then [48 + n] else nat_digits (n div 10) @ [48 + n mod 10])"

declare nat_digits.simps [simp del]

definition pad_start :: "nat \<Rightarrow> nat \<Rightarrow> jstr \<Rightarrow> jstr" where
  "pad_start w c s = replicate (w - length s) c @ s"

lemma length_pad_start: "length s \<le> w \<Longrightarrow> length (pad_start w c s) = w"
  by (simp add: pad_start_def)

lemma nat_digits_range: "d \<in> set (nat_digits n) \<Longrightarrow> 48 \<le> d \<and> d \<le> 57"
proof (induction n rule: nat_digits.induct)
  case (1 n)
  then show ?case by (auto simp: nat_digits.simps [of n] split: if_splits)
qed

lemma nat_digits_nonempty [simp]: "nat_digits n \<noteq> []"
  by (subst nat_digits.simps) simp

text \<open>The value a digit string denotes, and that padding with zeros keeps it.\<close>

definition digits_value :: "jstr \<Rightarrow> nat" where
  "digits_value ds = foldl (\<lambda>v d. 10 * v + (d - 48)) 0 ds"

lemma foldl_digits_offset:
  "foldl (\<lambda>v d. 10 * v + (d - 48)) a ds
     = a * 10 ^ length ds + foldl (\<lambda>v d. 10 * v + (d - 48)) (0::nat) ds"
proof (induction ds arbitrary: a)
  case (Cons d ds)
  show ?case
    unfolding foldl_Cons Cons.IH [of "10 * a + (d - 48)"] Cons.IH [of "10 * 0 + (d - 48)"]
    by (simp add: algebra_simps)
qed simp

lemma digits_value_Nil [simp]: "digits_value [] = 0"
  by (simp add: digits_value_def)

lemma digits_value_Cons: "digits_value (d # ds) = (d - 48) * 10 ^ length ds + digits_value ds"
  using foldl_digits_offset [of "d - 48" ds] by (simp add: digits_value_def)

lemma digits_value_snoc: "digits_value (ds @ [d]) = 10 * digits_value ds + (d - 48)"
  by (simp add: digits_value_def)

lemma digits_value_nat_digits [simp]: "digits_value (nat_digits n) = n"
proof (induction n rule: nat_digits.induct)
  case (1 n)
  then show ?case
    by (subst nat_digits.simps) (auto simp: digits_value_Cons digits_value_snoc)
qed

lemma nat_digits_inject [simp]: "nat_digits m = nat_digits n \<longleftrightarrow> m = n"
  by (metis digits_value_nat_digits)

lemma digits_value_pad [simp]: "digits_value (pad_start w 48 s) = digits_value s"
proof -
  have "digits_value (replicate k 48 @ s) = digits_value s" for k
    by (induction k) (simp_all add: digits_value_Cons)
  then show ?thesis by (simp add: pad_start_def)
qed

lemma digits_value_bound:
  "\<forall>d \<in> set ds. 48 \<le> d \<and> d \<le> 57 \<Longrightarrow> digits_value ds < 10 ^ length ds"
proof (induction ds)
  case (Cons d ds)
  then have d: "d - 48 \<le> 9" and v: "digits_value ds < 10 ^ length ds" by auto
  from d have "(d - 48) * 10 ^ length ds \<le> 9 * 10 ^ length ds" by (rule mult_le_mono1)
  with v show ?case by (simp only: digits_value_Cons length_Cons power_Suc)
qed simp

text \<open>On digit strings of one length, the order of the text is the order of the numbers.\<close>

lemma digits_less_iff:
  assumes "length as = length bs"
    and "\<forall>d \<in> set as. 48 \<le> d \<and> d \<le> 57" and "\<forall>d \<in> set bs. 48 \<le> d \<and> d \<le> 57"
  shows "as < bs \<longleftrightarrow> digits_value as < digits_value bs"
  using assms
proof (induction as bs rule: list_induct2)
  case (Cons a as b bs)
  have va: "digits_value as < 10 ^ length bs" and vb: "digits_value bs < 10 ^ length bs"
    using Cons.prems Cons.hyps by (metis digits_value_bound list.set_intros(2))+
  have step: "(x - 48) * 10 ^ length bs + v < (y - 48) * 10 ^ length bs + w"
    if "x < y" "48 \<le> x" "v < 10 ^ length bs" for x y v w :: nat
  proof -
    from that have "x - 48 + 1 \<le> y - 48" by simp
    then have "(x - 48 + 1) * 10 ^ length bs \<le> (y - 48) * 10 ^ length bs" by (rule mult_le_mono1)
    with \<open>v < _\<close> show ?thesis by (simp only: add_mult_distrib)
  qed
  show ?case
  proof (cases a b rule: linorder_cases)
    case less
    with step [OF _ _ va] Cons show ?thesis by (simp add: digits_value_Cons)
  next
    case equal
    with Cons show ?thesis by (simp add: digits_value_Cons)
  next
    case greater
    with step [OF _ _ vb, of b a] Cons show ?thesis
      by (simp add: digits_value_Cons) (metis less_asym not_less_iff_gr_or_eq)
  qed
qed simp

lemma length_nat_digits_bound: "n < 10 ^ k \<Longrightarrow> 0 < k \<Longrightarrow> length (nat_digits n) \<le> k"
proof (induction k arbitrary: n)
  case (Suc k)
  show ?case
  proof (cases "n < 10")
    case True
    then show ?thesis by (subst nat_digits.simps) simp
  next
    case False
    with Suc.prems have "n div 10 < 10 ^ k" by simp
    moreover have "0 < k" using False Suc.prems by (cases k) auto
    ultimately have "length (nat_digits (n div 10)) \<le> k" by (rule Suc.IH)
    with False show ?thesis by (subst nat_digits.simps) simp
  qed
qed simp

lemma nat_digits_length_imp: "length (nat_digits n) \<le> k \<Longrightarrow> n < 10 ^ k"
proof -
  assume "length (nat_digits n) \<le> k"
  then have "(10::nat) ^ length (nat_digits n) \<le> 10 ^ k" by (simp add: power_increasing)
  moreover have "n < 10 ^ length (nat_digits n)"
    using digits_value_bound [of "nat_digits n"] nat_digits_range [of _ n] by auto
  ultimately show ?thesis by (rule less_le_trans [rotated])
qed

lemma pad_start_digits:
  "\<forall>d \<in> set (pad_start w 48 (nat_digits n)). 48 \<le> d \<and> d \<le> 57"
  using nat_digits_range by (auto simp: pad_start_def)

lemma append_less_same_length:
  "length as = length bs \<Longrightarrow>
     as @ cs < bs @ ds \<longleftrightarrow> as < bs \<or> as = bs \<and> cs < (ds :: nat list)"
  by (induction as bs rule: list_induct2) auto

subsection \<open>Errors as values\<close>

datatype js_error = TypeError | RangeError | PlainError

abbreviation bind_err :: "'e + 'a \<Rightarrow> ('a \<Rightarrow> 'e + 'b) \<Rightarrow> 'e + 'b" where
  "bind_err r f \<equiv> (case r of Inl e \<Rightarrow> Inl e | Inr x \<Rightarrow> f x)"

lemma bind_err_Inr: "bind_err r f = Inr y \<longleftrightarrow> (\<exists>x. r = Inr x \<and> f x = Inr y)"
  by (cases r) auto

text \<open>\<open>xs.map(f)\<close> for an \<open>f\<close> that may throw: the first error ends the walk.\<close>

fun map_err :: "('a \<Rightarrow> 'e + 'b) \<Rightarrow> 'a list \<Rightarrow> 'e + 'b list" where
  "map_err f [] = Inr []"
| "map_err f (x # xs) =
     bind_err (f x) (\<lambda>y. bind_err (map_err f xs) (\<lambda>ys. Inr (y # ys)))"

lemma map_err_Inr: "(\<And>x. x \<in> set xs \<Longrightarrow> f x = Inr (g x)) \<Longrightarrow> map_err f xs = Inr (map g xs)"
  by (induction xs) auto

lemma map_err_InrD:
  "map_err f xs = Inr ys \<Longrightarrow> length ys = length xs \<and> (\<forall>i < length xs. f (xs ! i) = Inr (ys ! i))"
proof (induction xs arbitrary: ys)
  case (Cons x xs)
  then obtain y zs where "f x = Inr y" "map_err f xs = Inr zs" "ys = y # zs"
    by (auto split: sum.splits)
  with Cons.IH [of zs] show ?case by (auto simp: nth_Cons split: nat.splits)
qed simp

subsection \<open>Sorting with a comparator\<close>

text \<open>\<open>before a b\<close>: the comparator puts \<open>b\<close> strictly before \<open>a\<close> is false.\<close>

fun insert_by :: "('a \<Rightarrow> 'a \<Rightarrow> bool) \<Rightarrow> 'a \<Rightarrow> 'a list \<Rightarrow> 'a list" where
  "insert_by gt x [] = [x]"
| "insert_by gt x (y # ys) = (if gt x y then y # insert_by gt x ys else x # y # ys)"

definition stable_sort :: "('a \<Rightarrow> 'a \<Rightarrow> bool) \<Rightarrow> 'a list \<Rightarrow> 'a list" where
  "stable_sort gt xs = foldr (insert_by gt) xs []"

lemma mset_insert_by [simp]: "mset (insert_by gt x xs) = add_mset x (mset xs)"
  by (induction xs) auto

lemma mset_stable_sort [simp]: "mset (stable_sort gt xs) = mset xs"
  by (induction xs) (auto simp: stable_sort_def)

lemma set_stable_sort [simp]: "set (stable_sort gt xs) = set xs"
  using mset_stable_sort [of gt xs] by (metis set_mset_mset)

lemma length_stable_sort [simp]: "length (stable_sort gt xs) = length xs"
  using mset_stable_sort [of gt xs] by (metis size_mset)

lemma set_insert_by [simp]: "set (insert_by gt x xs) = insert x (set xs)"
  by (induction xs) auto

lemma insert_by_map: "insert_by gt (f x) (map f xs) = map f (insert_by (\<lambda>a b. gt (f a) (f b)) x xs)"
  by (induction xs) auto

lemma stable_sort_map: "stable_sort gt (map f xs) = map f (stable_sort (\<lambda>a b. gt (f a) (f b)) xs)"
  by (induction xs) (simp_all add: stable_sort_def insert_by_map)

lemma insert_by_cong:
  "(\<And>y. y \<in> set ys \<Longrightarrow> gt x y = gt' x y) \<Longrightarrow> insert_by gt x ys = insert_by gt' x ys"
  by (induction ys) auto

lemma stable_sort_cong:
  "(\<And>x y. x \<in> set xs \<Longrightarrow> y \<in> set xs \<Longrightarrow> gt x y = gt' x y) \<Longrightarrow> stable_sort gt xs = stable_sort gt' xs"
proof (induction xs)
  case (Cons x xs)
  have "stable_sort gt xs = stable_sort gt' xs" using Cons by simp
  moreover have "insert_by gt x (stable_sort gt' xs) = insert_by gt' x (stable_sort gt' xs)"
    by (rule insert_by_cong) (use Cons.prems in simp)
  ultimately show ?case by (simp add: stable_sort_def)
qed (simp add: stable_sort_def)

text \<open>
  The comparator contract a sort relies on: \<open>gt\<close> is a strict order whose negation is
  transitive (a strict weak order), on the elements that are sorted.
\<close>

locale comparator =
  fixes gt :: "'a \<Rightarrow> 'a \<Rightarrow> bool" and ok :: "'a \<Rightarrow> bool"
  assumes asym: "ok x \<Longrightarrow> ok y \<Longrightarrow> gt x y \<Longrightarrow> \<not> gt y x"
    and le_trans: "ok x \<Longrightarrow> ok y \<Longrightarrow> ok z \<Longrightarrow> \<not> gt x y \<Longrightarrow> \<not> gt y z \<Longrightarrow> \<not> gt x z"
begin

lemma sorted_insert_by:
  "\<forall>z \<in> insert x (set xs). ok z \<Longrightarrow> sorted_wrt (\<lambda>a b. \<not> gt a b) xs \<Longrightarrow>
     sorted_wrt (\<lambda>a b. \<not> gt a b) (insert_by gt x xs)"
proof (induction xs)
  case (Cons y ys)
  have ok: "ok x" "ok y" "\<forall>z \<in> set ys. ok z" using Cons.prems by auto
  show ?case
  proof (cases "gt x y")
    case True
    then have "\<not> gt y x" using asym ok by blast
    with True Cons ok show ?thesis by simp
  next
    case False
    then have "\<forall>z \<in> set ys. \<not> gt x z" using Cons.prems(2) ok le_trans [of x y] by simp
    with False Cons.prems show ?thesis by simp
  qed
qed simp

lemma sorted_stable_sort:
  "\<forall>z \<in> set xs. ok z \<Longrightarrow> sorted_wrt (\<lambda>a b. \<not> gt a b) (stable_sort gt xs)"
proof (induction xs)
  case Nil
  show ?case by (simp add: stable_sort_def)
next
  case (Cons x xs)
  have "\<forall>z \<in> insert x (set (stable_sort gt xs)). ok z" using Cons.prems by simp
  from sorted_insert_by [OF this] Cons show ?case by (simp add: stable_sort_def)
qed

text \<open>Two orderings of the same elements, both sorted, agree up to ties.\<close>

lemma sorted_unique:
  assumes "mset xs = mset ys" "\<forall>z \<in> set xs. ok z"
    and "sorted_wrt (\<lambda>a b. \<not> gt a b) xs" "sorted_wrt (\<lambda>a b. \<not> gt a b) ys"
    and "\<And>a b. a \<in> set xs \<Longrightarrow> b \<in> set xs \<Longrightarrow> \<not> gt a b \<Longrightarrow> \<not> gt b a \<Longrightarrow> a = b"
  shows "xs = ys"
  using assms
proof (induction xs arbitrary: ys)
  case (Cons x xs)
  then obtain y ys' where ys: "ys = y # ys'" by (cases ys) auto
  have same: "set (x # xs) = set ys" using Cons.prems(1) by (metis set_mset_mset)
  have "\<not> gt x y" if "y \<noteq> x" using that same ys Cons.prems(3) by auto
  moreover have "\<not> gt y x" if "y \<noteq> x" using that same ys Cons.prems(4) by auto
  ultimately have xy: "x = y" using Cons.prems(5) same ys by (metis list.set_intros(1))
  have "xs = ys'"
    by (rule Cons.IH) (use Cons.prems ys xy in auto)
  with ys xy show ?case by simp
qed simp

end

end
