(* ===== verification/Js_Number.thy ===== *)
theory Js_Number
  imports Prelude "HOL-Library.Log_Nat"
begin

section \<open>JavaScript numbers: IEEE 754 binary64 over the rationals\<close>

text \<open>
  The \<open>number\<close> type of the source.  A finite double is the rational it denotes; the two
  infinities and NaN are values of their own; the two zeros are one value (no code under
  \<open>src/alg\<close> tells them apart, and \<open>quantiseStored\<close> removes the sign on purpose).
  Every arithmetic operation is computed exactly and then rounded by \<open>fl\<close>, round to nearest
  with ties to even at 53 significant bits and a least exponent of -1074, and overflows to an
  infinity at \<open>2 ^ 1024\<close>, as the standard prescribes.  \<open>Math.round\<close> is exact.
  The rounding is a definition, not an assumption; its laws (monotone, exact on
  representable numbers) are proved here and packaged as the locale \<open>rounding\<close>.
\<close>

subsection \<open>Rounding to nearest, ties to even\<close>

definition rne :: "rat \<Rightarrow> int" where
  "rne x = (let f = \<lfloor>x\<rfloor>; r = x - of_int f
            in if r < 1 / 2 \<or> (r = 1 / 2 \<and> even f) then f else f + 1)"

lemma rne_of_int [simp]: "rne (of_int n) = n"
  by (simp add: rne_def Let_def)

lemma rne_pow2 [simp]: "rne (2 ^ n) = 2 ^ n"
  using rne_of_int [of "2 ^ n"] by simp

lemma rne_mono:
  assumes "x \<le> y" shows "rne x \<le> rne y"
proof (cases "\<lfloor>x\<rfloor> = \<lfloor>y\<rfloor>")
  case True
  with assms show ?thesis by (auto simp: rne_def Let_def)
next
  case False
  with assms have "\<lfloor>x\<rfloor> + 1 \<le> \<lfloor>y\<rfloor>" using floor_mono [of x y] by linarith
  then show ?thesis by (auto simp: rne_def Let_def)
qed

text \<open>The binary exponent of a positive rational, read off the lengths of its fraction.\<close>

definition expo :: "rat \<Rightarrow> int" where
  "expo x = (let (n, d) = quotient_of x; k = bitlen n - bitlen d
             in if 2 powi k \<le> x then k else k - 1)"

lemma bitlen_powi:
  assumes "0 < n"
  shows "2 powi (bitlen n - 1) \<le> (of_int n :: rat)" "(of_int n :: rat) < 2 powi bitlen n"
proof -
  have pos: "0 < bitlen n" using assms bitlen_nonneg [of n] bitlen_eq_zero_iff [of n] by linarith
  have b: "2 ^ nat (bitlen n - 1) \<le> n \<and> n < 2 ^ nat (bitlen n)" using bitlen_bounds [OF assms] .
  then have "(of_int (2 ^ nat (bitlen n - 1)) :: rat) \<le> of_int n"
    and "(of_int n :: rat) < of_int (2 ^ nat (bitlen n))" by (simp_all only: of_int_le_iff of_int_less_iff)
  with pos show "2 powi (bitlen n - 1) \<le> (of_int n :: rat)" "(of_int n :: rat) < 2 powi bitlen n"
    by (simp_all add: power_int_def)
qed

lemma expo_bounds:
  assumes "0 < x"
  shows "2 powi expo x \<le> x" "x < 2 powi (expo x + 1)"
proof -
  obtain n d where q: "quotient_of x = (n, d)" by (cases "quotient_of x")
  have d: "0 < d" using quotient_of_denom_pos [OF q] .
  have x: "x = of_int n / of_int d" using quotient_of_div [OF q] .
  with assms d have n: "0 < n" by (simp add: zero_less_divide_iff)
  let ?k = "bitlen n - bitlen d"
  have "x < 2 powi bitlen n / 2 powi (bitlen d - 1)"
    unfolding x using bitlen_powi [OF n] bitlen_powi [OF d] d n
    by (intro frac_less) auto
  then have up: "x < 2 powi (?k + 1)" by (simp add: power_int_diff power_int_add)
  have "2 powi (bitlen n - 1) / 2 powi bitlen d \<le> x"
    unfolding x using bitlen_powi [OF n] bitlen_powi [OF d] d n
    by (intro frac_le) auto
  then have lo: "2 powi (?k - 1) \<le> x" by (simp add: power_int_diff)
  show "2 powi expo x \<le> x" "x < 2 powi (expo x + 1)"
    using up lo by (auto simp: expo_def q Let_def)
qed

lemma powi_mono: "a \<le> b \<Longrightarrow> (2::rat) powi a \<le> 2 powi b"
  by (rule power_int_increasing) auto

lemma powi_less_imp: "(2::rat) powi a < 2 powi b \<Longrightarrow> a < b"
  using powi_mono [of b a] by (cases "a < b") (auto simp: not_less)

lemma expo_mono: "0 < x \<Longrightarrow> x \<le> y \<Longrightarrow> expo x \<le> expo y"
proof -
  assume "0 < x" "x \<le> y"
  then have "2 powi expo x < (2::rat) powi (expo y + 1)"
    using expo_bounds(1) [of x] expo_bounds(2) [of y] by simp
  then show ?thesis using powi_less_imp by fastforce
qed

text \<open>The quantum (unit in the last place) and the rounding of a positive rational.\<close>

definition quantum :: "rat \<Rightarrow> rat" where
  "quantum x = 2 powi (max (expo x - 52) (- 1074))"

lemma quantum_pos [simp]: "0 < quantum x"
  by (simp add: quantum_def)

lemma quantum_neq [simp]: "quantum x \<noteq> 0"
  using quantum_pos [of x] by linarith

definition fl_pos :: "rat \<Rightarrow> rat" where
  "fl_pos x = of_int (rne (x / quantum x)) * quantum x"

definition fl :: "rat \<Rightarrow> rat" where
  "fl x = (if x = 0 then 0 else if 0 < x then fl_pos x else - fl_pos (- x))"

text \<open>What a double can hold: 53 bits of significand over a power of two.\<close>

definition rep :: "rat \<Rightarrow> bool" where
  "rep x \<longleftrightarrow> (\<exists>m e. x = of_int m * 2 powi e \<and> \<bar>m\<bar> \<le> 2 ^ 53 \<and> - 1074 \<le> e)"

lemma powi_int: "0 \<le> k \<Longrightarrow> (2::rat) powi k = of_int (2 ^ nat k)"
  by (simp add: power_int_def)

lemma quantum_multiple:
  assumes "- 1074 \<le> e" "0 < x" "x = of_int m * 2 powi e" "\<bar>m\<bar> \<le> 2 ^ 53"
  shows "\<exists>k. x / quantum x = of_int k"
proof -
  let ?q = "max (expo x - 52) (- 1074)"
  have "x \<le> 2 powi (e + 53)"
  proof -
    have "m \<le> 2 ^ 53" using assms(4) by simp
    then have "(of_int m :: rat) \<le> 2 ^ 53" by (metis of_int_le_iff of_int_numeral of_int_power)
    then show ?thesis using assms(3) by (simp add: power_int_add)
  qed
  show ?thesis
  proof (cases "?q \<le> e")
    case True
    then have "x / quantum x = of_int m * 2 powi (e - ?q)"
      by (simp add: assms(3) quantum_def power_int_diff)
    also have "\<dots> = of_int (m * 2 ^ nat (e - ?q))" using True by (simp add: powi_int)
    finally show ?thesis by blast
  next
    case False
    with assms(1) have e: "e < expo x - 52" by auto
    have "2 powi expo x \<le> (2::rat) powi (e + 53)"
      using expo_bounds(1) [OF assms(2)] \<open>x \<le> _\<close> by simp
    then have "expo x \<le> e + 53" using powi_less_imp [of "e + 53" "expo x"]
      by (metis less_le_not_le not_le power_int_strict_increasing one_less_numeral_iff semiring_norm(76))
    with e have ex: "expo x = e + 53" by simp
    then have "x = 2 powi (e + 53)" using expo_bounds(1) [OF assms(2)] \<open>x \<le> _\<close> by simp
    moreover have "quantum x = 2 powi (e + 1)"
      using ex assms(1) by (simp add: quantum_def add.commute)
    ultimately have "x / quantum x = of_int (2 ^ 52)"
      by (simp add: power_int_add power_int_diff add.commute [of 1])
    then show ?thesis by blast
  qed
qed

lemma fl_pos_rep: "rep x \<Longrightarrow> 0 < x \<Longrightarrow> fl_pos x = x"
proof -
  assume "rep x" "0 < x"
  then obtain m e where "- 1074 \<le> e" "x = of_int m * 2 powi e" "\<bar>m\<bar> \<le> 2 ^ 53"
    by (auto simp: rep_def)
  from quantum_multiple [OF this(1) \<open>0 < x\<close> this(2,3)] obtain k where k: "x / quantum x = of_int k" ..
  then have "fl_pos x = of_int k * quantum x" by (simp add: fl_pos_def)
  moreover have "of_int k * quantum x = x"
    using k quantum_pos [of x] by (simp add: divide_eq_eq)
  ultimately show ?thesis by simp
qed

lemma rep_uminusI: "rep x \<Longrightarrow> rep (- x)"
proof -
  assume "rep x"
  then obtain m e where "x = of_int m * 2 powi e" "\<bar>m\<bar> \<le> 2 ^ 53" "- 1074 \<le> e"
    by (auto simp: rep_def)
  then have "- x = of_int (- m) * 2 powi e" "\<bar>- m\<bar> \<le> 2 ^ 53" by auto
  with \<open>- 1074 \<le> e\<close> show ?thesis unfolding rep_def by blast
qed

lemma rep_uminus [simp]: "rep (- x) \<longleftrightarrow> rep x"
  using rep_uminusI [of x] rep_uminusI [of "- x"] by auto

lemma fl_rep: "rep x \<Longrightarrow> fl x = x"
  by (simp add: fl_def fl_pos_rep)

lemma fl_zero [simp]: "fl 0 = 0"
  by (simp add: fl_def)

lemma fl_uminus [simp]: "fl (- x) = - fl x"
  by (auto simp: fl_def)

lemma fl_pos_nonneg: "0 < x \<Longrightarrow> 0 \<le> fl_pos x"
proof -
  assume "0 < x"
  then have "0 \<le> x / quantum x" using quantum_pos [of x] by (simp add: zero_le_divide_iff less_imp_le)
  from rne_mono [OF this] have "0 \<le> rne (x / quantum x)" using rne_of_int [of 0] by simp
  then show ?thesis using quantum_pos [of x] by (simp add: fl_pos_def less_imp_le)
qed

lemma fl_pos_mono:
  assumes "0 < x" "x \<le> y" shows "fl_pos x \<le> fl_pos y"
proof (cases "quantum x = quantum y")
  case True
  have "x / quantum y \<le> y / quantum y" using assms(2) by (simp add: divide_right_mono less_imp_le)
  then have "rne (x / quantum x) \<le> rne (y / quantum y)" using True rne_mono by metis
  then show ?thesis using True by (simp add: fl_pos_def mult_right_mono less_imp_le)
next
  case False
  let ?B = "2 powi expo y :: rat"
  have "expo x \<le> expo y" using assms by (rule expo_mono)
  with False have lt: "expo x < expo y" and ey: "- 1022 < expo y"
    by (cases "expo x = expo y"; auto simp: quantum_def max_def split: if_splits)+
  then have qy: "quantum y = 2 powi (expo y - 52)" by (simp add: quantum_def)
  have y: "0 < y" using assms by simp
  have "x \<le> ?B" using expo_bounds(2) [OF assms(1)] powi_mono [of "expo x + 1" "expo y"] lt by simp
  then have "x / quantum x \<le> ?B / quantum x" by (simp add: divide_right_mono less_imp_le)
  moreover have "?B / quantum x = of_int (2 ^ nat (expo y - max (expo x - 52) (- 1074)))"
    using lt ey powi_int [of "expo y - max (expo x - 52) (- 1074)"]
    by (simp add: quantum_def power_int_diff [symmetric])
  ultimately have "of_int (rne (x / quantum x)) \<le> ?B / quantum x"
    using rne_mono [of "x / quantum x" "?B / quantum x"] by simp
  then have "fl_pos x \<le> ?B" using quantum_pos [of x] by (simp add: fl_pos_def pos_le_divide_eq)
  moreover have "?B / quantum y = of_int (2 ^ 52)" by (simp add: qy power_int_diff [symmetric])
  have "?B / quantum y \<le> y / quantum y"
    using expo_bounds(1) [OF y] by (simp add: divide_right_mono less_imp_le)
  then have "?B / quantum y \<le> of_int (rne (y / quantum y))"
    using rne_mono [of "?B / quantum y"] \<open>?B / quantum y = _\<close> rne_of_int [of "2 ^ 52"] by simp
  then have "?B \<le> fl_pos y" using quantum_pos [of y] by (simp add: fl_pos_def pos_divide_le_eq)
  ultimately show ?thesis by simp
qed

lemma fl_mono: "x \<le> y \<Longrightarrow> fl x \<le> fl y"
  using fl_pos_mono [of x y] fl_pos_mono [of "- y" "- x"] fl_pos_nonneg [of y] fl_pos_nonneg [of "- x"]
  by (auto simp: fl_def)

lemma rep_of_int: "\<bar>n\<bar> \<le> 2 ^ 53 \<Longrightarrow> rep (of_int n)"
  unfolding rep_def by (rule exI [of _ n], rule exI [of _ 0]) simp

lemma rep_powi: "- 1074 \<le> e \<Longrightarrow> rep (2 powi e)"
  unfolding rep_def by (rule exI [of _ 1], rule exI [of _ e]) simp

lemma rep_scaled: "\<bar>n\<bar> \<le> 2 ^ 53 \<Longrightarrow> - 1074 \<le> e \<Longrightarrow> rep (of_int n * 2 powi e)"
  unfolding rep_def by blast

lemma rep_fl_pos:
  assumes "0 < x" shows "rep (fl_pos x)"
proof -
  let ?q = "max (expo x - 52) (- 1074)"
  have "x / quantum x \<le> 2 ^ 53"
  proof -
    have "x \<le> 2 powi (expo x + 1)" using expo_bounds(2) [OF assms] by simp
    also have "\<dots> \<le> 2 powi (53 + ?q)" by (rule powi_mono) simp
    also have "\<dots> = 2 ^ 53 * quantum x" by (simp add: quantum_def power_int_add)
    finally show ?thesis by (simp add: pos_divide_le_eq)
  qed
  then have "rne (x / quantum x) \<le> 2 ^ 53"
    using rne_mono [of "x / quantum x" "of_int (2 ^ 53)"] rne_of_int [of "2 ^ 53"] by simp
  moreover have "0 \<le> rne (x / quantum x)"
    using rne_mono [of 0 "x / quantum x"] rne_of_int [of 0] assms quantum_pos [of x]
    by (simp add: zero_le_divide_iff less_imp_le)
  ultimately show ?thesis
    unfolding fl_pos_def quantum_def by (intro rep_scaled) auto
qed

lemma rep_zero [simp]: "rep 0"
  using rep_of_int [of 0] by simp

lemma rep_fl [simp]: "rep (fl x)"
  by (auto simp: fl_def intro: rep_fl_pos)

lemma fl_idem [simp]: "fl (fl x) = fl x"
  by (simp add: fl_rep)

subsection \<open>The laws of a rounding, as an interface\<close>

text \<open>
  What the arithmetic lemmas of the components need to know of a rounding: it is monotone, odd,
  and leaves the values it can represent alone.
\<close>

locale rounding =
  fixes rd :: "rat \<Rightarrow> rat" and representable :: "rat \<Rightarrow> bool"
  assumes mono: "x \<le> y \<Longrightarrow> rd x \<le> rd y"
    and exact: "representable x \<Longrightarrow> rd x = x"
    and result: "representable (rd x)"
    and odd_rd: "rd (- x) = - rd x"
    and zero: "representable 0" and one: "representable 1"
begin

lemma nonneg: "0 \<le> x \<Longrightarrow> 0 \<le> rd x"
  using mono [of 0 x] exact [OF zero] by simp

lemma nonpos: "x \<le> 0 \<Longrightarrow> rd x \<le> 0"
  using mono [of x 0] exact [OF zero] by simp

lemma le_bound: "x \<le> b \<Longrightarrow> representable b \<Longrightarrow> rd x \<le> b"
  using mono [of x b] exact [of b] by simp

lemma ge_bound: "b \<le> x \<Longrightarrow> representable b \<Longrightarrow> b \<le> rd x"
  using mono [of b x] exact [of b] by simp

lemma unit_interval: "0 \<le> x \<Longrightarrow> x \<le> 1 \<Longrightarrow> 0 \<le> rd x \<and> rd x \<le> 1"
  using nonneg le_bound one by blast

text \<open>A factor in the unit interval never makes a rounded product exceed the other factor.\<close>

lemma mult_unit_le:
  assumes "0 \<le> n" "n \<le> 1" "0 \<le> w" "representable w"
  shows "0 \<le> rd (n * w) \<and> rd (n * w) \<le> w"
proof -
  have "n * w \<le> 1 * w" by (rule mult_right_mono) (use assms in auto)
  then show ?thesis using assms by (auto intro: nonneg le_bound)
qed

lemma add_mono_rd: "a \<le> c \<Longrightarrow> b \<le> d \<Longrightarrow> rd (a + b) \<le> rd (c + d)"
  by (rule mono) simp

lemma div_unit: "0 \<le> a \<Longrightarrow> a \<le> b \<Longrightarrow> 0 < b \<Longrightarrow> 0 \<le> rd (a / b) \<and> rd (a / b) \<le> 1"
  by (intro unit_interval) (auto simp: field_simps)

end

interpretation b64: rounding fl rep
  by unfold_locales (auto intro: fl_mono fl_rep rep_of_int [of 1, simplified])

subsection \<open>The number type and its operations\<close>

datatype jnum = Fin rat | PInf | NInf | NaN

definition max_range :: rat where
  "max_range = 2 ^ 1024"

definition to_num :: "rat \<Rightarrow> jnum" where
  "to_num x = (let r = fl x in if max_range \<le> r then PInf else if r \<le> - max_range then NInf else Fin r)"

definition sign_inf :: "bool \<Rightarrow> jnum" where
  "sign_inf pos = (if pos then PInf else NInf)"

fun jneg :: "jnum \<Rightarrow> jnum" where
  "jneg (Fin x) = Fin (- x)"
| "jneg PInf = NInf"
| "jneg NInf = PInf"
| "jneg NaN = NaN"

fun jadd :: "jnum \<Rightarrow> jnum \<Rightarrow> jnum" where
  "jadd (Fin x) (Fin y) = to_num (x + y)"
| "jadd NaN b = NaN"
| "jadd a NaN = NaN"
| "jadd PInf NInf = NaN"
| "jadd NInf PInf = NaN"
| "jadd PInf b = PInf"
| "jadd NInf b = NInf"
| "jadd a b = b"

definition jsub :: "jnum \<Rightarrow> jnum \<Rightarrow> jnum" where
  "jsub a b = jadd a (jneg b)"

fun jmul :: "jnum \<Rightarrow> jnum \<Rightarrow> jnum" where
  "jmul (Fin x) (Fin y) = to_num (x * y)"
| "jmul NaN b = NaN"
| "jmul a NaN = NaN"
| "jmul (Fin x) b = (if x = 0 then NaN else sign_inf ((0 < x) = (b = PInf)))"
| "jmul a (Fin y) = (if y = 0 then NaN else sign_inf ((0 < y) = (a = PInf)))"
| "jmul a b = sign_inf (a = b)"

text \<open>Division by zero follows the positive zero, the only zero of the model.\<close>

fun jdiv :: "jnum \<Rightarrow> jnum \<Rightarrow> jnum" where
  "jdiv (Fin x) (Fin y) =
     (if y = 0 then (if x = 0 then NaN else sign_inf (0 < x)) else to_num (x / y))"
| "jdiv NaN b = NaN"
| "jdiv a NaN = NaN"
| "jdiv (Fin x) b = Fin 0"
| "jdiv a (Fin y) = sign_inf ((0 \<le> y) = (a = PInf))"
| "jdiv a b = NaN"

instantiation jnum :: ord
begin

fun less_jnum :: "jnum \<Rightarrow> jnum \<Rightarrow> bool" where
  "less_jnum (Fin x) (Fin y) = (x < y)"
| "less_jnum NaN b = False"
| "less_jnum a NaN = False"
| "less_jnum PInf b = False"
| "less_jnum a NInf = False"
| "less_jnum a b = True"

definition less_eq_jnum :: "jnum \<Rightarrow> jnum \<Rightarrow> bool" where
  "less_eq_jnum a b = (a \<noteq> NaN \<and> b \<noteq> NaN \<and> \<not> b < a)"

instance ..

end

text \<open>\<open>===\<close> on numbers: NaN equals nothing.\<close>

definition jeq :: "jnum \<Rightarrow> jnum \<Rightarrow> bool" where
  "jeq a b = (a \<noteq> NaN \<and> a = b)"

definition is_finite :: "jnum \<Rightarrow> bool" where
  "is_finite a = (case a of Fin _ \<Rightarrow> True | _ \<Rightarrow> False)"

fun jabs :: "jnum \<Rightarrow> jnum" where
  "jabs (Fin x) = Fin \<bar>x\<bar>"
| "jabs NaN = NaN"
| "jabs _ = PInf"

text \<open>\<open>Math.round\<close>: the nearest integer, a half going up; exact, no intermediate rounding.\<close>

fun jround :: "jnum \<Rightarrow> jnum" where
  "jround (Fin x) = Fin (of_int \<lfloor>x + 1 / 2\<rfloor>)"
| "jround a = a"

fun jfloor :: "jnum \<Rightarrow> jnum" where
  "jfloor (Fin x) = Fin (of_int \<lfloor>x\<rfloor>)"
| "jfloor a = a"

fun jceil :: "jnum \<Rightarrow> jnum" where
  "jceil (Fin x) = Fin (of_int \<lceil>x\<rceil>)"
| "jceil a = a"

definition jmax :: "jnum \<Rightarrow> jnum \<Rightarrow> jnum" where
  "jmax a b = (if a = NaN \<or> b = NaN then NaN else if a < b then b else a)"

text \<open>A numeric literal of the source is the double nearest to what is written.\<close>

abbreviation lit :: "rat \<Rightarrow> jnum" where
  "lit x \<equiv> to_num x"

text \<open>A value the number type can actually hold.\<close>

definition wf_num :: "jnum \<Rightarrow> bool" where
  "wf_num a = (case a of Fin x \<Rightarrow> rep x \<and> \<bar>x\<bar> < max_range | _ \<Rightarrow> True)"

lemma is_finite_simps [simp]:
  "is_finite (Fin x)" "\<not> is_finite PInf" "\<not> is_finite NInf" "\<not> is_finite NaN"
  by (simp_all add: is_finite_def)

lemma is_finiteE: "is_finite a \<Longrightarrow> (\<And>x. a = Fin x \<Longrightarrow> P) \<Longrightarrow> P"
  by (cases a) auto

lemma le_num_simps [simp]:
  "Fin x \<le> Fin y \<longleftrightarrow> x \<le> y" "Fin x \<le> PInf" "NInf \<le> Fin x"
  "\<not> NaN \<le> a" "\<not> a \<le> NaN" "\<not> PInf \<le> Fin x" "\<not> Fin x \<le> NInf"
  by (auto simp: less_eq_jnum_def)

lemma less_num_simps [simp]: "\<not> a < NaN" "\<not> a < NInf" "\<not> PInf < a"
  by (cases a; simp)+

lemma jeq_simps [simp]: "jeq (Fin x) a \<longleftrightarrow> a = Fin x" "jeq a (Fin x) \<longleftrightarrow> a = Fin x" "\<not> jeq NaN a"
  by (auto simp: jeq_def)

lemma wf_num_simps [simp]:
  "wf_num (Fin x) \<longleftrightarrow> rep x \<and> \<bar>x\<bar> < max_range" "wf_num PInf" "wf_num NInf" "wf_num NaN"
  by (simp_all add: wf_num_def)

lemma wf_to_num [simp]: "wf_num (to_num x)"
  by (auto simp: to_num_def Let_def)

lemma max_range_big: "b \<le> 2 ^ 1023 \<Longrightarrow> b < max_range"
proof -
  have "(2::rat) ^ 1023 < 2 ^ 1024" by (rule power_strict_increasing) auto
  moreover assume "b \<le> 2 ^ 1023"
  ultimately show "b < max_range" unfolding max_range_def by linarith
qed

lemma max_range_gt [simp]: "1 < max_range" "0 < max_range"
  using max_range_big [of 1] one_le_power [of 2 1023] by (auto simp: max_range_def)

lemma to_num_Fin: "\<bar>fl x\<bar> < max_range \<Longrightarrow> to_num x = Fin (fl x)"
  by (auto simp: to_num_def Let_def)

lemma to_num_bounded:
  assumes "\<bar>x\<bar> \<le> b" "rep b" "b < max_range"
  shows "to_num x = Fin (fl x)"
proof (rule to_num_Fin)
  have "fl x \<le> b" "- b \<le> fl x"
    using assms b64.le_bound [of x b] b64.ge_bound [of "- b" x] by (auto simp: abs_le_iff)
  then show "\<bar>fl x\<bar> < max_range" using assms(3) by linarith
qed

lemma to_num_rep: "rep x \<Longrightarrow> \<bar>x\<bar> < max_range \<Longrightarrow> to_num x = Fin x"
  by (simp add: to_num_Fin fl_rep)

subsection \<open>Evaluating a rounding on a concrete rational\<close>

lemma rneI:
  assumes "\<bar>of_int m - x\<bar> < 1 / 2 \<or> \<bar>of_int m - x\<bar> = 1 / 2 \<and> even m"
  shows "rne x = m"
proof -
  consider "\<bar>of_int m - x\<bar> < 1 / 2" | "x = of_int m + 1 / 2" "even m" | "x = of_int m - 1 / 2" "even m"
    using assms by linarith
  then show ?thesis
  proof cases
    case 1
    then have "\<lfloor>x\<rfloor> = m \<or> \<lfloor>x\<rfloor> = m - 1" by linarith
    then show ?thesis using 1 by (auto simp: rne_def Let_def abs_less_iff)
  next
    case 2
    then have "\<lfloor>x\<rfloor> = m" by linarith
    with 2 show ?thesis by (simp add: rne_def Let_def)
  next
    case 3
    then have "\<lfloor>x\<rfloor> = m - 1" by linarith
    with 3 show ?thesis by (simp add: rne_def Let_def)
  qed
qed

lemma expo_eqI: "2 powi e \<le> x \<Longrightarrow> x < 2 powi (e + 1) \<Longrightarrow> expo x = e"
proof -
  assume a: "2 powi e \<le> x" "x < 2 powi (e + 1)"
  have "0 < (2::rat) powi e" by simp
  with a have "0 < x" by linarith
  note b = expo_bounds [OF this]
  have "e < expo x + 1" by (rule powi_less_imp) (use a b in simp)
  moreover have "expo x < e + 1" by (rule powi_less_imp) (use a b in simp)
  ultimately show ?thesis by simp
qed

lemma fl_eval:
  assumes "2 powi e \<le> x" "x < 2 powi (e + 1)" "- 1022 \<le> e"
    and "\<bar>of_int m - x / 2 powi (e - 52)\<bar> < 1 / 2
         \<or> \<bar>of_int m - x / 2 powi (e - 52)\<bar> = 1 / 2 \<and> even m"
  shows "fl x = of_int m * 2 powi (e - 52)"
proof -
  have "0 < (2::rat) powi e" by simp
  with assms(1) have "0 < x" by linarith
  moreover have "quantum x = 2 powi (e - 52)" using expo_eqI assms by (simp add: quantum_def)
  ultimately show ?thesis using rneI [OF assms(4)] by (simp add: fl_def fl_pos_def)
qed

lemma to_num_eval: "fl x = r \<Longrightarrow> \<bar>r\<bar> < max_range \<Longrightarrow> to_num x = Fin r"
  by (simp add: to_num_Fin)

subsection \<open>Order of rounded values\<close>

lemma to_num_not_NaN [simp]: "to_num x \<noteq> NaN"
  by (auto simp: to_num_def Let_def)

lemma to_num_mono: "x \<le> y \<Longrightarrow> to_num x \<le> to_num y"
  using fl_mono [of x y] by (auto simp: to_num_def Let_def less_eq_jnum_def)

lemma jnum_le_trans: "(a::jnum) \<le> b \<Longrightarrow> b \<le> c \<Longrightarrow> a \<le> c"
  by (cases a; cases b; cases c; simp add: less_eq_jnum_def)

lemma jnum_le_refl: "a \<noteq> NaN \<Longrightarrow> a \<le> a"
  by (cases a; simp add: less_eq_jnum_def)

lemma jnum_le_antisym: "(a::jnum) \<le> b \<Longrightarrow> b \<le> a \<Longrightarrow> a = b"
  by (cases a; cases b; simp add: less_eq_jnum_def)

lemma jnum_not_less: "a \<noteq> NaN \<Longrightarrow> b \<noteq> NaN \<Longrightarrow> \<not> (a::jnum) < b \<longleftrightarrow> b \<le> a"
  by (simp add: less_eq_jnum_def)

lemma jnum_less_trans: "(a::jnum) < b \<Longrightarrow> b < c \<Longrightarrow> a < c"
  by (cases a; cases b; cases c; simp)

lemma jnum_less_irrefl [simp]: "\<not> (a::jnum) < a"
  by (cases a) auto

lemma jnum_less_linear: "a \<noteq> NaN \<Longrightarrow> b \<noteq> NaN \<Longrightarrow> (a::jnum) < b \<or> a = b \<or> b < a"
  by (cases a; cases b; simp) linarith

text \<open>An instant: what \<open>Date.prototype.getTime\<close> can return.\<close>

definition wf_instant :: "jnum \<Rightarrow> bool" where
  "wf_instant a = (\<exists>x. a = Fin x \<and> rep x \<and> \<bar>x\<bar> \<le> 2 ^ 53)"

lemma wf_instantE:
  "wf_instant a \<Longrightarrow> (\<And>x. a = Fin x \<Longrightarrow> rep x \<Longrightarrow> \<bar>x\<bar> \<le> 2 ^ 53 \<Longrightarrow> P) \<Longrightarrow> P"
  by (auto simp: wf_instant_def)

lemma big_range: "b \<le> 2 ^ 100 \<Longrightarrow> b < max_range"
proof -
  have "(2::rat) ^ 100 \<le> 2 ^ 1023" by (rule power_increasing) auto
  then show "b \<le> 2 ^ 100 \<Longrightarrow> b < max_range" using max_range_big [of b] by linarith
qed

lemma instant_diff:
  assumes "\<bar>x\<bar> \<le> 2 ^ 53" "\<bar>y\<bar> \<le> (2::rat) ^ 53"
  shows "jsub (Fin x) (Fin y) = Fin (fl (x - y))"
proof -
  have "rep (2 ^ 54)" using rep_powi [of 54] by simp
  moreover have "\<bar>x - y\<bar> \<le> 2 ^ 54" using assms by simp
  ultimately show ?thesis
    using to_num_bounded [of "x - y" "2 ^ 54"] big_range [of "2 ^ 54"] by (simp add: jsub_def)
qed

lemma instant_elapsed:
  assumes "wf_instant a" "wf_instant b"
  obtains x y where "a = Fin x" "b = Fin y" "rep x" "rep y" "jsub a b = Fin (fl (x - y))"
  using assms instant_diff by (auto elim!: wf_instantE)

lemma to_num_eval_unit: "fl x = r \<Longrightarrow> \<bar>r\<bar> \<le> 1 \<Longrightarrow> to_num x = Fin r"
  using max_range_gt(1) to_num_Fin [of x] by (metis le_less_trans)

lemma max_range_gt1: "x \<le> 1 \<Longrightarrow> x < max_range"
  using max_range_gt(1) by linarith

lemma to_num_int: "\<bar>n\<bar> \<le> 2 ^ 53 \<Longrightarrow> to_num (of_int n) = Fin (of_int n)"
proof -
  assume n: "\<bar>n\<bar> \<le> 2 ^ 53"
  then have "\<bar>of_int n\<bar> \<le> (2 ^ 100 :: rat)"
    by (simp only: of_int_abs [symmetric]) (rule order_trans [of _ "of_int (2 ^ 53)"], simp only: of_int_le_iff, simp)
  then show ?thesis by (intro to_num_rep rep_of_int big_range) (use n in auto)
qed

subsection \<open>The error of a rounding, and decimal grids\<close>

lemma rne_error: "\<bar>of_int (rne x) - x\<bar> \<le> 1 / 2"
proof -
  have "of_int \<lfloor>x\<rfloor> \<le> x" "x < of_int \<lfloor>x\<rfloor> + 1" by linarith+
  then show ?thesis by (auto simp: rne_def Let_def abs_le_iff field_simps)
qed

lemma fl_error:
  assumes "0 \<le> x" "x \<le> 16" shows "\<bar>fl x - x\<bar> \<le> 1 / 2 ^ 48"
proof (cases "x = 0")
  case False
  with assms have x: "0 < x" by simp
  have "expo 16 = 4" by (rule expo_eqI) simp_all
  then have "expo x \<le> 4" using expo_mono [OF x assms(2)] by simp
  then have "quantum x \<le> 2 powi (- 48)" unfolding quantum_def by (intro powi_mono) simp
  moreover have "\<bar>of_int (rne (x / quantum x)) - x / quantum x\<bar> * quantum x \<le> 1 / 2 * quantum x"
    by (rule mult_right_mono [OF rne_error]) (simp add: less_imp_le)
  moreover have "(of_int (rne (x / quantum x)) - x / quantum x) * quantum x = fl x - x"
    using x quantum_pos [of x] by (simp add: fl_def fl_pos_def left_diff_distrib)
  then have "\<bar>of_int (rne (x / quantum x)) - x / quantum x\<bar> * quantum x = \<bar>fl x - x\<bar>"
    using quantum_pos [of x] by (metis abs_mult abs_of_pos)
  ultimately show ?thesis by simp
qed simp

lemma rep_quarter: "\<bar>n\<bar> \<le> 2 ^ 53 \<Longrightarrow> rep (of_int n / 4)"
  using rep_scaled [of n "- 2"] by simp

text \<open>
  Scaling back a value rounded on a decimal grid finds its grid index: \<open>round(fl(k / s) * s) = k\<close>.
\<close>

lemma grid_round_trip:
  assumes "0 \<le> k" "k \<le> 16 * scale" "0 < scale" "scale \<le> 2 ^ 40" "16 * scale \<le> 2 ^ 50"
  shows "\<lfloor>fl (fl (of_int k / of_int scale) * of_int scale) + 1 / 2\<rfloor> = k"
proof -
  let ?s = "of_int scale :: rat" and ?x = "of_int k / of_int scale :: rat"
  have s: "0 < ?s" using assms(3) by simp
  have "(of_int k :: rat) \<le> of_int (16 * scale)" using assms(2) by (simp only: of_int_le_iff)
  then have x: "0 \<le> ?x" "?x \<le> 16" using assms(1) s by (auto simp: pos_divide_le_eq)
  have "\<bar>fl ?x - ?x\<bar> * ?s \<le> 1 / 2 ^ 48 * ?s" by (rule mult_right_mono [OF fl_error [OF x]]) (use s in simp)
  also have "\<dots> \<le> 1 / 2 ^ 48 * 2 ^ 40"
    using assms(4) by (intro mult_left_mono) (simp_all add: of_int_le_numeral_power_cancel_iff)
  finally have "\<bar>(fl ?x - ?x) * ?s\<bar> \<le> 1 / 4" using s by (simp add: abs_mult)
  moreover have "(fl ?x - ?x) * ?s = fl ?x * ?s - of_int k" using s by (simp add: left_diff_distrib)
  ultimately have "\<bar>fl ?x * ?s - of_int k\<bar> \<le> 1 / 4" by simp
  from abs_le_D1 [OF this] abs_le_D2 [OF this]
  have e: "of_int (4 * k - 1) / 4 \<le> fl ?x * ?s" "fl ?x * ?s \<le> of_int (4 * k + 1) / 4" by simp_all
  have "\<bar>4 * k - 1\<bar> \<le> 2 ^ 53" "\<bar>4 * k + 1\<bar> \<le> 2 ^ 53" using assms by auto
  then have "of_int (4 * k - 1) / 4 \<le> fl (fl ?x * ?s)" "fl (fl ?x * ?s) \<le> of_int (4 * k + 1) / 4"
    using b64.ge_bound [OF e(1)] b64.le_bound [OF e(2)] rep_quarter by blast+
  then show ?thesis by (intro floor_unique) simp_all
qed

end
