(* ===== verification/Js_Value.thy ===== *)
theory Js_Value
  imports Js_Number
begin

section \<open>JavaScript values of unknown shape\<close>

text \<open>
  The type \<open>unknown\<close> and the type \<open>Json\<close> of the source: what a boundary receives before it
  has been checked.  An object is the list of its own entries in the order
  \<open>Object.keys\<close> yields them; \<open>distinct_keys\<close> is what every real object satisfies.
\<close>

datatype jsval =
    JUndef
  | JNull
  | JBool bool
  | JNum jnum
  | JStr jstr
  | JArr "jsval list"
  | JObj "(jstr \<times> jsval) list"

definition get_prop :: "(jstr \<times> jsval) list \<Rightarrow> string \<Rightarrow> jsval" where
  "get_prop fs k = (case map_of fs (u k) of None \<Rightarrow> JUndef | Some v \<Rightarrow> v)"

definition has_prop :: "(jstr \<times> jsval) list \<Rightarrow> string \<Rightarrow> bool" where
  "has_prop fs k = (u k \<in> fst ` set fs)"

definition distinct_keys :: "(jstr \<times> jsval) list \<Rightarrow> bool" where
  "distinct_keys fs = distinct (map fst fs)"

text \<open>
  \<open>String.prototype.trim\<close> and the class \<open>\s\<close> share one set of code units: the
  WhiteSpace and LineTerminator productions of the standard.
\<close>

definition is_space :: "nat \<Rightarrow> bool" where
  "is_space c = (c \<in> {9, 10, 11, 12, 13, 32, 160, 5760, 8232, 8233, 8239, 8287, 12288, 65279}
                 \<or> (8192 \<le> c \<and> c \<le> 8202))"

definition js_trim :: "jstr \<Rightarrow> jstr" where
  "js_trim s = rev (dropWhile is_space (rev (dropWhile is_space s)))"

text \<open>\<open>s.replace(/\s+/g, ' ')\<close>.\<close>

fun collapse_spaces :: "bool \<Rightarrow> jstr \<Rightarrow> jstr" where
  "collapse_spaces inside [] = []"
| "collapse_spaces inside (c # s) =
     (if is_space c then (if inside then collapse_spaces True s else 32 # collapse_spaces True s)
      else c # collapse_spaces False s)"

text \<open>\<open>String.prototype.includes\<close>.\<close>

fun is_prefix :: "'a list \<Rightarrow> 'a list \<Rightarrow> bool" where
  "is_prefix [] s = True"
| "is_prefix (p # ps) [] = False"
| "is_prefix (p # ps) (c # cs) = (p = c \<and> is_prefix ps cs)"

fun js_includes :: "jstr \<Rightarrow> jstr \<Rightarrow> bool" where
  "js_includes [] p = (p = [])"
| "js_includes (c # cs) p = (is_prefix p (c # cs) \<or> js_includes cs p)"

lemma is_prefix_append [simp]: "is_prefix p (p @ s)"
  by (induction p) auto

lemma is_prefix_iff: "is_prefix p s \<longleftrightarrow> (\<exists>r. s = p @ r)"
  by (induction p s rule: is_prefix.induct) auto

lemma js_includes_iff: "js_includes s p \<longleftrightarrow> (\<exists>a b. s = a @ p @ b)"
proof (induction s)
  case (Cons c cs)
  show ?case
  proof
    assume "js_includes (c # cs) p"
    then show "\<exists>a b. c # cs = a @ p @ b"
      using Cons by (auto simp: is_prefix_iff) (metis append_Cons append_Nil)+
  next
    assume "\<exists>a b. c # cs = a @ p @ b"
    then obtain a b where ab: "c # cs = a @ p @ b" by blast
    have "is_prefix p (c # cs) \<or> js_includes cs p"
    proof (cases a)
      case Nil
      with ab show ?thesis by simp
    next
      case (Cons x xs)
      with ab show ?thesis using \<open>js_includes cs p \<longleftrightarrow> _\<close> by auto
    qed
    then show "js_includes (c # cs) p" by simp
  qed
qed simp

end
