(* ===== verification/Priority.thy ===== *)
theory Priority
  imports Js_Value
begin

section \<open>The composite priority (src/alg/priority.ts)\<close>

text \<open>
  The feature vector of a ticket, the four normalised terms, the weights and their validation,
  the score with its breakdown.  Doubles are the binary64 values of \<open>Js_Number\<close>; every
  product and sum is rounded in the order the source computes it.
\<close>

subsection \<open>Data\<close>

datatype severity = Sev1 | Sev2 | Sev3 | Sev4

datatype account_tier = Standard | Premium

datatype value_band = Band1 | Band2 | Band3 | Band4 | Band5

fun SEVERITY_MAP :: "severity \<Rightarrow> jnum" where
  "SEVERITY_MAP Sev1 = lit (1 / 4)"
| "SEVERITY_MAP Sev2 = lit (1 / 2)"
| "SEVERITY_MAP Sev3 = lit (3 / 4)"
| "SEVERITY_MAP Sev4 = lit 1"

fun TIER_MAP :: "account_tier \<Rightarrow> jnum" where
  "TIER_MAP Standard = lit (1 / 2)"
| "TIER_MAP Premium = lit 1"

fun VALUE_BAND_MAP :: "value_band \<Rightarrow> jnum" where
  "VALUE_BAND_MAP Band1 = lit (2 / 10)"
| "VALUE_BAND_MAP Band2 = lit (4 / 10)"
| "VALUE_BAND_MAP Band3 = lit (6 / 10)"
| "VALUE_BAND_MAP Band4 = lit (8 / 10)"
| "VALUE_BAND_MAP Band5 = lit 1"

record queue_features =
  tid :: jstr
  severity :: severity
  sentiment :: "jnum option"
  tier :: account_tier
  valueBand :: value_band
  createdAt :: jnum
  slaDueAt :: jnum

record priority_weights =
  w_severity :: jnum
  w_negativity :: jnum
  w_urgency :: jnum
  w_tier :: jnum

definition DEFAULT_PRIORITY_WEIGHTS :: priority_weights where
  "DEFAULT_PRIORITY_WEIGHTS =
     \<lparr>w_severity = lit (35 / 100), w_negativity = lit (25 / 100), w_urgency = lit (3 / 10),
      w_tier = lit (1 / 10)\<rparr>"

definition WEIGHT_SUM_TOLERANCE :: jnum where
  "WEIGHT_SUM_TOLERANCE = lit (1 / 10 ^ 9)"

definition PRIORITY_SCALE :: jnum where
  "PRIORITY_SCALE = lit 1000000"

datatype priority_anomaly =
    FUTURE_CREATED_AT
  | NON_POSITIVE_SLA_WINDOW
  | SENTIMENT_ABSENT
  | SENTIMENT_OUT_OF_RANGE
  | UNKNOWN_TIER
  | UNKNOWN_VALUE_BAND

record priority_component =
  normalised :: jnum
  weight :: jnum
  contribution :: jnum

record priority_breakdown =
  score :: jnum
  storedScore :: jnum
  breached :: bool
  c_severity :: priority_component
  c_negativity :: priority_component
  c_urgency :: priority_component
  c_tier :: priority_component
  anomalies :: "priority_anomaly list"

subsection \<open>Operations\<close>

definition clamp :: "jnum \<Rightarrow> jnum \<Rightarrow> jnum \<Rightarrow> jnum" where
  "clamp value low high = (if value < low then low else if value > high then high else value)"

text \<open>A caller of unknown type is outside the model: the argument is a number already.\<close>

definition assertInstant :: "jnum \<Rightarrow> js_error + unit" where
  "assertInstant now = (if \<not> is_finite now then Inl TypeError else Inr ())"

definition quantisePriority :: "jnum \<Rightarrow> jnum" where
  "quantisePriority s = jdiv (jround (jmul s PRIORITY_SCALE)) PRIORITY_SCALE"

definition weight_entries :: "priority_weights \<Rightarrow> jnum list" where
  "weight_entries w = [w_severity w, w_negativity w, w_urgency w, w_tier w]"

definition assertValidWeights :: "priority_weights \<Rightarrow> js_error + unit" where
  "assertValidWeights w =
     (let entries = weight_entries w
      in if \<exists>value \<in> set entries. \<not> is_finite value \<or> value < Fin 0 \<or> value > Fin 1
         then Inl RangeError
         else let sum = foldl jadd (Fin 0) entries
              in if jabs (jsub sum (Fin 1)) > WEIGHT_SUM_TOLERANCE then Inl RangeError
                 else Inr ())"

fun isSeverity :: "jsval \<Rightarrow> severity option" where
  "isSeverity (JNum n) =
     (if jeq n (Fin 1) then Some Sev1 else if jeq n (Fin 2) then Some Sev2
      else if jeq n (Fin 3) then Some Sev3 else if jeq n (Fin 4) then Some Sev4 else None)"
| "isSeverity _ = None"

fun isAccountTier :: "jsval \<Rightarrow> account_tier option" where
  "isAccountTier (JStr s) =
     (if s = u ''standard'' then Some Standard else if s = u ''premium'' then Some Premium else None)"
| "isAccountTier _ = None"

fun isValueBand :: "jsval \<Rightarrow> value_band option" where
  "isValueBand (JNum n) =
     (if jeq n (Fin 1) then Some Band1 else if jeq n (Fin 2) then Some Band2
      else if jeq n (Fin 3) then Some Band3 else if jeq n (Fin 4) then Some Band4
      else if jeq n (Fin 5) then Some Band5 else None)"
| "isValueBand _ = None"

record normalised_account =
  na_tier :: account_tier
  na_valueBand :: value_band
  na_anomalies :: "priority_anomaly list"

definition normaliseAccount :: "jsval \<Rightarrow> jsval \<Rightarrow> normalised_account" where
  "normaliseAccount t vb =
     \<lparr>na_tier = (case isAccountTier t of Some r \<Rightarrow> r | None \<Rightarrow> Standard),
      na_valueBand = (case isValueBand vb of Some r \<Rightarrow> r | None \<Rightarrow> Band1),
      na_anomalies = (if isAccountTier t = None then [UNKNOWN_TIER] else [])
                     @ (if isValueBand vb = None then [UNKNOWN_VALUE_BAND] else [])\<rparr>"

definition normalisedSeverity :: "severity \<Rightarrow> jnum" where
  "normalisedSeverity s = SEVERITY_MAP s"

definition normalisedNegativity :: "jnum option \<Rightarrow> jnum" where
  "normalisedNegativity s =
     (case s of
        None \<Rightarrow> lit (1 / 2)
      | Some v \<Rightarrow> if \<not> is_finite v then lit (1 / 2)
                  else jdiv (jsub (Fin 1) (clamp v (Fin (- 1)) (Fin 1))) (Fin 2))"

definition normalisedUrgency ::
    "'a queue_features_scheme \<Rightarrow> jnum \<Rightarrow> jnum \<times> priority_anomaly list" where
  "normalisedUrgency f now =
     (let elapsed = jsub now (createdAt f)
      in if elapsed < Fin 0 then (Fin 0, [FUTURE_CREATED_AT])
         else let window = jsub (slaDueAt f) (createdAt f)
              in if window \<le> Fin 0 then (Fin 1, [NON_POSITIVE_SLA_WINDOW])
                 else (clamp (jdiv elapsed window) (Fin 0) (Fin 1), []))"

definition normalisedTier :: "account_tier \<Rightarrow> value_band \<Rightarrow> jnum" where
  "normalisedTier t vb = jmul (TIER_MAP t) (VALUE_BAND_MAP vb)"

definition isBreached :: "'a queue_features_scheme \<Rightarrow> jnum \<Rightarrow> bool" where
  "isBreached f now = (now > slaDueAt f)"

definition component :: "jnum \<Rightarrow> jnum \<Rightarrow> priority_component" where
  "component n w = \<lparr>normalised = n, weight = w, contribution = jmul n w\<rparr>"

definition sentiment_anomalies :: "jnum option \<Rightarrow> priority_anomaly list" where
  "sentiment_anomalies s =
     (case s of
        None \<Rightarrow> [SENTIMENT_ABSENT]
      | Some v \<Rightarrow> if \<not> is_finite v \<or> jabs v > Fin 1 then [SENTIMENT_OUT_OF_RANGE] else [])"

definition priority_record ::
    "'a queue_features_scheme \<Rightarrow> jnum \<Rightarrow> priority_weights \<Rightarrow> priority_breakdown" where
  "priority_record f now w =
     (let (urgency, urgency_anomalies) = normalisedUrgency f now;
          cs = component (normalisedSeverity (severity f)) (w_severity w);
          cn = component (normalisedNegativity (sentiment f)) (w_negativity w);
          cu = component urgency (w_urgency w);
          ct = component (normalisedTier (tier f) (valueBand f)) (w_tier w);
          s = jadd (jadd (jadd (contribution cs) (contribution cn)) (contribution cu))
                (contribution ct)
      in \<lparr>score = s, storedScore = quantisePriority s, breached = isBreached f now,
          c_severity = cs, c_negativity = cn, c_urgency = cu, c_tier = ct,
          anomalies = sentiment_anomalies (sentiment f) @ urgency_anomalies\<rparr>)"

definition computePriority ::
    "'a queue_features_scheme \<Rightarrow> jnum \<Rightarrow> priority_weights \<Rightarrow> js_error + priority_breakdown" where
  "computePriority f now w =
     bind_err (assertInstant now) (\<lambda>_.
     bind_err (assertValidWeights w) (\<lambda>_.
       Inr (priority_record f now w)))"

subsection \<open>Well-formedness\<close>

text \<open>
  The weights are doubles, and a feature vector carries finite creation instants and an SLA
  instant that is a number (possibly the infinite sentinel).
\<close>

definition wf_weights :: "priority_weights \<Rightarrow> bool" where
  "wf_weights w = (\<forall>value \<in> set (weight_entries w). wf_num value)"

definition wf_features :: "'a queue_features_scheme \<Rightarrow> bool" where
  "wf_features f = (wf_instant (createdAt f)
     \<and> slaDueAt f \<noteq> NaN \<and> slaDueAt f \<noteq> NInf \<and> wf_num (slaDueAt f))"

definition unit_num :: "jnum \<Rightarrow> bool" where
  "unit_num a = (\<exists>x. a = Fin x \<and> 0 \<le> x \<and> x \<le> 1 \<and> rep x)"

lemma to_num_unit: "0 \<le> x \<Longrightarrow> x \<le> 1 \<Longrightarrow> unit_num (to_num x)"
  using b64.unit_interval [of x] to_num_bounded [of x 1] b64.one by (simp add: unit_num_def)

lemma unit_num_wf: "unit_num a \<Longrightarrow> wf_num a"
  by (auto simp: unit_num_def intro: max_range_gt1)

lemma jmul_unit: "unit_num a \<Longrightarrow> unit_num b \<Longrightarrow> unit_num (jmul a b)"
  by (auto simp: unit_num_def intro!: to_num_unit [unfolded unit_num_def] mult_le_one)

lemma normalisedSeverity_unit: "unit_num (normalisedSeverity s)"
  by (cases s) (auto simp: normalisedSeverity_def intro!: to_num_unit)

lemma normalisedTier_unit: "unit_num (normalisedTier t vb)"
proof -
  have "unit_num (TIER_MAP t)" by (cases t) (auto intro!: to_num_unit)
  moreover have "unit_num (VALUE_BAND_MAP vb)" by (cases vb) (auto intro!: to_num_unit)
  ultimately show ?thesis by (simp add: normalisedTier_def jmul_unit)
qed

lemma normalisedNegativity_unit: "unit_num (normalisedNegativity s)"
proof (cases "\<exists>v. s = Some (Fin v)")
  case False
  then show ?thesis
    by (auto simp: normalisedNegativity_def is_finite_def split: option.split jnum.split
        intro!: to_num_unit)
next
  case True
  then obtain v where s: "s = Some (Fin v)" by blast
  define c where "c = (if v < - 1 then - 1 else if v > 1 then 1 else v)"
  have c: "- 1 \<le> c" "c \<le> 1" by (auto simp: c_def)
  have "clamp (Fin v) (Fin (- 1)) (Fin 1) = Fin c" by (simp add: clamp_def c_def)
  moreover have "jsub (Fin 1) (Fin c) = Fin (fl (1 - c))"
    using c to_num_bounded [of "1 - c" 2] rep_of_int [of 2] max_range_big [of 2]
      one_le_power [of "2::rat" 1022]
    by (simp add: jsub_def)
  moreover have "0 \<le> fl (1 - c)" "fl (1 - c) \<le> 2"
    using c b64.nonneg [of "1 - c"] b64.le_bound [of "1 - c" 2] rep_of_int [of 2] by auto
  ultimately show ?thesis by (simp add: s normalisedNegativity_def to_num_unit)
qed

lemma clamp_unit:
  "a \<noteq> NaN \<Longrightarrow> wf_num a \<Longrightarrow> unit_num (clamp a (Fin 0) (Fin 1))"
  using b64.one b64.zero by (cases a) (auto simp: clamp_def unit_num_def)

lemma clamp_unit_mono:
  "a \<le> b \<Longrightarrow> clamp a (Fin 0) (Fin 1) \<le> clamp b (Fin 0) (Fin 1)"
  by (cases a; cases b; simp add: clamp_def less_eq_jnum_def)

lemma unit_num_le: "unit_num a \<Longrightarrow> Fin 0 \<le> a \<and> a \<le> Fin 1"
  by (auto simp: unit_num_def)

text \<open>The fraction of the window spent, once neither degenerate case applies.\<close>

lemma urgency_quotient:
  assumes "\<not> window \<le> Fin 0" "window \<noteq> NaN" "0 \<le> e"
  shows "jdiv (Fin e) window \<noteq> NaN \<and> wf_num (jdiv (Fin e) window)"
  using assms by (cases window) (auto simp: less_eq_jnum_def)

lemma urgency_quotient_mono:
  assumes "\<not> window \<le> Fin 0" "window \<noteq> NaN" "e \<le> e'"
  shows "jdiv (Fin e) window \<le> jdiv (Fin e') window"
  using assms by (cases window) (auto simp: less_eq_jnum_def [of window] intro!: to_num_mono divide_right_mono)

lemma window_not_NaN:
  "wf_features f \<Longrightarrow> jsub (slaDueAt f) (createdAt f) \<noteq> NaN"
  by (cases "slaDueAt f") (auto simp: wf_features_def jsub_def elim!: wf_instantE)

lemma normalisedUrgency_unit:
  assumes "wf_features f" "wf_instant now"
  shows "unit_num (fst (normalisedUrgency f now))"
proof -
  have "wf_instant (createdAt f)" using assms by (simp add: wf_features_def)
  from instant_elapsed [OF assms(2) this] obtain e where e: "jsub now (createdAt f) = Fin e" by metis
  have "unit_num (Fin 0)" "unit_num (Fin 1)" using b64.one by (auto simp: unit_num_def)
  then show ?thesis
    using window_not_NaN [OF assms(1)] urgency_quotient [of "jsub (slaDueAt f) (createdAt f)" e]
    by (auto simp: normalisedUrgency_def Let_def e intro!: clamp_unit)
qed

lemma normalisedUrgency_mono:
  assumes "wf_features f" "wf_instant now" "wf_instant later" "now \<le> later"
  shows "fst (normalisedUrgency f now) \<le> fst (normalisedUrgency f later)"
proof -
  have c: "wf_instant (createdAt f)" using assms by (simp add: wf_features_def)
  obtain n x where n: "now = Fin n" "createdAt f = Fin x" "jsub now (createdAt f) = Fin (fl (n - x))"
    using instant_elapsed [OF assms(2) c] by metis
  obtain l where l: "later = Fin l" "jsub later (createdAt f) = Fin (fl (l - x))"
    using instant_elapsed [OF assms(3) c] n(2) by (metis jnum.inject(1))
  have le: "fl (n - x) \<le> fl (l - x)" using assms(4) by (intro fl_mono) (simp add: n l)
  have u: "Fin 0 \<le> fst (normalisedUrgency f later)"
    using unit_num_le [OF normalisedUrgency_unit [OF assms(1,3)]] by simp
  show ?thesis
  proof (cases "fl (n - x) < 0")
    case True
    then show ?thesis using u by (simp add: normalisedUrgency_def Let_def n(3))
  next
    case False
    then show ?thesis using le window_not_NaN [OF assms(1)]
      by (auto simp: normalisedUrgency_def Let_def n(3) l(2)
          intro!: clamp_unit_mono urgency_quotient_mono)
  qed
qed

subsection \<open>The weights\<close>

lemma unit_Fin: "unit_num (Fin x) \<longleftrightarrow> 0 \<le> x \<and> x \<le> 1 \<and> rep x"
  by (auto simp: unit_num_def)

lemma small_sum:
  "0 \<le> x \<Longrightarrow> x \<le> b \<Longrightarrow> b \<le> 16 \<Longrightarrow> rep b \<Longrightarrow> to_num x = Fin (fl x) \<and> 0 \<le> fl x \<and> fl x \<le> b"
  using to_num_bounded [of x b] big_range [of b] b64.nonneg [of x] b64.le_bound [of x b]
  by (auto intro: order_trans)

text \<open>The source's sum of four unit values, in the order it is computed.\<close>

definition sum4 :: "rat \<Rightarrow> rat \<Rightarrow> rat \<Rightarrow> rat \<Rightarrow> rat" where
  "sum4 a b c d = fl (fl (fl (a + b) + c) + d)"

lemma sum4_mono:
  "a \<le> a' \<Longrightarrow> b \<le> b' \<Longrightarrow> c \<le> c' \<Longrightarrow> d \<le> d' \<Longrightarrow> sum4 a b c d \<le> sum4 a' b' c' d'"
  unfolding sum4_def by (intro b64.add_mono_rd) auto

lemma jadd_sum4:
  assumes "unit_num (Fin a)" "unit_num (Fin b)" "unit_num (Fin c)" "unit_num (Fin d)"
  shows "jadd (jadd (jadd (Fin a) (Fin b)) (Fin c)) (Fin d) = Fin (sum4 a b c d)
         \<and> 0 \<le> sum4 a b c d \<and> sum4 a b c d \<le> 4"
proof -
  have r: "rep 2" "rep 3" "rep 4" using rep_of_int [of 2] rep_of_int [of 3] rep_of_int [of 4] by simp_all
  have 1: "to_num (a + b) = Fin (fl (a + b)) \<and> 0 \<le> fl (a + b) \<and> fl (a + b) \<le> 2"
    by (rule small_sum) (use assms r in \<open>auto simp: unit_Fin\<close>)
  have 2: "to_num (fl (a + b) + c) = Fin (fl (fl (a + b) + c)) \<and> 0 \<le> fl (fl (a + b) + c)
           \<and> fl (fl (a + b) + c) \<le> 3"
    by (rule small_sum) (use assms r 1 in \<open>auto simp: unit_Fin\<close>)
  have 3: "to_num (fl (fl (a + b) + c) + d) = Fin (sum4 a b c d) \<and> 0 \<le> sum4 a b c d
           \<and> sum4 a b c d \<le> 4"
    unfolding sum4_def by (rule small_sum) (use assms r 2 in \<open>auto simp: unit_Fin\<close>)
  from 1 2 3 show ?thesis by simp
qed

text \<open>Accepted weights: four unit doubles whose computed sum exceeds 1 by less than \<open>2 ^ -29\<close>.\<close>

lemma tolerance_below: "fl (1 / 10 ^ 9) \<le> 3 / 2 ^ 31"
  by (rule b64.le_bound) (use rep_scaled [of 3 "- 31"] in simp_all)

lemma valid_weightsE:
  assumes "assertValidWeights w = Inr ()" "wf_weights w"
  obtains a b c d where
    "w_severity w = Fin a" "w_negativity w = Fin b" "w_urgency w = Fin c" "w_tier w = Fin d"
    "unit_num (Fin a)" "unit_num (Fin b)" "unit_num (Fin c)" "unit_num (Fin d)"
    "sum4 a b c d < 1 + 1 / 2 ^ 29"
proof -
  from assms have all: "\<forall>v \<in> set (weight_entries w). is_finite v \<and> \<not> v < Fin 0 \<and> \<not> Fin 1 < v"
    by (auto simp: assertValidWeights_def Let_def split: if_splits)
  obtain a b c d where w: "w_severity w = Fin a" "w_negativity w = Fin b" "w_urgency w = Fin c"
      "w_tier w = Fin d"
    using all by (auto simp: weight_entries_def elim!: is_finiteE)
  have units: "unit_num (Fin a)" "unit_num (Fin b)" "unit_num (Fin c)" "unit_num (Fin d)"
    using all assms(2) by (auto simp: weight_entries_def wf_weights_def w unit_Fin)
  let ?S = "sum4 a b c d"
  note S = jadd_sum4 [OF units]
  have a0: "to_num a = Fin a"
    using units(1) by (simp add: unit_Fin to_num_rep max_range_gt1)
  have f1: "foldl jadd (Fin 0) (weight_entries w) = Fin ?S" using S by (simp add: weight_entries_def w a0)
  have f2: "jsub (Fin ?S) (Fin 1) = Fin (fl (?S - 1))" using S by (intro instant_diff) auto
  have f3: "WEIGHT_SUM_TOLERANCE = Fin (fl (1 / 10 ^ 9))"
    unfolding WEIGHT_SUM_TOLERANCE_def
    by (rule to_num_bounded [where b = 1]) (use b64.one max_range_gt1 in simp_all)
  from assms(1) have "\<not> WEIGHT_SUM_TOLERANCE < jabs (jsub (foldl jadd (Fin 0) (weight_entries w)) (Fin 1))"
    by (auto simp: assertValidWeights_def Let_def split: if_splits)
  then have "\<bar>fl (?S - 1)\<bar> \<le> fl (1 / 10 ^ 9)" by (simp add: f1 f2 f3)
  then have t: "fl (?S - 1) \<le> 3 / 2 ^ 31" using tolerance_below by linarith
  have "?S < 1 + 1 / 2 ^ 29"
  proof (rule ccontr)
    assume "\<not> ?thesis"
    then have "1 / 2 ^ 29 \<le> fl (?S - 1)"
      using rep_powi [of "- 29"] by (intro b64.ge_bound) simp_all
    with t show False by simp
  qed
  with w units that show ?thesis by blast
qed

subsection \<open>The score and the stored score\<close>

lemma score_bounds:
  assumes "assertValidWeights w = Inr ()" "wf_weights w" "wf_features f" "wf_instant now"
  obtains s where "score (priority_record f now w) = Fin s" "0 \<le> s" "s < 1 + 1 / 2 ^ 29"
proof -
  from valid_weightsE [OF assms(1,2)] obtain a b c d where
    w: "w_severity w = Fin a" "w_negativity w = Fin b" "w_urgency w = Fin c" "w_tier w = Fin d"
    and u: "unit_num (Fin a)" "unit_num (Fin b)" "unit_num (Fin c)" "unit_num (Fin d)"
    and le: "sum4 a b c d < 1 + 1 / 2 ^ 29" by metis
  have part: "\<exists>y. jmul n (Fin x) = Fin y \<and> unit_num (Fin y) \<and> y \<le> x"
    if "unit_num n" "unit_num (Fin x)" for n x
  proof -
    note units = that
    obtain m where n: "n = Fin m" "0 \<le> m" "m \<le> 1" using units(1) by (auto simp: unit_num_def)
    have "unit_num (jmul n (Fin x))" using units by (rule jmul_unit)
    then obtain y where y: "jmul n (Fin x) = Fin y" "unit_num (Fin y)" by (auto simp: unit_num_def)
    moreover have "y = fl (m * x)"
      using y(1) n to_num_bounded [of "m * x" 1] b64.one max_range_gt1 units(2)
      by (simp add: unit_Fin mult_le_one)
    ultimately show ?thesis using b64.mult_unit_le [of m x] n units(2) by (auto simp: unit_Fin)
  qed
  obtain p where p: "jmul (normalisedSeverity (severity f)) (Fin a) = Fin p" "unit_num (Fin p)" "p \<le> a"
    using part [OF normalisedSeverity_unit u(1)] by blast
  obtain q where q: "jmul (normalisedNegativity (sentiment f)) (Fin b) = Fin q" "unit_num (Fin q)" "q \<le> b"
    using part [OF normalisedNegativity_unit u(2)] by blast
  obtain r where r: "jmul (fst (normalisedUrgency f now)) (Fin c) = Fin r" "unit_num (Fin r)" "r \<le> c"
    using part [OF normalisedUrgency_unit [OF assms(3,4)] u(3)] by blast
  obtain t where t: "jmul (normalisedTier (tier f) (valueBand f)) (Fin d) = Fin t" "unit_num (Fin t)"
      "t \<le> d"
    using part [OF normalisedTier_unit u(4)] by blast
  have "score (priority_record f now w) = Fin (sum4 p q r t)"
    using jadd_sum4 [OF p(2) q(2) r(2) t(2)] p(1) q(1) r(1) t(1)
    by (auto simp: priority_record_def component_def w Let_def split: prod.split)
  moreover have "0 \<le> sum4 p q r t" using jadd_sum4 [OF p(2) q(2) r(2) t(2)] by simp
  moreover have "sum4 p q r t < 1 + 1 / 2 ^ 29"
    using sum4_mono [OF p(3) q(3) r(3) t(3)] le by linarith
  ultimately show ?thesis by (rule that)
qed

lemma PRIORITY_SCALE_Fin: "PRIORITY_SCALE = Fin 1000000"
  unfolding PRIORITY_SCALE_def
  by (rule to_num_rep) (use rep_of_int [of 1000000] big_range [of 1000000] in simp_all)

text \<open>A stored score: an integer number of millionths, as the double nearest to it.\<close>

definition grid_score :: "int \<Rightarrow> jnum" where
  "grid_score k = Fin (fl (of_int k / 1000000))"

lemma grid_to_num:
  "0 \<le> k \<Longrightarrow> k \<le> 16000000 \<Longrightarrow> to_num (of_int k / 1000000) = grid_score k"
  unfolding grid_score_def
  by (rule to_num_bounded [where b = 16])
    (use rep_of_int [of 16] big_range [of 16] in \<open>simp_all add: pos_divide_le_eq\<close>)

lemma grid_round:
  assumes "0 \<le> k" "k \<le> 16000000"
  shows "jround (jmul (grid_score k) PRIORITY_SCALE) = Fin (of_int k)"
proof -
  let ?x = "fl (of_int k / 1000000)"
  have "0 \<le> ?x" "?x \<le> 16"
    using assms b64.nonneg [of "of_int k / 1000000"] b64.le_bound [of "of_int k / 1000000" 16]
      rep_of_int [of 16] by (auto simp: pos_divide_le_eq)
  then have "to_num (?x * 1000000) = Fin (fl (?x * 1000000))"
    using rep_of_int [of 16000000] big_range [of 16000000]
    by (intro to_num_bounded [where b = 16000000]) simp_all
  then show ?thesis
    using grid_round_trip [of k 1000000] assms by (simp add: grid_score_def PRIORITY_SCALE_Fin)
qed

lemma quantise_grid: "0 \<le> k \<Longrightarrow> k \<le> 16000000 \<Longrightarrow> quantisePriority (grid_score k) = grid_score k"
  by (simp add: quantisePriority_def grid_round) (simp add: PRIORITY_SCALE_Fin grid_to_num)

lemma quantise_bounds:
  assumes "0 \<le> s" "s < 1 + 1 / 2 ^ 29"
  shows "\<exists>k. 0 \<le> k \<and> k \<le> 1000000 \<and> quantisePriority (Fin s) = grid_score k"
proof -
  have y: "0 \<le> s * 1000000" "s * 1000000 \<le> of_int 4000001 / 4" using assms by auto
  have r: "rep (of_int 4000001 / 4)" by (rule rep_quarter) simp
  have b: "0 \<le> fl (s * 1000000)" "fl (s * 1000000) \<le> of_int 4000001 / 4"
    using b64.nonneg [OF y(1)] b64.le_bound [OF y(2) r] by auto
  let ?k = "\<lfloor>fl (s * 1000000) + 1 / 2\<rfloor>"
  have "to_num (s * 1000000) = Fin (fl (s * 1000000))"
    using y r big_range [of "of_int 4000001 / 4"] by (intro to_num_bounded [where b = "of_int 4000001 / 4"]) simp_all
  moreover have k: "0 \<le> ?k" "?k \<le> 1000000" using b by (auto simp: floor_le_iff)
  ultimately have "quantisePriority (Fin s) = grid_score ?k"
    using grid_to_num [of ?k] by (simp add: quantisePriority_def PRIORITY_SCALE_Fin)
  with k show ?thesis by blast
qed

subsection \<open>The published weights\<close>

lemma default_literals:
  "lit (35 / 100) = Fin (3152519739159347 / 9007199254740992)" "lit (25 / 100) = Fin (1 / 4)"
  "lit (3 / 10) = Fin (5404319552844595 / 18014398509481984)"
  "lit (1 / 10) = Fin (3602879701896397 / 36028797018963968)"
proof -
  show "lit (35 / 100) = Fin (3152519739159347 / 9007199254740992)"
    by (rule to_num_eval_unit) (use fl_eval [of "- 2" "7 / 20" 6305039478318694] in simp_all)
  show "lit (25 / 100) = Fin (1 / 4)"
    using to_num_rep [of "1 / 4"] rep_powi [of "- 2"] max_range_gt1 [of "1 / 4"] by simp
  show "lit (3 / 10) = Fin (5404319552844595 / 18014398509481984)"
    by (rule to_num_eval_unit) (use fl_eval [of "- 2" "3 / 10" 5404319552844595] in simp_all)
  show "lit (1 / 10) = Fin (3602879701896397 / 36028797018963968)"
    by (rule to_num_eval_unit) (use fl_eval [of "- 4" "1 / 10" 7205759403792794] in simp_all)
qed

lemma default_sum:
  "sum4 (3152519739159347 / 9007199254740992) (1 / 4) (5404319552844595 / 18014398509481984)
     (3602879701896397 / 36028797018963968) = 9007199254740991 / 9007199254740992"
proof -
  have 1: "fl (3152519739159347 / 9007199254740992 + 1 / 4) = 5404319552844595 / 9007199254740992"
    using fl_eval [of "- 1" "5404319552844595 / 9007199254740992" 5404319552844595] by simp
  have 2: "fl (5404319552844595 / 9007199254740992 + 5404319552844595 / 18014398509481984)
           = 2026619832316723 / 2251799813685248"
    using fl_eval [of "- 1" "16212958658533785 / 18014398509481984" 8106479329266892] by simp
  have 3: "fl (2026619832316723 / 2251799813685248 + 3602879701896397 / 36028797018963968)
           = 9007199254740991 / 9007199254740992"
    using fl_eval [of "- 1" "36028797018963965 / 36028797018963968" 9007199254740991] by simp
  show ?thesis unfolding sum4_def 1 2 3 ..
qed

lemma default_units:
  "unit_num (Fin (3152519739159347 / 9007199254740992))" "unit_num (Fin (1 / 4))"
  "unit_num (Fin (5404319552844595 / 18014398509481984))"
  "unit_num (Fin (3602879701896397 / 36028797018963968))"
  by (simp_all only: default_literals [symmetric]) (auto intro!: to_num_unit)

lemma wf_default_weights: "wf_weights DEFAULT_PRIORITY_WEIGHTS"
  by (simp add: wf_weights_def weight_entries_def DEFAULT_PRIORITY_WEIGHTS_def)

lemma default_weights_valid: "assertValidWeights DEFAULT_PRIORITY_WEIGHTS = Inr ()"
proof -
  have W: "weight_entries DEFAULT_PRIORITY_WEIGHTS =
      [Fin (3152519739159347 / 9007199254740992), Fin (1 / 4),
       Fin (5404319552844595 / 18014398509481984), Fin (3602879701896397 / 36028797018963968)]"
    by (simp only: weight_entries_def DEFAULT_PRIORITY_WEIGHTS_def priority_weights.simps
        default_literals)
  have a0: "to_num (3152519739159347 / 9007199254740992) = Fin (3152519739159347 / 9007199254740992)"
    using default_units(1) max_range_gt1 [of "3152519739159347 / 9007199254740992"]
    by (intro to_num_rep) (simp_all add: unit_Fin)
  have S: "foldl jadd (Fin 0) (weight_entries DEFAULT_PRIORITY_WEIGHTS)
           = Fin (9007199254740991 / 9007199254740992)"
    using jadd_sum4 [OF default_units] by (simp add: W a0 default_sum)
  have "rep (of_int (- 1) * 2 powi (- 53))" by (rule rep_scaled) simp_all
  then have "fl (- (1 / 9007199254740992)) = - (1 / 9007199254740992)" by (intro fl_rep) simp
  then have D: "jsub (Fin (9007199254740991 / 9007199254740992)) (Fin 1) = Fin (- (1 / 9007199254740992))"
    using instant_diff [of "9007199254740991 / 9007199254740992" 1] by simp
  have "lit (1 / 10 ^ 9) = Fin (4835703278458517 / 4835703278458516698824704)"
    by (rule to_num_eval_unit) (use fl_eval [of "- 30" "1 / 10 ^ 9" 4835703278458517] in simp_all)
  then have T: "WEIGHT_SUM_TOLERANCE = Fin (4835703278458517 / 4835703278458516698824704)"
    by (simp add: WEIGHT_SUM_TOLERANCE_def)
  show ?thesis unfolding assertValidWeights_def Let_def S by (simp add: W D T)
qed

lemma score_priority_record:
  "score (priority_record f now w) =
     jadd (jadd (jadd (jmul (normalisedSeverity (severity f)) (w_severity w))
       (jmul (normalisedNegativity (sentiment f)) (w_negativity w)))
       (jmul (fst (normalisedUrgency f now)) (w_urgency w)))
       (jmul (normalisedTier (tier f) (valueBand f)) (w_tier w))"
  by (simp add: priority_record_def component_def Let_def split: prod.split)

lemma storedScore_priority_record:
  "storedScore (priority_record f now w) = quantisePriority (score (priority_record f now w))"
  by (simp add: priority_record_def Let_def split: prod.split)

lemma computePriority_Inr_iff:
  "computePriority f now w = Inr b \<longleftrightarrow>
     is_finite now \<and> assertValidWeights w = Inr () \<and> b = priority_record f now w"
  by (auto simp: computePriority_def assertInstant_def split: sum.splits)

subsection \<open>Properties\<close>

definition sample_features :: queue_features where
  "sample_features = \<lparr>tid = u ''T-1'', severity = Sev3, sentiment = Some (Fin (- 1 / 2)), tier = Premium,
     valueBand = Band5, createdAt = Fin 0, slaDueAt = Fin 3600000\<rparr>"

lemma wf_sample_features: "wf_features sample_features"
  using rep_of_int [of 3600000] big_range [of 3600000]
  by (simp add: sample_features_def wf_features_def wf_instant_def)

lemma wf_instant_of_int:
  assumes "\<bar>n\<bar> \<le> 2 ^ 53" shows "wf_instant (Fin (of_int n))"
proof -
  have "(of_int \<bar>n\<bar> :: rat) \<le> of_int (2 ^ 53)" using assms by (simp only: of_int_le_iff)
  then show ?thesis using rep_of_int [OF assms] by (simp add: wf_instant_def)
qed

lemma wf_instant_finite: "wf_instant a \<Longrightarrow> is_finite a"
  by (auto elim: wf_instantE)

text \<open>
  C13: the score \<open>computePriority\<close> stores is always a whole number of millionths between 0 and 1
  (as the nearest double), whatever distribution of weights is accepted, and quantising it again
  changes nothing: the value the comparator orders by is the value a stored column holds.
\<close>

theorem stored_score_on_grid:
  assumes "wf_weights w" "wf_features f" "wf_instant now" "computePriority f now w = Inr b"
  shows "\<exists>k. 0 \<le> k \<and> k \<le> 1000000 \<and> storedScore b = Fin (fl (of_int k / 1000000))
             \<and> quantisePriority (storedScore b) = storedScore b"
proof -
  from assms(4) have w: "assertValidWeights w = Inr ()" and b: "b = priority_record f now w"
    by (auto simp: computePriority_Inr_iff)
  obtain s where s: "score b = Fin s" "0 \<le> s" "s < 1 + 1 / 2 ^ 29"
    using score_bounds [OF w assms(1,2,3)] b by metis
  have "storedScore b = quantisePriority (score b)"
    by (simp add: b priority_record_def Let_def split: prod.split)
  then show ?thesis
    using quantise_bounds [OF s(2,3)] quantise_grid by (auto simp: s(1) grid_score_def)
qed

theorem stored_score_on_grid_witness:
  "\<exists>b k. computePriority sample_features (Fin 1800000) DEFAULT_PRIORITY_WEIGHTS = Inr b
     \<and> 0 \<le> k \<and> k \<le> 1000000 \<and> storedScore b = Fin (fl (of_int k / 1000000))"
proof -
  have now: "wf_instant (Fin 1800000)" using wf_instant_of_int [of 1800000] by simp
  have "computePriority sample_features (Fin 1800000) DEFAULT_PRIORITY_WEIGHTS
        = Inr (priority_record sample_features (Fin 1800000) DEFAULT_PRIORITY_WEIGHTS)"
    by (simp add: computePriority_Inr_iff default_weights_valid)
  from stored_score_on_grid [OF wf_default_weights wf_sample_features now this] this
  show ?thesis by blast
qed

text \<open>The score grows with the clock: only the urgency term reads it.\<close>

lemma jmul_mono_unit:
  assumes "unit_num a" "unit_num b" "a \<le> b" "unit_num c"
  shows "jmul a c \<le> jmul b c"
  using assms by (auto simp: unit_num_def intro!: to_num_mono mult_right_mono)

lemma jadd_mono_left: "a \<le> b \<Longrightarrow> unit_num c \<Longrightarrow> a \<noteq> NInf \<Longrightarrow> b \<noteq> PInf \<Longrightarrow> jadd a c \<le> jadd b c"
  by (cases a; cases b) (auto simp: unit_num_def less_eq_jnum_def[of NaN] less_eq_jnum_def[of PInf]
      intro!: to_num_mono)

lemma quantise_mono:
  assumes "0 \<le> a" "a \<le> b" "b \<le> 4" shows "quantisePriority (Fin a) \<le> quantisePriority (Fin b)"
proof -
  have fin: "to_num (x * 1000000) = Fin (fl (x * 1000000))" if "0 \<le> x" "x \<le> 4" for x
    using that rep_of_int [of 4000000] big_range [of 4000000]
    by (intro to_num_bounded [where b = 4000000]) simp_all
  have "fl (a * 1000000) \<le> fl (b * 1000000)" using assms by (intro fl_mono) simp
  then have "\<lfloor>fl (a * 1000000) + 1 / 2\<rfloor> \<le> \<lfloor>fl (b * 1000000) + 1 / 2\<rfloor>" by (intro floor_mono) simp
  then have "(of_int \<lfloor>fl (a * 1000000) + 1 / 2\<rfloor> :: rat) \<le> of_int \<lfloor>fl (b * 1000000) + 1 / 2\<rfloor>"
    by (simp only: of_int_le_iff)
  then show ?thesis
    using fin [of a] fin [of b] assms
    by (simp add: quantisePriority_def PRIORITY_SCALE_Fin) (intro to_num_mono divide_right_mono; simp)
qed

text \<open>
  C14: at a fixed weight distribution the urgency term lies between 0 and 1, never decreases as
  the clock advances, is exactly 1 at the due instant of a positive window, and the stored score of
  a waiting ticket therefore never decreases either.
\<close>

theorem waiting_never_lowers_priority:
  assumes "wf_features f" "wf_instant now" "wf_instant later" "now \<le> later" "wf_weights w"
    and "computePriority f now w = Inr b" "computePriority f later w = Inr b'"
  shows "Fin 0 \<le> fst (normalisedUrgency f now) \<and> fst (normalisedUrgency f later) \<le> Fin 1
     \<and> fst (normalisedUrgency f now) \<le> fst (normalisedUrgency f later)
     \<and> (now = slaDueAt f \<and> createdAt f < now \<longrightarrow> fst (normalisedUrgency f now) = Fin 1)
     \<and> storedScore b \<le> storedScore b'"
proof -
  have w: "assertValidWeights w = Inr ()" and b: "b = priority_record f now w"
    and b': "b' = priority_record f later w"
    using assms(6,7) by (auto simp: computePriority_Inr_iff)
  let ?U = "\<lambda>t. fst (normalisedUrgency f t)"
  note un = normalisedUrgency_unit [OF assms(1,2)] and ul = normalisedUrgency_unit [OF assms(1,3)]
  note mono = normalisedUrgency_mono [OF assms(1-4)]
  have due: "?U now = Fin 1" if "now = slaDueAt f" "createdAt f < now"
  proof -
    have "wf_instant (createdAt f)" using assms(1) by (simp add: wf_features_def)
    then obtain n c where
      n: "now = Fin n" "createdAt f = Fin c" "rep n" "rep c" and e: "jsub now (createdAt f) = Fin (fl (n - c))"
      by (rule instant_elapsed [OF assms(2)])
    have s: "slaDueAt f = Fin n" using that(1) n(1) by simp
    have "c < n" using that(2) n(1,2) by simp
    then have "0 \<le> fl (n - c)" by (intro b64.nonneg) simp
    then show ?thesis using e n s
      by (cases "fl (n - c) = 0")
        (simp_all add: normalisedUrgency_def Let_def clamp_def to_num_rep b64.one max_range_gt1)
  qed
  obtain a1 a2 a3 a4 where
    ws: "w_severity w = Fin a1" "w_negativity w = Fin a2" "w_urgency w = Fin a3" "w_tier w = Fin a4"
    and us: "unit_num (Fin a1)" "unit_num (Fin a2)" "unit_num (Fin a3)" "unit_num (Fin a4)"
    by (rule valid_weightsE [OF w assms(5)])
  have part: "\<exists>y. jmul n (Fin x) = Fin y \<and> unit_num (Fin y)" if "unit_num n" "unit_num (Fin x)" for n x
    using jmul_unit [OF that] by (auto simp: unit_num_def)
  obtain p where p: "jmul (normalisedSeverity (severity f)) (Fin a1) = Fin p" "unit_num (Fin p)"
    using part [OF normalisedSeverity_unit us(1)] by blast
  obtain q where q: "jmul (normalisedNegativity (sentiment f)) (Fin a2) = Fin q" "unit_num (Fin q)"
    using part [OF normalisedNegativity_unit us(2)] by blast
  obtain r r' where r: "jmul (?U now) (Fin a3) = Fin r" "unit_num (Fin r)"
    and r': "jmul (?U later) (Fin a3) = Fin r'" "unit_num (Fin r')"
    using part [OF un us(3)] part [OF ul us(3)] by blast
  obtain t where t: "jmul (normalisedTier (tier f) (valueBand f)) (Fin a4) = Fin t" "unit_num (Fin t)"
    using part [OF normalisedTier_unit us(4)] by blast
  have "r \<le> r'" using jmul_mono_unit [OF un ul mono us(3)] r r' by simp
  then have le: "sum4 p q r t \<le> sum4 p q r' t" by (intro sum4_mono) simp_all
  have "score b = Fin (sum4 p q r t)" "score b' = Fin (sum4 p q r' t)"
    using jadd_sum4 [OF p(2) q(2) r(2) t(2)] jadd_sum4 [OF p(2) q(2) r'(2) t(2)]
    by (simp_all only: b b' score_priority_record ws p(1) q(1) r(1) r'(1) t(1))
  moreover have "0 \<le> sum4 p q r t" "sum4 p q r' t \<le> 4"
    using jadd_sum4 [OF p(2) q(2) r(2) t(2)] jadd_sum4 [OF p(2) q(2) r'(2) t(2)] by simp_all
  ultimately have "storedScore b \<le> storedScore b'"
    using quantise_mono [OF _ le] by (simp only: b b' storedScore_priority_record)
  then show ?thesis using unit_num_le [OF un] unit_num_le [OF ul] mono due by blast
qed

theorem waiting_never_lowers_priority_witness:
  "\<exists>b b'. computePriority sample_features (Fin 1800000) DEFAULT_PRIORITY_WEIGHTS = Inr b
     \<and> computePriority sample_features (Fin 3600000) DEFAULT_PRIORITY_WEIGHTS = Inr b'
     \<and> fst (normalisedUrgency sample_features (Fin 3600000)) \<le> Fin 1
     \<and> storedScore b \<le> storedScore b'"
proof -
  let ?b = "priority_record sample_features (Fin 1800000) DEFAULT_PRIORITY_WEIGHTS"
  let ?b' = "priority_record sample_features (Fin 3600000) DEFAULT_PRIORITY_WEIGHTS"
  have i: "wf_instant (Fin 1800000)" "wf_instant (Fin 3600000)"
    using wf_instant_of_int [of 1800000] wf_instant_of_int [of 3600000] by simp_all
  have c: "computePriority sample_features (Fin 1800000) DEFAULT_PRIORITY_WEIGHTS = Inr ?b"
    "computePriority sample_features (Fin 3600000) DEFAULT_PRIORITY_WEIGHTS = Inr ?b'"
    by (simp_all add: computePriority_Inr_iff default_weights_valid)
  have "Fin 1800000 \<le> Fin 3600000" by simp
  from waiting_never_lowers_priority [OF wf_sample_features i this wf_default_weights c] c
  show ?thesis by blast
qed

end
