(* ===== verification/Escalation.thy ===== *)
theory Escalation
  imports Priority
begin

section \<open>The escalation rule (src/alg/escalation.ts)\<close>

text \<open>
  Eight clauses in one published order, each with its reason code; the verdict names the first
  that fires.  Lower-casing a language tag needs the Unicode case data, which no file of the
  repository holds: the operations that read a tag take it as the parameter \<open>lower\<close>.
\<close>

subsection \<open>Data\<close>

datatype escalation_reason = CONF | SENT | TIER | RETRY | SLA | GROUND | POLICY | LANG

datatype policy_flag = Refund | Complaint | Legal | Safety | Injection

record escalation_features = queue_features +
  confidence :: "jnum option"
  retries :: jnum
  language :: jstr
  redactedBodyLength :: "jnum option"
  kbResultCount :: "jnum option"
  grounded :: "bool option"
  policyFlags :: "policy_flag list"

record escalation_thresholds =
  th_confidence :: jnum
  th_sentiment :: jnum
  maxRetries :: jnum
  premiumSeverity :: jnum
  supportedLanguages :: "jstr list"
  nullSentimentConfidencePenalty :: jnum

definition DEFAULT_ESCALATION_THRESHOLDS :: escalation_thresholds where
  "DEFAULT_ESCALATION_THRESHOLDS =
     \<lparr>th_confidence = lit (3 / 4), th_sentiment = lit (- 6 / 10), maxRetries = Fin 3,
      premiumSeverity = lit (3 / 4), supportedLanguages = [u ''en''],
      nullSentimentConfidencePenalty = lit (2 / 10)\<rparr>"

subsection \<open>The readings the clauses use\<close>

definition effectiveConfidence ::
    "'a escalation_features_scheme \<Rightarrow> escalation_thresholds \<Rightarrow> jnum option" where
  "effectiveConfidence f th =
     (if (\<exists>n \<in> set_option (redactedBodyLength f). jeq n (Fin 0)) then Some (Fin 0)
      else case confidence f of
             None \<Rightarrow> None
           | Some c \<Rightarrow>
               if sentiment f = None
               then Some (jmax (Fin 0) (jsub c (nullSentimentConfidencePenalty th)))
               else Some c)"

definition effectiveGrounded :: "'a escalation_features_scheme \<Rightarrow> bool option" where
  "effectiveGrounded f =
     (if (\<exists>n \<in> set_option (kbResultCount f). jeq n (Fin 0)) then Some False else grounded f)"

definition primaryLanguageSubtag :: "(jstr \<Rightarrow> jstr) \<Rightarrow> jstr \<Rightarrow> jstr" where
  "primaryLanguageSubtag lower lang = takeWhile (\<lambda>c. c \<noteq> 45) (lower (js_trim lang))"

definition isSupportedLanguage :: "(jstr \<Rightarrow> jstr) \<Rightarrow> jstr \<Rightarrow> jstr list \<Rightarrow> bool" where
  "isSupportedLanguage lower lang supported =
     (let subtag = primaryLanguageSubtag lower lang
      in if subtag = [] then False
         else \<exists>entry \<in> set supported. primaryLanguageSubtag lower entry = subtag)"

definition isPremiumHighSeverity :: "account_tier \<Rightarrow> severity \<Rightarrow> jnum \<Rightarrow> bool" where
  "isPremiumHighSeverity t sev least = (t = Premium \<and> normalisedSeverity sev \<ge> least)"

subsection \<open>The clauses\<close>

record 'f escalation_clause =
  c_name :: jstr
  c_reason :: escalation_reason
  c_statement :: jstr
  fires :: "'f \<Rightarrow> jnum \<Rightarrow> escalation_thresholds \<Rightarrow> bool"

definition ESCALATION_CLAUSES ::
    "(jstr \<Rightarrow> jstr) \<Rightarrow> 'a escalation_features_scheme escalation_clause list" where
  "ESCALATION_CLAUSES lower =
     [\<lparr>c_name = u ''policy_flag_raised'', c_reason = POLICY,
       c_statement = u ''the deterministic policy matcher raised at least one flag on this ticket'',
       fires = (\<lambda>f now th. length (policyFlags f) > 0)\<rparr>,
      \<lparr>c_name = u ''retry_budget_exhausted'', c_reason = RETRY,
       c_statement = u ''the provider retry budget is spent'',
       fires = (\<lambda>f now th. retries f > maxRetries th)\<rparr>,
      \<lparr>c_name = u ''language_out_of_scope'', c_reason = LANG,
       c_statement = u ''the ticket is not in a supported language, so no answer is attempted'',
       fires = (\<lambda>f now th. \<not> isSupportedLanguage lower (language f) (supportedLanguages th))\<rparr>,
      \<lparr>c_name = u ''sla_breached'', c_reason = SLA,
       c_statement = u ''the SLA instant has passed'',
       fires = (\<lambda>f now th. isBreached f now)\<rparr>,
      \<lparr>c_name = u ''confidence_below_threshold'', c_reason = CONF,
       c_statement = u ''triage confidence is below the escalation threshold'',
       fires = (\<lambda>f now th. case effectiveConfidence f th of None \<Rightarrow> False
                             | Some c \<Rightarrow> c < th_confidence th)\<rparr>,
      \<lparr>c_name = u ''sentiment_at_or_below_threshold'', c_reason = SENT,
       c_statement = u ''the customer sentiment is at or below the escalation threshold'',
       fires = (\<lambda>f now th. case sentiment f of None \<Rightarrow> False | Some s \<Rightarrow> s \<le> th_sentiment th)\<rparr>,
      \<lparr>c_name = u ''premium_high_severity'', c_reason = TIER,
       c_statement = u ''a premium account raised a high-severity ticket'',
       fires = (\<lambda>f now th. isPremiumHighSeverity (tier f) (severity f) (premiumSeverity th))\<rparr>,
      \<lparr>c_name = u ''draft_not_grounded'', c_reason = GROUND,
       c_statement = u ''the draft is not grounded in a retrieved source'',
       fires = (\<lambda>f now th. effectiveGrounded f = Some False)\<rparr>]"

datatype clause_stage = AtRecord | AtTriage | AtDraft

definition CLAUSE_STAGE :: "jstr \<rightharpoonup> clause_stage" where
  "CLAUSE_STAGE = map_of
     [(u ''policy_flag_raised'', AtRecord), (u ''retry_budget_exhausted'', AtRecord),
      (u ''language_out_of_scope'', AtRecord), (u ''sla_breached'', AtRecord),
      (u ''confidence_below_threshold'', AtTriage), (u ''sentiment_at_or_below_threshold'', AtTriage),
      (u ''premium_high_severity'', AtTriage), (u ''draft_not_grounded'', AtDraft)]"

record escalation_verdict =
  escalate :: bool
  v_reason :: "escalation_reason option"
  v_clause :: "jstr option"

text \<open>The loop of \<open>evaluateEscalation\<close> over the clauses still to try.\<close>

fun first_fired ::
    "'f escalation_clause list \<Rightarrow> 'f \<Rightarrow> jnum \<Rightarrow> escalation_thresholds \<Rightarrow> escalation_verdict" where
  "first_fired [] f now th = \<lparr>escalate = False, v_reason = None, v_clause = None\<rparr>"
| "first_fired (c # cs) f now th =
     (if fires c f now th
      then \<lparr>escalate = True, v_reason = Some (c_reason c), v_clause = Some (c_name c)\<rparr>
      else first_fired cs f now th)"

definition evaluateEscalation ::
    "(jstr \<Rightarrow> jstr) \<Rightarrow> 'a escalation_features_scheme \<Rightarrow> jnum \<Rightarrow> escalation_thresholds
       \<Rightarrow> js_error + escalation_verdict" where
  "evaluateEscalation lower f now th =
     bind_err (assertInstant now) (\<lambda>_. Inr (first_fired (ESCALATION_CLAUSES lower) f now th))"

record clause_outcome =
  o_clause :: jstr
  o_reason :: escalation_reason
  o_fired :: bool

definition evaluateEscalationClauses ::
    "(jstr \<Rightarrow> jstr) \<Rightarrow> 'a escalation_features_scheme \<Rightarrow> jnum \<Rightarrow> escalation_thresholds
       \<Rightarrow> js_error + clause_outcome list" where
  "evaluateEscalationClauses lower f now th =
     bind_err (assertInstant now) (\<lambda>_.
       Inr (map (\<lambda>c. \<lparr>o_clause = c_name c, o_reason = c_reason c, o_fired = fires c f now th\<rparr>)
              (ESCALATION_CLAUSES lower)))"

definition clauseByName ::
    "(jstr \<Rightarrow> jstr) \<Rightarrow> jstr \<Rightarrow> 'a escalation_features_scheme escalation_clause option" where
  "clauseByName lower name = List.find (\<lambda>c. c_name c = name) (ESCALATION_CLAUSES lower)"

definition ESCALATION_REASONS :: "jstr list" where
  "ESCALATION_REASONS = map u [''CONF'', ''SENT'', ''TIER'', ''RETRY'', ''SLA'', ''GROUND'', ''POLICY'', ''LANG'']"

definition isEscalationReason :: "jsval \<Rightarrow> bool" where
  "isEscalationReason v = (case v of JStr s \<Rightarrow> s \<in> set ESCALATION_REASONS | _ \<Rightarrow> False)"

subsection \<open>The first clause that fires\<close>

lemma first_fired_find:
  "first_fired cs f now th =
     (case List.find (\<lambda>c. fires c f now th) cs of
        None \<Rightarrow> \<lparr>escalate = False, v_reason = None, v_clause = None\<rparr>
      | Some c \<Rightarrow> \<lparr>escalate = True, v_reason = Some (c_reason c), v_clause = Some (c_name c)\<rparr>)"
  by (induction cs) auto

lemma find_map: "List.find P (map g xs) = map_option g (List.find (\<lambda>x. P (g x)) xs)"
  by (induction xs) auto

lemma find_named:
  "distinct (map n xs) \<Longrightarrow> List.find P xs = Some x \<Longrightarrow> List.find (\<lambda>y. n y = n x) xs = Some x"
  by (induction xs) (auto simp: find_Some_iff split: if_splits)

lemma find_sorted:
  assumes "sorted (map r xs)" "List.find P xs = Some x" "y \<in> set xs" "P y"
  shows "r x \<le> (r y :: nat)"
  using assms by (induction xs) (auto split: if_splits)

lemma clause_names_distinct: "distinct (map c_name (ESCALATION_CLAUSES lower))"
  by (simp add: ESCALATION_CLAUSES_def)

text \<open>The stages in the order the pipeline reaches them.\<close>

fun stage_rank :: "clause_stage option \<Rightarrow> nat" where
  "stage_rank (Some AtRecord) = 0"
| "stage_rank (Some AtTriage) = 1"
| "stage_rank (Some AtDraft) = 2"
| "stage_rank None = 3"

lemma clause_stages_sorted:
  "sorted (map (\<lambda>c. stage_rank (CLAUSE_STAGE (c_name c))) (ESCALATION_CLAUSES lower))"
  by (simp add: ESCALATION_CLAUSES_def CLAUSE_STAGE_def)

lemma evaluateEscalation_Inr:
  "evaluateEscalation lower f now th = Inr v \<longleftrightarrow>
     is_finite now \<and> v = first_fired (ESCALATION_CLAUSES lower) f now th"
  by (auto simp: evaluateEscalation_def assertInstant_def)

lemma escalate_iff:
  "escalate (first_fired cs f now th) \<longleftrightarrow> (\<exists>c \<in> set cs. fires c f now th)"
  by (induction cs) auto

text \<open>Only the SLA clause reads the clock, and once breached it stays breached.\<close>

lemma clause_persists:
  assumes "c \<in> set (ESCALATION_CLAUSES lower)" "fires c f now th" "now \<le> later"
  shows "fires c f later th"
proof -
  have "isBreached f now \<Longrightarrow> isBreached f later"
    using assms(3) unfolding isBreached_def
    by (cases now; cases later; cases "slaDueAt f") (auto simp: less_eq_jnum_def)
  then show ?thesis using assms(1,2) by (auto simp: ESCALATION_CLAUSES_def)
qed

text \<open>A language table that only knows the Latin capitals.\<close>

definition ascii_lower :: "jstr \<Rightarrow> jstr" where
  "ascii_lower s = map (\<lambda>c. if 65 \<le> c \<and> c \<le> 90 then c + 32 else c) s"

definition sample_escalation :: escalation_features where
  "sample_escalation = queue_features.extend
     \<lparr>tid = u ''t1'', severity = Sev3, sentiment = None, tier = Premium, valueBand = Band2,
      createdAt = Fin 0, slaDueAt = Fin 100\<rparr>
     \<lparr>confidence = None, retries = Fin 0, language = u ''en-AU'', redactedBodyLength = Some (Fin 12),
      kbResultCount = None, grounded = None, policyFlags = [Refund]\<rparr>"

text \<open>
  C11: the verdict is the first outcome that fired in the clause table: it escalates exactly when some
  clause fires, its reason and clause are those of the first fired outcome in the published order,
  that clause is found by its name, and no clause that fires belongs to an earlier stage.
\<close>

theorem verdict_is_first_fired_clause:
  assumes "evaluateEscalation lower f now th = Inr v"
  shows "\<exists>outs. evaluateEscalationClauses lower f now th = Inr outs
     \<and> escalate v = (\<exists>out \<in> set outs. o_fired out)
     \<and> v_clause v = map_option o_clause (List.find o_fired outs)
     \<and> v_reason v = map_option o_reason (List.find o_fired outs)
     \<and> (\<forall>name out. v_clause v = Some name \<and> out \<in> set outs \<and> o_fired out \<longrightarrow>
          stage_rank (CLAUSE_STAGE name) \<le> stage_rank (CLAUSE_STAGE (o_clause out)))
     \<and> (\<forall>name. v_clause v = Some name \<longrightarrow>
          (\<exists>c. clauseByName lower name = Some c \<and> fires c f now th \<and> v_reason v = Some (c_reason c)))"
proof -
  let ?cs = "ESCALATION_CLAUSES lower"
  let ?outs = "map (\<lambda>c. \<lparr>o_clause = c_name c, o_reason = c_reason c, o_fired = fires c f now th\<rparr>) ?cs"
  have fin: "is_finite now" and v: "v = first_fired ?cs f now th"
    using assms by (simp_all add: evaluateEscalation_Inr)
  have outs: "evaluateEscalationClauses lower f now th = Inr ?outs"
    using fin by (simp add: evaluateEscalationClauses_def assertInstant_def)
  have e: "escalate v = (\<exists>out \<in> set ?outs. o_fired out)" by (simp add: v escalate_iff)
  show ?thesis
  proof (cases "List.find (\<lambda>c. fires c f now th) ?cs")
    case None
    then show ?thesis using outs e by (auto simp: v first_fired_find find_map)
  next
    case (Some c)
    have "\<forall>d \<in> set ?cs. fires d f now th \<longrightarrow>
        stage_rank (CLAUSE_STAGE (c_name c)) \<le> stage_rank (CLAUSE_STAGE (c_name d))"
      using find_sorted [OF clause_stages_sorted Some] by blast
    moreover have "fires c f now th" using Some by (auto simp: find_Some_iff)
    moreover have "clauseByName lower (c_name c) = Some c"
      unfolding clauseByName_def by (rule find_named [OF clause_names_distinct Some])
    moreover have "v = \<lparr>escalate = True, v_reason = Some (c_reason c), v_clause = Some (c_name c)\<rparr>"
      using Some by (simp add: v first_fired_find)
    ultimately show ?thesis using outs e Some by (intro exI [of _ ?outs]) (simp add: find_map, force)
  qed
qed

theorem verdict_is_first_fired_clause_witness:
  "evaluateEscalation ascii_lower sample_escalation (Fin 50) DEFAULT_ESCALATION_THRESHOLDS
     = Inr \<lparr>escalate = True, v_reason = Some POLICY, v_clause = Some (u ''policy_flag_raised'')\<rparr>
   \<and> (\<exists>c. clauseByName ascii_lower (u ''policy_flag_raised'') = Some c
        \<and> fires c sample_escalation (Fin 50) DEFAULT_ESCALATION_THRESHOLDS)"
proof -
  let ?v = "\<lparr>escalate = True, v_reason = Some POLICY, v_clause = Some (u ''policy_flag_raised'')\<rparr>"
  have e: "evaluateEscalation ascii_lower sample_escalation (Fin 50) DEFAULT_ESCALATION_THRESHOLDS = Inr ?v"
    by (simp add: evaluateEscalation_Inr ESCALATION_CLAUSES_def sample_escalation_def
        queue_features.extend_def is_finite_def)
  from verdict_is_first_fired_clause [OF e] e show ?thesis by auto
qed

text \<open>
  Escalation is persistent: a ticket whose facts do not change and that escalates at one instant
  escalates at every later one, for only the SLA clause reads the clock.
\<close>

theorem escalation_persists:
  assumes "evaluateEscalation lower f now th = Inr v" "escalate v" "now \<le> later" "is_finite later"
  shows "\<exists>w. evaluateEscalation lower f later th = Inr w \<and> escalate w"
proof -
  obtain c where "c \<in> set (ESCALATION_CLAUSES lower)" "fires c f now th"
    using assms(1,2) by (auto simp: evaluateEscalation_Inr escalate_iff)
  then have "escalate (first_fired (ESCALATION_CLAUSES lower) f later th)"
    using clause_persists assms(3) unfolding escalate_iff by blast
  then show ?thesis using assms(4) by (simp add: evaluateEscalation_Inr)
qed

theorem escalation_persists_witness:
  "\<exists>w. evaluateEscalation ascii_lower sample_escalation (Fin 70) DEFAULT_ESCALATION_THRESHOLDS = Inr w \<and> escalate w"
  by (rule escalation_persists [of ascii_lower sample_escalation "Fin 50" DEFAULT_ESCALATION_THRESHOLDS
        "\<lparr>escalate = True, v_reason = Some POLICY, v_clause = Some (u ''policy_flag_raised'')\<rparr>"])
    (simp_all add: evaluateEscalation_Inr ESCALATION_CLAUSES_def sample_escalation_def
      queue_features.extend_def is_finite_def less_eq_jnum_def)

end
