(* ===== verification/Js_Text.thy ===== *)
theory Js_Text
  imports Js_Value
begin

section \<open>Numbers and strings as text\<close>

text \<open>
  \<open>String(n)\<close> for a number (Number::toString of the standard) and \<open>JSON.stringify\<close> of a
  string.  An integer below \<open>2 ^ 53\<close> prints its decimal digits; any other finite number
  prints the shortest decimal digits that round to it, in fixed or exponent form.
\<close>

subsection \<open>Number::toString\<close>

definition int_string :: "int \<Rightarrow> jstr" where
  "int_string n = (if n < 0 then u ''-'' @ nat_digits (nat (- n)) else nat_digits (nat n))"

text \<open>The least \<open>n\<close> with \<open>x < 10 ^ n\<close>, for a positive double.\<close>

definition dec_exponent :: "rat \<Rightarrow> int" where
  "dec_exponent x = (case List.find (\<lambda>n. x < 10 powi n) [- 330..310] of Some n \<Rightarrow> n | None \<Rightarrow> 311)"

definition shortest_candidate :: "rat \<Rightarrow> int \<Rightarrow> nat \<Rightarrow> (int \<times> nat) option" where
  "shortest_candidate x n k =
     (let y = x * 10 powi (int k - n); s = \<lfloor>y\<rfloor>;
          ok = (\<lambda>s. fl (of_int s * 10 powi (n - int k)) = x)
      in if ok s \<and> (\<not> ok (s + 1) \<or> y - of_int s \<le> of_int (s + 1) - y) then Some (s, k)
         else if ok (s + 1) then Some (s + 1, k) else None)"

definition shortest_digits :: "rat \<Rightarrow> nat \<times> int" where
  "shortest_digits x =
     (let n = dec_exponent x
      in case List.find (\<lambda>k. shortest_candidate x n k \<noteq> None) [1..<18] of
           None \<Rightarrow> (nat \<lfloor>x * 10 powi (17 - n)\<rfloor>, n)
         | Some k \<Rightarrow> (case shortest_candidate x n k of
              Some (s, _) \<Rightarrow> if s = 10 ^ k then (1, n + 1) else (nat s, n)
            | None \<Rightarrow> (0, n)))"

definition exponent_suffix :: "int \<Rightarrow> jstr" where
  "exponent_suffix e = u ''e'' @ (if e < 0 then u ''-'' else u ''+'') @ nat_digits (nat \<bar>e\<bar>)"

definition positive_string :: "rat \<Rightarrow> jstr" where
  "positive_string x =
     (let (s, n) = shortest_digits x; ds = nat_digits s; k = int (length ds)
      in if k \<le> n \<and> n \<le> 21 then ds @ replicate (nat (n - k)) 48
         else if 0 < n \<and> n \<le> 21 then take (nat n) ds @ u ''.'' @ drop (nat n) ds
         else if - 6 < n \<and> n \<le> 0 then u ''0.'' @ replicate (nat (- n)) 48 @ ds
         else if k = 1 then ds @ exponent_suffix (n - 1)
         else take 1 ds @ u ''.'' @ drop 1 ds @ exponent_suffix (n - 1))"

fun num_string :: "jnum \<Rightarrow> jstr" where
  "num_string (Fin x) =
     (if x = of_int \<lfloor>x\<rfloor> \<and> \<bar>x\<bar> < 2 ^ 53 then int_string \<lfloor>x\<rfloor>
      else if x < 0 then u ''-'' @ positive_string (- x) else positive_string x)"
| "num_string PInf = u ''Infinity''"
| "num_string NInf = u ''-Infinity''"
| "num_string NaN = u ''NaN''"

lemma num_string_int: "\<bar>n\<bar> < 2 ^ 53 \<Longrightarrow> num_string (Fin (of_int n)) = int_string n"
proof -
  assume "\<bar>n\<bar> < 2 ^ 53"
  then have "(of_int \<bar>n\<bar> :: rat) < of_int (2 ^ 53)" by (simp only: of_int_less_iff)
  then show ?thesis by simp
qed

lemma int_string_nonneg: "0 \<le> n \<Longrightarrow> int_string n = nat_digits (nat n)"
  by (simp add: int_string_def)

lemma int_string_head: "hd (int_string n) = 45 \<or> (48 \<le> hd (int_string n) \<and> hd (int_string n) \<le> 57)"
proof (cases "n < 0")
  case False
  then have "hd (int_string n) \<in> set (nat_digits (nat n))" by (simp add: int_string_def)
  then show ?thesis using nat_digits_range by blast
qed (simp add: int_string_def u_def)

lemma int_string_inject [simp]: "int_string m = int_string n \<longleftrightarrow> m = n"
proof -
  have no_minus: "nat_digits k \<noteq> u ''-'' @ xs" for k xs
    using nat_digits_range [of 45 k] by (auto simp: u_def)
  show ?thesis
    using no_minus no_minus [symmetric] by (auto simp: int_string_def)
qed

text \<open>The code units an integer's text can hold: digits and a minus sign.\<close>

lemma int_string_chars: "c \<in> set (int_string n) \<Longrightarrow> c = 45 \<or> (48 \<le> c \<and> c \<le> 57)"
  using nat_digits_range by (auto simp: int_string_def u_def split: if_splits)

lemma int_string_nonempty [simp]: "int_string n \<noteq> []"
  by (simp add: int_string_def)

subsection \<open>JSON.stringify of a string\<close>

definition hex_digit :: "nat \<Rightarrow> nat" where
  "hex_digit d = (if d < 10 then 48 + d else 87 + d)"

definition unicode_escape :: "nat \<Rightarrow> jstr" where
  "unicode_escape c =
     [92, 117, hex_digit (c div 4096 mod 16), hex_digit (c div 256 mod 16),
      hex_digit (c div 16 mod 16), hex_digit (c mod 16)]"

definition is_high :: "nat \<Rightarrow> bool" where
  "is_high c = (55296 \<le> c \<and> c \<le> 56319)"

definition is_low :: "nat \<Rightarrow> bool" where
  "is_low c = (56320 \<le> c \<and> c \<le> 57343)"

definition quote_unit :: "nat \<Rightarrow> jstr" where
  "quote_unit c =
     (if c = 8 then [92, 98] else if c = 9 then [92, 116] else if c = 10 then [92, 110]
      else if c = 12 then [92, 102] else if c = 13 then [92, 114]
      else if c = 34 then [92, 34] else if c = 92 then [92, 92]
      else if c < 32 then unicode_escape c else [c])"

text \<open>A surrogate pair is copied; a surrogate on its own is escaped.\<close>

fun quote_units :: "jstr \<Rightarrow> jstr" where
  "quote_units (c # d # s) =
     (if is_high c \<and> is_low d then c # d # quote_units s
      else (if is_high c \<or> is_low c then unicode_escape c else quote_unit c) @ quote_units (d # s))"
| "quote_units [c] = (if is_high c \<or> is_low c then unicode_escape c else quote_unit c)"
| "quote_units [] = []"

definition json_quote :: "jstr \<Rightarrow> jstr" where
  "json_quote s = [34] @ quote_units s @ [34]"

subsection \<open>Number.prototype.toFixed\<close>

text \<open>
  Below \<open>10 ^ 21\<close> the digits of the integer nearest to the value scaled by \<open>10 ^ f\<close> (the larger
  of two), a point before the last \<open>f\<close>; a greater magnitude prints as \<open>String(n)\<close> does.
\<close>

definition fixed_text :: "nat \<Rightarrow> nat \<Rightarrow> jstr" where
  "fixed_text f n =
     (let ds = pad_start (f + 1) 48 (nat_digits n); k = length ds - f
      in if f = 0 then ds else take k ds @ u ''.'' @ drop k ds)"

fun toFixed :: "nat \<Rightarrow> jnum \<Rightarrow> jstr" where
  "toFixed f (Fin x) =
     (if \<bar>x\<bar> \<ge> 10 ^ 21 then num_string (Fin x)
      else (if x < 0 then u ''-'' else []) @ fixed_text f (nat \<lfloor>\<bar>x\<bar> * 10 ^ f + 1 / 2\<rfloor>))"
| "toFixed f a = num_string a"

lemma fixed_text_chars: "c \<in> set (fixed_text f n) \<Longrightarrow> c = 46 \<or> 48 \<le> c \<and> c \<le> 57"
  using pad_start_digits [of "f + 1" n]
  by (auto simp: fixed_text_def Let_def u_def dest!: in_set_takeD in_set_dropD split: if_splits)

lemma fixed_text_value: "digits_value (filter (\<lambda>c. c \<noteq> 46) (fixed_text f n)) = n"
proof -
  let ?ds = "pad_start (f + 1) 48 (nat_digits n)"
  have no_dot: "filter (\<lambda>c. c \<noteq> 46) xs = xs" if "set xs \<subseteq> set ?ds" for xs
    using pad_start_digits [of "f + 1" n] that by (intro filter_True) force
  have "filter (\<lambda>c. c \<noteq> 46) (fixed_text f n) = ?ds"
    using no_dot [of ?ds] no_dot [of "take k ?ds" for k] no_dot [of "drop k ?ds" for k]
    by (cases "f = 0") (simp_all add: fixed_text_def Let_def u_def set_take_subset set_drop_subset)
  then show ?thesis by simp
qed

end
