(* ===== verification/Features.thy ===== *)
theory Features
  imports Escalation Js_Text
begin

section \<open>From stored facts to the feature vector (src/alg/features.ts)\<close>

text \<open>
  The adapter between a ticket record, its account and a triage envelope on one side and the
  vector the escalation rule reads on the other: the two quantisations of the stored columns and
  the sentinels of a ticket that has not been triaged.
\<close>

subsection \<open>Quantisation\<close>

definition STORED_DECIMALS :: nat where
  "STORED_DECIMALS = 3"

definition STORED_SCALE :: jnum where
  "STORED_SCALE = Fin 1000"

definition UNTRIAGED_SEVERITY :: severity where
  "UNTRIAGED_SEVERITY = Sev1"

definition NO_SLA_INSTANT :: jnum where
  "NO_SLA_INSTANT = PInf"

definition quantiseStored :: "jnum \<Rightarrow> js_error + jnum" where
  "quantiseStored value =
     (if \<not> is_finite value then Inl RangeError
      else let magnitude = jdiv (jround (jmul (jabs value) STORED_SCALE)) STORED_SCALE;
               signed = (if value < Fin 0 then jneg magnitude else magnitude)
           in Inr (if jeq signed (Fin 0) then Fin 0 else signed))"

definition formatStored :: "jnum \<Rightarrow> js_error + jstr" where
  "formatStored value = bind_err (quantiseStored value) (\<lambda>q. Inr (toFixed STORED_DECIMALS q))"

subsection \<open>The adapter\<close>

record ticket_facts =
  tf_id :: jstr
  tf_createdAt :: jnum
  tf_slaDueAt :: "jnum option"
  tf_language :: jstr
  tf_retries :: jnum

record account_facts =
  af_tier :: jsval
  af_valueBand :: jsval

record triage_reading =
  tr_category :: jstr
  tr_severity :: severity
  tr_sentiment :: jnum
  tr_confidence :: jnum

record feature_input =
  fi_ticket :: ticket_facts
  fi_account :: account_facts
  fi_triage :: "triage_reading option"
  fi_redactedBodyLength :: "jnum option"
  fi_retrieval :: "jnum option"
  fi_validation :: "bool option"
  fi_policyFlags :: "policy_flag list"

record feature_result =
  fr_features :: escalation_features
  fr_stored :: "triage_reading option"
  fr_anomalies :: "priority_anomaly list"

definition store_reading :: "triage_reading option \<Rightarrow> js_error + triage_reading option" where
  "store_reading t =
     (case t of
        None \<Rightarrow> Inr None
      | Some r \<Rightarrow>
          bind_err (quantiseStored (tr_sentiment r)) (\<lambda>s.
          bind_err (quantiseStored (tr_confidence r)) (\<lambda>c.
            Inr (Some \<lparr>tr_category = tr_category r, tr_severity = tr_severity r,
                       tr_sentiment = s, tr_confidence = c\<rparr>))))"

definition featuresFromTicket :: "feature_input \<Rightarrow> js_error + feature_result" where
  "featuresFromTicket inp =
     (let account = normaliseAccount (af_tier (fi_account inp)) (af_valueBand (fi_account inp))
      in bind_err (store_reading (fi_triage inp)) (\<lambda>stored.
           Inr \<lparr>fr_features =
                  \<lparr>tid = tf_id (fi_ticket inp),
                   severity = (case stored of Some r \<Rightarrow> tr_severity r | None \<Rightarrow> UNTRIAGED_SEVERITY),
                   sentiment = map_option tr_sentiment stored,
                   tier = na_tier account, valueBand = na_valueBand account,
                   createdAt = tf_createdAt (fi_ticket inp),
                   slaDueAt = (case tf_slaDueAt (fi_ticket inp) of Some d \<Rightarrow> d | None \<Rightarrow> NO_SLA_INSTANT),
                   confidence = map_option tr_confidence stored,
                   retries = tf_retries (fi_ticket inp), language = tf_language (fi_ticket inp),
                   redactedBodyLength = fi_redactedBodyLength inp,
                   kbResultCount = fi_retrieval inp, grounded = fi_validation inp,
                   policyFlags = fi_policyFlags inp\<rparr>,
                fr_stored = stored, fr_anomalies = na_anomalies account\<rparr>))"

subsection \<open>The grid of thousandths\<close>

definition stored_grid :: "int \<Rightarrow> jnum" where
  "stored_grid k = Fin (fl (of_int k / 1000))"

lemma grid_to_num_1000: "\<bar>k\<bar> \<le> 16000 \<Longrightarrow> to_num (of_int k / 1000) = stored_grid k"
proof -
  assume "\<bar>k\<bar> \<le> 16000"
  then have "\<bar>of_int k / 1000 :: rat\<bar> \<le> 16" by (simp add: abs_le_iff pos_divide_le_eq)
  then show ?thesis
    unfolding stored_grid_def
    by (rule to_num_bounded [where b = 16]) (use rep_of_int [of 16] big_range [of 16] in simp_all)
qed

lemma stored_grid_uminus: "stored_grid (- k) = jneg (stored_grid k)"
  using fl_uminus [of "of_int k / 1000"] by (simp add: stored_grid_def)

lemma stored_grid_0 [simp]: "stored_grid 0 = Fin 0"
  by (simp add: stored_grid_def)

text \<open>The index of the thousandth a value is stored as.\<close>

definition stored_magnitude :: "rat \<Rightarrow> int" where
  "stored_magnitude v = \<lfloor>fl (\<bar>v\<bar> * 1000) + 1 / 2\<rfloor>"

definition stored_index :: "rat \<Rightarrow> int" where
  "stored_index v = (if v < 0 then - stored_magnitude v else stored_magnitude v)"

lemma stored_magnitude_bounds: "\<bar>v\<bar> \<le> 16 \<Longrightarrow> 0 \<le> stored_magnitude v \<and> stored_magnitude v \<le> 16000"
proof -
  assume "\<bar>v\<bar> \<le> 16"
  then have "0 \<le> fl (\<bar>v\<bar> * 1000)" "fl (\<bar>v\<bar> * 1000) \<le> 16000"
    using b64.nonneg [of "\<bar>v\<bar> * 1000"] b64.le_bound [of "\<bar>v\<bar> * 1000" 16000] rep_of_int [of 16000]
    by simp_all
  then show ?thesis unfolding stored_magnitude_def by linarith
qed

lemma stored_index_bounds: "\<bar>v\<bar> \<le> 16 \<Longrightarrow> \<bar>stored_index v\<bar> \<le> 16000"
  using stored_magnitude_bounds [of v] by (simp add: stored_index_def)

lemma quantiseStored_Fin:
  assumes "\<bar>v\<bar> \<le> 16" shows "quantiseStored (Fin v) = Inr (stored_grid (stored_index v))"
proof -
  let ?m = "stored_magnitude v"
  have "to_num (\<bar>v\<bar> * 1000) = Fin (fl (\<bar>v\<bar> * 1000))"
    using assms rep_of_int [of 16000] big_range [of 16000]
    by (intro to_num_bounded [where b = 16000]) simp_all
  then have "jround (jmul (jabs (Fin v)) STORED_SCALE) = Fin (of_int ?m)"
    by (simp add: STORED_SCALE_def stored_magnitude_def)
  moreover have "jdiv (Fin (of_int ?m)) STORED_SCALE = stored_grid ?m"
    using grid_to_num_1000 [of ?m] stored_magnitude_bounds [OF assms] by (simp add: STORED_SCALE_def)
  moreover have "is_finite (Fin v)" by (simp add: is_finite_def)
  ultimately show ?thesis
    by (simp add: quantiseStored_def Let_def stored_index_def stored_grid_uminus jeq_def)
qed

lemma stored_grid_cases:
  obtains x where "stored_grid k = Fin x" "x = fl (of_int k / 1000)"
  by (simp add: stored_grid_def)

lemma grid_range: "\<bar>k\<bar> \<le> 16000 \<Longrightarrow> \<bar>fl (of_int k / 1000)\<bar> \<le> 16"
proof -
  assume "\<bar>k\<bar> \<le> 16000"
  then have k: "of_int k / 1000 \<le> (16::rat)" "of_int (- k) / 1000 \<le> (16::rat)"
    by (simp_all add: pos_divide_le_eq)
  have "fl (of_int k / 1000) \<le> 16" "fl (of_int (- k) / 1000) \<le> 16"
    using b64.le_bound [OF k(1)] b64.le_bound [OF k(2)] rep_of_int [of 16] by simp_all
  then show ?thesis by (simp add: abs_le_iff)
qed

lemma magnitude_of_grid: "0 \<le> k \<Longrightarrow> k \<le> 16000 \<Longrightarrow> stored_magnitude (fl (of_int k / 1000)) = k"
  using grid_round_trip [of k 1000] b64.nonneg [of "of_int k / 1000"] by (simp add: stored_magnitude_def)

lemma magnitude_uminus [simp]: "stored_magnitude (- v) = stored_magnitude v"
  by (simp add: stored_magnitude_def)

lemma index_of_grid: "\<bar>k\<bar> \<le> 16000 \<Longrightarrow> stored_index (fl (of_int k / 1000)) = k"
proof (cases "0 \<le> k")
  case True
  moreover assume "\<bar>k\<bar> \<le> 16000"
  ultimately show ?thesis
    using magnitude_of_grid [of k] b64.nonneg [of "of_int k / 1000"] by (simp add: stored_index_def)
next
  case False
  assume "\<bar>k\<bar> \<le> 16000"
  with False have m: "stored_magnitude (fl (of_int (- k) / 1000)) = - k"
    using magnitude_of_grid [of "- k"] by simp
  have "\<lfloor>1 / 2 :: rat\<rfloor> = 0" by (intro floor_unique) simp_all
  with m have "fl (of_int (- k) / 1000) \<noteq> 0" using False by (auto simp: stored_magnitude_def)
  moreover have "0 \<le> fl (of_int (- k) / 1000)" using False by (intro b64.nonneg) simp
  ultimately have "fl (of_int k / 1000) < 0" by simp
  with m show ?thesis by (simp add: stored_index_def)
qed

lemma quantiseStored_grid: "\<bar>k\<bar> \<le> 16000 \<Longrightarrow> quantiseStored (stored_grid k) = Inr (stored_grid k)"
  using quantiseStored_Fin [OF grid_range] index_of_grid by (simp add: stored_grid_def)

lemma stored_index_mono: "v \<le> w \<Longrightarrow> stored_index v \<le> stored_index w"
proof -
  assume vw: "v \<le> w"
  have mag: "stored_magnitude x \<le> stored_magnitude y" if "\<bar>x\<bar> \<le> \<bar>y\<bar>" for x y
    using fl_mono [of "\<bar>x\<bar> * 1000" "\<bar>y\<bar> * 1000"] that
    unfolding stored_magnitude_def by (intro floor_mono) simp
  have pos: "0 \<le> stored_magnitude x" for x
    using b64.nonneg [of "\<bar>x\<bar> * 1000"] unfolding stored_magnitude_def by simp
  show ?thesis
    using vw mag [of v w] mag [of w v] pos [of v] pos [of w] by (auto simp: stored_index_def)
qed

lemma stored_grid_mono: "k \<le> l \<Longrightarrow> stored_grid k \<le> stored_grid l"
  using fl_mono [of "of_int k / 1000" "of_int l / 1000"]
  by (simp add: stored_grid_def less_eq_jnum_def divide_right_mono not_less)

subsection \<open>The text of a stored value\<close>

text \<open>Reading the column back: sign, digits, and the scale the column declares.\<close>

definition read_fixed :: "jstr \<Rightarrow> jnum" where
  "read_fixed s =
     (let neg = (take 1 s = u ''-''); ds = filter (\<lambda>c. c \<noteq> 46) (if neg then drop 1 s else s)
      in to_num ((if neg then - of_nat (digits_value ds) else of_nat (digits_value ds)) / 1000))"

lemma nearest_grid: "0 \<le> k \<Longrightarrow> k \<le> 16000 \<Longrightarrow> \<lfloor>fl (of_int k / 1000) * 10 ^ 3 + 1 / 2\<rfloor> = k"
proof -
  assume k: "0 \<le> k" "k \<le> 16000"
  then have "0 \<le> (of_int k / 1000 :: rat)" "of_int k / 1000 \<le> (16 :: rat)" by (simp_all add: pos_divide_le_eq)
  note e = fl_error [OF this]
  from abs_le_D1 [OF e] abs_le_D2 [OF e] show ?thesis by (intro floor_unique) simp_all
qed

lemma toFixed_grid:
  assumes "\<bar>k\<bar> \<le> 16000"
  shows "toFixed 3 (stored_grid k) = (if k < 0 then u ''-'' else []) @ fixed_text 3 (nat \<bar>k\<bar>)"
proof -
  let ?x = "fl (of_int k / 1000)"
  have small: "\<not> 10 ^ 21 \<le> \<bar>?x\<bar>" using grid_range [OF assms] by simp
  have neg: "?x < 0 \<longleftrightarrow> k < 0"
  proof (cases "k < 0")
    case True
    then have "?x \<le> fl 0" by (intro fl_mono) (simp add: divide_nonpos_nonneg)
    moreover have "?x \<noteq> 0"
    proof
      assume "?x = 0"
      with index_of_grid [OF assms] index_of_grid [of 0] show False using True by simp
    qed
    ultimately show ?thesis using True by simp
  next
    case False
    then show ?thesis using b64.nonneg [of "of_int k / 1000"] by simp
  qed
  have "\<bar>?x\<bar> = fl (of_int \<bar>k\<bar> / 1000)"
    using neg b64.nonneg [of "of_int k / 1000"] fl_uminus [of "of_int k / 1000"] by (cases "k < 0") simp_all
  then have "\<lfloor>\<bar>?x\<bar> * 10 ^ 3 + 1 / 2\<rfloor> = \<bar>k\<bar>" using nearest_grid [of "\<bar>k\<bar>"] assms by simp
  with small neg show ?thesis by (simp add: stored_grid_def)
qed

lemma read_fixed_grid:
  assumes "\<bar>k\<bar> \<le> 16000" shows "read_fixed (toFixed 3 (stored_grid k)) = stored_grid k"
proof -
  have "fixed_text 3 n \<noteq> []" for n
    using fixed_text_value [of 3 n] by (auto simp: fixed_text_def Let_def u_def)
  then have head: "take 1 (fixed_text 3 n) \<noteq> u ''-''" for n
    using fixed_text_chars [of 45 3 n] by (cases "fixed_text 3 n") (auto simp: u_def)
  have "read_fixed (toFixed 3 (stored_grid k)) = to_num (of_int k / 1000)"
    unfolding toFixed_grid [OF assms]
    using head by (cases "k < 0") (simp_all add: read_fixed_def Let_def fixed_text_value u_def)
  then show ?thesis using grid_to_num_1000 [OF assms] by simp
qed

subsection \<open>Properties\<close>

definition sample_input :: feature_input where
  "sample_input =
     \<lparr>fi_ticket = \<lparr>tf_id = u ''t1'', tf_createdAt = Fin 0, tf_slaDueAt = None, tf_language = u ''en'',
                   tf_retries = Fin 0\<rparr>,
      fi_account = \<lparr>af_tier = JStr (u ''premium''), af_valueBand = JNum (Fin 9)\<rparr>,
      fi_triage = Some \<lparr>tr_category = u ''billing'', tr_severity = Sev3, tr_sentiment = Fin (- 1 / 4),
                        tr_confidence = Fin (1 / 2)\<rparr>,
      fi_redactedBodyLength = None, fi_retrieval = None, fi_validation = None, fi_policyFlags = []\<rparr>"

text \<open>
  C15: what is judged is what is stored: for readings within the column's range the vector is built
  from the values the two \<open>numeric(4,3)\<close> columns hold, the text written to a column reads back as
  exactly that double, and building the vector again from the stored columns gives the same result.
\<close>

theorem stored_columns_reproduce_the_vector:
  assumes "fi_triage inp = Some r" "tr_sentiment r = Fin s" "\<bar>s\<bar> \<le> 16" "tr_confidence r = Fin c" "\<bar>c\<bar> \<le> 16"
  shows "\<exists>res st sent conf. featuresFromTicket inp = Inr res \<and> fr_stored res = Some st
     \<and> sentiment (fr_features res) = Some (tr_sentiment st)
     \<and> confidence (fr_features res) = Some (tr_confidence st)
     \<and> formatStored (tr_sentiment r) = Inr sent \<and> read_fixed sent = tr_sentiment st
     \<and> formatStored (tr_confidence r) = Inr conf \<and> read_fixed conf = tr_confidence st
     \<and> featuresFromTicket (inp\<lparr>fi_triage := Some st\<rparr>) = Inr res"
proof -
  let ?s = "stored_grid (stored_index s)" and ?c = "stored_grid (stored_index c)"
  let ?st = "\<lparr>tr_category = tr_category r, tr_severity = tr_severity r, tr_sentiment = ?s, tr_confidence = ?c\<rparr>"
  note q = quantiseStored_Fin [OF assms(3)] quantiseStored_Fin [OF assms(5)]
  note b = stored_index_bounds [OF assms(3)] stored_index_bounds [OF assms(5)]
  have st: "store_reading (fi_triage inp) = Inr (Some ?st)"
    using assms q by (simp add: store_reading_def)
  have again: "store_reading (Some ?st) = Inr (Some ?st)"
    using b by (simp add: store_reading_def quantiseStored_grid)
  have written: "formatStored (tr_sentiment r) = Inr (toFixed 3 ?s)" "formatStored (tr_confidence r) = Inr (toFixed 3 ?c)"
    using assms q by (simp_all add: formatStored_def STORED_DECIMALS_def)
  show ?thesis
    unfolding featuresFromTicket_def Let_def st
    using again written b by (simp add: read_fixed_grid)
qed

theorem stored_columns_reproduce_the_vector_witness:
  "\<exists>res st. featuresFromTicket sample_input = Inr res \<and> fr_stored res = Some st
     \<and> featuresFromTicket (sample_input\<lparr>fi_triage := Some st\<rparr>) = Inr res"
  using stored_columns_reproduce_the_vector [of sample_input
      "\<lparr>tr_category = u ''billing'', tr_severity = Sev3, tr_sentiment = Fin (- 1 / 4), tr_confidence = Fin (1 / 2)\<rparr>"
      "- 1 / 4" "1 / 2"]
  by (auto simp: sample_input_def)

text \<open>
  The rounding of a stored column is symmetric, order-preserving and settled: a value and its
  negation are stored as opposites, a smaller value is never stored above a larger one, and a stored
  value is stored as itself, so quantising never moves a sentiment across a threshold on the grid.
\<close>

theorem quantise_stored_symmetric_monotone:
  assumes "\<bar>v\<bar> \<le> 16" "\<bar>w\<bar> \<le> 16" "v \<le> w"
  shows "\<exists>k l. quantiseStored (Fin v) = Inr (stored_grid k) \<and> quantiseStored (Fin w) = Inr (stored_grid l)
     \<and> k \<le> l \<and> stored_grid k \<le> stored_grid l
     \<and> quantiseStored (Fin (- v)) = Inr (stored_grid (- k))
     \<and> quantiseStored (stored_grid k) = Inr (stored_grid k)"
proof -
  have "stored_index (- v) = - stored_index v"
  proof (cases "v = 0")
    case True
    have "\<lfloor>1 / 2 :: rat\<rfloor> = 0" by (intro floor_unique) simp_all
    with True show ?thesis by (simp add: stored_index_def stored_magnitude_def)
  qed (simp add: stored_index_def)
  then show ?thesis
    using quantiseStored_Fin [OF assms(1)] quantiseStored_Fin [OF assms(2)] quantiseStored_Fin [of "- v"]
      stored_index_mono [OF assms(3)] stored_grid_mono stored_index_bounds [OF assms(1)] quantiseStored_grid assms(1)
    by (intro exI [of _ "stored_index v"] exI [of _ "stored_index w"]) simp
qed

theorem quantise_stored_symmetric_monotone_witness:
  "\<exists>k l. quantiseStored (Fin (- 5 / 8)) = Inr (stored_grid k) \<and> quantiseStored (Fin (- 1 / 2)) = Inr (stored_grid l)
     \<and> k \<le> l"
  using quantise_stored_symmetric_monotone [of "- 5 / 8" "- 1 / 2"] by (simp add: ex_simps) blast

text \<open>
  the sentinels fire nothing: a ticket with no triage, no retrieval and no validated draft, whose
  body did not redact to nothing, can escalate only for a reason its own record carries (a policy flag,
  the retry budget, the language, a passed SLA instant), and without an SLA instant not for SLA either.
\<close>

theorem untriaged_ticket_raises_only_record_reasons:
  assumes "featuresFromTicket inp = Inr res" "fi_triage inp = None" "fi_retrieval inp = None"
    "fi_validation inp = None" "fi_redactedBodyLength inp \<noteq> Some (Fin 0)" "premiumSeverity th > lit (1 / 4)"
    "evaluateEscalation lower (fr_features res) now th = Inr v"
  shows "(\<forall>r. v_reason v = Some r \<longrightarrow> r \<in> {POLICY, RETRY, LANG, SLA})
     \<and> (tf_slaDueAt (fi_ticket inp) = None \<longrightarrow> v_reason v \<noteq> Some SLA)"
proof -
  have f: "sentiment (fr_features res) = None" "confidence (fr_features res) = None"
    "severity (fr_features res) = Sev1" "kbResultCount (fr_features res) = None" "grounded (fr_features res) = None"
    "redactedBodyLength (fr_features res) \<noteq> Some (Fin 0)"
    "tf_slaDueAt (fi_ticket inp) = None \<longrightarrow> slaDueAt (fr_features res) = PInf"
    using assms(1-5)
    by (auto simp: featuresFromTicket_def store_reading_def UNTRIAGED_SEVERITY_def NO_SLA_INSTANT_def Let_def)
  have "\<not> isPremiumHighSeverity t Sev1 (premiumSeverity th)" for t
    using assms(6) by (simp add: isPremiumHighSeverity_def normalisedSeverity_def less_eq_jnum_def)
  moreover have "effectiveConfidence (fr_features res) th = None"
    using f by (auto simp: effectiveConfidence_def jeq_def split: option.splits)
  moreover have "effectiveGrounded (fr_features res) = None" using f by (simp add: effectiveGrounded_def)
  moreover have "\<not> isBreached (fr_features res) now" if "tf_slaDueAt (fi_ticket inp) = None"
    using f that by (cases now) (simp_all add: isBreached_def)
  ultimately show ?thesis
    using f assms(7) by (auto simp: evaluateEscalation_Inr ESCALATION_CLAUSES_def)
qed

theorem untriaged_ticket_raises_only_record_reasons_witness:
  "\<exists>res v. featuresFromTicket (sample_input\<lparr>fi_triage := None\<rparr>) = Inr res
     \<and> evaluateEscalation ascii_lower (fr_features res) (Fin 5) DEFAULT_ESCALATION_THRESHOLDS = Inr v
     \<and> v_reason v \<noteq> Some SLA"
proof -
  let ?inp = "sample_input\<lparr>fi_triage := None\<rparr>"
  obtain res where res: "featuresFromTicket ?inp = Inr res"
    by (simp add: featuresFromTicket_def store_reading_def Let_def)
  obtain v where v: "evaluateEscalation ascii_lower (fr_features res) (Fin 5) DEFAULT_ESCALATION_THRESHOLDS = Inr v"
    by (simp add: evaluateEscalation_Inr is_finite_def)
  have "lit (1 / 4) = Fin (1 / 4)" "lit (3 / 4) = Fin (3 / 4)"
    using to_num_rep [of "1 / 4"] to_num_rep [of "3 / 4"] rep_quarter [of 1] rep_quarter [of 3]
      max_range_gt1 [of "1 / 4"] max_range_gt1 [of "3 / 4"] by simp_all
  then have th: "premiumSeverity DEFAULT_ESCALATION_THRESHOLDS > lit (1 / 4)"
    by (simp add: DEFAULT_ESCALATION_THRESHOLDS_def)
  show ?thesis
    using res v untriaged_ticket_raises_only_record_reasons [OF res _ _ _ _ th v]
    by (auto simp: sample_input_def)
qed

text \<open>
  the halves the stored columns round away from zero are the halves of the double product, not of
  the decimal: the confidence written 0.5005 is stored as 0.5, one thousandth below the 0.501 that
  rounding its decimal text half away from zero, as the column itself would, gives.
\<close>

theorem quantise_stored_decimal_tie:
  "quantiseStored (lit (5005 / 10000)) = Inr (stored_grid 500) \<and> stored_grid 500 \<noteq> stored_grid 501
   \<and> (5005 / 10000 :: rat) = (of_int 500 + 1 / 2) / 1000"
proof -
  have l: "fl (5005 / 10000) = 4508103226997866 * 2 powi (- 53)"
    using fl_eval [of "- 1" "5005 / 10000" 4508103226997866] by simp
  have "fl (4508103226997866 * 2 powi (- 53) * 1000) = 8804889115230207 * 2 powi (- 44)"
    using fl_eval [of 8 "4508103226997866 * 2 powi (- 53) * 1000" 8804889115230207] by simp
  then have m: "stored_magnitude (4508103226997866 * 2 powi (- 53)) = 500"
    unfolding stored_magnitude_def by (intro floor_unique) simp_all
  have "lit (5005 / 10000) = Fin (4508103226997866 * 2 powi (- 53))"
    by (rule to_num_eval_unit [OF l]) simp
  moreover have "stored_index (4508103226997866 * 2 powi (- 53)) = 500"
    using m by (simp add: stored_index_def)
  ultimately have "quantiseStored (lit (5005 / 10000)) = Inr (stored_grid 500)"
    using quantiseStored_Fin [of "4508103226997866 * 2 powi (- 53)"] by simp
  moreover have "stored_grid 500 \<noteq> stored_grid 501"
    using index_of_grid [of 500] index_of_grid [of 501] by (auto simp: stored_grid_def)
  ultimately show ?thesis by simp
qed

end
