(* ===== verification/Heap.thy ===== *)
theory Heap
  imports Prelude
begin

section \<open>The binary heap of the simulation (makeQueueHeap in src/alg/simulation.ts)\<close>

text \<open>
  The closures of \<open>makeQueueHeap\<close> over the array \<open>entries\<close>: the array is a list, an index past
  its end is never read, and the comparison \<open>compareQueueKeys(a, b) < 0\<close> is the argument \<open>lt\<close>.
  The interface the client relies on is the locale \<open>queue_heap\<close>: under a strict order whose
  negation is transitive every operation keeps the heap and its elements, and the root is first.
\<close>

subsection \<open>The operations\<close>

definition swap :: "'a list \<Rightarrow> nat \<Rightarrow> nat \<Rightarrow> 'a list" where
  "swap es i j = es[i := es ! j, j := es ! i]"

definition parent :: "nat \<Rightarrow> nat" where
  "parent i = (i - 1) div 2"

lemma parent_less [simp]: "0 < i \<Longrightarrow> parent i < i"
  by (simp add: parent_def)

lemma parent_bound: "0 < i \<Longrightarrow> i < n \<Longrightarrow> parent i < n"
  using parent_less [of i] by linarith

function siftUp :: "('a \<Rightarrow> 'a \<Rightarrow> bool) \<Rightarrow> 'a list \<Rightarrow> nat \<Rightarrow> 'a list" where
  "siftUp lt es i =
     (if i > 0 then
        (let p = parent i
         in if lt (es ! i) (es ! p) then siftUp lt (swap es i p) p else es)
      else es)"
  by pat_completeness auto
termination by (relation "measure (\<lambda>(lt, es, i). i)") auto

definition best_child :: "('a \<Rightarrow> 'a \<Rightarrow> bool) \<Rightarrow> 'a list \<Rightarrow> nat \<Rightarrow> nat" where
  "best_child lt es i =
     (let l = i * 2 + 1; r = l + 1;
          best = (if l < length es \<and> lt (es ! l) (es ! i) then l else i)
      in if r < length es \<and> lt (es ! r) (es ! best) then r else best)"

lemma best_child_cases: "best_child lt es i = i \<or> i < best_child lt es i \<and> best_child lt es i < length es"
  by (auto simp: best_child_def Let_def)

lemma length_swap [simp]: "length (swap es i j) = length es"
  by (simp add: swap_def)

function siftDown :: "('a \<Rightarrow> 'a \<Rightarrow> bool) \<Rightarrow> 'a list \<Rightarrow> nat \<Rightarrow> 'a list" where
  "siftDown lt es i =
     (let best = best_child lt es i
      in if best = i then es else siftDown lt (swap es i best) best)"
  by pat_completeness auto
termination
proof (relation "measure (\<lambda>(lt, es, i). length es - i)")
  fix lt :: "'a \<Rightarrow> 'a \<Rightarrow> bool" and es i best
  assume "best = best_child lt es i" "best \<noteq> i"
  then have "i < best" "best < length es" using best_child_cases [of lt es i] by auto
  then show "((lt, swap es i best, best), lt, es, i) \<in> measure (\<lambda>(lt, es, i). length es - i)" by simp
qed auto

declare siftUp.simps [simp del] siftDown.simps [simp del]

definition popRoot :: "('a \<Rightarrow> 'a \<Rightarrow> bool) \<Rightarrow> 'a list \<Rightarrow> ('a \<times> 'a list) option" where
  "popRoot lt es =
     (if length es = 0 then None
      else let root = es ! 0; last_entry = last es; rest = butlast es
           in Some (root, if length rest > 0 then siftDown lt (rest[0 := last_entry]) 0 else rest))"

definition pushEntry :: "('a \<Rightarrow> 'a \<Rightarrow> bool) \<Rightarrow> 'a list \<Rightarrow> 'a \<Rightarrow> 'a list" where
  "pushEntry lt es e = siftUp lt (es @ [e]) (length es)"

text \<open>The loop of \<open>rebuild\<close>: sift down from the last inner node to the root.\<close>

definition heapify :: "('a \<Rightarrow> 'a \<Rightarrow> bool) \<Rightarrow> 'a list \<Rightarrow> 'a list" where
  "heapify lt es = foldl (siftDown lt) es (rev [0..<length es div 2])"

subsection \<open>Elements are kept\<close>

lemma nth_swap: "i < length es \<Longrightarrow> j < length es \<Longrightarrow>
    swap es i j ! k = (if k = j then es ! i else if k = i then es ! j else es ! k)"
  by (auto simp: swap_def nth_list_update)

lemma mset_swap_entries [simp]: "i < length es \<Longrightarrow> j < length es \<Longrightarrow> mset (swap es i j) = mset es"
  unfolding swap_def by (rule mset_swap)

lemma mset_siftUp: "i < length es \<Longrightarrow> mset (siftUp lt es i) = mset es"
proof (induction lt es i rule: siftUp.induct)
  case (1 lt es i)
  show ?case
  proof (cases "0 < i \<and> lt (es ! i) (es ! parent i)")
    case True
    then have "parent i < length es" using 1(2) parent_less less_trans by blast
    then show ?thesis using True 1 by (subst siftUp.simps) (simp add: Let_def)
  qed (subst siftUp.simps, auto simp: Let_def)
qed

lemma mset_siftDown: "i < length es \<Longrightarrow> mset (siftDown lt es i) = mset es"
proof (induction lt es i rule: siftDown.induct)
  case (1 lt es i)
  show ?case
  proof (cases "best_child lt es i = i")
    case False
    then have "best_child lt es i < length es" using best_child_cases [of lt es i] by auto
    then show ?thesis using False 1 by (subst siftDown.simps) (simp add: Let_def)
  qed (subst siftDown.simps, simp)
qed

lemma length_siftDown [simp]: "length (siftDown lt es i) = length es"
proof (cases "i < length es")
  case True
  from mset_siftDown [OF this] show ?thesis by (metis size_mset)
next
  case False
  then have "best_child lt es i = i" using best_child_cases [of lt es i] by auto
  then show ?thesis by (subst siftDown.simps) simp
qed

lemma heapify_invariant:
  assumes "\<And>es i. P (Suc i) es \<Longrightarrow> i < length es div 2 \<Longrightarrow> P i (siftDown lt es i)" "P (length es div 2) es"
  shows "P 0 (heapify lt es)"
proof -
  have "n \<le> length es div 2 \<Longrightarrow> P n es \<Longrightarrow> P 0 (foldl (siftDown lt) es (rev [0..<n]))" for n es
  proof (induction n arbitrary: es)
    case (Suc n)
    then have "P n (siftDown lt es n)" using assms(1) by simp
    then have "P 0 (foldl (siftDown lt) (siftDown lt es n) (rev [0..<n]))"
      using Suc.prems by (intro Suc.IH) simp_all
    then show ?case by simp
  qed simp
  then show ?thesis unfolding heapify_def using assms(2) by blast
qed

lemma mset_heapify [simp]: "mset (heapify lt es) = mset es"
  by (rule heapify_invariant [where P = "\<lambda>_ fs. mset fs = mset es"]) (simp_all add: mset_siftDown)

lemma length_heapify [simp]: "length (heapify lt es) = length es"
  using mset_heapify [of lt es] by (metis size_mset)

lemma mset_pushEntry [simp]: "mset (pushEntry lt es e) = add_mset e (mset es)"
  by (simp add: pushEntry_def mset_siftUp)

lemma popRoot_None_iff: "popRoot lt es = None \<longleftrightarrow> es = []"
  by (simp add: popRoot_def Let_def)

lemma popRoot_SomeD:
  assumes "popRoot lt es = Some (r, rest)"
  shows "es \<noteq> [] \<and> r = es ! 0 \<and> mset es = add_mset r (mset rest)"
proof -
  have ne: "es \<noteq> []" using assms by (auto simp: popRoot_def)
  have r: "r = es ! 0"
    and rest: "rest = (if butlast es \<noteq> [] then siftDown lt ((butlast es)[0 := last es]) 0 else butlast es)"
    using assms ne by (auto simp add: popRoot_def Let_def simp del: length_butlast)
  have "mset es = add_mset r (mset rest)"
  proof (cases es)
    case (Cons x xs)
    show ?thesis
    proof (cases "xs = []")
      case False
      then have "mset xs = add_mset (last xs) (mset (butlast xs))"
        by (metis append_butlast_last_id mset_append add.commute add_mset_add_single mset.simps(2) mset.simps(1))
      with False Cons show ?thesis by (simp add: rest r mset_siftDown)
    qed (use Cons rest r in simp)
  qed (use ne in simp)
  with ne r show ?thesis by blast
qed

subsection \<open>The heap order\<close>

text \<open>
  \<open>edges lt s x es\<close>: no entry stands before its parent, for the parents from \<open>s\<close> on, the node
  \<open>x\<close> apart; \<open>bridge lt x es\<close>: the children of \<open>x\<close> do not stand before the parent of \<open>x\<close>.
\<close>

definition edges :: "('a \<Rightarrow> 'a \<Rightarrow> bool) \<Rightarrow> (nat \<Rightarrow> bool) \<Rightarrow> 'a list \<Rightarrow> bool" where
  "edges lt on es = (\<forall>j. 0 < j \<and> j < length es \<and> on j \<longrightarrow> \<not> lt (es ! j) (es ! parent j))"

definition bridge :: "('a \<Rightarrow> 'a \<Rightarrow> bool) \<Rightarrow> nat \<Rightarrow> 'a list \<Rightarrow> bool" where
  "bridge lt x es = (\<forall>j. 0 < j \<and> j < length es \<and> parent j = x \<longrightarrow> \<not> lt (es ! j) (es ! parent x))"

definition is_heap :: "('a \<Rightarrow> 'a \<Rightarrow> bool) \<Rightarrow> 'a list \<Rightarrow> bool" where
  "is_heap lt es = edges lt (\<lambda>_. True) es"

lemma children: "0 < j \<Longrightarrow> parent j = i \<longleftrightarrow> j = i * 2 + 1 \<or> j = i * 2 + 2"
  unfolding parent_def by linarith

lemma best_child_lt:
  "best_child lt es i \<noteq> i \<Longrightarrow> parent (best_child lt es i) = i"
  by (auto simp: best_child_def Let_def parent_def split: if_splits)

locale queue_heap =
  fixes lt :: "'a \<Rightarrow> 'a \<Rightarrow> bool" and ok :: "'a \<Rightarrow> bool"
  assumes asym: "ok x \<Longrightarrow> ok y \<Longrightarrow> lt x y \<Longrightarrow> \<not> lt y x"
    and le_trans: "ok x \<Longrightarrow> ok y \<Longrightarrow> ok z \<Longrightarrow> \<not> lt y x \<Longrightarrow> \<not> lt z y \<Longrightarrow> \<not> lt z x"
begin

lemma ok_nth: "\<forall>x \<in> set es. ok x \<Longrightarrow> i < length es \<Longrightarrow> ok (es ! i)"
  by simp

lemma irrefl: "ok x \<Longrightarrow> \<not> lt x x"
  using asym by blast

text \<open>One turn of the two loops keeps the order everywhere but at the node it moves to.\<close>

lemma swap_up:
  assumes ok: "\<forall>x \<in> set es. ok x" and i: "0 < i" "i < length es"
    and e: "edges lt (\<lambda>j. j \<noteq> i) es" and b: "bridge lt i es" and less: "lt (es ! i) (es ! parent i)"
  shows "edges lt (\<lambda>j. j \<noteq> parent i) (swap es i (parent i))
     \<and> (0 < parent i \<longrightarrow> bridge lt (parent i) (swap es i (parent i)))"
proof -
  let ?p = "parent i" and ?es = "swap es i (parent i)"
  have pi: "?p < i" "?p < length es" using i parent_bound by simp_all
  have nth: "?es ! k = (if k = ?p then es ! i else if k = i then es ! ?p else es ! k)" for k
    using i(2) pi(2) by (rule nth_swap)
  note okn = ok_nth [OF ok]
  have edge: "\<not> lt (es ! j) (es ! parent j)" if "0 < j" "j < length es" "j \<noteq> i" for j
    using e that by (simp add: edges_def)
  have br: "\<not> lt (es ! j) (es ! ?p)" if "0 < j" "j < length es" "parent j = i" for j
    using b that by (simp add: bridge_def)
  have down: "\<not> lt (es ! ?p) (es ! i)" using less asym okn i pi by blast
  have sib: "\<not> lt (es ! j) (es ! i)" if "0 < j" "j < length es" "parent j = ?p" "j \<noteq> i" for j
  proof -
    have "\<not> lt (es ! j) (es ! ?p)" using edge [OF that(1,2,4)] that(3) by simp
    from le_trans [OF _ _ _ down this] show ?thesis using okn i pi that by simp
  qed
  have "edges lt (\<lambda>j. j \<noteq> ?p) ?es"
    unfolding edges_def
  proof (intro allI impI)
    fix j assume j: "0 < j \<and> j < length ?es \<and> j \<noteq> ?p"
    then have "parent j \<noteq> j" by (metis parent_less less_irrefl)
    then show "\<not> lt (?es ! j) (?es ! parent j)"
      using j down sib [of j] br [of j] edge [of j] pi(1) by (auto simp: nth)
  qed
  moreover have "bridge lt ?p ?es" if "0 < ?p"
    unfolding bridge_def
  proof (intro allI impI)
    fix j assume j: "0 < j \<and> j < length ?es \<and> parent j = ?p"
    let ?g = "parent ?p"
    have g: "?g < ?p" using parent_less [OF that] .
    have up: "\<not> lt (es ! ?p) (es ! ?g)" using edge [OF that pi(2)] pi(1) by simp
    have "\<not> lt (es ! j) (es ! ?g)" if "j \<noteq> i"
    proof -
      have "\<not> lt (es ! j) (es ! ?p)" using edge [of j] j that by simp
      from le_trans [OF _ _ _ up this] show ?thesis using okn j pi g by simp
    qed
    moreover have "?p \<noteq> j" using j parent_less [of j] by auto
    ultimately show "\<not> lt (?es ! j) (?es ! parent ?p)" using j up pi g by (auto simp: nth)
  qed
  ultimately show ?thesis by blast
qed

lemma siftUp_heap:
  "\<forall>x \<in> set es. ok x \<Longrightarrow> i < length es \<Longrightarrow> edges lt (\<lambda>j. j \<noteq> i) es \<Longrightarrow>
   (0 < i \<longrightarrow> bridge lt i es) \<Longrightarrow> is_heap lt (siftUp lt es i)"
proof (induction i arbitrary: es rule: less_induct)
  case (less i)
  show ?case
  proof (cases "0 < i \<and> lt (es ! i) (es ! parent i)")
    case True
    let ?es = "swap es i (parent i)"
    have p: "parent i < i" "parent i < length es" using True less.prems(2) parent_bound by simp_all
    have ok: "\<forall>x \<in> set ?es. ok x"
      using less.prems(1) mset_swap_entries [OF less.prems(2) p(2)] by (metis set_mset_mset)
    have "is_heap lt (siftUp lt ?es (parent i))"
      using swap_up [OF less.prems(1) _ less.prems(2,3)] less.prems(4) True p ok
      by (intro less.IH) auto
    then show ?thesis using True by (subst siftUp.simps) (simp add: Let_def)
  next
    case False
    then have "siftUp lt es i = es" by (subst siftUp.simps) (auto simp: Let_def)
    moreover have "is_heap lt es" using False less.prems(3) unfolding is_heap_def edges_def by blast
    ultimately show ?thesis by simp
  qed
qed

lemma best_child_first:
  assumes ok: "\<forall>x \<in> set es. ok x" and i: "i < length es"
  shows "best_child lt es i \<noteq> i \<longrightarrow> lt (es ! best_child lt es i) (es ! i)"
    and "0 < j \<Longrightarrow> j < length es \<Longrightarrow> parent j = i \<Longrightarrow> \<not> lt (es ! j) (es ! best_child lt es i)"
proof -
  let ?l = "i * 2 + 1" and ?r = "i * 2 + 1 + 1" and ?c = "best_child lt es i"
  note okn = ok_nth [OF ok]
  have tr: "\<not> lt (es ! z) (es ! x)"
    if "\<not> lt (es ! y) (es ! x)" "\<not> lt (es ! z) (es ! y)" "x < length es" "y < length es" "z < length es" for x y z
    using le_trans okn that by blast
  have as: "\<not> lt (es ! y) (es ! x)" if "lt (es ! x) (es ! y)" "x < length es" "y < length es" for x y
    using asym okn that by blast
  have self: "\<not> lt (es ! x) (es ! x)" if "x < length es" for x using irrefl okn that by blast
  have "(?c \<noteq> i \<longrightarrow> lt (es ! ?c) (es ! i)) \<and> (?l < length es \<longrightarrow> \<not> lt (es ! ?l) (es ! ?c))
      \<and> (?r < length es \<longrightarrow> \<not> lt (es ! ?r) (es ! ?c))"
  proof (cases "?l < length es \<and> lt (es ! ?l) (es ! i)")
    case l: True
    show ?thesis
    proof (cases "?r < length es \<and> lt (es ! ?r) (es ! ?l)")
      case True
      then have c: "?c = ?r" using l by (simp add: best_child_def Let_def)
      have "lt (es ! ?r) (es ! i)"
        using tr [of i ?l ?r] as [of ?l i] l True i by blast
      then show ?thesis using c True as [of ?r ?l] self [of ?r] l by simp
    next
      case False
      then have "?c = ?l" using l by (simp add: best_child_def Let_def)
      then show ?thesis using l False self [of ?l] by simp
    qed
  next
    case l: False
    show ?thesis
    proof (cases "?r < length es \<and> lt (es ! ?r) (es ! i)")
      case True
      then have c: "?c = ?r" using l by (simp add: best_child_def Let_def)
      have "\<not> lt (es ! ?l) (es ! ?r)" if "?l < length es"
        using tr [of i ?r ?l] as [of ?r i] l True i that by blast
      then show ?thesis using c True self [of ?r] by simp
    next
      case False
      then have "?c = i" using l by (simp add: best_child_def Let_def)
      then show ?thesis using l False by simp
    qed
  qed
  then show "?c \<noteq> i \<longrightarrow> lt (es ! ?c) (es ! i)"
    "0 < j \<Longrightarrow> j < length es \<Longrightarrow> parent j = i \<Longrightarrow> \<not> lt (es ! j) (es ! ?c)"
    using children [of j i] by (blast, auto)
qed

lemma swap_down:
  assumes ok: "\<forall>x \<in> set es. ok x" and s: "s \<le> i" and i: "best_child lt es i \<noteq> i"
    and e: "edges lt (\<lambda>j. s \<le> parent j \<and> parent j \<noteq> i) es" and b: "s < i \<longrightarrow> s \<le> parent i \<longrightarrow> bridge lt i es"
  shows "edges lt (\<lambda>j. s \<le> parent j \<and> parent j \<noteq> best_child lt es i) (swap es i (best_child lt es i))
     \<and> bridge lt (best_child lt es i) (swap es i (best_child lt es i))"
proof -
  let ?c = "best_child lt es i" and ?es = "swap es i (best_child lt es i)"
  have c: "i < ?c" "?c < length es" "parent ?c = i" "i < length es"
    using best_child_cases [of lt es i] best_child_lt [OF i] i by auto
  have nth: "?es ! k = (if k = ?c then es ! i else if k = i then es ! ?c else es ! k)" for k
    using c(4,2) by (rule nth_swap)
  note okn = ok_nth [OF ok]
  have edge: "\<not> lt (es ! j) (es ! parent j)" if "0 < j" "j < length es" "s \<le> parent j" "parent j \<noteq> i" for j
    using e that by (simp add: edges_def)
  have less: "lt (es ! ?c) (es ! i)" using best_child_first(1) [OF ok c(4)] i by blast
  then have down: "\<not> lt (es ! i) (es ! ?c)" using asym okn c by blast
  have sib: "\<not> lt (es ! j) (es ! ?c)" if "0 < j" "j < length es" "parent j = i" for j
    using best_child_first(2) [OF ok c(4) that] .
  have up: "\<not> lt (es ! i) (es ! parent i)" if "0 < i" "s \<le> parent i"
    using edge [OF that(1) c(4) that(2)] parent_less [OF that(1)] by simp
  have edges: "edges lt (\<lambda>j. s \<le> parent j \<and> parent j \<noteq> ?c) ?es"
    unfolding edges_def
  proof (intro allI impI)
    fix j assume j: "0 < j \<and> j < length ?es \<and> s \<le> parent j \<and> parent j \<noteq> ?c"
    then have ne: "parent j \<noteq> j" by (metis parent_less less_irrefl)
    show "\<not> lt (?es ! j) (?es ! parent j)"
    proof (cases "parent j = i")
      case True
      then show ?thesis using j down sib [of j] c ne by (auto simp: nth)
    next
      case False
      moreover have "\<not> lt (es ! ?c) (es ! parent i)" if "j = i"
      proof -
        have i0: "0 < i" "s \<le> parent i" using j that by auto
        have "s < i" using i0 parent_less [OF i0(1)] by linarith
        note i0 = i0 this
        then have "bridge lt i es" using b by blast
        then show ?thesis using c i0 unfolding bridge_def by auto
      qed
      ultimately show ?thesis using j edge [of j] c by (auto simp: nth)
    qed
  qed
  have "bridge lt ?c ?es"
    unfolding bridge_def
  proof (intro allI impI)
    fix j assume j: "0 < j \<and> j < length ?es \<and> parent j = ?c"
    then have "\<not> lt (es ! j) (es ! ?c)" "?c < j" using edge [of j] s c parent_less [of j] by auto
    then show "\<not> lt (?es ! j) (?es ! parent ?c)" using c by (auto simp: nth)
  qed
  with edges show ?thesis by blast
qed

lemma siftDown_edges:
  "\<forall>x \<in> set es. ok x \<Longrightarrow> s \<le> i \<Longrightarrow> edges lt (\<lambda>j. s \<le> parent j \<and> parent j \<noteq> i) es \<Longrightarrow>
   (s < i \<longrightarrow> s \<le> parent i \<longrightarrow> bridge lt i es) \<Longrightarrow> edges lt (\<lambda>j. s \<le> parent j) (siftDown lt es i)"
proof (induction "length es - i" arbitrary: es i rule: less_induct)
  case less
  let ?c = "best_child lt es i" and ?es = "swap es i (best_child lt es i)"
  show ?case
  proof (cases "?c = i")
    case True
    then have same: "siftDown lt es i = es" by (subst siftDown.simps) simp
    have "\<not> lt (es ! j) (es ! parent j)" if j: "0 < j" "j < length es" "s \<le> parent j" for j
    proof (cases "parent j = i")
      case True
      have "i < length es" using j True parent_bound by blast
      from best_child_first(2) [OF less.prems(1) this j(1,2) True] show ?thesis
        using True \<open>?c = i\<close> by simp
    next
      case False
      then show ?thesis using less.prems(3) j by (simp add: edges_def)
    qed
    then show ?thesis by (simp add: same edges_def)
  next
    case False
    have c: "i < ?c" "?c < length es" using best_child_cases [of lt es i] False by auto
    have ok: "\<forall>x \<in> set ?es. ok x"
      using less.prems(1) mset_swap_entries [of i es ?c] c by (metis set_mset_mset less_trans)
    have "edges lt (\<lambda>j. s \<le> parent j) (siftDown lt ?es ?c)"
      using swap_down [OF less.prems(1,2) False less.prems(3,4)] c ok less.prems(2)
      by (intro less.hyps) auto
    then show ?thesis using False by (subst siftDown.simps) (simp add: Let_def)
  qed
qed

lemma siftDown_heap:
  "\<forall>x \<in> set es. ok x \<Longrightarrow> edges lt (\<lambda>j. parent j \<noteq> 0) es \<Longrightarrow> is_heap lt (siftDown lt es 0)"
  using siftDown_edges [of es 0 0] by (simp add: is_heap_def)

lemma heapify_heap: "\<forall>x \<in> set es. ok x \<Longrightarrow> is_heap lt (heapify lt es)"
proof -
  assume ok: "\<forall>x \<in> set es. ok x"
  let ?P = "\<lambda>s fs. length fs = length es \<and> mset fs = mset es \<and> edges lt (\<lambda>j. s \<le> parent j) fs"
  have "?P 0 (heapify lt es)"
  proof (rule heapify_invariant [where P = ?P])
    fix fs i assume P: "?P (Suc i) fs" and i: "i < length fs div 2"
    have "\<forall>x \<in> set fs. ok x" using ok P by (metis set_mset_mset)
    moreover have "edges lt (\<lambda>j. i \<le> parent j \<and> parent j \<noteq> i) fs" using P by (auto simp: edges_def)
    ultimately have "edges lt (\<lambda>j. i \<le> parent j) (siftDown lt fs i)" by (intro siftDown_edges) auto
    with P i show "?P i (siftDown lt fs i)" using mset_siftDown [of i fs lt] by simp
  next
    have "\<not> length es div 2 \<le> parent j" if "0 < j" "j < length es" for j
      using that unfolding parent_def by linarith
    then show "?P (length es div 2) es" by (auto simp: edges_def)
  qed
  then show ?thesis by (simp add: is_heap_def)
qed

lemma pushEntry_heap:
  assumes "is_heap lt es" "\<forall>x \<in> set es. ok x" "ok e" shows "is_heap lt (pushEntry lt es e)"
  unfolding pushEntry_def
proof (rule siftUp_heap)
  show "edges lt (\<lambda>j. j \<noteq> length es) (es @ [e])"
    unfolding edges_def
  proof (intro allI impI)
    fix j assume j: "0 < j \<and> j < length (es @ [e]) \<and> j \<noteq> length es"
    then have "j < length es" "parent j < length es" using parent_bound [of j "length es"] by auto
    then show "\<not> lt ((es @ [e]) ! j) ((es @ [e]) ! parent j)"
      using assms(1) j by (simp add: is_heap_def edges_def nth_append)
  qed
  have none: "parent j \<noteq> length es" if "0 < j" "j < Suc (length es)" for j
    using parent_less [OF that(1)] that by linarith
  show "0 < length es \<longrightarrow> bridge lt (length es) (es @ [e])" unfolding bridge_def using none by auto
qed (use assms in auto)

text \<open>The root of a heap stands before nothing it should follow.\<close>

lemma heap_root_first:
  assumes "is_heap lt es" "\<forall>x \<in> set es. ok x" "i < length es"
  shows "\<not> lt (es ! i) (es ! 0)"
  using assms(3)
proof (induction i rule: less_induct)
  case (less i)
  show ?case
  proof (cases "i = 0")
    case True
    then show ?thesis using irrefl assms(2) less.prems by simp
  next
    case False
    then have p: "parent i < i" "parent i < length es" using less.prems parent_bound by simp_all
    have "\<not> lt (es ! parent i) (es ! 0)" using less.IH p by blast
    moreover have "\<not> lt (es ! i) (es ! parent i)" using assms(1) less.prems False by (simp add: is_heap_def edges_def)
    moreover have "0 < length es" using less.prems by linarith
    ultimately show ?thesis using le_trans [of "es ! 0" "es ! parent i" "es ! i"] assms(2) less.prems p by simp
  qed
qed

lemma popRoot_heap:
  assumes "popRoot lt es = Some (r, rest)" "is_heap lt es" "\<forall>x \<in> set es. ok x"
  shows "is_heap lt rest \<and> (\<forall>x \<in> set rest. ok x \<and> \<not> lt x r) \<and> ok r"
proof -
  have m: "es \<noteq> []" "r = es ! 0" "mset es = add_mset r (mset rest)" using popRoot_SomeD [OF assms(1)] by auto
  have sub: "x \<in> set es" if "x \<in> set rest" for x
    using that m(3) by (metis insert_iff set_mset_add_mset_insert set_mset_mset)
  let ?b = "(butlast es)[0 := last es]"
  have rest: "rest = (if butlast es \<noteq> [] then siftDown lt ?b 0 else [])"
    using assms(1) m(1) by (auto simp: popRoot_def Let_def simp del: length_butlast)
  have "is_heap lt rest"
  proof (cases "butlast es = []")
    case False
    have "edges lt (\<lambda>j. parent j \<noteq> 0) ?b"
      unfolding edges_def
    proof (intro allI impI)
      fix j assume j: "0 < j \<and> j < length ?b \<and> parent j \<noteq> 0"
      then have b: "j < length es - 1" "parent j < length es - 1" using parent_bound [of j "length es - 1"] by auto
      have "j < length es" using b by linarith
      then have "\<not> lt (es ! j) (es ! parent j)" using assms(2) j by (simp add: is_heap_def edges_def)
      then show "\<not> lt (?b ! j) (?b ! parent j)" using j b by (simp add: nth_list_update nth_butlast)
    qed
    moreover have "\<forall>x \<in> set ?b. ok x"
    proof
      fix x assume "x \<in> set ?b"
      then have "x \<in> insert (last es) (set (butlast es))"
        by (rule subsetD [OF set_update_subset_insert])
      then show "ok x" using assms(3) m(1) by (auto dest: in_set_butlastD)
    qed
    ultimately show ?thesis using False siftDown_heap by (simp add: rest)
  qed (simp add: rest is_heap_def edges_def)
  moreover have "ok x \<and> \<not> lt x r" if x: "x \<in> set rest" for x
  proof -
    obtain i where "i < length es" "x = es ! i" using sub [OF x] by (auto simp: in_set_conv_nth)
    then show ?thesis using heap_root_first [OF assms(2,3)] assms(3) m(2) by simp
  qed
  moreover have "ok r" using m assms(3) by auto
  ultimately show ?thesis by blast
qed

end

text \<open>The order of a heap is an order a sort can use: the comparator contract with its sign turned.\<close>

sublocale queue_heap \<subseteq> sorting: comparator "\<lambda>a b. lt b a" ok
proof
  show "\<And>x y. ok x \<Longrightarrow> ok y \<Longrightarrow> lt y x \<Longrightarrow> \<not> lt x y" using asym by blast
  show "\<And>x y z. ok x \<Longrightarrow> ok y \<Longrightarrow> ok z \<Longrightarrow> \<not> lt y x \<Longrightarrow> \<not> lt z y \<Longrightarrow> \<not> lt z x" using le_trans by blast
qed

end
