(* ===== verification/Queue_Order.thy ===== *)
theory Queue_Order
  imports Priority Js_Text
begin

section \<open>The order of the queue, its stored encoding, and the dedupe window\<close>

text \<open>
  The second half of src/alg/priority.ts: the order key and its comparator, the sorted queue,
  the textual collation of the same key, reopening, and the folding of duplicate submissions.
\<close>

subsection \<open>The order key and the comparator\<close>

record queue_key =
  k_breached :: bool
  k_priority :: jnum
  k_createdAt :: jnum
  k_id :: jstr

definition queueKey ::
    "'a queue_features_scheme \<Rightarrow> jnum \<Rightarrow> priority_weights \<Rightarrow> js_error + queue_key" where
  "queueKey f now w =
     bind_err (computePriority f now w) (\<lambda>b.
       Inr \<lparr>k_breached = breached b, k_priority = storedScore b, k_createdAt = createdAt f,
            k_id = tid f\<rparr>)"

definition compareQueueKeys :: "queue_key \<Rightarrow> queue_key \<Rightarrow> jnum" where
  "compareQueueKeys a b =
     (if k_breached a \<noteq> k_breached b then (if k_breached a then Fin (- 1) else Fin 1)
      else if \<not> jeq (k_priority a) (k_priority b) then jsub (k_priority b) (k_priority a)
      else if \<not> jeq (k_createdAt a) (k_createdAt b) then jsub (k_createdAt a) (k_createdAt b)
      else if k_id a = k_id b then Fin 0
      else if k_id a < k_id b then Fin (- 1) else Fin 1)"

text \<open>\<open>Array.prototype.sort\<close> reads the comparator's sign.\<close>

definition served_after :: "queue_key \<Rightarrow> queue_key \<Rightarrow> bool" where
  "served_after a b = (compareQueueKeys a b > Fin 0)"

definition orderQueue ::
    "'a queue_features_scheme list \<Rightarrow> jnum \<Rightarrow> priority_weights
       \<Rightarrow> js_error + 'a queue_features_scheme list" where
  "orderQueue tickets now w =
     bind_err (map_err (\<lambda>t. bind_err (queueKey t now w) (\<lambda>k. Inr (t, k))) tickets) (\<lambda>keyed.
       Inr (map fst (stable_sort (\<lambda>a b. served_after (snd a) (snd b)) keyed)))"

subsection \<open>The collation key\<close>

definition COLLATION_TIME_WIDTH :: nat where
  "COLLATION_TIME_WIDTH = 15"

definition COLLATION_PRIORITY_CEILING :: jnum where
  "COLLATION_PRIORITY_CEILING = Fin 9999999"

definition storedCollationKey :: "queue_key \<Rightarrow> js_error + jstr" where
  "storedCollationKey key =
     (let priority = jround (jmul (k_priority key) PRIORITY_SCALE)
      in if priority < Fin 0 \<or> priority > COLLATION_PRIORITY_CEILING then Inl RangeError
         else if k_createdAt key < Fin 0
                 \<or> length (num_string (k_createdAt key)) > COLLATION_TIME_WIDTH then Inl RangeError
         else Inr ((if k_breached key then u ''0'' else u ''1'') @ u ''|''
                   @ pad_start 7 48 (num_string (jsub COLLATION_PRIORITY_CEILING priority)) @ u ''|''
                   @ pad_start COLLATION_TIME_WIDTH 48 (num_string (k_createdAt key)) @ u ''|''
                   @ k_id key))"

definition compareStoredRows :: "queue_key \<Rightarrow> queue_key \<Rightarrow> js_error + jnum" where
  "compareStoredRows a b =
     bind_err (storedCollationKey a) (\<lambda>left.
     bind_err (storedCollationKey b) (\<lambda>right.
       Inr (if left = right then Fin 0 else if left < right then Fin (- 1) else Fin 1)))"

subsection \<open>Reopening\<close>

definition applyReopen ::
    "'a queue_features_scheme \<Rightarrow> jnum \<Rightarrow> jnum \<Rightarrow> js_error + 'a queue_features_scheme" where
  "applyReopen f reopenedAt slaWindowMs =
     (if slaWindowMs \<le> Fin 0 then Inl RangeError
      else Inr (f\<lparr>createdAt := reopenedAt, slaDueAt := jadd reopenedAt slaWindowMs\<rparr>))"

subsection \<open>Duplicate submissions\<close>

definition DEFAULT_DEDUPE_WINDOW_MS :: jnum where
  "DEFAULT_DEDUPE_WINDOW_MS = Fin (5 * 60 * 1000)"

definition dedupeKey :: "jstr \<Rightarrow> jstr \<Rightarrow> jnum \<Rightarrow> jstr" where
  "dedupeKey orgId bodySha256 anchor = orgId @ u '':'' @ bodySha256 @ u '':'' @ num_string anchor"

record submission =
  sub_id :: jstr
  orgId :: jstr
  bodySha256 :: jstr
  sub_createdAt :: jnum

record dedupe_incumbent =
  inc_id :: jstr
  inc_anchor :: jnum
  inc_open :: bool

record dedupe_decision =
  d_key :: jstr
  d_collapse :: bool
  d_collapsedInto :: "jstr option"
  d_anchor :: jnum

definition dedupeDecision ::
    "submission \<Rightarrow> dedupe_incumbent option \<Rightarrow> jnum \<Rightarrow> dedupe_decision" where
  "dedupeDecision s incumbent windowMs =
     (let fresh = \<lparr>d_key = dedupeKey (orgId s) (bodySha256 s) (sub_createdAt s), d_collapse = False,
                   d_collapsedInto = None, d_anchor = sub_createdAt s\<rparr>
      in case incumbent of
           None \<Rightarrow> fresh
         | Some i \<Rightarrow>
             if \<not> inc_open i then fresh
             else let gap = jsub (sub_createdAt s) (inc_anchor i)
                  in if gap < Fin 0 \<or> gap \<ge> windowMs then fresh
                     else \<lparr>d_key = dedupeKey (orgId s) (bodySha256 s) (inc_anchor i), d_collapse = True,
                           d_collapsedInto = Some (inc_id i), d_anchor = inc_anchor i\<rparr>)"

definition content_key :: "submission \<Rightarrow> jstr" where
  "content_key s = orgId s @ u '':'' @ bodySha256 s"

text \<open>One turn of the loop: the open groups, the admitted and the collapsed so far.\<close>

record collapse_state =
  openGroups :: "jstr \<rightharpoonup> dedupe_incumbent"
  admitted :: "(submission \<times> jstr) list"
  collapsed :: "(submission \<times> jstr) list"

definition collapse_step :: "jnum \<Rightarrow> collapse_state \<Rightarrow> submission \<Rightarrow> collapse_state" where
  "collapse_step windowMs st s =
     (let content = content_key s;
          decision = dedupeDecision s (openGroups st content) windowMs
      in case (d_collapse decision, d_collapsedInto decision) of
           (True, Some into) \<Rightarrow> st\<lparr>collapsed := collapsed st @ [(s, into)]\<rparr>
         | _ \<Rightarrow> st\<lparr>openGroups := (openGroups st)(content \<mapsto>
                      \<lparr>inc_id = sub_id s, inc_anchor = d_anchor decision, inc_open = True\<rparr>),
                  admitted := admitted st @ [(s, d_key decision)]\<rparr>)"

definition empty_collapse :: collapse_state where
  "empty_collapse = \<lparr>openGroups = Map.empty, admitted = [], collapsed = []\<rparr>"

definition collapseDuplicates :: "submission list \<Rightarrow> jnum \<Rightarrow> collapse_state" where
  "collapseDuplicates submissions windowMs = foldl (collapse_step windowMs) empty_collapse submissions"

subsection \<open>Doubles on the key compare by the sign of their difference\<close>

lemma rep_multiple: "rep x \<Longrightarrow> \<exists>k. x = of_int k * 2 powi (- 1074)"
proof -
  assume "rep x"
  then obtain m e where x: "x = of_int m * 2 powi e" and e: "- 1074 \<le> e" by (auto simp: rep_def)
  have "(2::rat) powi e = of_int (2 ^ nat (e + 1074)) * 2 powi (- 1074)"
    using e powi_int [of "e + 1074"] by (simp add: power_int_add)
  then have "x = of_int (m * 2 ^ nat (e + 1074)) * 2 powi (- 1074)" using x by simp
  then show ?thesis by blast
qed

lemma fl_diff_pos:
  assumes "rep x" "rep y" "x < y" shows "0 < fl (y - x)"
proof -
  obtain k l where k: "x = of_int k * 2 powi (- 1074)" and l: "y = of_int l * 2 powi (- 1074)"
    using rep_multiple assms by meson
  have p: "0 < (2::rat) powi (- 1074)" by simp
  have "k < l"
  proof (rule ccontr)
    assume "\<not> k < l"
    then have "(of_int l :: rat) \<le> of_int k" by simp
    then have "y \<le> x" unfolding k l using p by (intro mult_right_mono) auto
    with assms(3) show False by simp
  qed
  then have "(1::rat) \<le> of_int (l - k)" by simp
  then have "1 * 2 powi (- 1074) \<le> of_int (l - k) * (2::rat) powi (- 1074)"
    using p by (intro mult_right_mono) auto
  also have "\<dots> = y - x" unfolding k l by (simp only: of_int_diff left_diff_distrib)
  finally have "2 powi (- 1074) \<le> fl (y - x)"
    using rep_powi [of "- 1074"] by (intro b64.ge_bound) simp_all
  with p show ?thesis by linarith
qed

lemma instant_diff_sign:
  assumes "wf_instant a" "wf_instant b"
  shows "(jsub a b > Fin 0) = (a > b)" "(jsub a b < Fin 0) = (a < b)" "jsub a b = Fin 0 \<longleftrightarrow> a = b"
proof -
  obtain x y where xy: "a = Fin x" "b = Fin y" "rep x" "rep y" "jsub a b = Fin (fl (x - y))"
    by (rule instant_elapsed [OF assms])
  have "fl (x - y) = - fl (y - x)" using fl_uminus [of "y - x"] by simp
  then have "(0 < fl (x - y) \<longleftrightarrow> y < x) \<and> (fl (x - y) < 0 \<longleftrightarrow> x < y)"
    using fl_diff_pos [OF xy(3,4)] fl_diff_pos [OF xy(4,3)]
    by (cases x y rule: linorder_cases) auto
  then show "(jsub a b > Fin 0) = (a > b)" "(jsub a b < Fin 0) = (a < b)" "jsub a b = Fin 0 \<longleftrightarrow> a = b"
    by (auto simp: xy(5)) (auto simp: xy(1,2))
qed

subsection \<open>The comparator is a strict total order on keys\<close>

definition wf_key :: "queue_key \<Rightarrow> bool" where
  "wf_key k = (wf_instant (k_priority k) \<and> wf_instant (k_createdAt k))"

text \<open>The published order, stated over the columns: what the comparator's sign must mean.\<close>

definition precedes :: "queue_key \<Rightarrow> queue_key \<Rightarrow> bool" where
  "precedes a b =
     (if k_breached a \<noteq> k_breached b then k_breached a
      else if k_priority a \<noteq> k_priority b then k_priority a > k_priority b
      else if k_createdAt a \<noteq> k_createdAt b then k_createdAt a < k_createdAt b
      else k_id a < k_id b)"

lemma wf_instant_not_NaN: "wf_instant a \<Longrightarrow> a \<noteq> NaN"
  by (auto elim: wf_instantE)

lemma wf_instant_linear: "wf_instant a \<Longrightarrow> wf_instant b \<Longrightarrow> a < b \<or> a = b \<or> b < a"
  by (rule jnum_less_linear) (auto dest: wf_instant_not_NaN)

lemma jnum_less_asym: "(a::jnum) < b \<Longrightarrow> \<not> b < a"
  using jnum_less_trans [of a b a] by auto

lemma key_eqI:
  "k_breached a = k_breached b \<Longrightarrow> k_priority a = k_priority b \<Longrightarrow> k_createdAt a = k_createdAt b \<Longrightarrow>
     k_id a = k_id b \<Longrightarrow> a = (b :: queue_key)"
  by simp

lemma compare_sign:
  assumes "wf_key a" "wf_key b"
  shows "compareQueueKeys a b < Fin 0 \<longleftrightarrow> precedes a b"
    and "compareQueueKeys a b > Fin 0 \<longleftrightarrow> precedes b a"
    and "compareQueueKeys a b = Fin 0 \<longleftrightarrow> a = b"
proof -
  have pri: "wf_instant (k_priority a)" "wf_instant (k_priority b)"
    and cre: "wf_instant (k_createdAt a)" "wf_instant (k_createdAt b)"
    using assms by (auto simp: wf_key_def)
  have jp: "jeq (k_priority a) (k_priority b) \<longleftrightarrow> k_priority a = k_priority b"
    and jc: "jeq (k_createdAt a) (k_createdAt b) \<longleftrightarrow> k_createdAt a = k_createdAt b"
    using pri cre by (auto simp: jeq_def dest: wf_instant_not_NaN)
  have "compareQueueKeys a b =
     (if k_breached a \<noteq> k_breached b then (if k_breached a then Fin (- 1) else Fin 1)
      else if k_priority a \<noteq> k_priority b then jsub (k_priority b) (k_priority a)
      else if k_createdAt a \<noteq> k_createdAt b then jsub (k_createdAt a) (k_createdAt b)
      else if k_id a = k_id b then Fin 0
      else if k_id a < k_id b then Fin (- 1) else Fin 1)"
    by (simp only: compareQueueKeys_def jp jc)
  note def = this precedes_def [of a b] precedes_def [of b a]
  have "(compareQueueKeys a b < Fin 0 \<longleftrightarrow> precedes a b)
      \<and> (compareQueueKeys a b > Fin 0 \<longleftrightarrow> precedes b a) \<and> (compareQueueKeys a b = Fin 0 \<longleftrightarrow> a = b)"
  proof (cases "k_breached a = k_breached b")
    case False
    then show ?thesis by (auto simp: def)
  next
    case br: True
    show ?thesis
    proof (cases "k_priority a = k_priority b")
      case False
      with br show ?thesis using instant_diff_sign [OF pri(2,1)] by (auto simp: def)
    next
      case pr: True
      show ?thesis
      proof (cases "k_createdAt a = k_createdAt b")
        case False
        with br pr show ?thesis using instant_diff_sign [OF cre] by (auto simp: def)
      next
        case True
        with br pr show ?thesis using key_eqI [of a b]
          by (cases "k_id a" "k_id b" rule: linorder_cases) (auto simp: def)
      qed
    qed
  qed
  then show "compareQueueKeys a b < Fin 0 \<longleftrightarrow> precedes a b"
    "compareQueueKeys a b > Fin 0 \<longleftrightarrow> precedes b a" "compareQueueKeys a b = Fin 0 \<longleftrightarrow> a = b"
    by blast+
qed

lemma precedes_irrefl: "\<not> precedes a a"
  by (simp add: precedes_def)

lemma precedes_linear: "wf_key a \<Longrightarrow> wf_key b \<Longrightarrow> precedes a b \<or> a = b \<or> precedes b a"
  using wf_instant_linear [of "k_priority a" "k_priority b"]
    wf_instant_linear [of "k_createdAt a" "k_createdAt b"]
  by (auto simp: precedes_def wf_key_def)

lemma precedes_trans: "precedes a b \<Longrightarrow> precedes b c \<Longrightarrow> precedes a c"
  unfolding precedes_def by (auto split: if_splits dest: jnum_less_trans jnum_less_asym)

lemma precedes_asym: "precedes a b \<Longrightarrow> \<not> precedes b a"
  using precedes_trans precedes_irrefl by blast

interpretation queue_cmp: comparator served_after wf_key
proof
  fix x y z assume wf: "wf_key x" "wf_key y" "wf_key z"
  then show "\<not> served_after x y \<Longrightarrow> \<not> served_after y z \<Longrightarrow> \<not> served_after x z"
    using precedes_linear precedes_trans precedes_irrefl
    by (auto simp: served_after_def compare_sign) (metis precedes_asym)+
next
  fix x y assume "wf_key x" "wf_key y"
  then show "served_after x y \<Longrightarrow> \<not> served_after y x"
    using precedes_asym by (auto simp: served_after_def compare_sign)
qed

text \<open>Sorting pairs by a comparator on their second components.\<close>

lemma sorted_snd:
  assumes "\<forall>p \<in> set xs. wf_key (snd p)"
  shows "sorted_wrt (\<lambda>a b. \<not> served_after (snd a) (snd b))
           (stable_sort (\<lambda>a b. served_after (snd a) (snd b)) xs)"
proof -
  have "comparator (\<lambda>a b. served_after (snd a) (snd b)) (\<lambda>p. wf_key (snd p))"
    by unfold_locales (auto dest: queue_cmp.asym queue_cmp.le_trans)
  then show ?thesis using assms by (rule comparator.sorted_stable_sort)
qed

subsection \<open>Well-formed tickets have well-formed keys\<close>

lemma wf_grid_score: "0 \<le> k \<Longrightarrow> k \<le> 16000000 \<Longrightarrow> wf_instant (grid_score k)"
proof -
  assume k: "0 \<le> k" "k \<le> 16000000"
  then have "0 \<le> fl (of_int k / 1000000)" "fl (of_int k / 1000000) \<le> 16"
    using b64.nonneg [of "of_int k / 1000000"] b64.le_bound [of "of_int k / 1000000" 16]
      rep_of_int [of 16] by (auto simp: pos_divide_le_eq)
  then show ?thesis by (simp add: grid_score_def wf_instant_def)
qed

lemma queueKey_Inr:
  assumes "wf_weights w" "wf_features f" "wf_instant now" "queueKey f now w = Inr key"
  shows "wf_key key \<and> k_breached key = isBreached f now \<and> k_createdAt key = createdAt f
         \<and> k_id key = tid f \<and> (\<exists>k. 0 \<le> k \<and> k \<le> 1000000 \<and> k_priority key = grid_score k)"
proof -
  obtain b where b: "computePriority f now w = Inr b"
    and key: "key = \<lparr>k_breached = breached b, k_priority = storedScore b, k_createdAt = createdAt f,
                    k_id = tid f\<rparr>"
    using assms(4) by (auto simp: queueKey_def split: sum.splits)
  have br: "breached b = isBreached f now"
    using b by (auto simp: computePriority_Inr_iff priority_record_def Let_def split: prod.split)
  have "assertValidWeights w = Inr ()" "b = priority_record f now w"
    using b by (auto simp: computePriority_Inr_iff)
  then obtain k where k: "0 \<le> k" "k \<le> 1000000" "storedScore b = grid_score k"
    using score_bounds [OF _ assms(1-3)] quantise_bounds storedScore_priority_record by metis
  moreover have "wf_instant (createdAt f)" using assms(2) by (simp add: wf_features_def)
  ultimately show ?thesis using wf_grid_score [of k] br by (auto simp: key wf_key_def)
qed

subsection \<open>The sorted queue\<close>

lemma tag_InrD: "bind_err q (\<lambda>k. Inr (t, k)) = Inr p \<Longrightarrow> q = Inr (snd p) \<and> fst p = t"
  by (auto split: sum.splits)

lemma orderQueue_Inr:
  assumes "orderQueue ts now w = Inr out"
  obtains keyed where "map_err (\<lambda>t. bind_err (queueKey t now w) (\<lambda>k. Inr (t, k))) ts = Inr keyed"
    "map fst keyed = ts" "\<forall>p \<in> set keyed. queueKey (fst p) now w = Inr (snd p)"
    "out = map fst (stable_sort (\<lambda>a b. served_after (snd a) (snd b)) keyed)"
proof -
  obtain keyed where k: "map_err (\<lambda>t. bind_err (queueKey t now w) (\<lambda>k. Inr (t, k))) ts = Inr keyed"
    and out: "out = map fst (stable_sort (\<lambda>a b. served_after (snd a) (snd b)) keyed)"
    using assms by (auto simp: orderQueue_def split: sum.splits)
  have len: "length keyed = length ts" using map_err_InrD [OF k] by blast
  have nth: "queueKey (ts ! i) now w = Inr (snd (keyed ! i)) \<and> fst (keyed ! i) = ts ! i"
    if "i < length ts" for i
    using map_err_InrD [OF k] that by (blast dest: tag_InrD)
  have "map fst keyed = ts" using len nth by (intro nth_equalityI) auto
  moreover have "\<forall>p \<in> set keyed. queueKey (fst p) now w = Inr (snd p)"
    using len nth by (auto simp: in_set_conv_nth) fastforce
  ultimately show ?thesis using k out that by blast
qed

lemma orderQueue_total:
  "is_finite now \<Longrightarrow> assertValidWeights w = Inr () \<Longrightarrow> \<exists>out. orderQueue ts now w = Inr out"
proof -
  assume a: "is_finite now" "assertValidWeights w = Inr ()"
  let ?key = "\<lambda>t. let b = priority_record t now w in \<lparr>k_breached = breached b, k_priority = storedScore b,
     k_createdAt = createdAt t, k_id = tid t\<rparr>"
  have "map_err (\<lambda>t. bind_err (queueKey t now w) (\<lambda>k. Inr (t, k))) ts = Inr (map (\<lambda>t. (t, ?key t)) ts)"
    by (rule map_err_Inr) (use a in \<open>simp add: queueKey_def computePriority_def assertInstant_def Let_def\<close>)
  then show ?thesis by (simp add: orderQueue_def)
qed

lemma sorted_wrt_imp_on:
  "sorted_wrt P xs \<Longrightarrow> (\<And>x y. x \<in> set xs \<Longrightarrow> y \<in> set xs \<Longrightarrow> P x y \<Longrightarrow> Q x y) \<Longrightarrow> sorted_wrt Q xs"
  by (induction xs) auto

definition sample_ticket :: "string \<Rightarrow> rat \<Rightarrow> queue_features" where
  "sample_ticket name due = sample_features\<lparr>tid := u name, slaDueAt := Fin due\<rparr>"

text \<open>
  the comparator of the queue is a strict total order on keys whose numbers are doubles of the
  size of an instant: its sign is antisymmetric and transitive, it is zero only on one and the same
  key, and a breached ticket always comes before one that is not, whatever the two priorities are.
\<close>

theorem queue_comparator_total_order:
  assumes "wf_key a" "wf_key b" "wf_key c"
  shows "(compareQueueKeys a b < Fin 0 \<longleftrightarrow> compareQueueKeys b a > Fin 0)
     \<and> (compareQueueKeys a b < Fin 0 \<and> compareQueueKeys b c < Fin 0 \<longrightarrow> compareQueueKeys a c < Fin 0)
     \<and> (compareQueueKeys a b = Fin 0 \<longleftrightarrow> a = b)
     \<and> (compareQueueKeys a b < Fin 0 \<or> compareQueueKeys a b = Fin 0 \<or> compareQueueKeys a b > Fin 0)
     \<and> (k_breached a \<and> \<not> k_breached b \<longrightarrow> compareQueueKeys a b < Fin 0)"
proof -
  have "k_breached a \<and> \<not> k_breached b \<longrightarrow> precedes a b" by (simp add: precedes_def)
  then show ?thesis
    using precedes_linear [OF assms(1,2)] precedes_trans [of a b c] assms
    by (simp add: compare_sign)
qed

theorem queue_comparator_total_order_witness:
  "let a = \<lparr>k_breached = True, k_priority = Fin 0, k_createdAt = Fin 5, k_id = u ''b''\<rparr>;
       b = \<lparr>k_breached = False, k_priority = Fin 1, k_createdAt = Fin 5, k_id = u ''a''\<rparr>
   in compareQueueKeys a b < Fin 0 \<and> compareQueueKeys b a > Fin 0"
proof -
  let ?a = "\<lparr>k_breached = True, k_priority = Fin 0, k_createdAt = Fin 5, k_id = u ''b''\<rparr>"
  let ?b = "\<lparr>k_breached = False, k_priority = Fin 1, k_createdAt = Fin 5, k_id = u ''a''\<rparr>"
  have "wf_key ?a" "wf_key ?b"
    using rep_of_int [of 5] b64.one by (simp_all add: wf_key_def wf_instant_def)
  from queue_comparator_total_order [OF this this(2)] show ?thesis by (auto simp: Let_def)
qed

text \<open>
  C10: \<open>orderQueue\<close> with accepted weights always returns, and what it returns is the given tickets,
  each exactly once, in the published order: no ticket stands before one whose key precedes its own,
  so in particular every breached ticket stands before every ticket that is not.
\<close>

theorem order_queue_sorted_permutation:
  assumes "wf_weights w" "assertValidWeights w = Inr ()" "wf_instant now" "\<forall>t \<in> set ts. wf_features t"
  shows "\<exists>out. orderQueue ts now w = Inr out \<and> mset out = mset ts
     \<and> sorted_wrt (\<lambda>s t. \<forall>ks kt. queueKey s now w = Inr ks \<and> queueKey t now w = Inr kt \<longrightarrow> \<not> precedes kt ks) out
     \<and> sorted_wrt (\<lambda>s t. isBreached t now \<longrightarrow> isBreached s now) out"
proof -
  obtain out where out: "orderQueue ts now w = Inr out"
    using orderQueue_total [OF wf_instant_finite [OF assms(3)] assms(2)] by blast
  obtain keyed where k: "map fst keyed = ts" "\<forall>p \<in> set keyed. queueKey (fst p) now w = Inr (snd p)"
    and o: "out = map fst (stable_sort (\<lambda>a b. served_after (snd a) (snd b)) keyed)"
    using out by (rule orderQueue_Inr)
  let ?s = "stable_sort (\<lambda>a b. served_after (snd a) (snd b)) keyed"
  have wf: "wf_key (snd p) \<and> k_breached (snd p) = isBreached (fst p) now" if "p \<in> set keyed" for p
    using that queueKey_Inr [OF assms(1) _ assms(3), of "fst p" "snd p"] k assms(4) by fastforce
  have m: "mset out = mset ts" by (simp add: o k(1) [symmetric])
  have s: "sorted_wrt (\<lambda>a b. \<not> served_after (snd a) (snd b)) ?s"
    using sorted_snd wf by blast
  have np: "\<not> precedes (snd b) (snd a)" if "a \<in> set ?s" "b \<in> set ?s" "\<not> served_after (snd a) (snd b)" for a b
    using that wf by (simp add: served_after_def compare_sign)
  have "sorted_wrt (\<lambda>a b. \<forall>ks kt. queueKey (fst a) now w = Inr ks \<and> queueKey (fst b) now w = Inr kt
      \<longrightarrow> \<not> precedes kt ks) ?s"
    by (rule sorted_wrt_imp_on [OF s]) (use np k(2) in auto)
  moreover have "sorted_wrt (\<lambda>a b. isBreached (fst b) now \<longrightarrow> isBreached (fst a) now) ?s"
  proof (rule sorted_wrt_imp_on [OF s], rule impI)
    fix a b assume ab: "a \<in> set ?s" "b \<in> set ?s" "\<not> served_after (snd a) (snd b)" "isBreached (fst b) now"
    then have "k_breached (snd b)" "\<not> precedes (snd b) (snd a)" using wf np by auto
    then have "k_breached (snd a)" by (auto simp: precedes_def split: if_splits)
    then show "isBreached (fst a) now" using wf ab(1) by simp
  qed
  ultimately show ?thesis using out m by (auto simp: o sorted_wrt_map)
qed

lemma wf_sample_ticket: "\<bar>n\<bar> \<le> 2 ^ 53 \<Longrightarrow> wf_features (sample_ticket name (of_int n))"
proof -
  assume n: "\<bar>n\<bar> \<le> 2 ^ 53"
  have i: "wf_instant (Fin (of_int n))" using wf_instant_of_int [OF n] .
  then have "wf_num (Fin (of_int n))" using big_range by (auto simp: wf_instant_def)
  with wf_sample_features show ?thesis by (simp add: sample_ticket_def wf_features_def)
qed

theorem order_queue_sorted_permutation_witness:
  "\<exists>out. orderQueue [sample_ticket ''a'' 5000, sample_ticket ''b'' 1000] (Fin 2000) DEFAULT_PRIORITY_WEIGHTS
       = Inr out \<and> mset out = mset [sample_ticket ''a'' 5000, sample_ticket ''b'' 1000]
     \<and> sorted_wrt (\<lambda>s t. isBreached t (Fin 2000) \<longrightarrow> isBreached s (Fin 2000)) out"
proof -
  let ?ts = "[sample_ticket ''a'' 5000, sample_ticket ''b'' 1000]"
  have "wf_instant (Fin 2000)" using wf_instant_of_int [of 2000] by simp
  moreover have "\<forall>t \<in> set ?ts. wf_features t"
    using wf_sample_ticket [of 5000 "''a''"] wf_sample_ticket [of 1000 "''b''"] by simp
  ultimately show ?thesis
    using order_queue_sorted_permutation [OF wf_default_weights default_weights_valid] by blast
qed

subsection \<open>The collation encoding agrees with the comparator\<close>

definition encodable :: "queue_key \<Rightarrow> int \<Rightarrow> int \<Rightarrow> bool" where
  "encodable key p c =
     (k_priority key = grid_score p \<and> 0 \<le> p \<and> p \<le> 9999999
      \<and> k_createdAt key = Fin (of_int c) \<and> 0 \<le> c \<and> c < 10 ^ 15)"

definition collation_text :: "bool \<Rightarrow> int \<Rightarrow> int \<Rightarrow> jstr \<Rightarrow> jstr" where
  "collation_text br p c i =
     (if br then u ''0'' else u ''1'') @ u ''|'' @ pad_start 7 48 (nat_digits (nat (9999999 - p)))
       @ u ''|'' @ pad_start 15 48 (nat_digits (nat c)) @ u ''|'' @ i"

lemma encodable_wf: "encodable key p c \<Longrightarrow> wf_key key"
  using wf_grid_score [of p] wf_instant_of_int [of c] by (simp add: encodable_def wf_key_def)

lemma num_string_digits: "0 \<le> n \<Longrightarrow> n < 2 ^ 53 \<Longrightarrow> num_string (Fin (of_int n)) = nat_digits (nat n)"
  using num_string_int [of n] by (simp add: int_string_nonneg)

lemma storedCollationKey_encodable:
  assumes "encodable key p c"
  shows "storedCollationKey key = Inr (collation_text (k_breached key) p c (k_id key))"
proof -
  have pr: "jround (jmul (k_priority key) PRIORITY_SCALE) = Fin (of_int p)"
    using assms grid_round [of p] by (simp add: encodable_def)
  have "to_num (of_int (9999999 - p)) = Fin (of_int (9999999 - p))"
    using assms by (intro to_num_rep rep_of_int max_range_big) (simp_all add: encodable_def)
  then have sub: "jsub COLLATION_PRIORITY_CEILING (Fin (of_int p)) = Fin (of_int (9999999 - p))"
    by (simp add: COLLATION_PRIORITY_CEILING_def jsub_def)
  have s1: "num_string (Fin (of_int (9999999 - p))) = nat_digits (nat (9999999 - p))"
    by (rule num_string_digits) (use assms in \<open>simp_all add: encodable_def\<close>)
  have s2: "num_string (Fin (of_int c)) = nat_digits (nat c)"
    by (rule num_string_digits) (use assms in \<open>simp_all add: encodable_def\<close>)
  have "nat c < 10 ^ 15" using assms by (simp add: encodable_def nat_less_iff)
  then have len: "length (nat_digits (nat c)) \<le> 15" by (rule length_nat_digits_bound) simp
  have c: "k_createdAt key = Fin (of_int c)" "0 \<le> c" "0 \<le> p" "p \<le> 9999999"
    using assms by (simp_all add: encodable_def)
  show ?thesis
    unfolding storedCollationKey_def Let_def pr sub s1 c(1) s2
    using c(2-4) len
    by (simp add: collation_text_def COLLATION_TIME_WIDTH_def COLLATION_PRIORITY_CEILING_def)
qed

lemma padded_compare:
  assumes "m < 10 ^ w" "n < 10 ^ w" "0 < w"
  shows "pad_start w 48 (nat_digits m) < pad_start w 48 (nat_digits n) \<longleftrightarrow> m < n"
    and "pad_start w 48 (nat_digits m) = pad_start w 48 (nat_digits n) \<longleftrightarrow> m = n"
    and "length (pad_start w 48 (nat_digits m)) = w"
proof -
  have len: "length (pad_start w 48 (nat_digits k)) = w" if "k < 10 ^ w" for k
    using length_nat_digits_bound [OF that assms(3)] by (simp add: pad_start_def)
  show "pad_start w 48 (nat_digits m) < pad_start w 48 (nat_digits n) \<longleftrightarrow> m < n"
    using len assms pad_start_digits by (subst digits_less_iff) auto
  show "pad_start w 48 (nat_digits m) = pad_start w 48 (nat_digits n) \<longleftrightarrow> m = n"
    by (metis digits_value_nat_digits digits_value_pad)
  show "length (pad_start w 48 (nat_digits m)) = w" using len assms by blast
qed

lemma collation_text_less:
  assumes "0 \<le> p" "p \<le> 9999999" "0 \<le> c" "c < 10 ^ 15"
    and "0 \<le> q" "q \<le> 9999999" "0 \<le> d" "d < 10 ^ 15"
  shows "collation_text a p c i < collation_text b q d j \<longleftrightarrow>
     (if a \<noteq> b then a else if p \<noteq> q then q < p else if c \<noteq> d then c < d else i < j)"
proof -
  let ?P = "nat (9999999 - p)" and ?Q = "nat (9999999 - q)"
  have pq: "?P < 10 ^ 7" "?Q < 10 ^ 7" "nat c < 10 ^ 15" "nat d < 10 ^ 15"
    using assms by (simp_all add: nat_less_iff)
  note P = padded_compare [OF pq(1,2)] padded_compare [OF pq(2,1)]
  note C = padded_compare [OF pq(3,4)] padded_compare [OF pq(4,3)]
  have "(if a then u ''0'' else u ''1'') < (if b then u ''0'' else u ''1'') \<longleftrightarrow> a \<and> \<not> b"
    by (simp add: u_def)
  moreover have "?P < ?Q \<longleftrightarrow> q < p" "?P = ?Q \<longleftrightarrow> p = q" "nat c < nat d \<longleftrightarrow> c < d" "nat c = nat d \<longleftrightarrow> c = d"
    using assms by auto
  ultimately show ?thesis
    unfolding collation_text_def
    by (subst append_less_same_length, simp add: u_def)
      (simp add: append_less_same_length P C u_def)
qed

lemma grid_score_inject:
  assumes "0 \<le> p" "p \<le> 16000000" "0 \<le> q" "q \<le> 16000000"
  shows "grid_score p = grid_score q \<longleftrightarrow> p = q"
proof
  assume "grid_score p = grid_score q"
  then have "Fin (of_int p) = Fin (of_int q)"
    unfolding grid_round [OF assms(1,2), symmetric] grid_round [OF assms(3,4), symmetric] by (rule arg_cong)
  then show "p = q" by (simp only: jnum.inject of_int_eq_iff)
qed simp

lemma grid_score_less:
  assumes "0 \<le> p" "p \<le> 16000000" "0 \<le> q" "q \<le> 16000000"
  shows "grid_score p < grid_score q \<longleftrightarrow> p < q"
proof -
  have le: "\<not> grid_score y < grid_score x" if "x \<le> y" for x y
    using that fl_mono [OF divide_right_mono [of "of_int x" "of_int y" 1000000]]
    by (simp add: grid_score_def not_less)
  have "grid_score p \<noteq> NaN" "grid_score q \<noteq> NaN" by (simp_all add: grid_score_def)
  from jnum_less_linear [OF this] show ?thesis
    using le [of p q] le [of q p] grid_score_inject [OF assms]
    by (cases p q rule: linorder_cases) simp_all
qed

lemma collation_text_precedes:
  assumes "encodable a p c" "encodable b q d"
  shows "collation_text (k_breached a) p c (k_id a) < collation_text (k_breached b) q d (k_id b)
           \<longleftrightarrow> precedes a b"
proof -
  have "0 \<le> p" "p \<le> 9999999" "0 \<le> c" "c < 10 ^ 15" "0 \<le> q" "q \<le> 9999999" "0 \<le> d" "d < 10 ^ 15"
    using assms by (simp_all add: encodable_def)
  note t = collation_text_less [OF this] and g = grid_score_less [of q p] grid_score_inject [of p q]
  show ?thesis
    unfolding t precedes_def using assms g by (auto simp: encodable_def)
qed

text \<open>
  the encoding a storage engine would collate and the comparator of the process are the same
  order: on keys whose priority is a stored score and whose instant has at most fifteen digits the
  encoding never throws, and comparing the two texts gives the sign the comparator gives.
\<close>

theorem collation_agrees_with_comparator:
  assumes "encodable a p c" "encodable b q d"
  shows "\<exists>r. compareStoredRows a b = Inr r
     \<and> (r < Fin 0 \<longleftrightarrow> compareQueueKeys a b < Fin 0)
     \<and> (r > Fin 0 \<longleftrightarrow> compareQueueKeys a b > Fin 0)
     \<and> (r = Fin 0 \<longleftrightarrow> compareQueueKeys a b = Fin 0)"
proof -
  have wf: "wf_key a" "wf_key b" using assms encodable_wf by auto
  let ?l = "collation_text (k_breached a) p c (k_id a)" and ?r = "collation_text (k_breached b) q d (k_id b)"
  have "?l < ?r \<longleftrightarrow> precedes a b" "?r < ?l \<longleftrightarrow> precedes b a"
    using collation_text_precedes assms by blast+
  moreover have "?l = ?r \<longleftrightarrow> a = b"
    using calculation precedes_linear [OF wf] precedes_irrefl by (metis less_irrefl linorder_neqE)
  ultimately show ?thesis
    using assms by (auto simp: compareStoredRows_def storedCollationKey_encodable compare_sign [OF wf])
qed

theorem collation_agrees_with_comparator_witness:
  "let a = \<lparr>k_breached = False, k_priority = grid_score 250000, k_createdAt = Fin 7, k_id = u ''x''\<rparr>;
       b = \<lparr>k_breached = False, k_priority = grid_score 90000, k_createdAt = Fin 3, k_id = u ''y''\<rparr>
   in \<exists>r. compareStoredRows a b = Inr r \<and> (r < Fin 0 \<longleftrightarrow> compareQueueKeys a b < Fin 0)"
proof -
  let ?a = "\<lparr>k_breached = False, k_priority = grid_score 250000, k_createdAt = Fin 7, k_id = u ''x''\<rparr>"
  let ?b = "\<lparr>k_breached = False, k_priority = grid_score 90000, k_createdAt = Fin 3, k_id = u ''y''\<rparr>"
  have "encodable ?a 250000 7" "encodable ?b 90000 3" by (simp_all add: encodable_def)
  from collation_agrees_with_comparator [OF this] show ?thesis by (auto simp: Let_def)
qed

subsection \<open>Folding duplicates\<close>

lemma collapse_snoc:
  "collapseDuplicates (xs @ [s]) w = collapse_step w (collapseDuplicates xs w) s"
  by (simp add: collapseDuplicates_def)

text \<open>The two outcomes of one turn.\<close>

lemma collapse_step_cases:
  obtains
    (absorb) i where "openGroups st (content_key s) = Some i" "inc_open i"
      "\<not> jsub (sub_createdAt s) (inc_anchor i) < Fin 0" "\<not> jsub (sub_createdAt s) (inc_anchor i) \<ge> w"
      "collapse_step w st s = st\<lparr>collapsed := collapsed st @ [(s, inc_id i)]\<rparr>"
  | (admit) "\<And>i. openGroups st (content_key s) = Some i \<Longrightarrow> inc_open i \<Longrightarrow>
        jsub (sub_createdAt s) (inc_anchor i) < Fin 0 \<or> jsub (sub_createdAt s) (inc_anchor i) \<ge> w"
      "collapse_step w st s = st\<lparr>openGroups := (openGroups st)(content_key s \<mapsto>
          \<lparr>inc_id = sub_id s, inc_anchor = sub_createdAt s, inc_open = True\<rparr>),
        admitted := admitted st @ [(s, dedupeKey (orgId s) (bodySha256 s) (sub_createdAt s))]\<rparr>"
proof (cases "openGroups st (content_key s)")
  case None
  then show ?thesis by (intro admit) (simp_all add: collapse_step_def dedupeDecision_def Let_def)
next
  case (Some i)
  show ?thesis
  proof (cases "inc_open i \<and> \<not> jsub (sub_createdAt s) (inc_anchor i) < Fin 0
                \<and> \<not> jsub (sub_createdAt s) (inc_anchor i) \<ge> w")
    case True
    then show ?thesis using Some
      by (intro absorb [of i]) (simp_all add: collapse_step_def dedupeDecision_def Let_def)
  next
    case False
    then show ?thesis using Some
      by (intro admit) (auto simp: collapse_step_def dedupeDecision_def Let_def)
  qed
qed

text \<open>An open group names the admitted submission that opened it.\<close>

definition groups_ok :: "collapse_state \<Rightarrow> bool" where
  "groups_ok st = (\<forall>c i. openGroups st c = Some i \<longrightarrow> inc_open i \<and>
     (\<exists>r. (r, dedupeKey (orgId r) (bodySha256 r) (sub_createdAt r)) \<in> set (admitted st)
        \<and> content_key r = c \<and> sub_id r = inc_id i \<and> sub_createdAt r = inc_anchor i))"

lemma groups_ok_step: "groups_ok st \<Longrightarrow> groups_ok (collapse_step w st s)"
proof (cases rule: collapse_step_cases [of st s w])
  case (absorb i)
  assume "groups_ok st"
  with absorb show ?thesis by (simp add: groups_ok_def)
next
  case admit
  assume "groups_ok st"
  with admit show ?thesis unfolding groups_ok_def by (auto split: if_splits) blast
qed

lemma groups_ok_collapse: "groups_ok (collapseDuplicates xs w)"
proof (induction xs rule: rev_induct)
  case Nil
  show ?case by (simp add: collapseDuplicates_def empty_collapse_def groups_ok_def)
next
  case (snoc s xs)
  then show ?case by (simp add: collapse_snoc groups_ok_step)
qed

definition absorbed_ok :: "jnum \<Rightarrow> collapse_state \<Rightarrow> bool" where
  "absorbed_ok w st = (\<forall>p \<in> set (collapsed st). \<exists>q \<in> set (admitted st).
     sub_id (fst q) = snd p \<and> content_key (fst q) = content_key (fst p)
     \<and> \<not> jsub (sub_createdAt (fst p)) (sub_createdAt (fst q)) < Fin 0
     \<and> \<not> jsub (sub_createdAt (fst p)) (sub_createdAt (fst q)) \<ge> w)"

lemma absorbed_ok_collapse: "absorbed_ok w (collapseDuplicates xs w)"
proof (induction xs rule: rev_induct)
  case Nil
  show ?case by (simp add: collapseDuplicates_def empty_collapse_def absorbed_ok_def)
next
  case (snoc s xs)
  let ?st = "collapseDuplicates xs w"
  show ?case
  proof (cases rule: collapse_step_cases [of ?st s w])
    case (absorb i)
    obtain r k where "(r, k) \<in> set (admitted ?st)" "content_key r = content_key s"
      "sub_id r = inc_id i" "sub_createdAt r = inc_anchor i"
      using groups_ok_collapse [of xs w] absorb(1) unfolding groups_ok_def by blast
    then have "\<exists>q \<in> set (admitted ?st). sub_id (fst q) = inc_id i \<and> content_key (fst q) = content_key s
       \<and> \<not> jsub (sub_createdAt s) (sub_createdAt (fst q)) < Fin 0
       \<and> \<not> jsub (sub_createdAt s) (sub_createdAt (fst q)) \<ge> w"
      using absorb(3,4) by (intro bexI [of _ "(r, k)"]) simp_all
    with snoc absorb(5) show ?thesis by (simp add: absorbed_ok_def collapse_snoc)
  next
    case admit
    with snoc show ?thesis by (simp add: absorbed_ok_def collapse_snoc)
  qed
qed

lemma collapse_mset:
  "mset (map fst (admitted (collapseDuplicates xs w))) + mset (map fst (collapsed (collapseDuplicates xs w)))
     = mset xs"
proof (induction xs rule: rev_induct)
  case Nil
  show ?case by (simp add: collapseDuplicates_def empty_collapse_def)
next
  case (snoc s xs)
  then show ?case
    by (cases rule: collapse_step_cases [of "collapseDuplicates xs w" s w]) (simp_all add: collapse_snoc)
qed

text \<open>A collapse key is read back: the text after the last colon is the anchor.\<close>

lemma append_first_sep:
  "c \<notin> set as \<Longrightarrow> c \<notin> set bs \<Longrightarrow> as @ c # xs = bs @ c # ys \<Longrightarrow> as = bs \<and> xs = ys"
proof (induction as arbitrary: bs)
  case Nil
  then show ?case by (cases bs) auto
next
  case (Cons a as)
  then show ?case by (cases bs) auto
qed

lemma append_last_sep:
  assumes "xs @ c # as = ys @ c # bs" "c \<notin> set as" "c \<notin> set bs"
  shows "xs = ys \<and> as = bs"
proof -
  have "rev (xs @ c # as) = rev (ys @ c # bs)" using assms(1) by (rule arg_cong)
  then show ?thesis using append_first_sep [of c "rev as" "rev bs" "rev xs" "rev ys"] assms(2,3) by auto
qed

definition whole_instant :: "jnum \<Rightarrow> bool" where
  "whole_instant x = (\<exists>n. x = Fin (of_int n) \<and> 0 \<le> n \<and> n < 2 ^ 53)"

lemma whole_instant_wf: "whole_instant x \<Longrightarrow> wf_instant x"
  unfolding whole_instant_def using wf_instant_of_int by force

lemma dedupeKey_inject:
  assumes "whole_instant (sub_createdAt s)" "whole_instant (sub_createdAt r)"
    and "dedupeKey (orgId s) (bodySha256 s) (sub_createdAt s) = dedupeKey (orgId r) (bodySha256 r) (sub_createdAt r)"
  shows "content_key s = content_key r \<and> sub_createdAt s = sub_createdAt r"
proof -
  obtain m n where m: "sub_createdAt s = Fin (of_int m)" "0 \<le> m" "m < 2 ^ 53"
    and n: "sub_createdAt r = Fin (of_int n)" "0 \<le> n" "n < 2 ^ 53"
    using assms(1,2) unfolding whole_instant_def by blast
  have t: "num_string (sub_createdAt s) = nat_digits (nat m)" "num_string (sub_createdAt r) = nat_digits (nat n)"
    unfolding m(1) n(1) using m n by (simp_all only: num_string_digits)
  have colon: "58 \<notin> set (nat_digits k)" for k using nat_digits_range [of 58 k] by auto
  have "content_key s @ 58 # nat_digits (nat m) = content_key r @ 58 # nat_digits (nat n)"
    using assms(3) unfolding dedupeKey_def t by (simp add: content_key_def u_def)
  from append_last_sep [OF this colon colon] show ?thesis using m n by (simp add: eq_nat_nat_iff)
qed

text \<open>Under non-decreasing arrivals no later anchor falls behind an admitted submission.\<close>

definition anchors_ok :: "submission list \<Rightarrow> collapse_state \<Rightarrow> bool" where
  "anchors_ok xs st \<longleftrightarrow>
     (\<forall>q \<in> set (admitted st). fst q \<in> set xs
        \<and> snd q = dedupeKey (orgId (fst q)) (bodySha256 (fst q)) (sub_createdAt (fst q))
        \<and> (\<exists>i. openGroups st (content_key (fst q)) = Some i \<and> inc_open i
             \<and> sub_createdAt (fst q) \<le> inc_anchor i \<and> inc_anchor i \<in> sub_createdAt ` set xs))"

lemma anchors_ok_snoc:
  assumes "anchors_ok xs (collapseDuplicates xs w)" "\<forall>r \<in> set xs. sub_createdAt r \<le> sub_createdAt s"
    "whole_instant (sub_createdAt s)"
  shows "anchors_ok (xs @ [s]) (collapseDuplicates (xs @ [s]) w)"
proof (cases rule: collapse_step_cases [of "collapseDuplicates xs w" s w])
  case (absorb i)
  then show ?thesis using assms(1) unfolding anchors_ok_def collapse_snoc absorb(5) by fastforce
next
  case admit
  have "sub_createdAt s \<le> sub_createdAt s"
    using whole_instant_wf [OF assms(3)] by (intro jnum_le_refl wf_instant_not_NaN)
  then show ?thesis using assms(1,2) unfolding anchors_ok_def collapse_snoc admit(2)
    by (auto split: if_splits)
qed

lemma anchors_ok_collapse:
  "sorted_wrt (\<lambda>a b. sub_createdAt a \<le> sub_createdAt b) xs \<Longrightarrow>
   \<forall>s \<in> set xs. whole_instant (sub_createdAt s) \<Longrightarrow> anchors_ok xs (collapseDuplicates xs w)"
proof (induction xs rule: rev_induct)
  case Nil
  show ?case by (simp add: collapseDuplicates_def empty_collapse_def anchors_ok_def)
next
  case (snoc s xs)
  then show ?case by (intro anchors_ok_snoc) (auto simp: sorted_wrt_append)
qed

lemma admitted_key_fresh:
  assumes "anchors_ok xs st" "q \<in> set (admitted st)" "Fin 0 < w"
    and whole: "\<forall>r \<in> set xs. whole_instant (sub_createdAt r)" "whole_instant (sub_createdAt s)"
    and late: "\<forall>r \<in> set xs. sub_createdAt r \<le> sub_createdAt s"
    and out: "\<And>i. openGroups st (content_key s) = Some i \<Longrightarrow> inc_open i \<Longrightarrow>
        jsub (sub_createdAt s) (inc_anchor i) < Fin 0 \<or> jsub (sub_createdAt s) (inc_anchor i) \<ge> w"
  shows "snd q \<noteq> dedupeKey (orgId s) (bodySha256 s) (sub_createdAt s)"
proof
  assume eq: "snd q = dedupeKey (orgId s) (bodySha256 s) (sub_createdAt s)"
  have q: "fst q \<in> set xs" "snd q = dedupeKey (orgId (fst q)) (bodySha256 (fst q)) (sub_createdAt (fst q))"
    using assms(1,2) by (auto simp: anchors_ok_def)
  have same: "content_key s = content_key (fst q)" "sub_createdAt s = sub_createdAt (fst q)"
    using dedupeKey_inject [of s "fst q"] whole q eq by auto
  obtain i where i: "openGroups st (content_key s) = Some i" "inc_open i"
      "sub_createdAt s \<le> inc_anchor i" "inc_anchor i \<in> sub_createdAt ` set xs"
    using assms(1,2) same by (auto simp: anchors_ok_def)
  have wf: "wf_instant (sub_createdAt s)" "wf_instant (inc_anchor i)"
    using whole i(4) whole_instant_wf by auto
  have "inc_anchor i \<le> sub_createdAt s" using late i(4) by auto
  then have "jsub (sub_createdAt s) (inc_anchor i) = Fin 0"
    using instant_diff_sign(3) [OF wf] jnum_le_antisym i(3) by blast
  with out [OF i(1,2)] assms(3) show False by (cases w) (auto simp: less_eq_jnum_def)
qed


definition sample_submission :: "string \<Rightarrow> rat \<Rightarrow> submission" where
  "sample_submission name t =
     \<lparr>sub_id = u name, orgId = u ''o1'', bodySha256 = u ''ab'', sub_createdAt = Fin t\<rparr>"

lemma whole_sample: "0 \<le> n \<Longrightarrow> n < 2 ^ 53 \<Longrightarrow> whole_instant (sub_createdAt (sample_submission a (of_int n)))"
  by (auto simp: whole_instant_def sample_submission_def)


text \<open>
  The anchored key reconciles the window with a permanent uniqueness constraint: over arrivals in
  time order, whole milliseconds and a positive window, no two admitted submissions carry one key.
\<close>

theorem admitted_dedupe_keys_distinct:
  assumes "sorted_wrt (\<lambda>a b. sub_createdAt a \<le> sub_createdAt b) subs"
    and "\<forall>s \<in> set subs. whole_instant (sub_createdAt s)" and "Fin 0 < w"
  shows "distinct (map snd (admitted (collapseDuplicates subs w)))"
  using assms
proof (induction subs rule: rev_induct)
  case Nil
  show ?case by (simp add: collapseDuplicates_def empty_collapse_def)
next
  case (snoc s xs)
  let ?st = "collapseDuplicates xs w"
  have pre: "sorted_wrt (\<lambda>a b. sub_createdAt a \<le> sub_createdAt b) xs"
      "\<forall>r \<in> set xs. sub_createdAt r \<le> sub_createdAt s" "\<forall>r \<in> set xs. whole_instant (sub_createdAt r)"
    using snoc.prems by (auto simp: sorted_wrt_append)
  then have ih: "distinct (map snd (admitted ?st))" using snoc.IH snoc.prems(3) by blast
  show ?case
  proof (cases rule: collapse_step_cases [of ?st s w])
    case (absorb i)
    with ih show ?thesis by (simp add: collapse_snoc)
  next
    case admit
    have "snd q \<noteq> dedupeKey (orgId s) (bodySha256 s) (sub_createdAt s)" if "q \<in> set (admitted ?st)" for q
      by (rule admitted_key_fresh [OF anchors_ok_collapse [OF pre(1,3)] that snoc.prems(3) pre(3) _ pre(2) admit(1)])
        (use snoc.prems(2) in auto)
    then have "dedupeKey (orgId s) (bodySha256 s) (sub_createdAt s) \<notin> snd ` set (admitted ?st)" by (metis imageE)
    with ih show ?thesis by (simp add: collapse_snoc admit(2))
  qed
qed

theorem admitted_dedupe_keys_distinct_witness:
  "distinct (map snd (admitted (collapseDuplicates [sample_submission ''a'' 10, sample_submission ''b'' 200] (Fin 100))))"
proof (rule admitted_dedupe_keys_distinct)
  show "\<forall>s \<in> set [sample_submission ''a'' 10, sample_submission ''b'' 200]. whole_instant (sub_createdAt s)"
    using whole_sample [of 10 "''a''"] whole_sample [of 200 "''b''"] by simp
qed (simp_all add: sample_submission_def less_eq_jnum_def)

end
