(* ===== verification/Sim_Queue.thy ===== *)
theory Sim_Queue
  imports Heap Queue_Order
begin

section \<open>The in-process queue (makeQueueHeap, heapOrder, storedOrder in src/alg/simulation.ts)\<close>

text \<open>
  The heap over the order key with its two remedies for a key that depends on the clock: the lazy
  revalidation of \<open>popNext\<close> and the full \<open>rebuild\<close>.  An exception leaves no state behind in the
  model: every caller of the source lets it propagate and drops the heap.
\<close>

subsection \<open>The operations\<close>

record sim_ticket = queue_features +
  slaWindowMs :: jnum

record heap_entry =
  he_ticket :: sim_ticket
  he_key :: queue_key

definition before :: "heap_entry \<Rightarrow> heap_entry \<Rightarrow> bool" where
  "before a b = (compareQueueKeys (he_key a) (he_key b) < Fin 0)"

definition heap_push ::
    "priority_weights \<Rightarrow> heap_entry list \<Rightarrow> sim_ticket \<Rightarrow> jnum \<Rightarrow> js_error + heap_entry list" where
  "heap_push w es ticket now =
     bind_err (queueKey ticket now w) (\<lambda>k.
       Inr (pushEntry before es \<lparr>he_ticket = ticket, he_key = k\<rparr>))"

fun pop_loop ::
    "nat \<Rightarrow> priority_weights \<Rightarrow> heap_entry list \<Rightarrow> jnum
       \<Rightarrow> js_error + (sim_ticket option \<times> heap_entry list)" where
  "pop_loop 0 w es now = Inl PlainError"
| "pop_loop (Suc steps) w es now =
     (case popRoot before es of
        None \<Rightarrow> Inr (None, es)
      | Some (candidate, rest) \<Rightarrow>
          bind_err (queueKey (he_ticket candidate) now w) (\<lambda>revalidated.
            if rest = [] \<or> compareQueueKeys revalidated (he_key (rest ! 0)) \<le> Fin 0
            then Inr (Some (he_ticket candidate), rest)
            else pop_loop steps w
                   (pushEntry before rest \<lparr>he_ticket = he_ticket candidate, he_key = revalidated\<rparr>) now))"

definition popNext ::
    "priority_weights \<Rightarrow> heap_entry list \<Rightarrow> jnum
       \<Rightarrow> js_error + (sim_ticket option \<times> heap_entry list)" where
  "popNext w es now = pop_loop (length es * 2 + 2) w es now"

definition heap_rebuild ::
    "priority_weights \<Rightarrow> heap_entry list \<Rightarrow> jnum \<Rightarrow> js_error + heap_entry list" where
  "heap_rebuild w es now =
     bind_err (map_err (\<lambda>e. bind_err (queueKey (he_ticket e) now w) (\<lambda>k. Inr (e\<lparr>he_key := k\<rparr>))) es)
       (\<lambda>rekeyed. Inr (heapify before rekeyed))"

definition peekKey :: "heap_entry list \<Rightarrow> queue_key option" where
  "peekKey es = (if length es = 0 then None else Some (he_key (es ! 0)))"

definition heap_contents :: "heap_entry list \<Rightarrow> sim_ticket list" where
  "heap_contents es = map he_ticket es"

text \<open>Draining the heap, with fuel for the loop that ends on the first empty pop.\<close>

fun drain ::
    "nat \<Rightarrow> priority_weights \<Rightarrow> heap_entry list \<Rightarrow> jnum \<Rightarrow> (js_error + jstr list) option" where
  "drain 0 w es now = None"
| "drain (Suc fuel) w es now =
     (case popNext w es now of
        Inl e \<Rightarrow> Some (Inl e)
      | Inr (None, _) \<Rightarrow> Some (Inr [])
      | Inr (Some t, rest) \<Rightarrow>
          map_option (\<lambda>r. bind_err r (\<lambda>ids. Inr (tid t # ids))) (drain fuel w rest now))"

fun push_all ::
    "priority_weights \<Rightarrow> heap_entry list \<Rightarrow> sim_ticket list \<Rightarrow> jnum \<Rightarrow> js_error + heap_entry list" where
  "push_all w es [] now = Inr es"
| "push_all w es (t # ts) now = bind_err (heap_push w es t now) (\<lambda>es'. push_all w es' ts now)"

definition heapOrder ::
    "nat \<Rightarrow> sim_ticket list \<Rightarrow> jnum \<Rightarrow> priority_weights \<Rightarrow> (js_error + jstr list) option" where
  "heapOrder fuel tickets now w =
     (case push_all w [] tickets now of
        Inl e \<Rightarrow> Some (Inl e)
      | Inr es \<Rightarrow> drain fuel w es now)"

text \<open>
  A sort of two or more rows compares every row, and the comparison encodes both: any row that
  does not fit the encoding makes the sort throw, and there is one error it can throw.
\<close>

definition storedOrder ::
    "sim_ticket list \<Rightarrow> jnum \<Rightarrow> priority_weights \<Rightarrow> js_error + jstr list" where
  "storedOrder tickets now w =
     bind_err (map_err (\<lambda>t. bind_err (queueKey t now w) (\<lambda>k. Inr (tid t, k))) tickets) (\<lambda>rows.
       if length rows < 2 then Inr (map fst rows)
       else bind_err (map_err (\<lambda>r. bind_err (storedCollationKey (snd r)) (\<lambda>c. Inr (fst r, c))) rows)
              (\<lambda>coded. Inr (map fst (stable_sort (\<lambda>a b. snd b < snd a) coded))))"

record queue_snapshot =
  sn_at :: jnum
  sn_waiting :: "sim_ticket list"

definition rankSnapshot :: "queue_snapshot \<Rightarrow> priority_weights \<Rightarrow> js_error + jstr list" where
  "rankSnapshot sn w =
     bind_err (map_err (\<lambda>t. bind_err (queueKey t (sn_at sn) w) (\<lambda>k. Inr (tid t, k))) (sn_waiting sn)) (\<lambda>rows.
       Inr (map fst (stable_sort (\<lambda>a b. served_after (snd a) (snd b)) rows)))"

subsection \<open>The heap interface on the order key\<close>

definition wf_entry :: "heap_entry \<Rightarrow> bool" where
  "wf_entry e = wf_key (he_key e)"

interpretation qh: queue_heap before wf_entry
proof
  fix x y assume "wf_entry x" "wf_entry y" "before x y"
  then show "\<not> before y x"
    using precedes_asym by (auto simp: before_def wf_entry_def compare_sign)
next
  fix x y z assume w: "wf_entry x" "wf_entry y" "wf_entry z" and "\<not> before y x" "\<not> before z y"
  then show "\<not> before z x"
    using precedes_linear precedes_trans precedes_irrefl
    by (auto simp: before_def wf_entry_def compare_sign) metis
qed

lemma compare_le_zero:
  assumes "wf_key a" "wf_key b" shows "compareQueueKeys a b \<le> Fin 0 \<longleftrightarrow> \<not> precedes b a"
proof -
  have "compareQueueKeys a b \<noteq> NaN"
    using precedes_linear [OF assms] compare_sign [OF assms] by auto
  then show ?thesis using compare_sign(2) [OF assms] by (simp add: less_eq_jnum_def)
qed

lemma before_precedes: "wf_entry a \<Longrightarrow> wf_entry b \<Longrightarrow> before a b \<longleftrightarrow> precedes (he_key a) (he_key b)"
  by (simp add: before_def wf_entry_def compare_sign)

subsection \<open>The world a queue is drained in\<close>

definition accepted :: "priority_weights \<Rightarrow> jnum \<Rightarrow> bool" where
  "accepted w now = (wf_weights w \<and> assertValidWeights w = Inr () \<and> wf_instant now)"

text \<open>The entry a ticket gets when it is keyed at one instant.\<close>

definition keyed :: "priority_weights \<Rightarrow> jnum \<Rightarrow> sim_ticket \<Rightarrow> heap_entry" where
  "keyed w now t =
     (let b = priority_record t now w
      in \<lparr>he_ticket = t, he_key = \<lparr>k_breached = breached b, k_priority = storedScore b,
                                   k_createdAt = createdAt t, k_id = tid t\<rparr>\<rparr>)"

lemma queueKey_keyed: "accepted w now \<Longrightarrow> queueKey t now w = Inr (he_key (keyed w now t))"
  using wf_instant_finite [of now]
  by (simp add: accepted_def queueKey_def computePriority_def assertInstant_def keyed_def Let_def)

lemma he_ticket_keyed [simp]: "he_ticket (keyed w now t) = t"
  by (simp add: keyed_def Let_def)

lemma key_id_keyed [simp]: "k_id (he_key (keyed w now t)) = tid t"
  by (simp add: keyed_def Let_def)

lemma wf_entry_keyed: "accepted w now \<Longrightarrow> wf_features t \<Longrightarrow> wf_entry (keyed w now t)"
  using queueKey_Inr [of w t now "he_key (keyed w now t)"] queueKey_keyed [of w now t]
  by (simp add: accepted_def wf_entry_def)

definition fresh_heap :: "priority_weights \<Rightarrow> jnum \<Rightarrow> heap_entry list \<Rightarrow> bool" where
  "fresh_heap w now es \<longleftrightarrow> is_heap before es \<and>
     (\<forall>e \<in> set es. e = keyed w now (he_ticket e) \<and> wf_features (he_ticket e))"

lemma fresh_wf: "accepted w now \<Longrightarrow> fresh_heap w now es \<Longrightarrow> \<forall>e \<in> set es. wf_entry e"
  unfolding fresh_heap_def using wf_entry_keyed by metis

lemma heap_push_fresh:
  assumes "accepted w now" "fresh_heap w now es" "wf_features t"
  shows "\<exists>es'. heap_push w es t now = Inr es' \<and> fresh_heap w now es'
           \<and> mset es' = add_mset (keyed w now t) (mset es)"
proof -
  let ?e = "keyed w now t" and ?es = "pushEntry before es (keyed w now t)"
  have "heap_push w es t now = Inr ?es"
    using queueKey_keyed [OF assms(1)] by (simp add: heap_push_def) (simp add: keyed_def Let_def)
  moreover have "is_heap before ?es"
    using assms wf_entry_keyed fresh_wf by (intro qh.pushEntry_heap) (auto simp: fresh_heap_def)
  moreover have "set ?es = insert ?e (set es)"
    using mset_pushEntry [of before es ?e] by (metis set_mset_add_mset_insert set_mset_mset)
  ultimately show ?thesis using assms by (simp add: fresh_heap_def)
qed

lemma push_all_fresh:
  "accepted w now \<Longrightarrow> fresh_heap w now es \<Longrightarrow> \<forall>t \<in> set ts. wf_features t \<Longrightarrow>
   \<exists>es'. push_all w es ts now = Inr es' \<and> fresh_heap w now es'
     \<and> mset es' = mset es + mset (map (keyed w now) ts)"
proof (induction ts arbitrary: es)
  case (Cons t ts)
  obtain es1 where e: "heap_push w es t now = Inr es1" "fresh_heap w now es1"
    "mset es1 = add_mset (keyed w now t) (mset es)"
    using heap_push_fresh [OF Cons.prems(1,2), of t] Cons.prems(3) by auto
  obtain es2 where "push_all w es1 ts now = Inr es2" "fresh_heap w now es2"
    "mset es2 = mset es1 + mset (map (keyed w now) ts)"
    using Cons.IH [OF Cons.prems(1) e(2)] Cons.prems(3) by auto
  with e show ?case by simp
qed simp

text \<open>On a heap keyed at the instant of the pop the first candidate is served at once.\<close>

lemma popNext_fresh:
  assumes acc: "accepted w now" and fresh: "fresh_heap w now es"
  shows "(es = [] \<longrightarrow> popNext w es now = Inr (None, [])) \<and>
    (es \<noteq> [] \<longrightarrow> (\<exists>e rest. popNext w es now = Inr (Some (he_ticket e), rest) \<and> fresh_heap w now rest
        \<and> mset es = add_mset e (mset rest) \<and> (\<forall>x \<in> set rest. \<not> before x e) \<and> wf_entry e))"
proof (cases "popRoot before es")
  case None
  then have "es = []" by (simp add: popRoot_None_iff)
  then show ?thesis by (simp add: popNext_def popRoot_def)
next
  case (Some p)
  then obtain e rest where p: "popRoot before es = Some (e, rest)" by (cases p) auto
  have heap: "is_heap before es" using fresh by (simp add: fresh_heap_def)
  note r = qh.popRoot_heap [OF p heap fresh_wf [OF acc fresh]] popRoot_SomeD [OF p]
  have sub: "e \<in> set es" "set rest \<subseteq> set es" using r(2) by (auto dest!: arg_cong [where f = set_mset])
  have key: "queueKey (he_ticket e) now w = Inr (he_key e)"
    using queueKey_keyed [OF acc, of "he_ticket e"] fresh sub(1) unfolding fresh_heap_def by metis
  have first: "rest = [] \<or> compareQueueKeys (he_key e) (he_key (rest ! 0)) \<le> Fin 0"
  proof (cases "rest = []")
    case False
    then have "rest ! 0 \<in> set rest" by simp
    then have "wf_entry (rest ! 0)" "\<not> before (rest ! 0) e" "wf_entry e" using r(1) by auto
    then show ?thesis using before_precedes compare_le_zero by (simp add: wf_entry_def)
  qed simp
  have "popNext w es now = Inr (Some (he_ticket e), rest)"
    using p key first by (simp add: popNext_def)
  moreover have "fresh_heap w now rest" using r(1) sub fresh by (auto simp: fresh_heap_def)
  ultimately show ?thesis using r by auto
qed

lemma drain_fresh:
  "accepted w now \<Longrightarrow> fresh_heap w now es \<Longrightarrow> length es < fuel \<Longrightarrow>
   \<exists>out. drain fuel w es now = Some (Inr (map (\<lambda>e. tid (he_ticket e)) out)) \<and> mset out = mset es
     \<and> sorted_wrt (\<lambda>a b. \<not> before b a) out"
proof (induction fuel arbitrary: es)
  case (Suc fuel)
  show ?case
  proof (cases "es = []")
    case True
    then show ?thesis using popNext_fresh [OF Suc.prems(1,2)] by simp
  next
    case False
    then obtain e rest where e: "popNext w es now = Inr (Some (he_ticket e), rest)" "fresh_heap w now rest"
      "mset es = add_mset e (mset rest)" "\<forall>x \<in> set rest. \<not> before x e"
      using popNext_fresh [OF Suc.prems(1,2)] by blast
    have "length es = Suc (length rest)" using arg_cong [OF e(3), of size] by simp
    then obtain out where out: "drain fuel w rest now = Some (Inr (map (\<lambda>e. tid (he_ticket e)) out))"
      "mset out = mset rest" "sorted_wrt (\<lambda>a b. \<not> before b a) out"
      using Suc.IH [OF Suc.prems(1) e(2)] Suc.prems(3) by auto
    have "set out = set rest" using out(2) by (metis set_mset_mset)
    then show ?thesis using e out by (intro exI [of _ "e # out"]) simp
  qed
qed simp

subsection \<open>One order, four mechanisms\<close>

definition drained :: "priority_weights \<Rightarrow> jnum \<Rightarrow> sim_ticket list \<Rightarrow> heap_entry list" where
  "drained w now ts = stable_sort (\<lambda>a b. before b a) (map (keyed w now) ts)"

lemma wf_keyed_tickets:
  "accepted w now \<Longrightarrow> \<forall>t \<in> set ts. wf_features t \<Longrightarrow> \<forall>e \<in> set (map (keyed w now) ts). wf_entry e"
  using wf_entry_keyed by auto

lemma served_after_keyed:
  "wf_entry a \<Longrightarrow> wf_entry b \<Longrightarrow> served_after (he_key a) (he_key b) \<longleftrightarrow> before b a"
  by (simp add: served_after_def before_def wf_entry_def compare_sign)

lemma sort_keys:
  assumes "accepted w now" "\<forall>t \<in> set ts. wf_features t"
  shows "stable_sort (\<lambda>a b. served_after (snd a) (snd b)) (map (\<lambda>t. (f t, he_key (keyed w now t))) ts)
    = map (\<lambda>e. (f (he_ticket e), he_key e)) (drained w now ts)"
proof -
  have "map (\<lambda>t. (f t, he_key (keyed w now t))) ts
      = map (\<lambda>e. (f (he_ticket e), he_key e)) (map (keyed w now) ts)" by simp
  moreover have "stable_sort (\<lambda>a b. served_after (he_key a) (he_key b)) (map (keyed w now) ts)
      = stable_sort (\<lambda>a b. before b a) (map (keyed w now) ts)"
    using wf_keyed_tickets [OF assms] by (intro stable_sort_cong served_after_keyed) blast+
  ultimately show ?thesis by (simp only: stable_sort_map snd_conv drained_def)
qed

lemma map_err_total: "(\<And>x. x \<in> set xs \<Longrightarrow> f x = Inr (g x)) \<Longrightarrow> map_err f xs = Inr (map g xs)"
  by (rule map_err_Inr) blast

lemma keys_of_tickets:
  "accepted w now \<Longrightarrow> map_err (\<lambda>t. bind_err (queueKey t now w) (\<lambda>k. Inr (f t, k))) ts
     = Inr (map (\<lambda>t. (f t, he_key (keyed w now t))) ts)"
  by (rule map_err_total) (simp add: queueKey_keyed)

lemma keyed_inject:
  assumes "distinct (map tid ts)" "accepted w now" "\<forall>t \<in> set ts. wf_features t"
    and "a \<in> set (map (keyed w now) ts)" "b \<in> set (map (keyed w now) ts)" "\<not> before b a" "\<not> before a b"
  shows "a = b"
proof -
  obtain s t where st: "s \<in> set ts" "a = keyed w now s" "t \<in> set ts" "b = keyed w now t" using assms(4,5) by auto
  have "wf_entry a" "wf_entry b" using wf_keyed_tickets [OF assms(2,3)] assms(4,5) by blast+
  then have "he_key a = he_key b"
    using assms(6,7) before_precedes precedes_linear by (auto simp: wf_entry_def)
  then have "tid s = tid t" using st key_id_keyed by metis
  then have "s = t" using assms(1) st by (auto simp: distinct_map inj_on_def)
  with st show ?thesis by simp
qed

lemma heapOrder_drained:
  assumes "accepted w now" "\<forall>t \<in> set ts. wf_features t" "distinct (map tid ts)" "length ts < fuel"
  shows "heapOrder fuel ts now w = Some (Inr (map (\<lambda>e. tid (he_ticket e)) (drained w now ts)))"
proof -
  have "fresh_heap w now []" by (simp add: fresh_heap_def is_heap_def edges_def)
  from push_all_fresh [OF assms(1) this assms(2)]
  obtain es where es: "push_all w [] ts now = Inr es" "fresh_heap w now es" "mset es = mset (map (keyed w now) ts)"
    by auto
  have "length es < fuel" using arg_cong [OF es(3), of size] assms(4) by simp
  then obtain out where out: "drain fuel w es now = Some (Inr (map (\<lambda>e. tid (he_ticket e)) out))"
    "mset out = mset es" "sorted_wrt (\<lambda>a b. \<not> before b a) out"
    using drain_fresh [OF assms(1) es(2)] by blast
  have "out = drained w now ts"
  proof (rule qh.sorting.sorted_unique)
    show "mset out = mset (drained w now ts)" by (simp add: out es drained_def)
    have set_out: "set out = set (map (keyed w now) ts)" using out(2) es(3) by (metis set_mset_mset)
    then show "\<forall>z \<in> set out. wf_entry z" using wf_keyed_tickets [OF assms(1,2)] by simp
    show "sorted_wrt (\<lambda>a b. \<not> before b a) (drained w now ts)"
      unfolding drained_def by (rule qh.sorting.sorted_stable_sort [OF wf_keyed_tickets [OF assms(1,2)]])
    show "a = b" if "a \<in> set out" "b \<in> set out" "\<not> before b a" "\<not> before a b" for a b
      using keyed_inject [OF assms(3,1,2)] that unfolding set_out by blast
  qed (use out(3) in simp)
  with es(1) out(1) show ?thesis by (simp add: heapOrder_def)
qed

text \<open>A ticket whose arrival is a whole millisecond of at most fifteen digits has an encodable key.\<close>

definition storable :: "sim_ticket \<Rightarrow> bool" where
  "storable t = (wf_features t \<and> (\<exists>c. createdAt t = Fin (of_int c) \<and> 0 \<le> c \<and> c < 10 ^ 15))"

lemma encodable_keyed:
  assumes "accepted w now" "storable t"
  shows "\<exists>p c. encodable (he_key (keyed w now t)) p c"
proof -
  obtain k where "0 \<le> k" "k \<le> 1000000" "k_priority (he_key (keyed w now t)) = grid_score k"
    "k_createdAt (he_key (keyed w now t)) = createdAt t"
    using queueKey_Inr [OF _ _ _ queueKey_keyed [OF assms(1)], of t] assms
    by (auto simp: accepted_def storable_def)
  then show ?thesis using assms(2) by (auto simp: encodable_def storable_def)
qed

definition collation_of :: "heap_entry \<Rightarrow> jstr" where
  "collation_of e = (case storedCollationKey (he_key e) of Inr c \<Rightarrow> c | Inl _ \<Rightarrow> [])"

lemma storedOrder_drained:
  assumes "accepted w now" "\<forall>t \<in> set ts. storable t"
  shows "storedOrder ts now w = Inr (map (\<lambda>e. tid (he_ticket e)) (drained w now ts))"
proof -
  let ?es = "map (keyed w now) ts"
  have wf: "\<forall>t \<in> set ts. wf_features t" using assms(2) by (simp add: storable_def)
  have enc: "\<exists>p c. encodable (he_key e) p c" if "e \<in> set ?es" for e
    using encodable_keyed [OF assms(1)] assms(2) that by auto
  have code: "storedCollationKey (he_key e) = Inr (collation_of e)" if "e \<in> set ?es" for e
    using enc [OF that] storedCollationKey_encodable by (auto simp: collation_of_def)
  have cmp: "collation_of b < collation_of a \<longleftrightarrow> before b a" if ab: "a \<in> set ?es" "b \<in> set ?es" for a b
  proof -
    obtain p c q d where pc: "encodable (he_key a) p c" and qd: "encodable (he_key b) q d"
      using enc [OF ab(1)] enc [OF ab(2)] by auto
    have "wf_entry a" "wf_entry b" using wf_keyed_tickets [OF assms(1) wf] ab by blast+
    then show ?thesis
      using collation_text_precedes [OF qd pc] storedCollationKey_encodable [OF pc] storedCollationKey_encodable [OF qd]
      by (simp add: collation_of_def before_precedes)
  qed
  have rows: "map_err (\<lambda>t. bind_err (queueKey t now w) (\<lambda>k. Inr (tid t, k))) ts
      = Inr (map (\<lambda>e. (tid (he_ticket e), he_key e)) ?es)"
    using keys_of_tickets [OF assms(1), of tid ts] by (simp add: o_def)
  have coded: "map_err (\<lambda>r. bind_err (storedCollationKey (snd r)) (\<lambda>c. Inr (fst r, c)))
      (map (\<lambda>e. (tid (he_ticket e), he_key e)) ?es) = Inr (map (\<lambda>e. (tid (he_ticket e), collation_of e)) ?es)"
    using code by (induction ts) auto
  have "stable_sort (\<lambda>a b. snd b < snd a) (map (\<lambda>e. (tid (he_ticket e), collation_of e)) ?es)
      = map (\<lambda>e. (tid (he_ticket e), collation_of e)) (stable_sort (\<lambda>a b. collation_of b < collation_of a) ?es)"
    by (simp only: stable_sort_map snd_conv)
  also have "stable_sort (\<lambda>a b. collation_of b < collation_of a) ?es = drained w now ts"
    unfolding drained_def by (rule stable_sort_cong) (rule cmp)
  finally have "stable_sort (\<lambda>a b. snd b < snd a) (map (\<lambda>e. (tid (he_ticket e), collation_of e)) ?es)
      = map (\<lambda>e. (tid (he_ticket e), collation_of e)) (drained w now ts)" .
  moreover have "drained w now ts = ?es" if "length ts < 2"
    using that by (cases ts) (auto simp: drained_def stable_sort_def)
  ultimately show ?thesis
    using coded unfolding storedOrder_def rows by (simp add: o_def)
qed

text \<open>
  C8: the queue has one order however it is obtained: for well-formed tickets with distinct identifiers
  and encodable instants, at one instant and under accepted weights, draining the heap (with fuel for
  one pop more than there are tickets), collating the stored columns, ranking a snapshot and sorting
  with the comparator all return, and return the same identifiers.
\<close>

theorem queue_orders_agree:
  assumes "wf_weights w" "assertValidWeights w = Inr ()" "wf_instant now" "\<forall>t \<in> set ts. storable t"
    "distinct (map tid ts)" "length ts < fuel"
  shows "\<exists>ids. heapOrder fuel ts now w = Some (Inr ids) \<and> storedOrder ts now w = Inr ids
     \<and> rankSnapshot \<lparr>sn_at = now, sn_waiting = ts\<rparr> w = Inr ids
     \<and> (\<exists>out. orderQueue ts now w = Inr out \<and> map tid out = ids)"
proof -
  have acc: "accepted w now" using assms(1-3) by (simp add: accepted_def)
  have wf: "\<forall>t \<in> set ts. wf_features t" using assms(4) by (simp add: storable_def)
  let ?ids = "map (\<lambda>e. tid (he_ticket e)) (drained w now ts)"
  have "orderQueue ts now w = Inr (map he_ticket (drained w now ts))"
    using keys_of_tickets [OF acc, of "\<lambda>t. t" ts] sort_keys [OF acc wf, of "\<lambda>t. t"]
    by (simp add: orderQueue_def o_def)
  moreover have "rankSnapshot \<lparr>sn_at = now, sn_waiting = ts\<rparr> w = Inr ?ids"
    using keys_of_tickets [OF acc, of tid ts] sort_keys [OF acc wf, of tid] by (simp add: rankSnapshot_def o_def)
  ultimately show ?thesis
    using heapOrder_drained [OF acc wf assms(5,6)] storedOrder_drained [OF acc assms(4)]
    by (intro exI [of _ ?ids]) (simp add: o_def)
qed

definition sample_sim :: "string \<Rightarrow> int \<Rightarrow> sim_ticket" where
  "sample_sim name c = queue_features.extend (sample_features\<lparr>tid := u name, createdAt := Fin (of_int c)\<rparr>)
     \<lparr>slaWindowMs = Fin 60000\<rparr>"

lemma storable_sample: "0 \<le> c \<Longrightarrow> c < 10 ^ 15 \<Longrightarrow> storable (sample_sim name c)"
  using wf_sample_features wf_instant_of_int [of c]
  by (auto simp: storable_def sample_sim_def wf_features_def queue_features.extend_def)

theorem queue_orders_agree_witness:
  "\<exists>ids. heapOrder 3 [sample_sim ''a'' 5, sample_sim ''b'' 9] (Fin 2000) DEFAULT_PRIORITY_WEIGHTS = Some (Inr ids)
     \<and> storedOrder [sample_sim ''a'' 5, sample_sim ''b'' 9] (Fin 2000) DEFAULT_PRIORITY_WEIGHTS = Inr ids"
proof -
  have "wf_instant (Fin 2000)" using wf_instant_of_int [of 2000] by simp
  moreover have "\<forall>t \<in> set [sample_sim ''a'' 5, sample_sim ''b'' 9]. storable t"
    using storable_sample [of 5 "''a''"] storable_sample [of 9 "''b''"] by simp
  moreover have "distinct (map tid [sample_sim ''a'' 5, sample_sim ''b'' 9])"
    by (simp add: sample_sim_def queue_features.extend_def)
  ultimately show ?thesis
    using queue_orders_agree [OF wf_default_weights default_weights_valid, of "Fin 2000"
        "[sample_sim ''a'' 5, sample_sim ''b'' 9]" 3] by auto
qed

subsection \<open>Lazy revalidation settles\<close>

text \<open>An entry is stale when its key is not the key of the instant it is popped at.\<close>

definition stale :: "priority_weights \<Rightarrow> jnum \<Rightarrow> heap_entry list \<Rightarrow> nat" where
  "stale w now es = length (filter (\<lambda>e. e \<noteq> keyed w now (he_ticket e)) es)"

definition wf_queue :: "heap_entry list \<Rightarrow> bool" where
  "wf_queue es \<longleftrightarrow> is_heap before es \<and> (\<forall>e \<in> set es. wf_entry e \<and> wf_features (he_ticket e))"

lemma stale_mset: "stale w now es = size (filter_mset (\<lambda>e. e \<noteq> keyed w now (he_ticket e)) (mset es))"
  unfolding stale_def by (metis mset_filter size_mset)

lemma wf_queue_pop:
  assumes "wf_queue es" "popRoot before es = Some (e, rest)"
  shows "wf_queue rest \<and> wf_entry e \<and> wf_features (he_ticket e) \<and> mset es = add_mset e (mset rest)
     \<and> (\<forall>x \<in> set rest. \<not> before x e)"
proof -
  have "set es = insert e (set rest)"
    using popRoot_SomeD [OF assms(2)] by (metis set_mset_add_mset_insert set_mset_mset)
  then show ?thesis
    using qh.popRoot_heap [OF assms(2)] popRoot_SomeD [OF assms(2)] assms(1) by (auto simp: wf_queue_def)
qed

lemma wf_queue_push:
  assumes "wf_queue es" "wf_entry e" "wf_features (he_ticket e)" shows "wf_queue (pushEntry before es e)"
proof -
  have "set (pushEntry before es e) = insert e (set es)"
    by (metis mset_pushEntry set_mset_add_mset_insert set_mset_mset)
  then show ?thesis using qh.pushEntry_heap assms by (auto simp: wf_queue_def)
qed

lemma pop_loop_settles:
  assumes "accepted w now" "wf_queue es" "stale w now es < steps"
  shows "\<exists>t rest. pop_loop steps w es now = Inr (t, rest) \<and> wf_queue rest
     \<and> (case t of None \<Rightarrow> es = [] \<and> rest = [] | Some t \<Rightarrow>
          mset (map he_ticket es) = add_mset t (mset (map he_ticket rest)))"
  using assms(2,3)
proof (induction steps arbitrary: es)
  case (Suc steps)
  show ?case
  proof (cases "popRoot before es")
    case None
    then show ?thesis using Suc.prems popRoot_None_iff [of before es] by simp
  next
    case (Some p)
    then obtain c rest where p: "popRoot before es = Some (c, rest)" by (cases p) auto
    let ?k = "keyed w now (he_ticket c)"
    note wf = wf_queue_pop [OF Suc.prems(1) p]
    have key: "queueKey (he_ticket c) now w = Inr (he_key ?k)" by (rule queueKey_keyed [OF assms(1)])
    have tickets: "mset (map he_ticket es) = add_mset (he_ticket c) (mset (map he_ticket rest))"
      using wf arg_cong [where f = "image_mset he_ticket"] by fastforce
    show ?thesis
    proof (cases "rest = [] \<or> compareQueueKeys (he_key ?k) (he_key (rest ! 0)) \<le> Fin 0")
      case True
      then show ?thesis using p key wf tickets by auto
    next
      case False
      let ?es = "pushEntry before rest ?k"
      have "c \<noteq> ?k"
      proof
        assume c: "c = ?k"
        have "rest ! 0 \<in> set rest" using False by simp
        then have "wf_entry (rest ! 0)" "\<not> before (rest ! 0) c" using wf by (auto simp: wf_queue_def)
        then show False using False wf before_precedes compare_le_zero c by (metis wf_entry_def)
      qed
      then have "stale w now es = Suc (stale w now rest)" using wf by (simp add: stale_mset)
      then have "stale w now ?es < steps" using Suc.prems(2) by (simp add: stale_mset)
      moreover have "wf_queue ?es" using wf wf_entry_keyed [OF assms(1)] by (intro wf_queue_push) simp_all
      moreover have "?es \<noteq> []" by (metis mset_pushEntry add_mset_not_empty mset.simps(1))
      moreover have "mset (map he_ticket ?es) = mset (map he_ticket es)" using tickets by simp
      ultimately obtain t out where "pop_loop steps w ?es now = Inr (Some t, out)" "wf_queue out"
        "mset (map he_ticket es) = add_mset t (mset (map he_ticket out))"
        using Suc.IH [of ?es] by (auto split: option.splits)
      moreover have "pop_loop (Suc steps) w es now = pop_loop steps w ?es now"
      proof -
        have "\<lparr>he_ticket = he_ticket c, he_key = he_key ?k\<rparr> = ?k" by (simp add: keyed_def Let_def)
        then show ?thesis using p key False by (simp add: \<open>_ = ?k\<close>)
      qed
      ultimately show ?thesis by auto
    qed
  qed
qed simp

text \<open>
  C16: the guard of \<open>popNext\<close> never fires: on any heap of well-formed entries, however stale their
  keys, the lazy revalidation returns within the bound of the loop, serves exactly one of the queued
  tickets when there is one, and leaves a well-formed heap of all the others.
\<close>

theorem pop_next_settles:
  assumes "wf_weights w" "assertValidWeights w = Inr ()" "wf_instant now" "wf_queue es"
  shows "\<exists>t rest. popNext w es now = Inr (t, rest) \<and> wf_queue rest
     \<and> (case t of None \<Rightarrow> es = [] | Some t \<Rightarrow> mset (heap_contents es) = add_mset t (mset (heap_contents rest)))"
proof -
  have "stale w now es \<le> length es" by (simp add: stale_def)
  then have "stale w now es < length es * 2 + 2" by simp
  from pop_loop_settles [OF _ assms(4) this] assms(1-3)
  obtain t rest where r: "popNext w es now = Inr (t, rest)" "wf_queue rest"
    "case t of None \<Rightarrow> es = [] \<and> rest = [] | Some t \<Rightarrow>
        mset (map he_ticket es) = add_mset t (mset (map he_ticket rest))"
    unfolding popNext_def accepted_def by blast
  then show ?thesis by (cases t) (simp_all add: heap_contents_def)
qed

theorem pop_next_settles_witness:
  "\<exists>t rest. popNext DEFAULT_PRIORITY_WEIGHTS [keyed DEFAULT_PRIORITY_WEIGHTS (Fin 10) (sample_sim ''a'' 5)] (Fin 2000)
     = Inr (t, rest)"
proof -
  have "accepted DEFAULT_PRIORITY_WEIGHTS (Fin 10)"
    using wf_default_weights default_weights_valid wf_instant_of_int [of 10] by (simp add: accepted_def)
  moreover have "wf_features (sample_sim ''a'' 5)" using storable_sample [of 5 "''a''"] by (simp add: storable_def)
  ultimately have "wf_queue [keyed DEFAULT_PRIORITY_WEIGHTS (Fin 10) (sample_sim ''a'' 5)]"
    using wf_entry_keyed by (simp add: wf_queue_def is_heap_def edges_def)
  moreover have "wf_instant (Fin 2000)" using wf_instant_of_int [of 2000] by simp
  ultimately show ?thesis
    using pop_next_settles [OF wf_default_weights default_weights_valid] by blast
qed

end
