(* ===== verification/Sim_Rank.thy ===== *)
theory Sim_Rank
  imports Js_Number Js_Value
begin

section \<open>Comparing two orderings (kendallTau, countInversions, topKOverlap, percentile in src/alg/simulation.ts)\<close>

text \<open>
  The merge sort works on the slice of the array between two indices; the model takes the slice as
  a list, whose halves are the slices of the two recursive calls.
\<close>

subsection \<open>The operations\<close>

fun merge_count :: "nat list \<Rightarrow> nat list \<Rightarrow> nat \<times> nat list" where
  "merge_count [] ys = (0, ys)"
| "merge_count xs [] = (0, xs)"
| "merge_count (x # xs) (y # ys) =
     (if x \<le> y then (let (c, m) = merge_count xs (y # ys) in (c, x # m))
      else (let (c, m) = merge_count (x # xs) ys in (c + length (x # xs), y # m)))"

function sort_count :: "nat list \<Rightarrow> nat \<times> nat list" where
  "sort_count xs =
     (if length xs < 2 then (0, xs)
      else let mid = length xs div 2;
               (a, left) = sort_count (take mid xs);
               (b, right) = sort_count (drop mid xs);
               (c, m) = merge_count left right
           in (a + b + c, m))"
  by pat_completeness auto
termination by (relation "measure length") auto

declare sort_count.simps [simp del]

definition countInversions :: "nat list \<Rightarrow> nat" where
  "countInversions values = fst (sort_count values)"

text \<open>The map built by \<open>rank.set(id, index)\<close>: a repeated identifier keeps its last index.\<close>

fun set_ranks :: "nat \<Rightarrow> jstr list \<Rightarrow> (jstr \<rightharpoonup> nat) \<Rightarrow> jstr \<rightharpoonup> nat" where
  "set_ranks i [] m = m"
| "set_ranks i (s # ss) m = set_ranks (i + 1) ss (m(s \<mapsto> i))"

definition rank_map :: "jstr list \<Rightarrow> jstr \<rightharpoonup> nat" where
  "rank_map baseline = set_ranks 0 baseline Map.empty"

definition kendallTau :: "jstr list \<Rightarrow> jstr list \<Rightarrow> js_error + jnum" where
  "kendallTau baseline candidate =
     (if length baseline \<noteq> length candidate then Inl RangeError
      else let n = length baseline
           in if n < 2 then Inr (Fin 1)
              else bind_err (map_err (\<lambda>s. case rank_map baseline s of
                                 None \<Rightarrow> Inl RangeError | Some v \<Rightarrow> Inr v) candidate) (\<lambda>ranks.
                let inversions = countInversions ranks;
                    num = to_num (of_nat n)
                in Inr (jsub (Fin 1) (jdiv (jmul (Fin 4) (to_num (of_nat inversions)))
                                           (jmul num (jsub num (Fin 1)))))))"

definition topKOverlap :: "jstr list \<Rightarrow> jstr list \<Rightarrow> nat \<Rightarrow> jnum" where
  "topKOverlap baseline candidate k =
     (let head = remdups (take k baseline)
      in if length head = 0 then Fin 1
         else jdiv (to_num (of_nat (length (filter (\<lambda>s. s \<in> set head) (take k candidate)))))
                   (to_num (of_nat (length head))))"

text \<open>\<open>percentile\<close> of a sorted array; the index is computed in doubles and clamped to the array.\<close>

definition percentile :: "jnum list \<Rightarrow> jnum \<Rightarrow> jnum" where
  "percentile vals fraction =
     (if length vals = 0 then Fin 0
      else let rank = jceil (jmul fraction (to_num (of_nat (length vals))));
               below = jsub rank (Fin 1);
               low = (if below < Fin 0 then Fin 0 else below);
               top = to_num (of_nat (length vals - 1))
           in (if low \<le> top then (case low of Fin x \<Rightarrow> vals ! nat \<lfloor>x\<rfloor> | _ \<Rightarrow> NaN)
               else vals ! (length vals - 1)))"

subsection \<open>The reference: pairs out of order\<close>

fun inversions :: "nat list \<Rightarrow> nat" where
  "inversions [] = 0"
| "inversions (x # xs) = length (filter (\<lambda>y. y < x) xs) + inversions xs"

definition cross :: "nat list \<Rightarrow> nat list \<Rightarrow> nat" where
  "cross xs ys = sum_list (map (\<lambda>x. length (filter (\<lambda>y. y < x) ys)) xs)"

lemma inversions_append: "inversions (xs @ ys) = inversions xs + inversions ys + cross xs ys"
  by (induction xs) (simp_all add: cross_def)

lemma cross_mset: "mset xs = mset xs' \<Longrightarrow> mset ys = mset ys' \<Longrightarrow> cross xs ys = cross xs' ys'"
proof -
  assume x: "mset xs = mset xs'" and y: "mset ys = mset ys'"
  have "length (filter P ys) = length (filter P ys')" for P
    using y by (metis mset_filter size_mset)
  moreover have "sum_list (map f xs) = sum_list (map f xs')" for f :: "nat \<Rightarrow> nat"
    using x by (metis mset_map sum_mset_sum_list)
  ultimately show ?thesis by (simp add: cross_def)
qed

lemma cross_Cons_right: "cross xs (y # ys) = length (filter (\<lambda>x. y < x) xs) + cross xs ys"
  by (induction xs) (simp_all add: cross_def)

lemma merge_count_correct:
  "sorted xs \<Longrightarrow> sorted ys \<Longrightarrow>
     fst (merge_count xs ys) = cross xs ys \<and> sorted (snd (merge_count xs ys))
     \<and> mset (snd (merge_count xs ys)) = mset xs + mset ys"
proof (induction xs ys rule: merge_count.induct)
  case (3 x xs y ys)
  show ?case
  proof (cases "x \<le> y")
    case True
    obtain c m where m: "merge_count xs (y # ys) = (c, m)" by fastforce
    have "filter (\<lambda>z. z < x) (y # ys) = []" using True 3(4) by (intro filter_False) auto
    then have "cross (x # xs) (y # ys) = cross xs (y # ys)" by (simp add: cross_def)
    moreover have "set m = set xs \<union> set (y # ys)"
      using 3 True m by (metis fst_conv snd_conv set_mset_mset set_mset_union sorted_simps(2))
    moreover have "\<forall>z \<in> set xs \<union> set (y # ys). x \<le> z" using True 3(3,4) by auto
    ultimately show ?thesis using 3 True m by auto
  next
    case False
    obtain c m where m: "merge_count (x # xs) ys = (c, m)" by fastforce
    have "filter (\<lambda>z. y < z) (x # xs) = x # xs" using False 3(3) by (intro filter_True) auto
    then have "cross (x # xs) (y # ys) = length (x # xs) + cross (x # xs) ys"
      by (simp only: cross_Cons_right)
    moreover have "set m = set (x # xs) \<union> set ys"
      using 3 False m by (metis fst_conv snd_conv set_mset_mset set_mset_union sorted_simps(2))
    moreover have "\<forall>z \<in> set (x # xs) \<union> set ys. y \<le> z" using False 3(3,4) by auto
    ultimately show ?thesis using 3 False m by auto
  qed
qed (auto simp: cross_def)

lemma sort_count_correct:
  "fst (sort_count xs) = inversions xs \<and> sorted (snd (sort_count xs)) \<and> mset (snd (sort_count xs)) = mset xs"
proof (induction xs rule: sort_count.induct)
  case (1 xs)
  show ?case
  proof (cases "length xs < 2")
    case True
    then have "xs = [] \<or> (\<exists>x. xs = [x])" by (cases xs; cases "tl xs") auto
    then show ?thesis by (subst (1 2 3) sort_count.simps) auto
  next
    case False
    let ?mid = "length xs div 2"
    obtain a l b r c m where e: "sort_count (take ?mid xs) = (a, l)" "sort_count (drop ?mid xs) = (b, r)"
      "merge_count l r = (c, m)" by fastforce
    then have "sort_count xs = (a + b + c, m)" using False by (subst sort_count.simps) (simp add: Let_def)
    moreover have l: "a = inversions (take ?mid xs)" "sorted l" "mset l = mset (take ?mid xs)"
      "b = inversions (drop ?mid xs)" "sorted r" "mset r = mset (drop ?mid xs)"
      using 1 False e by auto
    moreover have "c = cross (take ?mid xs) (drop ?mid xs)" "sorted m" "mset m = mset l + mset r"
      using merge_count_correct [OF l(2,5)] e(3) cross_mset [OF l(3,6)] by auto
    moreover have "mset (take ?mid xs) + mset (drop ?mid xs) = mset xs"
      by (metis append_take_drop_id mset_append)
    moreover have "inversions xs = inversions (take ?mid xs) + inversions (drop ?mid xs)
        + cross (take ?mid xs) (drop ?mid xs)"
      using inversions_append [of "take ?mid xs" "drop ?mid xs"] by simp
    ultimately show ?thesis by simp
  qed
qed

lemma inversions_bound: "2 * inversions xs \<le> length xs * (length xs - 1)"
proof (induction xs)
  case (Cons x xs)
  have "2 * length (filter (\<lambda>y. y < x) xs) \<le> 2 * length xs"
    by (intro mult_le_mono length_filter_le) simp
  with Cons have "2 * inversions (x # xs) \<le> 2 * length xs + length xs * (length xs - 1)"
    unfolding inversions.simps add_mult_distrib2 by (rule add_mono [rotated])
  also have "\<dots> = length (x # xs) * (length (x # xs) - 1)" by (cases "length xs") simp_all
  finally show ?case .
qed simp

lemma inversions_sorted: "sorted xs \<Longrightarrow> inversions xs = 0"
proof (induction xs)
  case (Cons x xs)
  then have "filter (\<lambda>y. y < x) xs = []" by (intro filter_False) auto
  with Cons show ?case by simp
qed simp

lemma inversions_reversed:
  "sorted xs \<Longrightarrow> distinct xs \<Longrightarrow> 2 * inversions (rev xs) = length xs * (length xs - 1)"
proof (induction xs)
  case (Cons x xs)
  have "\<forall>z \<in> set xs. x < z" using Cons.prems by (auto simp: order_less_le)
  then have "cross (rev xs) [x] = length xs" by (simp add: cross_Cons_right) (simp add: cross_def)
  then have "2 * inversions (rev (x # xs)) = length xs * (length xs - 1) + 2 * length xs"
    using Cons by (simp add: inversions_append)
  also have "\<dots> = length (x # xs) * (length (x # xs) - 1)" by (cases "length xs") simp_all
  finally show ?case .
qed simp

subsection \<open>The ranks of an ordering\<close>

lemma set_ranks_other: "s \<notin> set xs \<Longrightarrow> set_ranks k xs m s = m s"
  by (induction xs arbitrary: k m) auto

lemma set_ranks_nth: "distinct xs \<Longrightarrow> i < length xs \<Longrightarrow> set_ranks k xs m (xs ! i) = Some (k + i)"
  by (induction xs arbitrary: i k m) (auto simp: nth_Cons set_ranks_other split: nat.splits)

lemma rank_map_nth:
  "distinct baseline \<Longrightarrow> i < length baseline \<Longrightarrow> rank_map baseline (baseline ! i) = Some i"
  by (simp add: rank_map_def set_ranks_nth)

lemma kendall_ranks:
  assumes "distinct baseline" "set candidate \<subseteq> set baseline"
  obtains ranks where
    "map_err (\<lambda>s. case rank_map baseline s of None \<Rightarrow> Inl RangeError | Some v \<Rightarrow> Inr v) candidate = Inr ranks"
    "length ranks = length candidate" "candidate = map ((!) baseline) ranks" "\<forall>r \<in> set ranks. r < length baseline"
proof -
  define f where "f s = (SOME i. i < length baseline \<and> baseline ! i = s)" for s
  have f: "f s < length baseline \<and> baseline ! f s = s" if "s \<in> set candidate" for s
    unfolding f_def by (rule someI_ex) (use that assms(2) in \<open>auto simp: in_set_conv_nth subset_iff\<close>)
  have "map_err (\<lambda>s. case rank_map baseline s of None \<Rightarrow> Inl RangeError | Some v \<Rightarrow> Inr v) candidate
      = Inr (map f candidate)"
  proof (rule map_err_Inr)
    fix s assume s: "s \<in> set candidate"
    then have "rank_map baseline s = Some (f s)" using rank_map_nth [OF assms(1), of "f s"] f by simp
    then show "(case rank_map baseline s of None \<Rightarrow> Inl RangeError | Some v \<Rightarrow> Inr v) = Inr (f s)" by simp
  qed
  moreover have "candidate = map ((!) baseline) (map f candidate)" using f by (simp add: map_idI)
  ultimately show ?thesis using that [of "map f candidate"] f by simp
qed

text \<open>The coefficient in exact arithmetic, for orderings short enough for exact integers.\<close>

definition tau :: "nat \<Rightarrow> nat \<Rightarrow> jnum" where
  "tau n k = Fin (fl (1 - fl (of_nat (4 * k) / of_nat (n * (n - 1)))))"

lemma tau_bounds:
  assumes "2 \<le> n" "2 * k \<le> n * (n - 1)"
  shows "0 \<le> (of_nat (4 * k) / of_nat (n * (n - 1)) :: rat)"
    and "(of_nat (4 * k) / of_nat (n * (n - 1)) :: rat) \<le> 2"
proof -
  have pos: "0 < n * (n - 1)" using assms(1) by simp
  then have "(0::rat) < of_nat (n * (n - 1))" by (simp only: of_nat_0_less_iff)
  moreover have "of_nat (4 * k) \<le> (of_nat (2 * (n * (n - 1))) :: rat)" using assms(2) by (simp only: of_nat_le_iff)
  ultimately show "(of_nat (4 * k) / of_nat (n * (n - 1)) :: rat) \<le> 2"
    by (subst pos_divide_le_eq) (simp_all only: of_nat_mult of_nat_numeral)
qed simp

lemma nat_num: "n \<le> 2 ^ 53 \<Longrightarrow> to_num (of_nat n) = Fin (of_nat n)"
proof -
  assume "n \<le> 2 ^ 53"
  then have n: "\<bar>int n\<bar> \<le> 2 ^ 53" by (simp add: nat_le_iff flip: of_nat_le_iff)
  have "to_num (of_int (int n)) = Fin (of_int (int n))"
    by (rule to_num_rep [OF rep_of_int [OF n]]) (use n in \<open>intro big_range; simp\<close>)
  then show ?thesis by simp
qed

lemma tau_computed:
  assumes "2 \<le> n" "n \<le> 2 ^ 25" "2 * k \<le> n * (n - 1)"
  shows "jsub (Fin 1) (jdiv (jmul (Fin 4) (to_num (of_nat k)))
           (jmul (to_num (of_nat n)) (jsub (to_num (of_nat n)) (Fin 1)))) = tau n k"
proof -
  have nn: "n * (n - 1) \<le> 2 ^ 25 * 2 ^ 25" using assms(2) by (intro mult_le_mono) simp_all
  have small: "k \<le> 2 ^ 53" "4 * k \<le> 2 ^ 53" "n \<le> 2 ^ 53" "n - 1 \<le> 2 ^ 53" "n * (n - 1) \<le> 2 ^ 53"
    using nn assms by simp_all
  have c1: "jmul (Fin 4) (to_num (of_nat k)) = Fin (of_nat (4 * k))"
    using nat_num [OF small(1)] nat_num [OF small(2)] by simp
  have c2: "jsub (to_num (of_nat n)) (Fin 1) = Fin (of_nat (n - 1))"
    using nat_num [OF small(3)] nat_num [OF small(4)] assms(1) by (simp add: jsub_def of_nat_diff)
  have c3: "jmul (to_num (of_nat n)) (Fin (of_nat (n - 1))) = Fin (of_nat (n * (n - 1)))"
    using nat_num [OF small(3)] nat_num [OF small(5)] by (simp only: jmul.simps of_nat_mult)
  have q: "0 \<le> (of_nat (4 * k) / of_nat (n * (n - 1)) :: rat)" "(of_nat (4 * k) / of_nat (n * (n - 1)) :: rat) \<le> 2"
    using tau_bounds [OF assms(1,3)] by blast+
  let ?q = "of_nat (4 * k) / of_nat (n * (n - 1)) :: rat"
  have f: "0 \<le> fl ?q" "fl ?q \<le> 2"
    using b64.nonneg [OF q(1)] b64.le_bound [OF q(2)] rep_of_int [of 2] by simp_all
  have "to_num ?q = Fin (fl ?q)"
    by (rule to_num_bounded [where b = 2]) (use q rep_of_int [of 2] big_range [of 2] in simp_all)
  moreover have "(of_nat (n * (n - 1)) :: rat) \<noteq> 0" using assms(1) by simp
  ultimately have c4: "jdiv (Fin (of_nat (4 * k))) (Fin (of_nat (n * (n - 1)))) = Fin (fl ?q)"
    by (simp only: jdiv.simps if_False)
  have "to_num (1 - fl ?q) = Fin (fl (1 - fl ?q))"
    by (rule to_num_bounded [where b = 1]) (use f b64.one max_range_gt1 [of 1] in \<open>simp_all add: abs_le_iff\<close>)
  then show ?thesis unfolding c1 c2 c3 c4 tau_def by (simp add: jsub_def)
qed

lemma tau_range:
  assumes "2 \<le> n" "2 * k \<le> n * (n - 1)" shows "\<exists>v. tau n k = Fin v \<and> - 1 \<le> v \<and> v \<le> 1"
proof -
  let ?q = "of_nat (4 * k) / of_nat (n * (n - 1)) :: rat"
  have "0 \<le> fl ?q" "fl ?q \<le> 2"
    using b64.nonneg [OF tau_bounds(1) [OF assms]] b64.le_bound [OF tau_bounds(2) [OF assms]] rep_of_int [of 2]
    by simp_all
  then have q: "1 - fl ?q \<le> 1" "- 1 \<le> 1 - fl ?q" by linarith+
  have "rep (- 1)" using rep_of_int [of "- 1"] by simp
  from b64.le_bound [OF q(1) b64.one] b64.ge_bound [OF q(2) this] show ?thesis by (simp add: tau_def)
qed

lemma kendall_value:
  assumes "2 \<le> length baseline" "length baseline \<le> 2 ^ 25" "length candidate = length baseline"
    and ranks: "map_err (\<lambda>s. case rank_map baseline s of None \<Rightarrow> Inl RangeError | Some v \<Rightarrow> Inr v) candidate
      = Inr ranks" "length ranks = length candidate"
  shows "kendallTau baseline candidate = Inr (tau (length baseline) (inversions ranks))"
proof -
  have "2 * inversions ranks \<le> length baseline * (length baseline - 1)"
    using inversions_bound [of ranks] ranks(2) assms(3) by simp
  then show ?thesis
    using tau_computed [OF assms(1,2)] ranks(1) assms sort_count_correct [of ranks]
    by (simp add: kendallTau_def Let_def countInversions_def)
qed

lemma ranks_of_map:
  "distinct baseline \<Longrightarrow> \<forall>r \<in> set rs. r < length baseline \<Longrightarrow>
   map_err (\<lambda>s. case rank_map baseline s of None \<Rightarrow> Inl RangeError | Some v \<Rightarrow> Inr v) (map ((!) baseline) rs)
     = Inr rs"
  by (induction rs) (simp_all add: rank_map_nth)

text \<open>
  \<open>kendallTau\<close> measures what it says: on two orderings of the same distinct identifiers the merge
  sort counts exactly the pairs the second order swapped, the coefficient is one minus twice their
  share, it lies in [-1, 1], it is 1 for the same order and -1 for the reversed one.
\<close>

theorem kendall_tau_counts_swapped_pairs:
  assumes "distinct baseline" "mset candidate = mset baseline" "2 \<le> length baseline" "length baseline \<le> 2 ^ 25"
  shows "\<exists>ranks v. candidate = map ((!) baseline) ranks \<and> kendallTau baseline candidate = Inr (Fin v)
     \<and> v = fl (1 - fl (of_nat (4 * inversions ranks) / of_nat (length baseline * (length baseline - 1))))
     \<and> - 1 \<le> v \<and> v \<le> 1
     \<and> kendallTau baseline baseline = Inr (Fin 1) \<and> kendallTau baseline (rev baseline) = Inr (Fin (- 1))"
proof -
  let ?n = "length baseline" and ?f = "\<lambda>s. case rank_map baseline s of None \<Rightarrow> Inl RangeError | Some v \<Rightarrow> Inr v"
  note kv = kendall_value [OF assms(3,4)]
  have len: "length candidate = ?n" and sub: "set candidate \<subseteq> set baseline"
    using assms(2) by (metis size_mset, metis set_mset_mset order_refl)
  obtain ranks where r: "map_err ?f candidate = Inr ranks" "length ranks = length candidate"
    "candidate = map ((!) baseline) ranks"
    by (rule kendall_ranks [OF assms(1) sub])
  have coefficient: "kendallTau baseline candidate = Inr (tau ?n (inversions ranks))" by (rule kv [OF len r(1,2)])
  have "2 * inversions ranks \<le> ?n * (?n - 1)" using inversions_bound [of ranks] r(2) len by simp
  then obtain v where v: "tau ?n (inversions ranks) = Fin v" "- 1 \<le> v" "v \<le> 1"
    using tau_range [OF assms(3)] by blast
  have self: "map_err ?f baseline = Inr [0..<?n]" "map_err ?f (rev baseline) = Inr (rev [0..<?n])"
    using ranks_of_map [OF assms(1), of "[0..<?n]"] ranks_of_map [OF assms(1), of "rev [0..<?n]"]
    by (simp_all add: map_nth flip: rev_map)
  have inv: "inversions [0..<?n] = 0" "2 * inversions (rev [0..<?n]) = ?n * (?n - 1)"
    using inversions_sorted [of "[0..<?n]"] inversions_reversed [of "[0..<?n]"] by simp_all
  have twice: "(of_nat (4 * inversions (rev [0..<?n])) :: rat) = of_nat (2 * (?n * (?n - 1)))"
    using inv(2) by (simp only: of_nat_eq_iff)
  have q: "(of_nat (4 * inversions (rev [0..<?n])) / of_nat (?n * (?n - 1)) :: rat) = 2"
  proof -
    have half: "x / y = 2" if "x = of_nat 2 * y" "y \<noteq> 0" for x y :: rat using that by simp
    have "(of_nat (?n * (?n - 1)) :: rat) \<noteq> 0" using assms(3) by (simp only: of_nat_eq_0_iff) auto
    with twice show ?thesis by (intro half) (simp_all only: of_nat_mult not_False_eq_True)
  qed
  have "tau ?n 0 = Fin 1" "tau ?n (inversions (rev [0..<?n])) = Fin (- 1)"
    unfolding tau_def q using fl_rep [OF b64.one] fl_rep [OF rep_of_int [of 2]] fl_rep [OF rep_of_int [of "- 1"]]
    by simp_all
  moreover have "kendallTau baseline baseline = Inr (tau ?n 0)"
    using kv [OF refl self(1)] inv(1) by simp
  moreover have "kendallTau baseline (rev baseline) = Inr (tau ?n (inversions (rev [0..<?n])))"
    by (rule kv [OF length_rev self(2)]) simp
  ultimately show ?thesis
    using coefficient v r(3) by (intro exI [of _ ranks] exI [of _ v]) (simp add: tau_def)
qed

theorem kendall_tau_counts_swapped_pairs_witness:
  "kendallTau [u ''a'', u ''b'', u ''c''] (rev [u ''a'', u ''b'', u ''c'']) = Inr (Fin (- 1))"
  using kendall_tau_counts_swapped_pairs [of "[u ''a'', u ''b'', u ''c'']" "[u ''a'', u ''b'', u ''c'']"] by auto

end
