(* ===== verification/Canonical.thy ===== *)
theory Canonical
  imports Js_Text
begin

section \<open>Canonical serialisation and its digests (src/agents/canonical.ts)\<close>

text \<open>
  The text every digest of the ledger is taken over.  \<open>sha256\<close> is the parameter \<open>sha\<close>, from a text
  to its hexadecimal digest.  An object lists its own entries; the members are written in the order
  of their keys, so computing them in the order given and sorting afterwards writes the same text,
  and there is a single error to raise.
\<close>

subsection \<open>The serialisation\<close>

definition join_with :: "jstr \<Rightarrow> jstr list \<Rightarrow> jstr" where
  "join_with sep ts = (case ts of [] \<Rightarrow> [] | t # ts' \<Rightarrow> t @ concat (map (\<lambda>x. sep @ x) ts'))"

definition sort_members :: "(jstr \<times> 'a) list \<Rightarrow> (jstr \<times> 'a) list" where
  "sort_members = stable_sort (\<lambda>a b. fst b < fst a)"

fun canonicalJson :: "jsval \<Rightarrow> js_error + jstr"
  and canonical_items :: "jsval list \<Rightarrow> js_error + jstr list"
  and canonical_members :: "(jstr \<times> jsval) list \<Rightarrow> js_error + (jstr \<times> jstr) list" where
  "canonicalJson JNull = Inr (u ''null'')"
| "canonicalJson (JStr s) = Inr (json_quote s)"
| "canonicalJson (JNum n) = (if \<not> is_finite n then Inl TypeError else Inr (num_string n))"
| "canonicalJson (JBool b) = Inr (if b then u ''true'' else u ''false'')"
| "canonicalJson JUndef = Inl TypeError"
| "canonicalJson (JArr xs) =
     bind_err (canonical_items xs) (\<lambda>ts. Inr (u ''['' @ join_with (u '','') ts @ u '']''))"
| "canonicalJson (JObj fs) =
     bind_err (canonical_members fs) (\<lambda>ms.
       Inr (u ''{'' @ join_with (u '','') (map snd (sort_members ms)) @ u ''}''))"
| "canonical_items [] = Inr []"
| "canonical_items (x # xs) =
     bind_err (canonicalJson x) (\<lambda>t. bind_err (canonical_items xs) (\<lambda>ts. Inr (t # ts)))"
| "canonical_members [] = Inr []"
| "canonical_members ((k, v) # fs) =
     bind_err (canonicalJson v) (\<lambda>t.
     bind_err (canonical_members fs) (\<lambda>ms. Inr ((k, json_quote k @ u '':'' @ t) # ms)))"

definition digestOf :: "(jstr \<Rightarrow> jstr) \<Rightarrow> jsval \<Rightarrow> js_error + jstr" where
  "digestOf sha v = bind_err (canonicalJson v) (\<lambda>t. Inr (sha t))"

definition isHex64 :: "jstr \<Rightarrow> bool" where
  "isHex64 s = (length s = 64 \<and> (\<forall>c \<in> set s. (97 \<le> c \<and> c \<le> 102) \<or> (48 \<le> c \<and> c \<le> 57)))"

subsection \<open>Derived identifiers\<close>

definition hex_value :: "nat \<Rightarrow> nat" where
  "hex_value c = (if c < 58 then c - 48 else c - 87)"

definition derivedUuid :: "(jstr \<Rightarrow> jstr) \<Rightarrow> jstr \<Rightarrow> jstr" where
  "derivedUuid sha seed =
     (let digest = sha seed;
          slice = (\<lambda>a b. take (b - a) (drop a digest));
          variant = hex_digit (hex_value (digest ! 16) mod 4 + 8)
      in join_with (u ''-'')
           [slice 0 8, slice 8 12, u ''4'' @ slice 13 16, variant # slice 17 20, slice 20 32])"

subsection \<open>Money and confidence as text\<close>

definition MICRO_PER_AUD :: jnum where
  "MICRO_PER_AUD = Fin 1000000"

definition audToMicro :: "jnum \<Rightarrow> js_error + jnum" where
  "audToMicro aud = (if \<not> is_finite aud then Inl TypeError else Inr (jround (jmul aud MICRO_PER_AUD)))"

text \<open>\<open>%\<close> on two non-negative integers, and \<open>Number.isInteger\<close>.\<close>

definition is_integer :: "jnum \<Rightarrow> bool" where
  "is_integer a = (case a of Fin x \<Rightarrow> x = of_int \<lfloor>x\<rfloor> | _ \<Rightarrow> False)"

definition jmod_nonneg :: "jnum \<Rightarrow> jnum \<Rightarrow> jnum" where
  "jmod_nonneg a b =
     (case (a, b) of (Fin x, Fin y) \<Rightarrow> if y = 0 then NaN else Fin (x - y * of_int \<lfloor>x / y\<rfloor>) | _ \<Rightarrow> NaN)"

definition formatAud :: "jnum \<Rightarrow> js_error + jstr" where
  "formatAud micro =
     (if \<not> is_integer micro then Inl TypeError
      else let sign = (if micro < Fin 0 then u ''-'' else []);
               absolute = jabs micro;
               whole = jfloor (jdiv absolute MICRO_PER_AUD);
               fraction = jmod_nonneg absolute MICRO_PER_AUD
           in Inr (sign @ num_string whole @ u ''.'' @ pad_start 6 48 (num_string fraction)))"

definition formatConfidence :: "jnum \<Rightarrow> js_error + jstr" where
  "formatConfidence v =
     (if \<not> is_finite v \<or> v < Fin 0 \<or> v > Fin 1 then Inl RangeError else Inr (toFixed 3 v))"

subsection \<open>Reading a quoted string back\<close>

definition unhex4 :: "nat \<Rightarrow> nat \<Rightarrow> nat \<Rightarrow> nat \<Rightarrow> nat" where
  "unhex4 a b c d = ((hex_value a * 16 + hex_value b) * 16 + hex_value c) * 16 + hex_value d"

definition unescape_unit :: "nat \<Rightarrow> nat" where
  "unescape_unit c =
     (if c = 98 then 8 else if c = 116 then 9 else if c = 110 then 10 else if c = 102 then 12
      else if c = 114 then 13 else c)"

definition cons_unit :: "nat \<Rightarrow> (jstr \<times> jstr) option \<Rightarrow> (jstr \<times> jstr) option" where
  "cons_unit c r = map_option (\<lambda>(s, rest). (c # s, rest)) r"

fun read_units :: "jstr \<Rightarrow> (jstr \<times> jstr) option" where
  "read_units [] = None"
| "read_units (c # r) =
     (if c = 34 then Some ([], r)
      else if c = 92 then
        (case r of
           [] \<Rightarrow> None
         | e # r' \<Rightarrow>
             if e = 117 then
               (case r' of a # b # x # y # r'' \<Rightarrow> cons_unit (unhex4 a b x y) (read_units r'') | _ \<Rightarrow> None)
             else cons_unit (unescape_unit e) (read_units r'))
      else cons_unit c (read_units r))"

definition code_units :: "jstr \<Rightarrow> bool" where
  "code_units s = (\<forall>c \<in> set s. c < 65536)"

lemma hex_value_digit: "d < 16 \<Longrightarrow> hex_value (hex_digit d) = d"
  by (simp add: hex_value_def hex_digit_def)

lemma unhex4_escape:
  "c < 65536 \<Longrightarrow> unhex4 (hex_digit (c div 4096 mod 16)) (hex_digit (c div 256 mod 16))
     (hex_digit (c div 16 mod 16)) (hex_digit (c mod 16)) = c"
proof -
  assume c: "c < 65536"
  have e: "c div 4096 mod 16 = c div 16 div 16 div 16" "c div 256 mod 16 = c div 16 div 16 mod 16"
    using c by (simp_all add: div_mult2_eq [symmetric])
  have "c div 16 div 16 div 16 < 16" using c by (simp add: div_mult2_eq [symmetric])
  moreover have "((c div 16 div 16 div 16 * 16 + c div 16 div 16 mod 16) * 16 + c div 16 mod 16) * 16 + c mod 16 = c"
    by (simp only: div_mult_mod_eq)
  ultimately show ?thesis unfolding unhex4_def e by (simp only: hex_value_digit mod_less_divisor zero_less_numeral)
qed

lemma read_hex4: "read_units (92 # 117 # a # b # x # y # r) = cons_unit (unhex4 a b x y) (read_units r)"
  by simp

lemma read_escape: "c < 65536 \<Longrightarrow> read_units (unicode_escape c @ r) = cons_unit c (read_units r)"
  by (simp only: unicode_escape_def append_Cons append_Nil read_hex4 unhex4_escape)

lemma read_quote_unit: "c < 65536 \<Longrightarrow> read_units (quote_unit c @ r) = cons_unit c (read_units r)"
  using read_escape [of c r] by (auto simp: quote_unit_def unescape_unit_def)

lemma read_quoted: "code_units s \<Longrightarrow> read_units (quote_units s @ 34 # r) = Some (s, r)"
proof (induction s rule: quote_units.induct)
  case (1 c d s)
  show ?case
  proof (cases "is_high c \<and> is_low d")
    case True
    then have "c \<noteq> 34" "c \<noteq> 92" "d \<noteq> 34" "d \<noteq> 92" by (auto simp: is_high_def is_low_def)
    then show ?thesis using True 1 by (simp add: code_units_def cons_unit_def)
  next
    case False
    then show ?thesis using 1
      by (simp add: code_units_def read_escape read_quote_unit) (auto simp: cons_unit_def code_units_def)
  qed
qed (simp_all add: code_units_def read_escape read_quote_unit cons_unit_def)

subsection \<open>Reading a canonical text back\<close>

text \<open>
  A reader for the texts the serialisation writes from values whose numbers are whole: the inverse
  the digest rests on.  The fuel bounds the depth of the calls; the length of the text is enough.
\<close>

definition is_digit :: "nat \<Rightarrow> bool" where
  "is_digit c = (48 \<le> c \<and> c \<le> 57)"

definition read_number :: "jstr \<Rightarrow> (jsval \<times> jstr) option" where
  "read_number s =
     (let neg = (take 1 s = u ''-''); t = (if neg then drop 1 s else s); n = int (digits_value (takeWhile is_digit t))
      in Some (JNum (Fin (of_int (if neg then - n else n))), dropWhile is_digit t))"

fun read_value :: "nat \<Rightarrow> jstr \<Rightarrow> (jsval \<times> jstr) option"
  and read_items :: "nat \<Rightarrow> jstr \<Rightarrow> (jsval list \<times> jstr) option"
  and read_members :: "nat \<Rightarrow> jstr \<Rightarrow> ((jstr \<times> jsval) list \<times> jstr) option" where
  "read_value 0 s = None"
| "read_value (Suc n) s =
     (case s of
        [] \<Rightarrow> None
      | c # r \<Rightarrow>
          if c = 110 then Some (JNull, drop 3 r)
          else if c = 116 then Some (JBool True, drop 3 r)
          else if c = 102 then Some (JBool False, drop 4 r)
          else if c = 34 then map_option (\<lambda>(t, rest). (JStr t, rest)) (read_units r)
          else if c = 91 then
            (if take 1 r = u '']'' then Some (JArr [], drop 1 r)
             else map_option (\<lambda>(vs, rest). (JArr vs, rest)) (read_items n r))
          else if c = 123 then
            (if take 1 r = u ''}'' then Some (JObj [], drop 1 r)
             else map_option (\<lambda>(ms, rest). (JObj ms, rest)) (read_members n r))
          else read_number s)"
| "read_items 0 s = None"
| "read_items (Suc n) s =
     (case read_value n s of
        None \<Rightarrow> None
      | Some (v, r) \<Rightarrow>
          if take 1 r = u '']'' then Some ([v], drop 1 r)
          else map_option (\<lambda>(vs, rest). (v # vs, rest)) (read_items n (drop 1 r)))"
| "read_members 0 s = None"
| "read_members (Suc n) s =
     (case read_units (drop 1 s) of
        None \<Rightarrow> None
      | Some (k, r) \<Rightarrow>
          (case read_value n (drop 1 r) of
             None \<Rightarrow> None
           | Some (v, r') \<Rightarrow>
               if take 1 r' = u ''}'' then Some ([(k, v)], drop 1 r')
               else map_option (\<lambda>(ms, rest). ((k, v) # ms, rest)) (read_members n (drop 1 r'))))"

text \<open>The value a text stands for: the same value with the members of every object in key order.\<close>

fun json_norm :: "jsval \<Rightarrow> jsval" where
  "json_norm (JArr xs) = JArr (map json_norm xs)"
| "json_norm (JObj fs) = JObj (sort_members (map (\<lambda>(k, v). (k, json_norm v)) fs))"
| "json_norm v = v"

text \<open>What a ledger row holds: no undefined value, whole numbers, distinct keys, UTF-16 strings.\<close>

fun plain_json :: "jsval \<Rightarrow> bool" where
  "plain_json JUndef = False"
| "plain_json (JNum n) = (\<exists>k. n = Fin (of_int k) \<and> \<bar>k\<bar> < 2 ^ 53)"
| "plain_json (JStr s) = code_units s"
| "plain_json (JArr xs) = list_all plain_json xs"
| "plain_json (JObj fs) = (distinct (map fst fs) \<and> list_all (\<lambda>(k, v). code_units k \<and> plain_json v) fs)"
| "plain_json v = True"

definition ends_value :: "jstr \<Rightarrow> bool" where
  "ends_value r = (r = [] \<or> \<not> is_digit (hd r))"

definition reads :: "jsval \<Rightarrow> jstr \<Rightarrow> bool" where
  "reads v t = (t \<noteq> [] \<and> hd t \<noteq> 93 \<and> hd t \<noteq> 125
     \<and> (\<forall>n r. length t \<le> n \<longrightarrow> ends_value r \<longrightarrow> read_value n (t @ r) = Some (v, r)))"

lemma ends_value_stops: "ends_value r \<Longrightarrow> takeWhile is_digit r = [] \<and> dropWhile is_digit r = r"
  by (cases r) (simp_all add: ends_value_def)

lemma takeWhile_digits: "\<forall>c \<in> set ds. is_digit c \<Longrightarrow> ends_value r \<Longrightarrow> takeWhile is_digit (ds @ r) = ds"
  and dropWhile_digits: "\<forall>c \<in> set ds. is_digit c \<Longrightarrow> ends_value r \<Longrightarrow> dropWhile is_digit (ds @ r) = r"
  by (induction ds) (simp_all add: ends_value_stops)

lemma digits_are_digits: "\<forall>c \<in> set (nat_digits n). is_digit c"
  using nat_digits_range by (auto simp: is_digit_def)

lemma reads_int: "reads (JNum (Fin (of_int k))) (int_string k)"
proof -
  obtain d ds where d: "nat_digits (nat \<bar>k\<bar>) = d # ds" by (metis nat_digits_nonempty list.exhaust)
  then have dd: "is_digit d" using digits_are_digits [of "nat \<bar>k\<bar>"] by simp
  have "read_number (int_string k @ r) = Some (JNum (Fin (of_int k)), r)" if "ends_value r" for r
  proof (cases "k < 0")
    case True
    then show ?thesis
      using takeWhile_digits [OF digits_are_digits that] dropWhile_digits [OF digits_are_digits that]
      by (simp add: read_number_def int_string_def u_def Let_def)
  next
    case False
    have "take 1 (nat_digits (nat k) @ r) \<noteq> u ''-''" using d dd False by (auto simp: u_def is_digit_def)
    then show ?thesis
      using takeWhile_digits [OF digits_are_digits that] dropWhile_digits [OF digits_are_digits that] False
      by (simp add: read_number_def int_string_def Let_def)
  qed
  moreover have h: "hd (int_string k) = 45 \<or> is_digit (hd (int_string k))"
    using int_string_head [of k] by (auto simp: is_digit_def)
  moreover have "read_value (Suc n) s = read_number s" if "s \<noteq> []" "hd s = 45 \<or> is_digit (hd s)" for n s
    using that by (cases s) (auto simp: is_digit_def)
  ultimately have "read_value n (int_string k @ r) = Some (JNum (Fin (of_int k)), r)"
    if "length (int_string k) \<le> n" "ends_value r" for n r
    using that by (cases n) simp_all
  with h show ?thesis by (auto simp: reads_def is_digit_def)
qed

lemma reads_string: "code_units s \<Longrightarrow> reads (JStr s) (json_quote s)"
proof -
  assume "code_units s"
  then have "read_value n (json_quote s @ r) = Some (JStr s, r)" if "length (json_quote s) \<le> n" for n r
    using that by (cases n) (simp_all add: json_quote_def read_quoted)
  then show ?thesis by (simp add: reads_def) (simp add: json_quote_def)
qed

lemma join_Cons: "join_with sep (t # ts) = (if ts = [] then t else t @ sep @ join_with sep ts)"
  by (cases ts) (simp_all add: join_with_def)

lemma ends_value_sep [simp]: "ends_value (44 # r)" "ends_value (93 # r)" "ends_value (125 # r)"
  by (simp_all add: ends_value_def is_digit_def)

lemma read_items_join:
  "list_all2 reads vs ts \<Longrightarrow> ts \<noteq> [] \<Longrightarrow> length (join_with (u '','') ts) < n \<Longrightarrow>
   read_items n (join_with (u '','') ts @ 93 # r) = Some (vs, r)"
proof (induction vs ts arbitrary: n rule: list_all2_induct)
  case (Cons v vs t ts)
  from Cons.hyps(1) have t: "t \<noteq> []" "\<And>m r. length t \<le> m \<Longrightarrow> ends_value r \<Longrightarrow> read_value m (t @ r) = Some (v, r)"
    by (auto simp: reads_def)
  obtain m where n: "n = Suc m" using Cons.prems(2) by (cases n) auto
  show ?case
  proof (cases "ts = []")
    case True
    then have "vs = []" using Cons.hyps(2) by simp
    with True show ?thesis using t(2) [of m "93 # r"] Cons.prems(2) by (simp add: n join_Cons u_def)
  next
    case False
    have len: "length t + Suc (length (join_with (u '','') ts)) < Suc m"
      using Cons.prems(2) False by (simp add: n join_Cons u_def)
    have "0 < length t" using t(1) by simp
    with len have "length (join_with (u '','') ts) < m" by linarith
    then have "read_items m (join_with (u '','') ts @ 93 # r) = Some (vs, r)" using Cons.IH False by blast
    moreover have "read_value m (t @ 44 # join_with (u '','') ts @ 93 # r)
        = Some (v, 44 # join_with (u '','') ts @ 93 # r)"
      using t(2) len by simp
    ultimately show ?thesis using False by (simp add: n join_Cons u_def)
  qed
qed simp

lemma read_members_join:
  "list_all2 (\<lambda>(k, v) (k', m). k = k' \<and> code_units k \<and> (\<exists>t. m = json_quote k @ u '':'' @ t \<and> reads v t)) kvs ms \<Longrightarrow>
   ms \<noteq> [] \<Longrightarrow> length (join_with (u '','') (map snd ms)) < n \<Longrightarrow>
   read_members n (join_with (u '','') (map snd ms) @ 125 # r) = Some (kvs, r)"
proof (induction kvs ms arbitrary: n rule: list_all2_induct)
  case (Cons kv kvs km ms)
  obtain k v where kv: "kv = (k, v)" by (cases kv)
  obtain t where km: "km = (k, json_quote k @ u '':'' @ t)" and k: "code_units k" and "reads v t"
    using Cons.hyps(1) kv by (cases km) auto
  then have t: "t \<noteq> []" "\<And>m r. length t \<le> m \<Longrightarrow> ends_value r \<Longrightarrow> read_value m (t @ r) = Some (v, r)"
    by (auto simp: reads_def)
  obtain m where n: "n = Suc m" using Cons.prems(2) by (cases n) auto
  have key: "read_units (quote_units k @ 34 # x) = Some (k, x)" for x by (rule read_quoted [OF k])
  show ?case
  proof (cases "ms = []")
    case True
    then have "kvs = []" using Cons.hyps(2) by simp
    with True show ?thesis using t(2) [of m "125 # r"] key Cons.prems(2)
      by (simp add: n join_Cons u_def km kv json_quote_def)
  next
    case False
    let ?j = "join_with (u '','') (map snd ms)"
    have len: "length (json_quote k) + length t + 2 + length ?j < Suc m"
      using Cons.prems(2) False by (simp add: n join_Cons u_def km)
    then have "read_members m (?j @ 125 # r) = Some (kvs, r)" using Cons.IH False by simp
    moreover have "read_value m (t @ 44 # ?j @ 125 # r) = Some (v, 44 # ?j @ 125 # r)" using t(2) len by simp
    ultimately show ?thesis using False key by (simp add: n join_Cons u_def km kv json_quote_def)
  qed
qed simp

lemma join_empty_iff: "\<forall>t \<in> set ts. t \<noteq> [] \<Longrightarrow> join_with sep ts = [] \<longleftrightarrow> ts = []"
  by (cases ts) (auto simp: join_with_def)

lemma hd_join: "ts \<noteq> [] \<Longrightarrow> hd ts \<noteq> [] \<Longrightarrow> hd (join_with sep ts) = hd (hd ts)"
  by (cases ts) (auto simp: join_Cons)

lemma reads_array:
  assumes "list_all2 reads vs ts" shows "reads (JArr vs) (u ''['' @ join_with (u '','') ts @ u '']'')"
proof (cases "ts = []")
  case True
  then have "vs = []" using assms by simp
  have "read_value n (u ''[]'' @ r) = Some (JArr [], r)" if "2 \<le> n" for n r
    using that by (cases n) (simp_all add: u_def)
  then show ?thesis using True \<open>vs = []\<close> by (auto simp: reads_def join_with_def u_def)
next
  case False
  let ?j = "join_with (u '','') ts"
  have h: "hd ts \<noteq> []" "hd (hd ts) \<noteq> 93" using assms False by (cases vs; cases ts; simp add: reads_def)+
  then have j: "?j \<noteq> []" "hd ?j \<noteq> 93" using hd_join [OF False] False by (cases ts; simp add: join_Cons)+
  have "read_value n (u ''['' @ ?j @ u '']'' @ r) = Some (JArr vs, r)" if n: "length ?j + 2 \<le> n" for n r
  proof -
    obtain m where m: "n = Suc m" "length ?j < m" using n by (cases n) auto
    have "take 1 (?j @ 93 # r) \<noteq> u '']''" using j by (cases ?j) (auto simp: u_def)
    then show ?thesis using read_items_join [OF assms False m(2)] by (simp add: m(1) u_def)
  qed
  then show ?thesis by (simp add: reads_def u_def)
qed

lemma reads_object:
  assumes "list_all2 (\<lambda>(k, v) (k', m). k = k' \<and> code_units k \<and> (\<exists>t. m = json_quote k @ u '':'' @ t \<and> reads v t)) kvs ms"
  shows "reads (JObj kvs) (u ''{'' @ join_with (u '','') (map snd ms) @ u ''}'')"
proof (cases "ms = []")
  case True
  then have "kvs = []" using assms by simp
  have "read_value n (u ''{}'' @ r) = Some (JObj [], r)" if "2 \<le> n" for n r
    using that by (cases n) (simp_all add: u_def)
  then show ?thesis using True \<open>kvs = []\<close> by (auto simp: reads_def join_with_def u_def)
next
  case False
  let ?j = "join_with (u '','') (map snd ms)"
  obtain k m ms' where ms: "ms = (k, m) # ms'" using False by (cases ms) auto
  then obtain t where "m = json_quote k @ u '':'' @ t" using assms by (cases kvs) auto
  then have j: "take 1 (?j @ 125 # r) \<noteq> u ''}''" for r by (simp add: ms join_Cons json_quote_def u_def)
  have "read_value n (u ''{'' @ ?j @ u ''}'' @ r) = Some (JObj kvs, r)" if n: "length ?j + 2 \<le> n" for n r
  proof -
    obtain p where p: "n = Suc p" "length ?j < p" using n by (cases n) auto
    show ?thesis using read_members_join [OF assms False p(2)] j by (simp add: p(1) u_def)
  qed
  then show ?thesis by (simp add: reads_def u_def)
qed

subsection \<open>Round trip\<close>

definition text_of :: "jsval \<Rightarrow> jstr" where
  "text_of v = (case canonicalJson v of Inr t \<Rightarrow> t | Inl _ \<Rightarrow> [])"

lemma items_text:
  "\<forall>x \<in> set xs. canonicalJson x = Inr (text_of x) \<Longrightarrow> canonical_items xs = Inr (map text_of xs)"
  by (induction xs) auto

definition member_text :: "jstr \<times> jsval \<Rightarrow> jstr \<times> jstr" where
  "member_text = (\<lambda>(k, v). (k, json_quote k @ u '':'' @ text_of v))"

lemma members_text:
  "\<forall>(k, v) \<in> set fs. canonicalJson v = Inr (text_of v) \<Longrightarrow> canonical_members fs = Inr (map member_text fs)"
  by (induction fs) (auto simp: member_text_def)

lemma sort_members_map: "(\<And>p. fst (f p) = fst p) \<Longrightarrow> sort_members (map f fs) = map f (sort_members fs)"
  by (simp add: sort_members_def stable_sort_map)

lemma set_sort_members [simp]: "set (sort_members fs) = set fs"
  by (simp add: sort_members_def)

lemma canonical_reads: "plain_json v \<Longrightarrow> canonicalJson v = Inr (text_of v) \<and> reads (json_norm v) (text_of v)"
proof (induction v)
  case JUndef
  then show ?case by simp
next
  case JNull
  have "read_value n (u ''null'' @ r) = Some (JNull, r)" if "4 \<le> n" for n r
    using that by (cases n) (simp_all add: u_def)
  then show ?case by (simp add: text_of_def reads_def u_def)
next
  case (JBool b)
  have "read_value n (u ''true'' @ r) = Some (JBool True, r)" if "4 \<le> n" for n r
    using that by (cases n) (simp_all add: u_def)
  moreover have "read_value n (u ''false'' @ r) = Some (JBool False, r)" if "5 \<le> n" for n r
    using that by (cases n) (simp_all add: u_def)
  ultimately show ?case by (simp add: text_of_def reads_def u_def)
next
  case (JNum n)
  then obtain k where "n = Fin (of_int k)" "\<bar>k\<bar> < 2 ^ 53" by auto
  then show ?case using reads_int [of k] num_string_int [of k] by (simp add: text_of_def is_finite_def)
next
  case (JStr s)
  then show ?case using reads_string by (simp add: text_of_def)
next
  case (JArr xs)
  then have x: "canonicalJson x = Inr (text_of x) \<and> reads (json_norm x) (text_of x)" if "x \<in> set xs" for x
    using that by (simp add: list_all_iff)
  then have "canonicalJson (JArr xs) = Inr (u ''['' @ join_with (u '','') (map text_of xs) @ u '']'')"
    using items_text [of xs] by simp
  moreover have "list_all2 reads (map json_norm xs) (map text_of xs)"
    using x by (simp add: list_all2_conv_all_nth)
  ultimately show ?case using reads_array by (simp add: text_of_def)
next
  case (JObj fs)
  have x: "code_units k \<and> canonicalJson v = Inr (text_of v) \<and> reads (json_norm v) (text_of v)"
    if "(k, v) \<in> set fs" for k v
    using JObj.IH [of "(k, v)" v] JObj.prems that by (auto simp: list_all_iff)
  let ?norm = "\<lambda>(k, v). (k, json_norm v)"
  have c: "canonicalJson (JObj fs) = Inr (u ''{'' @ join_with (u '','') (map snd (sort_members (map member_text fs))) @ u ''}'')"
  proof -
    have "canonical_members fs = Inr (map member_text fs)" by (rule members_text) (use x in auto)
    then show ?thesis by simp
  qed
  have s: "sort_members (map member_text fs) = map member_text (sort_members fs)"
    "sort_members (map ?norm fs) = map ?norm (sort_members fs)"
    by (rule sort_members_map, simp add: member_text_def split: prod.split)+
  have "list_all2 (\<lambda>(k, v) (k', m). k = k' \<and> code_units k \<and> (\<exists>t. m = json_quote k @ u '':'' @ t \<and> reads v t))
      (map ?norm (sort_members fs)) (map member_text (sort_members fs))"
    unfolding list.rel_map list.rel_refl_strong
    by (rule list.rel_refl_strong) (use x in \<open>auto simp: member_text_def split: prod.split\<close>)
  from reads_object [OF this] c show ?case by (simp add: s text_of_def)
qed

text \<open>The canonical order of members is a fixed point of sorting, so normalising twice changes nothing.\<close>

lemma stable_sort_sorted: "sorted_wrt (\<lambda>a b. \<not> gt a b) xs \<Longrightarrow> stable_sort gt xs = xs"
proof (induction xs)
  case (Cons x xs)
  then have "stable_sort gt (x # xs) = insert_by gt x xs" by (simp add: stable_sort_def)
  with Cons.prems show ?case by (cases xs) simp_all
qed (simp add: stable_sort_def)

interpretation member_order: comparator "\<lambda>a b. fst b < (fst a :: jstr)" "\<lambda>_. True"
  by unfold_locales auto

lemma sort_members_idem: "sort_members (sort_members fs) = sort_members fs"
  unfolding sort_members_def by (rule stable_sort_sorted) (rule member_order.sorted_stable_sort, simp)

lemma canonical_norm: "plain_json v \<Longrightarrow> canonicalJson (json_norm v) = canonicalJson v"
proof (induction v)
  case (JArr xs)
  then have x: "canonicalJson (json_norm x) = Inr (text_of x)" "canonicalJson x = Inr (text_of x)" if "x \<in> set xs" for x
    using that canonical_reads by (simp_all add: list_all_iff)
  have "canonical_items (map json_norm xs) = canonical_items xs"
    using x by (induction xs) auto
  then show ?case by simp
next
  case (JObj fs)
  let ?norm = "\<lambda>(k, v). (k, json_norm v)"
  have x: "canonicalJson (json_norm v) = Inr (text_of v) \<and> canonicalJson v = Inr (text_of v)"
    if "(k, v) \<in> set fs" for k v
    using JObj.IH [of "(k, v)" v] JObj.prems that canonical_reads by (auto simp: list_all_iff)
  have m: "canonical_members gs = Inr (map member_text gs) \<and> canonical_members (map ?norm gs) = Inr (map member_text gs)"
    if "set gs \<subseteq> set fs" for gs
    using that x by (induction gs) (auto simp: member_text_def)
  have "sort_members (map ?norm fs) = map ?norm (sort_members fs)"
    by (rule sort_members_map) (simp split: prod.split)
  then have "canonical_members (sort_members (map ?norm fs)) = Inr (map member_text (sort_members fs))"
    using m [of "sort_members fs"] by simp
  moreover have "sort_members (map member_text (sort_members fs)) = sort_members (map member_text fs)"
    using sort_members_map [of member_text fs] sort_members_map [of member_text "sort_members fs"] sort_members_idem [of fs]
    by (simp add: member_text_def split: prod.splits)
  ultimately show ?case using m [of fs] by simp
qed simp_all

lemma canonical_read_back:
  assumes "plain_json x"
  shows "canonicalJson x = Inr (text_of x)" "read_value (length (text_of x)) (text_of x) = Some (json_norm x, [])"
proof -
  show "canonicalJson x = Inr (text_of x)" using canonical_reads [OF assms] by blast
  have "read_value (length (text_of x)) (text_of x @ []) = Some (json_norm x, [])"
    using canonical_reads [OF assms] by (simp only: reads_def ends_value_def) blast
  then show "read_value (length (text_of x)) (text_of x) = Some (json_norm x, [])" by simp
qed

lemma canonical_equal_iff:
  assumes "plain_json v" "plain_json w"
  shows "canonicalJson w = canonicalJson v \<longleftrightarrow> json_norm w = json_norm v"
proof
  assume "canonicalJson w = canonicalJson v"
  then have "text_of w = text_of v" by (simp add: text_of_def)
  then show "json_norm w = json_norm v" using canonical_read_back(2) [OF assms(1)] canonical_read_back(2) [OF assms(2)] by simp
next
  assume n: "json_norm w = json_norm v"
  show "canonicalJson w = canonicalJson v"
    unfolding canonical_norm [OF assms(1), symmetric] canonical_norm [OF assms(2), symmetric] n ..
qed



end
