(* ===== verification/Ledger_Row.thy ===== *)
theory Ledger_Row
  imports Canonical
begin

section \<open>Ledger rows and their chain (src/agents/ledger/row.ts, src/agents/audit.ts)\<close>

text \<open>
  The columns a digest covers, the link of a row to the head of its run, and the verification an
  auditor performs.  A nullable column is an option; \<open>sha\<close> is sha256 in hexadecimal.
\<close>

subsection \<open>Rows\<close>

datatype ledger_class =
    AgentCall | Start | PromotionAttempt | ModificationEvent | Commitment | PreregAnchor
  | AgreementR3 | KbAdmission | Checkpoint

datatype agent_kind = Triage | Draft | Validate | Evolve | System

fun class_name :: "ledger_class \<Rightarrow> jstr" where
  "class_name AgentCall = u ''agent_call''"
| "class_name Start = u ''start''"
| "class_name PromotionAttempt = u ''promotion_attempt''"
| "class_name ModificationEvent = u ''modification_event''"
| "class_name Commitment = u ''commitment''"
| "class_name PreregAnchor = u ''prereg_anchor''"
| "class_name AgreementR3 = u ''agreement_r3''"
| "class_name KbAdmission = u ''kb_admission''"
| "class_name Checkpoint = u ''checkpoint''"

fun agent_name :: "agent_kind \<Rightarrow> jstr" where
  "agent_name Triage = u ''triage''"
| "agent_name Draft = u ''draft''"
| "agent_name Validate = u ''validate''"
| "agent_name Evolve = u ''evolve''"
| "agent_name System = u ''system''"

definition GENESIS :: jstr where
  "GENESIS = u ''GENESIS''"

record ledger_row =
  run_id :: jstr
  seq :: int
  org_id :: jstr
  ticket_id :: "jstr option"
  agent :: agent_kind
  prompt_version_id :: "jstr option"
  model_requested :: "jstr option"
  model_returned :: "jstr option"
  sampling :: "jsval option"
  seed :: "int option"
  input_hash :: "jstr option"
  input_path :: "jstr option"
  prompt_hash :: "jstr option"
  response_hash :: "jstr option"
  state_hash :: jstr
  split_id :: "jstr option"
  toolchain :: jsval
  restarts :: int
  tokens_in :: int
  tokens_out :: int
  cost_aud :: jstr
  latency_ms :: int
  cum_tokens :: int
  class_of :: ledger_class
  row_output :: jsval
  confidence :: "jstr option"
  ts :: jstr

record chained_row = ledger_row +
  prev_hash :: jstr
  row_hash :: jstr

definition j_int :: "int \<Rightarrow> jsval" where
  "j_int n = JNum (Fin (of_int n))"

definition j_opt :: "('a \<Rightarrow> jsval) \<Rightarrow> 'a option \<Rightarrow> jsval" where
  "j_opt f v = (case v of None \<Rightarrow> JNull | Some x \<Rightarrow> f x)"

definition covered :: "'a ledger_row_scheme \<Rightarrow> (jstr \<times> jsval) list" where
  "covered row =
     [(u ''run_id'', JStr (run_id row)), (u ''seq'', j_int (seq row)), (u ''org_id'', JStr (org_id row)),
      (u ''ticket_id'', j_opt JStr (ticket_id row)), (u ''agent'', JStr (agent_name (agent row))),
      (u ''prompt_version_id'', j_opt JStr (prompt_version_id row)),
      (u ''model_requested'', j_opt JStr (model_requested row)),
      (u ''model_returned'', j_opt JStr (model_returned row)),
      (u ''sampling'', j_opt (\<lambda>v. v) (sampling row)), (u ''seed'', j_opt j_int (seed row)),
      (u ''input_hash'', j_opt JStr (input_hash row)), (u ''input_path'', j_opt JStr (input_path row)),
      (u ''prompt_hash'', j_opt JStr (prompt_hash row)), (u ''response_hash'', j_opt JStr (response_hash row)),
      (u ''state_hash'', JStr (state_hash row)), (u ''split_id'', j_opt JStr (split_id row)),
      (u ''toolchain'', toolchain row), (u ''restarts'', j_int (restarts row)),
      (u ''tokens_in'', j_int (tokens_in row)), (u ''tokens_out'', j_int (tokens_out row)),
      (u ''cost_aud'', JStr (cost_aud row)), (u ''latency_ms'', j_int (latency_ms row)),
      (u ''cum_tokens'', j_int (cum_tokens row)), (u ''class'', JStr (class_name (class_of row))),
      (u ''output'', row_output row), (u ''confidence'', j_opt JStr (confidence row)), (u ''ts'', JStr (ts row))]"

definition canonicalRow :: "'a ledger_row_scheme \<Rightarrow> js_error + jstr" where
  "canonicalRow row = canonicalJson (JObj (covered row))"

definition rowHash :: "(jstr \<Rightarrow> jstr) \<Rightarrow> jstr \<Rightarrow> 'a ledger_row_scheme \<Rightarrow> js_error + jstr" where
  "rowHash sha prev row = bind_err (canonicalRow row) (\<lambda>t. Inr (sha (prev @ t)))"

definition linkRow :: "(jstr \<Rightarrow> jstr) \<Rightarrow> ledger_row \<Rightarrow> jstr option \<Rightarrow> js_error + chained_row" where
  "linkRow sha row head_hash =
     (let prev = (case head_hash of Some h \<Rightarrow> h | None \<Rightarrow> GENESIS)
      in bind_err (rowHash sha prev row) (\<lambda>h.
           if h = prev then Inl PlainError
           else Inr (ledger_row.extend row \<lparr>prev_hash = prev, row_hash = h\<rparr>)))"

definition verifyRowHash :: "(jstr \<Rightarrow> jstr) \<Rightarrow> chained_row \<Rightarrow> js_error + bool" where
  "verifyRowHash sha row =
     (if isHex64 (row_hash row)
      then bind_err (rowHash sha (prev_hash row) row) (\<lambda>h. Inr (h = row_hash row))
      else Inr False)"

record state_parts =
  schema_version :: jstr
  ruleset_hash :: jstr
  kb_snapshot :: jstr

definition stateHash :: "(jstr \<Rightarrow> jstr) \<Rightarrow> state_parts \<Rightarrow> js_error + jstr" where
  "stateHash sha s =
     digestOf sha (JObj [(u ''schema_version'', JStr (schema_version s)),
                         (u ''ruleset_hash'', JStr (ruleset_hash s)),
                         (u ''kb_snapshot'', JStr (kb_snapshot s))])"

subsection \<open>Audit events\<close>

record audit_event =
  ae_org_id :: jstr
  actor_id :: "jstr option"
  action :: jstr
  object_type :: jstr
  object_id :: jstr
  ae_detail :: jsval
  ae_ts :: jstr

record chained_audit = audit_event +
  ae_prev_hash :: jstr
  ae_row_hash :: jstr

definition canonicalAuditRow :: "'a audit_event_scheme \<Rightarrow> js_error + jstr" where
  "canonicalAuditRow row = canonicalJson
     (JObj [(u ''org_id'', JStr (ae_org_id row)), (u ''actor_id'', j_opt JStr (actor_id row)),
            (u ''action'', JStr (action row)), (u ''object_type'', JStr (object_type row)),
            (u ''object_id'', JStr (object_id row)), (u ''detail'', ae_detail row), (u ''ts'', JStr (ae_ts row))])"

definition auditRowHash :: "(jstr \<Rightarrow> jstr) \<Rightarrow> jstr \<Rightarrow> 'a audit_event_scheme \<Rightarrow> js_error + jstr" where
  "auditRowHash sha prev row = bind_err (canonicalAuditRow row) (\<lambda>t. Inr (sha (prev @ t)))"

definition linkAuditRow :: "(jstr \<Rightarrow> jstr) \<Rightarrow> audit_event \<Rightarrow> jstr option \<Rightarrow> js_error + chained_audit" where
  "linkAuditRow sha row head_hash =
     (let prev = (case head_hash of Some h \<Rightarrow> h | None \<Rightarrow> GENESIS)
      in bind_err (auditRowHash sha prev row) (\<lambda>h.
           Inr (audit_event.extend row \<lparr>ae_prev_hash = prev, ae_row_hash = h\<rparr>)))"

definition verifyAuditRowHash :: "(jstr \<Rightarrow> jstr) \<Rightarrow> chained_audit \<Rightarrow> js_error + bool" where
  "verifyAuditRowHash sha row =
     (if isHex64 (ae_row_hash row)
      then bind_err (auditRowHash sha (ae_prev_hash row) row) (\<lambda>h. Inr (h = ae_row_hash row))
      else Inr False)"

subsection \<open>The text a row is digested as\<close>

definition plain_row :: "'a ledger_row_scheme \<Rightarrow> bool" where
  "plain_row row = plain_json (JObj (covered row))"

lemma class_name_inject [simp]: "class_name a = class_name b \<longleftrightarrow> a = b"
  by (cases a; cases b; simp)

lemma agent_name_inject [simp]: "agent_name a = agent_name b \<longleftrightarrow> a = b"
  by (cases a; cases b; simp)

lemma j_int_inject [simp]: "j_int a = j_int b \<longleftrightarrow> a = b"
  by (simp add: j_int_def)

lemma j_opt_inject:
  "(\<And>x. f x \<noteq> JNull) \<Longrightarrow> (\<And>x y. f x = f y \<longleftrightarrow> x = y) \<Longrightarrow> j_opt f a = j_opt f b \<longleftrightarrow> a = b"
  by (cases a; cases b) (simp_all add: j_opt_def, metis)

definition norm_members :: "(jstr \<times> jsval) list \<Rightarrow> (jstr \<times> jsval) list" where
  "norm_members fs = map (\<lambda>(k, v). (k, json_norm v)) fs"

lemma same_keys_same_members:
  "map fst xs = map fst ys \<Longrightarrow> distinct (map fst xs) \<Longrightarrow> set xs = set ys \<Longrightarrow> xs = ys"
proof (rule nth_equalityI)
  assume k: "map fst xs = map fst ys" "distinct (map fst xs)" "set xs = set ys"
  then show len: "length xs = length ys" by (metis length_map)
  fix i assume i: "i < length xs"
  have "map_of xs = map_of ys" using k by (metis map_of_inject_set)
  moreover have "map_of xs (fst (xs ! i)) = Some (snd (xs ! i))" using k(2) i by simp
  moreover have "map_of ys (fst (ys ! i)) = Some (snd (ys ! i))" using k(1,2) i len by simp
  moreover have "fst (xs ! i) = fst (ys ! i)" using k(1) i len by (metis nth_map)
  ultimately show "xs ! i = ys ! i" by (metis option.inject prod_eqI)
qed

lemma norm_members_eq:
  assumes "json_norm (JObj fs) = json_norm (JObj gs)" "map fst fs = map fst gs" "distinct (map fst fs)"
  shows "norm_members fs = norm_members gs"
proof (rule same_keys_same_members)
  have "map fst (norm_members hs) = map fst hs" for hs by (simp add: norm_members_def o_def split_def)
  then show "map fst (norm_members fs) = map fst (norm_members gs)" "distinct (map fst (norm_members fs))"
    using assms(2,3) by simp_all
  have "sort_members (norm_members fs) = sort_members (norm_members gs)" using assms(1) by (simp add: norm_members_def)
  then show "set (norm_members fs) = set (norm_members gs)" by (metis set_sort_members)
qed

text \<open>Two rows with the same content: every column equal, the JSON columns up to the order of members.\<close>

definition same_content :: "'a ledger_row_scheme \<Rightarrow> 'b ledger_row_scheme \<Rightarrow> bool" where
  "same_content r s \<longleftrightarrow>
     run_id r = run_id s \<and> seq r = seq s \<and> org_id r = org_id s \<and> ticket_id r = ticket_id s
     \<and> agent r = agent s \<and> prompt_version_id r = prompt_version_id s
     \<and> model_requested r = model_requested s \<and> model_returned r = model_returned s
     \<and> json_norm (j_opt (\<lambda>v. v) (sampling r)) = json_norm (j_opt (\<lambda>v. v) (sampling s))
     \<and> seed r = seed s \<and> input_hash r = input_hash s \<and> input_path r = input_path s
     \<and> prompt_hash r = prompt_hash s \<and> response_hash r = response_hash s \<and> state_hash r = state_hash s
     \<and> split_id r = split_id s \<and> json_norm (toolchain r) = json_norm (toolchain s)
     \<and> restarts r = restarts s \<and> tokens_in r = tokens_in s \<and> tokens_out r = tokens_out s
     \<and> cost_aud r = cost_aud s \<and> latency_ms r = latency_ms s \<and> cum_tokens r = cum_tokens s
     \<and> class_of r = class_of s \<and> json_norm (row_output r) = json_norm (row_output s)
     \<and> confidence r = confidence s \<and> ts r = ts s"

lemma norm_j_opt_str [simp]: "json_norm (j_opt JStr a) = json_norm (j_opt JStr b) \<longleftrightarrow> a = b"
  by (cases a; cases b) (simp_all add: j_opt_def)

lemma norm_j_opt_int [simp]: "json_norm (j_opt j_int a) = json_norm (j_opt j_int b) \<longleftrightarrow> a = b"
  by (cases a; cases b) (simp_all add: j_opt_def j_int_def)

lemma norm_j_int [simp]: "json_norm (j_int a) = json_norm (j_int b) \<longleftrightarrow> a = b"
  by (simp add: j_int_def)

lemma same_content_members: "norm_members (covered r) = norm_members (covered s) \<Longrightarrow> same_content r s"
  unfolding norm_members_def covered_def same_content_def
  by (simp only: list.map prod.case list.inject prod.inject norm_j_opt_str norm_j_opt_int norm_j_int
      json_norm.simps jsval.inject class_name_inject agent_name_inject)

lemma covered_keys: "map fst (covered r) = map fst (covered s)" "distinct (map fst (covered r))"
  by (simp_all add: covered_def)

lemma canonicalRow_eq:
  assumes "plain_row r" "plain_row s" "canonicalRow r = canonicalRow s" shows "same_content r s"
proof -
  let ?r = "JObj (covered r)" and ?s = "JObj (covered s)"
  have "json_norm ?r = json_norm ?s"
    using canonical_equal_iff [of ?s ?r] assms by (simp add: plain_row_def canonicalRow_def)
  then have "norm_members (covered r) = norm_members (covered s)" by (rule norm_members_eq) (rule covered_keys)+
  then show ?thesis by (rule same_content_members)
qed

subsection \<open>The chain\<close>

fun chain_from :: "(jstr \<Rightarrow> jstr) \<Rightarrow> jstr \<Rightarrow> chained_row list \<Rightarrow> bool" where
  "chain_from sha prev [] = True"
| "chain_from sha prev (r # rs) =
     (prev_hash r = prev \<and> verifyRowHash sha r = Inr True \<and> chain_from sha (row_hash r) rs)"

definition head_hash :: "jstr \<Rightarrow> chained_row list \<Rightarrow> jstr" where
  "head_hash prev rs = (if rs = [] then prev else row_hash (last rs))"

lemma chain_snoc:
  "chain_from sha prev (rs @ [r]) \<longleftrightarrow>
     chain_from sha prev rs \<and> prev_hash r = head_hash prev rs \<and> verifyRowHash sha r = Inr True"
  by (induction rs arbitrary: prev) (auto simp: head_hash_def)

lemma canonicalRow_total: "plain_row r \<Longrightarrow> \<exists>t. canonicalRow r = Inr t \<and> hd t = 123 \<and> t \<noteq> []"
proof -
  assume "plain_row r"
  then have "canonicalRow r = Inr (text_of (JObj (covered r)))"
    unfolding plain_row_def canonicalRow_def by (rule canonical_read_back)
  moreover from this have "\<exists>x. text_of (JObj (covered r)) = u ''{'' @ x"
    unfolding canonicalRow_def by (auto split: sum.splits dest!: sym [of _ "text_of _"])
  ultimately show ?thesis by (auto simp: u_def)
qed

lemma verified_hash:
  assumes "verifyRowHash sha r = Inr True" "plain_row r"
  obtains t where "canonicalRow r = Inr t" "row_hash r = sha (prev_hash r @ t)" "hd t = 123" "t \<noteq> []" "isHex64 (row_hash r)"
  using assms canonicalRow_total [OF assms(2)]
  by (auto simp: verifyRowHash_def rowHash_def split: if_splits)

definition is_parent :: "jstr \<Rightarrow> bool" where
  "is_parent p = (p = GENESIS \<or> isHex64 p)"

text \<open>A parent and a row's text are read apart from their concatenation.\<close>

lemma parent_split:
  assumes "is_parent p" "is_parent q" "p @ s = q @ t" "s \<noteq> []" "t \<noteq> []"
  shows "p = q \<and> s = t"
proof -
  have g: "length GENESIS = 7" "hd GENESIS = 71" by (simp_all add: GENESIS_def u_def)
  have h: "length p = 64" "hd p \<noteq> 71" "p \<noteq> []" if "isHex64 p" for p
    using that by (cases p; force simp: isHex64_def)+
  have "length p = length q"
  proof (rule ccontr)
    assume ne: "length p \<noteq> length q"
    then have "p = GENESIS \<and> isHex64 q \<or> q = GENESIS \<and> isHex64 p"
      using assms(1,2) h unfolding is_parent_def by metis
    moreover have "hd (p @ s) = hd (q @ t)" using assms(3) by simp
    moreover have "GENESIS \<noteq> []" using g(1) by auto
    ultimately show False using g h by auto
  qed
  with assms(3) show ?thesis by simp
qed

text \<open>The text a row's digest was taken over.\<close>

definition preimage :: "chained_row \<Rightarrow> jstr" where
  "preimage r = prev_hash r @ text_of (JObj (covered r))"

text \<open>Two verified histories with one head, when the digest does not collide on their texts.\<close>

lemma chains_agree:
  "inj_on sha (preimage ` (set xs \<union> set ys)) \<Longrightarrow> chain_from sha GENESIS xs \<Longrightarrow> chain_from sha GENESIS ys \<Longrightarrow> \<forall>r \<in> set xs \<union> set ys. plain_row r \<Longrightarrow>
    head_hash GENESIS xs = head_hash GENESIS ys \<Longrightarrow> list_all2 same_content xs ys"
proof (induction xs arbitrary: ys rule: rev_induct)
  have not_hex: "\<not> isHex64 GENESIS" by (simp add: isHex64_def GENESIS_def u_def)
  case Nil
  show ?case
  proof (cases ys rule: rev_cases)
    case (snoc zs r)
    then have "isHex64 (row_hash r)" "row_hash r = GENESIS"
      using Nil.prems by (auto simp: chain_snoc head_hash_def verifyRowHash_def split: if_splits)
    then show ?thesis using not_hex by simp
  qed simp
next
  have not_hex: "\<not> isHex64 GENESIS" by (simp add: isHex64_def GENESIS_def u_def)
  have parents: "is_parent (head_hash GENESIS rs)" if "chain_from sha GENESIS rs" for rs
    using that by (cases rs rule: rev_cases)
      (auto simp: chain_snoc head_hash_def is_parent_def verifyRowHash_def split: if_splits)
  case (snoc r xs)
  have r: "verifyRowHash sha r = Inr True" "prev_hash r = head_hash GENESIS xs" "chain_from sha GENESIS xs" "plain_row r"
    using snoc.prems by (auto simp: chain_snoc)
  obtain t where t: "canonicalRow r = Inr t" "row_hash r = sha (prev_hash r @ t)" "t \<noteq> []" "isHex64 (row_hash r)"
    using verified_hash [OF r(1,4)] by blast
  obtain zs z where ys: "ys = zs @ [z]"
    using snoc.prems(5) t(4) not_hex by (cases ys rule: rev_cases) (auto simp: head_hash_def)
  have z: "verifyRowHash sha z = Inr True" "prev_hash z = head_hash GENESIS zs" "chain_from sha GENESIS zs" "plain_row z"
    using snoc.prems ys by (auto simp: chain_snoc)
  obtain v where v: "canonicalRow z = Inr v" "row_hash z = sha (prev_hash z @ v)" "v \<noteq> []"
    using verified_hash [OF z(1,4)] by blast
  have "row_hash r = row_hash z" using snoc.prems(5) by (simp add: head_hash_def ys)
  moreover have "preimage r = prev_hash r @ t" "preimage z = prev_hash z @ v"
    using t(1) v(1) by (simp_all only: preimage_def text_of_def canonicalRow_def sum.case)
  moreover have "preimage r \<in> preimage ` (set (xs @ [r]) \<union> set ys)" "preimage z \<in> preimage ` (set (xs @ [r]) \<union> set ys)"
    by (simp_all add: ys)
  ultimately have "prev_hash r @ t = prev_hash z @ v"
    using inj_onD [OF snoc.prems(1), of "preimage r" "preimage z"] t(2) v(2) by simp
  then have e: "prev_hash r = prev_hash z" "t = v"
    using parent_split [of "prev_hash r" "prev_hash z" t v] parents [OF r(3)] parents [OF z(3)] r(2) z(2) t(3) v(3)
    by simp_all
  have "same_content r z" using canonicalRow_eq [OF r(4) z(4)] t(1) v(1) e(2) by simp
  moreover have "list_all2 same_content xs zs"
  proof (rule snoc.IH)
    show "inj_on sha (preimage ` (set xs \<union> set zs))"
      by (rule inj_on_subset [OF snoc.prems(1)]) (auto simp: ys)
  qed (use r z snoc.prems(4) ys e(1) in auto)
  ultimately show ?case by (simp add: ys list_all2_appendI)
qed

subsection \<open>Properties of the chain\<close>

lemma linkRow_Inr:
  assumes "linkRow sha row prev = Inr r" "\<forall>t. isHex64 (sha t)"
  shows "prev_hash r = (case prev of Some h \<Rightarrow> h | None \<Rightarrow> GENESIS) \<and> verifyRowHash sha r = Inr True
     \<and> row_hash r \<noteq> prev_hash r \<and> ledger_row.truncate r = row \<and> covered r = covered row"
proof -
  let ?p = "case prev of Some h \<Rightarrow> h | None \<Rightarrow> GENESIS"
  obtain t where t: "canonicalRow row = Inr t" "sha (?p @ t) \<noteq> ?p"
    and r: "r = ledger_row.extend row \<lparr>prev_hash = ?p, row_hash = sha (?p @ t)\<rparr>"
    using assms(1) by (auto simp: linkRow_def rowHash_def Let_def split: sum.splits if_splits)
  have c: "covered r = covered row" by (simp add: r covered_def ledger_row.extend_def)
  then have "canonicalRow r = Inr t" using t(1) by (simp add: canonicalRow_def)
  then show ?thesis using assms(2) t r c
    by (simp add: verifyRowHash_def rowHash_def ledger_row.extend_def ledger_row.truncate_def)
qed

text \<open>
  A linked row always verifies: whatever row is linked to whatever head, if the link succeeds then
  the auditor's recomputation on the linked row answers true, its parent is the head (or GENESIS), it
  is not its own parent, and its columns are those given; and on a plain row the link fails only when
  the digest of the row is its own parent.
\<close>

theorem linked_row_verifies:
  assumes "\<forall>t. isHex64 (sha t)" "plain_row row"
  shows "(\<exists>r. linkRow sha row prev = Inr r \<and> verifyRowHash sha r = Inr True
       \<and> prev_hash r = (case prev of Some h \<Rightarrow> h | None \<Rightarrow> GENESIS) \<and> row_hash r \<noteq> prev_hash r
       \<and> ledger_row.truncate r = row)
     \<or> (\<exists>h t. prev = Some h \<and> canonicalRow row = Inr t \<and> sha (h @ t) = h)"
proof (cases "linkRow sha row prev")
  case (Inr r)
  with linkRow_Inr [OF Inr assms(1)] show ?thesis by auto
next
  case (Inl e)
  obtain t where t: "canonicalRow row = Inr t" using canonicalRow_total [OF assms(2)] by blast
  have "\<not> isHex64 GENESIS" by (simp add: isHex64_def GENESIS_def u_def)
  then have "sha (GENESIS @ t) \<noteq> GENESIS" using assms(1) by metis
  then show ?thesis
    using Inl t by (cases prev) (auto simp: linkRow_def rowHash_def Let_def split: if_splits)
qed


definition sample_row :: ledger_row where
  "sample_row =
     \<lparr>run_id = u ''r'', seq = 1, org_id = u ''o'', ticket_id = None, agent = System, prompt_version_id = None,
      model_requested = None, model_returned = None, sampling = None, seed = None, input_hash = None,
      input_path = None, prompt_hash = None, response_hash = None, state_hash = u ''s'', split_id = None,
      toolchain = JObj [], restarts = 0, tokens_in = 0, tokens_out = 0, cost_aud = u ''0.000000'',
      latency_ms = 0, cum_tokens = 0, class_of = Checkpoint, row_output = JObj [(u ''k'', JStr (u ''v''))],
      confidence = None, ts = u ''2026-01-01T00:00:00.000Z''\<rparr>"

text \<open>A digest for concrete runs of the model: a constant of the right shape.\<close>

definition sample_sha :: "jstr \<Rightarrow> jstr" where
  "sample_sha t = replicate 64 97"

lemma sample_sha_hex: "\<forall>t. isHex64 (sample_sha t)"
  by (simp add: sample_sha_def isHex64_def)

lemma plain_j_int: "\<bar>n\<bar> < 2 ^ 53 \<Longrightarrow> plain_json (j_int n)"
  by (auto simp: j_int_def)

lemma plain_sample_row: "plain_row sample_row"
  using plain_j_int [of 0] plain_j_int [of 1]
  by (simp add: plain_row_def covered_def sample_row_def j_opt_def code_units_def u_def)

theorem linked_row_verifies_witness:
  "(\<exists>r. linkRow sample_sha sample_row None = Inr r \<and> verifyRowHash sample_sha r = Inr True)"
  using linked_row_verifies [OF sample_sha_hex plain_sample_row, of None] by auto


end
