(* ===== verification/Ledger_Store.thy ===== *)
theory Ledger_Store
  imports Ledger_Row
begin

section \<open>The ledger store (src/agents/ledger/pg.ts, store.ts, system_row.ts)\<close>

text \<open>
  The table is the list of its rows in the order of their \<open>id\<close>.  A statement of the writer runs
  under the tenant's policy and sees the rows of its organisation; the insert trigger of
  migrations/0002_ledger.sql sees them all.  Between the head read and the insert of one attempt,
  and between attempts, other writers commit: what they do is an argument of the model.
\<close>

subsection \<open>The table and what the database checks\<close>

type_synonym ledger_table = "chained_row list"

record ledger_head =
  h_seq :: int
  h_row_hash :: jstr
  h_cum_tokens :: int

definition visible :: "jstr \<Rightarrow> ledger_table \<Rightarrow> ledger_table" where
  "visible org table = filter (\<lambda>r. org_id r = org) table"

definition run_rows :: "jstr \<Rightarrow> ledger_table \<Rightarrow> ledger_table" where
  "run_rows run table = filter (\<lambda>r. run_id r = run) table"

text \<open>\<open>order by seq desc limit 1\<close>.\<close>

definition last_by_seq :: "ledger_table \<Rightarrow> chained_row option" where
  "last_by_seq rows =
     foldl (\<lambda>best r. case best of None \<Rightarrow> Some r | Some b \<Rightarrow> if seq b < seq r then Some r else best) None rows"

definition head_of_row :: "chained_row \<Rightarrow> ledger_head" where
  "head_of_row r = \<lparr>h_seq = seq r, h_row_hash = row_hash r, h_cum_tokens = cum_tokens r\<rparr>"

definition read_head :: "jstr \<Rightarrow> jstr \<Rightarrow> ledger_table \<Rightarrow> ledger_head option" where
  "read_head org run table = map_option head_of_row (last_by_seq (run_rows run (visible org table)))"

fun obj_get :: "jsval \<Rightarrow> string \<Rightarrow> jsval" where
  "obj_get (JObj fs) k = get_prop fs k"
| "obj_get v k = JUndef"

definition names :: "jsval \<Rightarrow> string \<Rightarrow> bool" where
  "names out k = (obj_get out k \<noteq> JUndef \<and> obj_get out k \<noteq> JNull)"

fun trigger_keys :: "ledger_class \<Rightarrow> string list" where
  "trigger_keys Start = [''attempt_id'', ''started_at'', ''budget_reserved'', ''code_sha'']"
| "trigger_keys PromotionAttempt =
     [''attempt_id'', ''candidate_prompt_version_id'', ''incumbent_prompt_version_id'', ''conjuncts'',
      ''power'', ''outcome'', ''interpretation'']"
| "trigger_keys ModificationEvent =
     [''modification_id'', ''gating_arm'', ''verdict'', ''would_have_been_rejected'', ''reason'', ''dag_node_id'']"
| "trigger_keys Commitment = [''commitment_kind'', ''sha256'', ''covers'', ''committed_before'']"
| "trigger_keys PreregAnchor = [''document'', ''sha256'', ''field_count'', ''blocks'']"
| "trigger_keys AgreementR3 = [''item_id'', ''template_id'', ''agreement'', ''r'', ''rollout_seeds'', ''temperature'']"
| "trigger_keys KbAdmission =
     [''admission_id'', ''gap_id'', ''approved_by'', ''snapshot_from'', ''snapshot_to'', ''content_hash'',
      ''provenance_source'']"
| "trigger_keys Checkpoint = [''seq_covered'', ''head_row_hash'', ''k'']"
| "trigger_keys AgentCall = []"

definition call_complete :: "chained_row \<Rightarrow> bool" where
  "call_complete r = (class_of r = AgentCall \<longrightarrow>
     prompt_version_id r \<noteq> None \<and> model_requested r \<noteq> None \<and> model_returned r \<noteq> None \<and> sampling r \<noteq> None
     \<and> input_hash r \<noteq> None \<and> input_path r \<noteq> None \<and> prompt_hash r \<noteq> None \<and> response_hash r \<noteq> None)"

definition attempt_complete :: "chained_row \<Rightarrow> bool" where
  "attempt_complete r = (class_of r = PromotionAttempt \<longrightarrow>
     obj_get (row_output r) ''failing_conjunct'' \<noteq> JUndef
     \<and> (obj_get (row_output r) ''failing_conjunct'' = JNull \<longrightarrow>
          obj_get (row_output r) ''outcome'' = JStr (u ''PROMOTED''))
     \<and> (obj_get (row_output r) ''outcome'' = JStr (u ''ABORTED'') \<longrightarrow>
          obj_get (row_output r) ''abort_reason'' \<noteq> JUndef))"

definition is_parent_text :: "jstr \<Rightarrow> bool" where
  "is_parent_text p = (p = GENESIS \<or> isHex64 p)"

definition zero_cost :: "jstr \<Rightarrow> bool" where
  "zero_cost s = (digits_value (filter (\<lambda>c. c \<noteq> 46) s) = 0)"

definition row_checks :: "chained_row \<Rightarrow> bool" where
  "row_checks r =
     (call_complete r \<and> list_all (names (row_output r)) (trigger_keys (class_of r)) \<and> attempt_complete r
      \<and> (class_of r \<in> {PromotionAttempt, ModificationEvent} \<longrightarrow> agent r = Evolve)
      \<and> (class_of r \<notin> {AgentCall, PromotionAttempt, ModificationEvent} \<longrightarrow> agent r = System)
      \<and> (class_of r = AgreementR3 \<longrightarrow> split_id r \<noteq> None)
      \<and> (class_of r \<noteq> AgentCall \<longrightarrow> tokens_in r = 0 \<and> tokens_out r = 0 \<and> zero_cost (cost_aud r)
           \<and> latency_ms r = 0 \<and> restarts r = 0)
      \<and> isHex64 (row_hash r) \<and> is_parent_text (prev_hash r) \<and> row_hash r \<noteq> prev_hash r)"

text \<open>The link the trigger checks, and the unique indexes.\<close>

definition extends_head :: "ledger_table \<Rightarrow> chained_row \<Rightarrow> bool" where
  "extends_head table r =
     (case last_by_seq (run_rows (run_id r) table) of
        None \<Rightarrow> prev_hash r = GENESIS
      | Some h \<Rightarrow> seq h < seq r \<and> prev_hash r = row_hash h)"

definition unique_ok :: "ledger_table \<Rightarrow> chained_row \<Rightarrow> bool" where
  "unique_ok table r =
     ((\<forall>x \<in> set table. run_id x = run_id r \<longrightarrow> prev_hash x \<noteq> prev_hash r \<and> seq x \<noteq> seq r)
      \<and> (class_of r \<in> {Start, PromotionAttempt} \<longrightarrow>
           (\<forall>x \<in> set table. class_of x = class_of r \<longrightarrow>
              obj_get (row_output x) ''attempt_id'' \<noteq> obj_get (row_output r) ''attempt_id'')))"

datatype db_error = Conflict | Refused

text \<open>
  A broken link and a violated unique index are what \<open>isChainConflict\<close> recognises; every other
  refusal is not retried.
\<close>

definition ledger_insert :: "jstr \<Rightarrow> ledger_table \<Rightarrow> chained_row \<Rightarrow> db_error + ledger_table" where
  "ledger_insert org table r =
     (if \<not> extends_head table r then Inl Conflict
      else if org_id r \<noteq> org \<or> \<not> row_checks r then Inl Refused
      else if \<not> unique_ok table r then Inl Conflict
      else Inr (table @ [r]))"

subsection \<open>Appending\<close>

definition APPEND_ATTEMPTS :: nat where
  "APPEND_ATTEMPTS = 6"

record appended_row =
  ap_seq :: int
  ap_prev_hash :: jstr
  ap_row_hash :: jstr
  ap_ts :: jstr

text \<open>The closed register of src/agents/errors.ts, and what else a call on the store can raise.\<close>

datatype gateway_code =
    E_CONFIG_INVALID | E_INPUT_PATH_MISSING | E_MODEL_PRICE_UNKNOWN | E_EMPTY_AFTER_REDACTION
  | E_CANARY_NOT_REDACTED | E_CANARY_EGRESS | E_PII_EGRESS | E_CANARY_IN_RESPONSE | E_PII_IN_RESPONSE
  | E_BUDGET_EXHAUSTED | E_PROVIDER_TIMEOUT | E_PROVIDER_FAILED | E_MODEL_UNEXPECTED
  | E_LEDGER_WRITE_FAILED | E_REPLAY_CACHE_MISS

datatype store_error = Refusal gateway_code | Thrown js_error | Database

text \<open>
  \<open>gap i\<close> is what other writers commit before attempt \<open>i\<close> reads the head, \<open>env i\<close> what they commit
  between that read and the insert.
\<close>

fun append_loop ::
    "(jstr \<Rightarrow> jstr) \<Rightarrow> (nat \<Rightarrow> ledger_table \<Rightarrow> ledger_table) \<Rightarrow> (nat \<Rightarrow> ledger_table \<Rightarrow> ledger_table)
       \<Rightarrow> nat \<Rightarrow> nat \<Rightarrow> jstr \<Rightarrow> jstr \<Rightarrow> (ledger_head option \<Rightarrow> ledger_row) \<Rightarrow> ledger_table
       \<Rightarrow> ledger_table \<times> (store_error + appended_row)" where
  "append_loop sha gap env 0 attempt run org build table = (table, Inl (Refusal E_LEDGER_WRITE_FAILED))"
| "append_loop sha gap env (Suc left) attempt run org build table =
     (let seen = gap attempt table;
          head = read_head org run seen
      in case linkRow sha (build head) (map_option h_row_hash head) of
           Inl e \<Rightarrow> (seen, Inl (Thrown e))
         | Inr row \<Rightarrow>
             let now = env attempt seen
             in case ledger_insert org now row of
                  Inr table' \<Rightarrow>
                    (table', Inr \<lparr>ap_seq = seq row, ap_prev_hash = prev_hash row,
                                  ap_row_hash = row_hash row, ap_ts = ts row\<rparr>)
                | Inl Conflict \<Rightarrow> append_loop sha gap env left (attempt + 1) run org build now
                | Inl Refused \<Rightarrow> (now, Inl Database))"

definition ledger_append ::
    "(jstr \<Rightarrow> jstr) \<Rightarrow> (nat \<Rightarrow> ledger_table \<Rightarrow> ledger_table) \<Rightarrow> (nat \<Rightarrow> ledger_table \<Rightarrow> ledger_table)
       \<Rightarrow> jstr \<Rightarrow> jstr \<Rightarrow> (ledger_head option \<Rightarrow> ledger_row) \<Rightarrow> ledger_table
       \<Rightarrow> ledger_table \<times> (store_error + appended_row)" where
  "ledger_append sha gap env run org build table =
     append_loop sha gap env APPEND_ATTEMPTS 0 run org build table"

subsection \<open>Well-formed tables\<close>

definition run_ok :: "(jstr \<Rightarrow> jstr) \<Rightarrow> ledger_table \<Rightarrow> bool" where
  "run_ok sha rows = (chain_from sha GENESIS rows \<and> sorted_wrt (\<lambda>a b. seq a < seq b) rows
     \<and> distinct (map prev_hash rows))"

definition ledger_ok :: "(jstr \<Rightarrow> jstr) \<Rightarrow> ledger_table \<Rightarrow> bool" where
  "ledger_ok sha table = (\<forall>run. run_ok sha (run_rows run table))"

lemma last_by_seq_sorted:
  "sorted_wrt (\<lambda>a b. seq a < seq b) rows \<Longrightarrow> last_by_seq rows = (if rows = [] then None else Some (last rows))"
proof (induction rows rule: rev_induct)
  case (snoc r rows)
  then have "last_by_seq rows = (if rows = [] then None else Some (last rows))" by (simp add: sorted_wrt_append)
  moreover have "rows \<noteq> [] \<Longrightarrow> seq (last rows) < seq r" using snoc.prems by (simp add: sorted_wrt_append)
  ultimately show ?case by (simp add: last_by_seq_def)
qed (simp add: last_by_seq_def)

lemma run_rows_append [simp]: "run_rows run (a @ b) = run_rows run a @ run_rows run b"
  by (simp add: run_rows_def)

lemma visible_append [simp]: "visible org (a @ b) = visible org a @ visible org b"
  by (simp add: visible_def)

lemma run_rows_visible: "run_rows run (visible org t) = visible org (run_rows run t)"
  by (simp add: run_rows_def visible_def conj_commute)

lemma head_in_run:
  assumes "ledger_ok sha table" "read_head org run table = Some h"
  obtains r where "r \<in> set (run_rows run table)" "h = head_of_row r" "org_id r = org"
proof -
  have "sorted_wrt (\<lambda>a b. seq a < seq b) (run_rows run (visible org table))"
    using assms(1) by (subst run_rows_visible, unfold visible_def, intro sorted_wrt_filter)
      (simp add: ledger_ok_def run_ok_def)
  from last_by_seq_sorted [OF this]
  have "h = head_of_row (last (run_rows run (visible org table)))" "run_rows run (visible org table) \<noteq> []"
    using assms(2) by (auto simp: read_head_def split: if_splits)
  moreover from this(2) have "last (run_rows run (visible org table)) \<in> set (run_rows run table)
      \<and> org_id (last (run_rows run (visible org table))) = org"
    using last_in_set [of "run_rows run (visible org table)"] by (auto simp: run_rows_def visible_def)
  ultimately show ?thesis using that by blast
qed

lemma extends_head_iff:
  assumes "ledger_ok sha table"
  shows "extends_head table r \<longleftrightarrow> prev_hash r = head_hash GENESIS (run_rows (run_id r) table)
     \<and> (run_rows (run_id r) table \<noteq> [] \<longrightarrow> seq (last (run_rows (run_id r) table)) < seq r)"
proof -
  have "sorted_wrt (\<lambda>a b. seq a < seq b) (run_rows (run_id r) table)"
    using assms by (simp add: ledger_ok_def run_ok_def)
  from last_by_seq_sorted [OF this] show ?thesis by (auto simp: extends_head_def head_hash_def)
qed

text \<open>An accepted row of an honest writer keeps every run a verified chain.\<close>

lemma insert_keeps_ok:
  assumes "ledger_ok sha table" "ledger_insert org table r = Inr table'" "verifyRowHash sha r = Inr True"
  shows "ledger_ok sha table' \<and> table' = table @ [r]"
proof -
  have acc: "extends_head table r" "unique_ok table r" and t: "table' = table @ [r]"
    using assms(2) by (auto simp: ledger_insert_def split: if_splits)
  let ?rows = "run_rows (run_id r) table"
  have ok: "run_ok sha ?rows" using assms(1) by (simp add: ledger_ok_def)
  have ext: "prev_hash r = head_hash GENESIS ?rows" "?rows \<noteq> [] \<Longrightarrow> seq (last ?rows) < seq r"
    using acc(1) extends_head_iff [OF assms(1)] by auto
  have "seq x < seq r" if x: "x \<in> set ?rows" for x
  proof -
    have "?rows \<noteq> []" using x by auto
    then obtain a b where ab: "?rows = a @ [b]" by (metis append_butlast_last_id)
    then have "seq b < seq r" using ext(2) by simp
    moreover have "x = b \<or> seq x < seq b" using ok x by (auto simp: run_ok_def ab sorted_wrt_append)
    ultimately show ?thesis by auto
  qed
  moreover have "prev_hash r \<notin> prev_hash ` set ?rows" using acc(2) by (auto simp: unique_ok_def run_rows_def)
  ultimately have "run_ok sha (?rows @ [r])"
    using ok ext(1) assms(3) by (auto simp: run_ok_def chain_snoc sorted_wrt_append)
  then have "run_ok sha (run_rows run table')" for run
    using assms(1) by (cases "run = run_id r") (auto simp: t run_rows_def ledger_ok_def)
  then show ?thesis using t by (simp add: ledger_ok_def)
qed

text \<open>The row a writer built on a head is accepted only where that row still is the head.\<close>

lemma successor_prev:
  assumes "chain_from sha p rows" "x \<in> set rows" "x \<noteq> last rows"
  shows "\<exists>y \<in> set rows. prev_hash y = row_hash x"
  using assms
proof (induction rows arbitrary: p)
  case (Cons r rows)
  show ?case
  proof (cases "x = r \<and> rows \<noteq> []")
    case True
    then have "prev_hash (hd rows) = row_hash x" "hd rows \<in> set (r # rows)" using Cons.prems(1) by (cases rows; simp)+
    then show ?thesis by blast
  next
    case False
    then have "x \<in> set rows" "x \<noteq> last rows" using Cons.prems by (auto split: if_splits)
    then show ?thesis using Cons.IH [of "row_hash r"] Cons.prems(1) by auto
  qed
qed simp

lemma accepted_on_seen_head:
  assumes ok: "ledger_ok sha seen" "ledger_ok sha now" and later: "now = seen @ s"
    and acc: "extends_head now r" "unique_ok now r"
    and prev: "prev_hash r = (case map_option h_row_hash (read_head org (run_id r) seen) of Some h \<Rightarrow> h | None \<Rightarrow> GENESIS)"
  shows "map_option head_of_row (last_by_seq (run_rows (run_id r) now)) = read_head org (run_id r) seen
    \<and> (\<forall>h. last_by_seq (run_rows (run_id r) now) = Some h \<longrightarrow> org_id h = org)"
proof -
  let ?rows = "run_rows (run_id r) now"
  have ch: "run_ok sha ?rows" using ok(2) by (simp add: ledger_ok_def)
  have last: "last_by_seq ?rows = (if ?rows = [] then None else Some (last ?rows))"
    using ch by (intro last_by_seq_sorted) (simp add: run_ok_def)
  have free: "\<forall>y \<in> set ?rows. prev_hash y \<noteq> prev_hash r" using acc(2) by (auto simp: unique_ok_def run_rows_def)
  show ?thesis
  proof (cases "read_head org (run_id r) seen")
    case None
    then have p: "prev_hash r = GENESIS" using prev by simp
    have "?rows = []"
    proof (rule ccontr)
      assume "?rows \<noteq> []"
      then obtain y ys where "?rows = y # ys" by (cases ?rows) auto
      then show False using free p ch by (auto simp: run_ok_def)
    qed
    then show ?thesis using None last by simp
  next
    case (Some h)
    then obtain x where x: "x \<in> set (run_rows (run_id r) seen)" "h = head_of_row x" "org_id x = org"
      using head_in_run [OF ok(1)] by blast
    then have xin: "x \<in> set ?rows" by (simp add: later)
    have p: "prev_hash r = row_hash x" using prev Some x(2) by (simp add: head_of_row_def)
    have "x = last ?rows"
      using successor_prev [of sha GENESIS ?rows x] ch xin free p by (auto simp: run_ok_def)
    moreover have "?rows \<noteq> []" using xin by auto
    ultimately show ?thesis using Some x(2,3) last by simp
  qed
qed

subsection \<open>The other writers\<close>

text \<open>What the other writers may do: commit rows that keep every run a verified chain, and nothing else.\<close>

definition honest :: "(jstr \<Rightarrow> jstr) \<Rightarrow> (nat \<Rightarrow> ledger_table \<Rightarrow> ledger_table) \<Rightarrow> bool" where
  "honest sha others = (\<forall>i t. ledger_ok sha t \<longrightarrow> ledger_ok sha (others i t) \<and> (\<exists>s. others i t = t @ s))"

text \<open>The tables the other writers reach on their own.\<close>

inductive others_only ::
    "(nat \<Rightarrow> ledger_table \<Rightarrow> ledger_table) \<Rightarrow> (nat \<Rightarrow> ledger_table \<Rightarrow> ledger_table)
       \<Rightarrow> ledger_table \<Rightarrow> ledger_table \<Rightarrow> bool" for gap env t where
  start: "others_only gap env t t"
| before: "others_only gap env t t' \<Longrightarrow> others_only gap env t (gap i t')"
| between: "others_only gap env t t' \<Longrightarrow> others_only gap env t (env i t')"

lemma others_only_ok:
  assumes "others_only gap env t t'" "honest sha gap" "honest sha env" "ledger_ok sha t"
  shows "ledger_ok sha t' \<and> (\<exists>s. t' = t @ s)"
  using assms(1)
proof (induction rule: others_only.induct)
  case start
  then show ?case using assms(4) by simp
next
  case (before t' i)
  then show ?case using assms(2) unfolding honest_def by (metis append_assoc)
next
  case (between t' i)
  then show ?case using assms(3) unfolding honest_def by (metis append_assoc)
qed

definition builds_for :: "jstr \<Rightarrow> (ledger_head option \<Rightarrow> ledger_row) \<Rightarrow> bool" where
  "builds_for run build = (\<forall>h. run_id (build h) = run)"

definition head_of_run :: "jstr \<Rightarrow> ledger_table \<Rightarrow> ledger_head option" where
  "head_of_run run table = map_option head_of_row (last_by_seq (run_rows run table))"

text \<open>The two ways an append ends.\<close>

definition appended_on_head ::
    "(jstr \<Rightarrow> jstr) \<Rightarrow> jstr \<Rightarrow> jstr \<Rightarrow> (ledger_head option \<Rightarrow> ledger_row) \<Rightarrow> ledger_table \<Rightarrow> chained_row \<Rightarrow> bool" where
  "appended_on_head sha org run build pre r =
     (ledger_row.truncate r = build (head_of_run run pre) \<and> run_id r = run \<and> org_id r = org
      \<and> (\<forall>h. last_by_seq (run_rows run pre) = Some h \<longrightarrow> org_id h = org)
      \<and> linkRow sha (build (head_of_run run pre)) (map_option h_row_hash (head_of_run run pre)) = Inr r)"

lemma append_loop_result:
  assumes "\<forall>t. isHex64 (sha t)" "honest sha gap" "honest sha env" "builds_for run build"
  shows "ledger_ok sha table \<Longrightarrow> append_loop sha gap env left attempt run org build table = (table', res) \<Longrightarrow>
    ledger_ok sha table' \<and>
    (case res of
       Inl e \<Rightarrow> others_only gap env table table'
     | Inr a \<Rightarrow> \<exists>pre r. others_only gap env table pre \<and> table' = pre @ [r]
         \<and> appended_on_head sha org run build pre r \<and> a = \<lparr>ap_seq = seq r, ap_prev_hash = prev_hash r,
             ap_row_hash = row_hash r, ap_ts = ts r\<rparr>)"
proof (induction left arbitrary: attempt table)
  case 0
  then show ?case by (auto intro: others_only.start)
next
  case (Suc left)
  let ?seen = "gap attempt table"
  let ?head = "read_head org run ?seen"
  have o1: "others_only gap env table ?seen" by (intro others_only.intros)
  have ok1: "ledger_ok sha ?seen" using others_only_ok [OF o1 assms(2,3) Suc.prems(1)] by blast
  show ?case
  proof (cases "linkRow sha (build ?head) (map_option h_row_hash ?head)")
    case (Inl e)
    then show ?thesis using Suc.prems(2) o1 ok1 by (auto simp: Let_def)
  next
    case (Inr r)
    let ?now = "env attempt ?seen"
    have o2: "others_only gap env table ?now" using o1 by (rule others_only.between)
    have ok2: "ledger_ok sha ?now" using others_only_ok [OF o2 assms(2,3) Suc.prems(1)] by blast
    note link = linkRow_Inr [OF Inr assms(1)]
    have rid: "run_id r = run"
    proof -
      have "run_id (ledger_row.truncate r) = run_id r" by (simp add: ledger_row.truncate_def)
      then show ?thesis using link assms(4) by (simp add: builds_for_def)
    qed
    show ?thesis
    proof (cases "ledger_insert org ?now r")
      case (Inl d)
      show ?thesis
      proof (cases d)
        case Conflict
        have loop: "append_loop sha gap env left (attempt + 1) run org build ?now = (table', res)"
          using Suc.prems(2) Inr Inl Conflict by (simp add: Let_def)
        have trans: "others_only gap env ?now t \<Longrightarrow> others_only gap env table t" for t
          by (induction rule: others_only.induct) (use o2 in \<open>auto intro: others_only.intros\<close>)
        show ?thesis
        proof (cases res)
          case (Inl e)
          then show ?thesis using Suc.IH [OF ok2 loop] trans by simp
        next
          case (Inr a)
          then show ?thesis using Suc.IH [OF ok2 loop] trans by simp blast
        qed
      next
        case Refused
        then show ?thesis using Suc.prems(2) Inr Inl o2 ok2 by (auto simp: Let_def)
      qed
    next
      case t2: (Inr t2)
      have res: "table' = t2" "res = Inr \<lparr>ap_seq = seq r, ap_prev_hash = prev_hash r, ap_row_hash = row_hash r, ap_ts = ts r\<rparr>"
        using Suc.prems(2) Inr t2 by (simp_all add: Let_def)
      have ins: "ledger_ok sha t2" "t2 = ?now @ [r]" using insert_keeps_ok [OF ok2 t2] link by blast+
      have acc: "extends_head ?now r" "unique_ok ?now r" "org_id r = org"
        using t2 by (auto simp: ledger_insert_def split: if_splits)
      obtain s where later: "?now = ?seen @ s" using assms(3) ok1 unfolding honest_def by blast
      have "head_of_run run ?now = ?head \<and> (\<forall>h. last_by_seq (run_rows run ?now) = Some h \<longrightarrow> org_id h = org)"
        using accepted_on_seen_head [OF ok1 ok2 later acc(1,2)] link rid by (simp add: head_of_run_def)
      then have "appended_on_head sha org run build ?now r" using link Inr rid acc(3) by (simp add: appended_on_head_def)
      then show ?thesis using res ins o2 by auto
    qed
  qed
qed

lemma ledger_append_result:
  assumes "\<forall>t. isHex64 (sha t)" "honest sha gap" "honest sha env" "builds_for run build" "ledger_ok sha table"
    and "ledger_append sha gap env run org build table = (table', res)"
  shows "ledger_ok sha table'"
    and "res = Inl e \<Longrightarrow> others_only gap env table table'"
    and "res = Inr a \<Longrightarrow> \<exists>pre r. others_only gap env table pre \<and> table' = pre @ [r]
         \<and> appended_on_head sha org run build pre r \<and> ap_row_hash a = row_hash r \<and> ap_seq a = seq r"
  using append_loop_result [OF assms(1-5) assms(6) [unfolded ledger_append_def]] by auto

text \<open>A writer nobody disturbs, on a run whose last row it may see.\<close>

definition undisturbed :: "nat \<Rightarrow> ledger_table \<Rightarrow> ledger_table" where
  "undisturbed i t = t"

lemma honest_undisturbed: "honest sha undisturbed"
  by (simp add: honest_def undisturbed_def)

lemma insert_on_head:
  assumes "run_id r = run" "org_id r = org" "row_checks r" "unique_ok table r"
    and "\<And>h. head_of_run run table = Some h \<Longrightarrow> h_seq h < seq r"
    and "prev_hash r = (case map_option h_row_hash (head_of_run run table) of Some h \<Rightarrow> h | None \<Rightarrow> GENESIS)"
  shows "ledger_insert org table r = Inr (table @ [r])"
proof -
  have "extends_head table r"
    using assms(1,5,6) by (auto simp: extends_head_def head_of_run_def head_of_row_def split: option.splits)
  then show ?thesis using assms(2-4) by (simp add: ledger_insert_def)
qed

lemma append_undisturbed:
  assumes "read_head org run table = head_of_run run table"
    and "linkRow sha (build (head_of_run run table)) (map_option h_row_hash (head_of_run run table)) = Inr r"
    and "ledger_insert org table r = Inr (table @ [r])"
  shows "ledger_append sha undisturbed undisturbed run org build table =
     (table @ [r], Inr \<lparr>ap_seq = seq r, ap_prev_hash = prev_hash r, ap_row_hash = row_hash r, ap_ts = ts r\<rparr>)"
  unfolding ledger_append_def APPEND_ATTEMPTS_def
  using assms by (simp add: eval_nat_numeral undisturbed_def Let_def)

text \<open>
  C7: however the other writers interleave with the six attempts, an append keeps every run of the
  ledger a verified chain with distinct parents and growing \<open>seq\<close>; when it succeeds its row is the
  last of the table, was built by the caller from the true head of its run at that instant and is
  linked to it; when it fails the table holds only what the other writers committed.
\<close>

theorem append_keeps_the_chain:
  assumes "\<forall>t. isHex64 (sha t)" "honest sha gap" "honest sha env" "builds_for run build" "ledger_ok sha table"
  shows "case ledger_append sha gap env run org build table of (table', res) \<Rightarrow>
     ledger_ok sha table' \<and>
     (case res of
        Inl e \<Rightarrow> others_only gap env table table'
      | Inr a \<Rightarrow> \<exists>pre r. others_only gap env table pre \<and> table' = pre @ [r]
          \<and> appended_on_head sha org run build pre r \<and> ap_row_hash a = row_hash r)"
proof -
  obtain table' res where "ledger_append sha gap env run org build table = (table', res)" by fastforce
  with append_loop_result [OF assms, of APPEND_ATTEMPTS 0 org table' res]
  show ?thesis by (auto simp: ledger_append_def split: sum.splits)
qed

definition sample_build :: "ledger_head option \<Rightarrow> ledger_row" where
  "sample_build h = sample_row\<lparr>seq := (case h of Some x \<Rightarrow> h_seq x | None \<Rightarrow> 0) + 1\<rparr>"

theorem append_keeps_the_chain_witness:
  "case ledger_append sample_sha undisturbed undisturbed (u ''r'') (u ''o'') sample_build [] of (table', res) \<Rightarrow>
     ledger_ok sample_sha table'"
proof -
  have "builds_for (u ''r'') sample_build" by (simp add: builds_for_def sample_build_def sample_row_def)
  moreover have "ledger_ok sample_sha []" by (simp add: ledger_ok_def run_ok_def run_rows_def)
  ultimately show ?thesis
    using append_keeps_the_chain [OF sample_sha_hex honest_undisturbed honest_undisturbed, of "u ''r''" sample_build "[]" "u ''o''"]
    by (auto split: prod.splits)
qed

text \<open>
  a run whose rows belong to more than one organisation cannot be extended by a writer that does
  not see its head: however often it retries and whatever the others commit elsewhere, as long as the
  head stays a row of another organisation the append never succeeds.
\<close>

theorem foreign_head_is_never_extended:
  assumes "\<forall>t. isHex64 (sha t)" "honest sha gap" "honest sha env" "builds_for run build" "ledger_ok sha table"
    and "\<forall>t. others_only gap env table t \<longrightarrow> (\<exists>h. last_by_seq (run_rows run t) = Some h \<and> org_id h \<noteq> org)"
  shows "\<exists>e. snd (ledger_append sha gap env run org build table) = Inl e"
proof (cases "snd (ledger_append sha gap env run org build table)")
  case (Inr a)
  obtain table' where "ledger_append sha gap env run org build table = (table', Inr a)"
    using Inr by (metis prod.collapse)
  from ledger_append_result(3) [OF assms(1-5) this refl] assms(6) show ?thesis
    unfolding appended_on_head_def by fastforce
qed simp

text \<open>A one-row ledger of the organisation \<open>o\<close>, for concrete runs.\<close>

definition sample_linked :: chained_row where
  "sample_linked = (case linkRow sample_sha sample_row None of Inr r \<Rightarrow> r | Inl _ \<Rightarrow> undefined)"

lemma sample_linked: "linkRow sample_sha sample_row None = Inr sample_linked"
proof -
  obtain t where t: "canonicalRow sample_row = Inr t" using canonicalRow_total [OF plain_sample_row] by blast
  have "length (sample_sha (GENESIS @ t)) \<noteq> length GENESIS" by (simp add: sample_sha_def GENESIS_def u_def)
  then have "sample_sha (GENESIS @ t) \<noteq> GENESIS" by metis
  then show ?thesis using t by (simp add: linkRow_def rowHash_def sample_linked_def)
qed

lemma sample_linked_row: "run_id sample_linked = u ''r''" "org_id sample_linked = u ''o''"
  "prev_hash sample_linked = GENESIS" "verifyRowHash sample_sha sample_linked = Inr True"
proof -
  note l = linkRow_Inr [OF sample_linked sample_sha_hex]
  have "run_id (ledger_row.truncate sample_linked) = run_id sample_linked"
    "org_id (ledger_row.truncate sample_linked) = org_id sample_linked" by (simp_all add: ledger_row.truncate_def)
  then show "run_id sample_linked = u ''r''" "org_id sample_linked = u ''o''"
    "prev_hash sample_linked = GENESIS" "verifyRowHash sample_sha sample_linked = Inr True"
    using l by (simp_all add: sample_row_def)
qed

lemma sample_ledger_ok: "ledger_ok sample_sha [sample_linked]"
  using sample_linked_row by (simp add: ledger_ok_def run_ok_def run_rows_def)

theorem foreign_head_is_never_extended_witness:
  "\<exists>e. snd (ledger_append sample_sha undisturbed undisturbed (u ''r'') (u ''p'') sample_build [sample_linked]) = Inl e"
proof -
  have alone: "t = [sample_linked]" if "others_only undisturbed undisturbed [sample_linked] t" for t
    using that by (induction rule: others_only.induct) (simp_all add: undisturbed_def)
  have "builds_for (u ''r'') sample_build" by (simp add: builds_for_def sample_build_def sample_row_def)
  then show ?thesis
    using foreign_head_is_never_extended [OF sample_sha_hex honest_undisturbed honest_undisturbed _ sample_ledger_ok,
        of "u ''r''" sample_build "u ''p''"] alone sample_linked_row
    by (fastforce simp: run_rows_def last_by_seq_def)
qed

end
