(* ===== verification/Ledger_System.thy ===== *)
theory Ledger_System
  imports Ledger_Store
begin

section \<open>Consumption, the cache and the rows that are not model calls\<close>

text \<open>
  The reads of src/agents/ledger/pg.ts (consumption, cache, filed attempts) and the writer of
  src/agents/ledger/system_row.ts.  A \<open>numeric\<close> column is the text the driver hands over; the sum of
  the cost column is exact in millionths and printed at the scale of the column.
\<close>

subsection \<open>Decimals as text\<close>

definition pad_end :: "nat \<Rightarrow> nat \<Rightarrow> jstr \<Rightarrow> jstr" where
  "pad_end w c s = s @ replicate (w - length s) c"

definition all_digits :: "jstr \<Rightarrow> bool" where
  "all_digits s = list_all (\<lambda>c. 48 \<le> c \<and> c \<le> 57) s"

text \<open>\<open>Number\<close> of a text of digits; the empty text is read as \<open>'0'\<close>.\<close>

definition number_of_digits :: "jstr \<Rightarrow> jnum" where
  "number_of_digits s = to_num (of_nat (digits_value s))"

definition microFromNumericText :: "jstr \<Rightarrow> js_error + jnum" where
  "microFromNumericText text =
     (let trimmed = js_trim text;
          negative = is_prefix (u ''-'') trimmed;
          digits = (if negative then drop 1 trimmed else trimmed);
          whole = takeWhile (\<lambda>c. c \<noteq> 46) digits;
          fraction = takeWhile (\<lambda>c. c \<noteq> 46) (drop 1 (dropWhile (\<lambda>c. c \<noteq> 46) digits))
      in if \<not> all_digits whole \<or> \<not> all_digits fraction then Inl TypeError
         else let scaled = jadd (jmul (number_of_digits whole) (Fin 1000000))
                                (number_of_digits (pad_end 6 48 (take 6 fraction)))
              in Inr (if negative then jneg scaled else scaled))"

subsection \<open>Consumption\<close>

text \<open>The value of a \<open>numeric(12,6)\<close> column in millionths, and the text of a sum of them.\<close>

definition cost_micro :: "jstr \<Rightarrow> int" where
  "cost_micro s =
     (let neg = is_prefix (u ''-'') s; n = int (digits_value (filter (\<lambda>c. c \<noteq> 46) (if neg then drop 1 s else s)))
      in if neg then - n else n)"

definition numeric_text :: "int \<Rightarrow> jstr" where
  "numeric_text m = (if m < 0 then u ''-'' else []) @ nat_digits (nat (\<bar>m\<bar> div 1000000)) @ u ''.''
     @ pad_start 6 48 (nat_digits (nat (\<bar>m\<bar> mod 1000000)))"

definition spent_rows :: "jstr \<Rightarrow> jstr option \<Rightarrow> ledger_table \<Rightarrow> ledger_table" where
  "spent_rows org run table =
     filter (\<lambda>r. case run of None \<Rightarrow> True | Some x \<Rightarrow> run_id r = x) (visible org table)"

definition spentMicroAud :: "jstr \<Rightarrow> jstr option \<Rightarrow> ledger_table \<Rightarrow> js_error + jnum" where
  "spentMicroAud org run table =
     (let rows = spent_rows org run table
      in microFromNumericText (if rows = [] then u ''0'' else numeric_text (sum_list (map (cost_micro \<circ> cost_aud) rows))))"

subsection \<open>The cache\<close>

record cache_probe =
  pr_input_hash :: jstr
  pr_prompt_version_id :: jstr
  pr_prompt_hash :: jstr
  pr_state_hash :: jstr
  pr_model_requested :: jstr
  pr_sampling :: jsval
  pr_seed :: "int option"

record cached_call =
  cc_seq :: int
  cc_model_returned :: "jstr option"
  cc_response_hash :: "jstr option"
  cc_response_text :: jstr
  cc_tokens_in :: int
  cc_tokens_out :: int
  cc_confidence :: "jstr option"

text \<open>
  The predicate of the \<open>CACHED\<close> statement.  \<open>jsonb\<close> equality is equality up to the order of members;
  \<open>->>\<close> of a boolean prints it, of a string is the string.
\<close>

definition cache_hit_flag :: "jsval \<Rightarrow> bool" where
  "cache_hit_flag out =
     (case obj_get (obj_get out ''cache'') ''hit'' of
        JBool b \<Rightarrow> b | JStr s \<Rightarrow> s = u ''true'' | _ \<Rightarrow> False)"

definition cache_matches :: "cache_probe \<Rightarrow> chained_row \<Rightarrow> bool" where
  "cache_matches p r =
     (class_of r = AgentCall \<and> input_hash r = Some (pr_input_hash p)
      \<and> prompt_version_id r = Some (pr_prompt_version_id p) \<and> prompt_hash r = Some (pr_prompt_hash p)
      \<and> state_hash r = pr_state_hash p \<and> model_requested r = Some (pr_model_requested p)
      \<and> (case sampling r of None \<Rightarrow> False | Some v \<Rightarrow> json_norm v = json_norm (pr_sampling p))
      \<and> seed r = pr_seed p \<and> obj_get (row_output r) ''response'' \<noteq> JUndef
      \<and> \<not> cache_hit_flag (row_output r))"

definition response_text_of :: "jsval \<Rightarrow> jstr option" where
  "response_text_of out =
     (case obj_get out ''response'' of
        JNull \<Rightarrow> None | JUndef \<Rightarrow> None | JStr s \<Rightarrow> Some s | v \<Rightarrow> (case canonicalJson v of Inr t \<Rightarrow> Some t | Inl _ \<Rightarrow> None))"

definition findCached :: "jstr \<Rightarrow> cache_probe \<Rightarrow> ledger_table \<Rightarrow> cached_call option" where
  "findCached org p table =
     (case List.find (cache_matches p) (visible org table) of
        None \<Rightarrow> None
      | Some r \<Rightarrow>
          (case response_text_of (row_output r) of
             None \<Rightarrow> None
           | Some t \<Rightarrow> Some \<lparr>cc_seq = seq r, cc_model_returned = model_returned r,
               cc_response_hash = response_hash r, cc_response_text = t, cc_tokens_in = tokens_in r,
               cc_tokens_out = tokens_out r, cc_confidence = confidence r\<rparr>))"

subsection \<open>System rows\<close>

definition CLASS_REQUIRED_KEYS :: "ledger_class \<Rightarrow> string list option" where
  "CLASS_REQUIRED_KEYS c =
     (case c of
        Start \<Rightarrow> Some [''attempt_id'', ''started_at'', ''budget_reserved'', ''code_sha'']
      | Commitment \<Rightarrow> Some [''commitment_kind'', ''sha256'', ''covers'', ''committed_before'']
      | PreregAnchor \<Rightarrow> Some [''document'', ''sha256'', ''field_count'', ''blocks'']
      | AgreementR3 \<Rightarrow> Some [''item_id'', ''template_id'', ''agreement'', ''r'', ''rollout_seeds'', ''temperature'']
      | KbAdmission \<Rightarrow> Some [''admission_id'', ''gap_id'', ''approved_by'', ''snapshot_from'', ''snapshot_to'',
                             ''content_hash'', ''provenance_source'']
      | Checkpoint \<Rightarrow> Some [''seq_covered'', ''head_row_hash'', ''k'']
      | _ \<Rightarrow> None)"

record system_row =
  sr_run_id :: jstr
  sr_org_id :: jstr
  sr_ticket_id :: "jstr option"
  sr_class :: ledger_class
  sr_output :: jsval
  sr_state :: state_parts
  sr_toolchain :: jsval
  sr_split_id :: "jstr option"
  sr_ts :: jstr

definition system_content :: "system_row \<Rightarrow> jstr \<Rightarrow> ledger_head option \<Rightarrow> ledger_row" where
  "system_content row state head =
     \<lparr>run_id = sr_run_id row, seq = (case head of Some h \<Rightarrow> h_seq h | None \<Rightarrow> 0) + 1, org_id = sr_org_id row,
      ticket_id = sr_ticket_id row, agent = System, prompt_version_id = None, model_requested = None,
      model_returned = None, sampling = None, seed = None, input_hash = None, input_path = None,
      prompt_hash = None, response_hash = None, state_hash = state, split_id = sr_split_id row,
      toolchain = sr_toolchain row, restarts = 0, tokens_in = 0, tokens_out = 0, cost_aud = u ''0.000000'',
      latency_ms = 0, cum_tokens = (case head of Some h \<Rightarrow> h_cum_tokens h | None \<Rightarrow> 0),
      class_of = sr_class row, row_output = sr_output row, confidence = None, ts = sr_ts row\<rparr>"

definition is_plain_object :: "jsval \<Rightarrow> bool" where
  "is_plain_object v = (case v of JObj _ \<Rightarrow> True | _ \<Rightarrow> False)"

definition appendSystemRow ::
    "(jstr \<Rightarrow> jstr) \<Rightarrow> (nat \<Rightarrow> ledger_table \<Rightarrow> ledger_table) \<Rightarrow> (nat \<Rightarrow> ledger_table \<Rightarrow> ledger_table)
       \<Rightarrow> system_row \<Rightarrow> ledger_table \<Rightarrow> ledger_table \<times> (store_error + appended_row)" where
  "appendSystemRow sha gap env row table =
     (case CLASS_REQUIRED_KEYS (sr_class row) of
        None \<Rightarrow> (table, Inl (Refusal E_CONFIG_INVALID))
      | Some required \<Rightarrow>
          if \<not> is_plain_object (sr_output row) then (table, Inl (Refusal E_CONFIG_INVALID))
          else if \<exists>k \<in> set required. \<not> names (sr_output row) k then (table, Inl (Refusal E_CONFIG_INVALID))
          else (case stateHash sha (sr_state row) of
                  Inl e \<Rightarrow> (table, Inl (Thrown e))
                | Inr state \<Rightarrow>
                    ledger_append sha gap env (sr_run_id row) (sr_org_id row) (system_content row state) table))"

subsection \<open>Filed promotion attempts\<close>

record filed_row =
  fr_run_id :: jstr
  fr_seq :: int
  fr_prev_hash :: jstr
  fr_row_hash :: jstr
  fr_ts :: jstr

record filed_attempt =
  fa_start :: "filed_row option"
  fa_terminal :: "filed_row option"

definition filed :: "chained_row \<Rightarrow> filed_row" where
  "filed r = \<lparr>fr_run_id = run_id r, fr_seq = seq r, fr_prev_hash = prev_hash r, fr_row_hash = row_hash r, fr_ts = ts r\<rparr>"

definition attempt_rows :: "jstr \<Rightarrow> jstr \<Rightarrow> ledger_table \<Rightarrow> ledger_table" where
  "attempt_rows org attempt_id table =
     stable_sort (\<lambda>a b. seq b < seq a)
       (filter (\<lambda>r. class_of r \<in> {Start, PromotionAttempt}
                    \<and> obj_get (row_output r) ''attempt_id'' = JStr attempt_id) (visible org table))"

definition findAttempt :: "jstr \<Rightarrow> jstr \<Rightarrow> ledger_table \<Rightarrow> filed_attempt" where
  "findAttempt org attempt_id table =
     foldl (\<lambda>found r. if class_of r = Start then found\<lparr>fa_start := Some (filed r)\<rparr>
                      else if class_of r = PromotionAttempt then found\<lparr>fa_terminal := Some (filed r)\<rparr> else found)
       \<lparr>fa_start = None, fa_terminal = None\<rparr> (attempt_rows org attempt_id table)"

subsection \<open>Money survives the column\<close>

lemma micro_whole:
  assumes "0 \<le> n" "n \<le> 2 ^ 52"
  shows "jfloor (jdiv (Fin (of_int n)) MICRO_PER_AUD) = Fin (of_int (n div 1000000))"
proof -
  let ?k = "n div 1000000" and ?x = "of_int n / 1000000 :: rat" and ?y = "of_int ((n div 1000000 + 1) * 2 ^ 20 - 1) * 2 powi (- 20) :: rat"
  have k: "0 \<le> ?k" "?k \<le> 4503599627" using assms by auto
  have n: "n = ?k * 1000000 + n mod 1000000" "n mod 1000000 \<le> 999999" by auto
  have lo: "of_int ?k \<le> ?x"
  proof -
    have "of_int (?k * 1000000) \<le> (of_int n :: rat)" using n by (simp only: of_int_le_iff)
    then show ?thesis by (simp add: pos_le_divide_eq)
  qed
  have hi: "?x \<le> ?y"
  proof -
    have "1048576 * (k * 1000000 + r) \<le> 1000000 * ((k + 1) * 1048576 - 1)" if "r \<le> 999999" for k r :: int
      using that by (simp add: algebra_simps)
    from this [OF n(2), of ?k] have "1048576 * n \<le> 1000000 * ((?k + 1) * 1048576 - 1)"
      by (simp only: n(1) [symmetric])
    then have "2 ^ 20 * n \<le> 1000000 * ((?k + 1) * 2 ^ 20 - 1)" by simp
    then have "(of_int (2 ^ 20 * n) :: rat) \<le> of_int (1000000 * ((?k + 1) * 2 ^ 20 - 1))" by (simp only: of_int_le_iff)
    then show ?thesis by (simp add: field_simps)
  qed
  have "\<bar>(?k + 1) * 2 ^ 20 - 1\<bar> \<le> 2 ^ 53" using k by auto
  then have ry: "rep ?y" by (rule rep_scaled) simp
  have rk: "rep (of_int ?k)" by (rule rep_of_int) (use k in auto)
  have b: "of_int ?k \<le> fl ?x" "fl ?x \<le> ?y" using b64.ge_bound [OF lo rk] b64.le_bound [OF hi ry] by blast+
  have "?y < of_int ?k + 1" by (simp add: field_simps)
  with b have fl: "\<lfloor>fl ?x\<rfloor> = ?k" by (intro floor_unique) linarith+
  have "?x \<le> 2 ^ 53" "0 \<le> ?x" using assms by (auto simp: pos_divide_le_eq)
  then have "to_num ?x = Fin (fl ?x)"
    by (intro to_num_bounded [where b = "2 ^ 53"]) (use rep_of_int [of "2 ^ 53"] big_range [of "2 ^ 53"] in simp_all)
  with fl show ?thesis by (simp add: MICRO_PER_AUD_def)
qed

lemma formatAud_int: "\<bar>m\<bar> \<le> 2 ^ 52 \<Longrightarrow> formatAud (Fin (of_int m)) = Inr (numeric_text m)"
proof -
  assume m: "\<bar>m\<bar> \<le> 2 ^ 52"
  have a: "jabs (Fin (of_int m)) = Fin (of_int \<bar>m\<bar>)" by simp
  have w: "num_string (Fin (of_int (\<bar>m\<bar> div 1000000))) = nat_digits (nat (\<bar>m\<bar> div 1000000))"
    by (subst num_string_int) (use m in \<open>simp_all add: int_string_nonneg pos_imp_zdiv_nonneg_iff\<close>)
  have f: "num_string (Fin (of_int (\<bar>m\<bar> mod 1000000))) = nat_digits (nat (\<bar>m\<bar> mod 1000000))"
    by (subst num_string_int) (use m in \<open>simp_all add: int_string_nonneg\<close>)
  have "\<lfloor>(of_int \<bar>m\<bar> :: rat) / of_int 1000000\<rfloor> = \<bar>m\<bar> div 1000000" by (rule floor_divide_of_int_eq)
  then have "jmod_nonneg (Fin (of_int \<bar>m\<bar>)) MICRO_PER_AUD = Fin (of_int (\<bar>m\<bar> mod 1000000))"
    by (simp add: jmod_nonneg_def MICRO_PER_AUD_def minus_mult_div_eq_mod [symmetric])
  then show ?thesis
    unfolding formatAud_def Let_def a micro_whole [OF abs_ge_zero m] using w f
    by (simp add: is_integer_def numeric_text_def)
qed

lemma js_trim_id: "s \<noteq> [] \<Longrightarrow> \<not> is_space (hd s) \<Longrightarrow> \<not> is_space (last s) \<Longrightarrow> js_trim s = s"
proof -
  assume s: "s \<noteq> []" "\<not> is_space (hd s)" "\<not> is_space (last s)"
  then have "dropWhile is_space s = s" by (cases s) simp_all
  moreover have "dropWhile is_space (rev s) = rev s" using s by (cases s rule: rev_cases) simp_all
  ultimately show ?thesis by (simp add: js_trim_def)
qed

lemma digit_not_space: "48 \<le> c \<Longrightarrow> c \<le> 57 \<Longrightarrow> \<not> is_space c"
  by (simp add: is_space_def)

lemma all_digits_nat [simp]: "all_digits (nat_digits n)"
  using nat_digits_range by (auto simp: all_digits_def list_all_iff)

lemma all_digits_pad [simp]: "all_digits (pad_start w 48 (nat_digits n))"
  using pad_start_digits by (auto simp: all_digits_def list_all_iff)

lemma all_digits_no_dot: "all_digits s \<Longrightarrow> takeWhile (\<lambda>c. c \<noteq> 46) (s @ 46 # r) = s \<and> dropWhile (\<lambda>c. c \<noteq> 46) (s @ 46 # r) = 46 # r
    \<and> takeWhile (\<lambda>c. c \<noteq> 46) s = s \<and> filter (\<lambda>c. c \<noteq> 46) s = s"
  by (induction s) (auto simp: all_digits_def)

lemma all_digits_head: "all_digits s \<Longrightarrow> s \<noteq> [] \<Longrightarrow> 48 \<le> hd s \<and> hd s \<le> 57 \<and> 48 \<le> last s \<and> last s \<le> 57"
  unfolding all_digits_def list_all_iff by (metis hd_in_set last_in_set)

definition frac_text :: "int \<Rightarrow> jstr" where
  "frac_text m = pad_start 6 48 (nat_digits (nat (\<bar>m\<bar> mod 1000000)))"

lemma frac_text: "length (frac_text m) = 6" "all_digits (frac_text m)" "digits_value (frac_text m) = nat (\<bar>m\<bar> mod 1000000)"
proof -
  have "nat (\<bar>m\<bar> mod 1000000) < 10 ^ 6" by (simp add: nat_less_iff)
  then have "length (nat_digits (nat (\<bar>m\<bar> mod 1000000))) \<le> 6" by (rule length_nat_digits_bound) simp
  then show "length (frac_text m) = 6" by (simp add: frac_text_def pad_start_def)
qed (simp_all add: frac_text_def)

lemma micro_of_numeric_text:
  assumes "\<bar>m\<bar> \<le> 2 ^ 52" shows "microFromNumericText (numeric_text m) = Inr (Fin (of_int m))"
proof -
  let ?k = "\<bar>m\<bar> div 1000000" and ?f = "\<bar>m\<bar> mod 1000000"
  let ?w = "nat_digits (nat ?k)" and ?t = "frac_text m"
  have t: "numeric_text m = (if m < 0 then u ''-'' else []) @ ?w @ 46 # ?t"
    by (simp add: numeric_text_def frac_text_def u_def)
  have w: "all_digits ?w" "?w \<noteq> []" by simp_all
  have ne: "?t \<noteq> []" using frac_text(1) [of m] by auto
  have neg: "is_prefix (u ''-'') (numeric_text m) \<longleftrightarrow> m < 0"
    using all_digits_head [OF w] by (cases ?w) (auto simp: t u_def)
  have "\<not> is_space 45" by (simp add: is_space_def)
  moreover have "\<not> is_space (hd ?w)" "\<not> is_space (last ?t)"
    using all_digits_head [OF w] all_digits_head [OF frac_text(2) ne] digit_not_space by simp_all
  ultimately have trim: "js_trim (numeric_text m) = numeric_text m"
    unfolding t using w(2) ne js_trim_id [of "?w @ 46 # ?t"] js_trim_id [of "45 # ?w @ 46 # ?t"]
    by (cases "m < 0") (simp_all add: u_def)
  have digits: "(if m < 0 then drop 1 (numeric_text m) else numeric_text m) = ?w @ 46 # ?t" by (simp add: t u_def)
  have k: "0 \<le> ?k" "?k \<le> 2 ^ 33" "0 \<le> ?f" "?f \<le> 999999" "\<bar>?k * 1000000\<bar> \<le> 2 ^ 53" "?k * 1000000 + ?f = \<bar>m\<bar>"
    using assms by auto
  have n1: "number_of_digits ?w = Fin (of_int ?k)"
    using to_num_int [of ?k] k by (simp add: number_of_digits_def)
  have n2: "number_of_digits ?t = Fin (of_int ?f)"
    using to_num_int [of ?f] k frac_text(3) [of m] by (simp add: number_of_digits_def)
  have m1: "jmul (Fin (of_int ?k)) (Fin 1000000) = Fin (of_int (?k * 1000000))"
    using to_num_int [OF k(5)] by simp
  have "to_num (of_int \<bar>m\<bar>) = Fin (of_int \<bar>m\<bar>)" by (rule to_num_int) (use assms in simp)
  then have a1: "jadd (Fin (of_int (?k * 1000000))) (Fin (of_int ?f)) = Fin (of_int \<bar>m\<bar>)"
    by (simp only: jadd.simps of_int_add [symmetric] k(6))
  have p: "pad_end 6 48 (take 6 ?t) = ?t" using frac_text(1) [of m] by (simp add: pad_end_def)
  have dot: "takeWhile (\<lambda>c. c \<noteq> 46) (?w @ 46 # ?t) = ?w" "dropWhile (\<lambda>c. c \<noteq> 46) (?w @ 46 # ?t) = 46 # ?t"
    "takeWhile (\<lambda>c. c \<noteq> 46) (drop 1 (46 # ?t)) = ?t"
    using all_digits_no_dot [OF w(1), of ?t] all_digits_no_dot [OF frac_text(2) [of m]] by simp_all
  have "microFromNumericText (numeric_text m) = Inr (if m < 0 then jneg (Fin (of_int \<bar>m\<bar>)) else Fin (of_int \<bar>m\<bar>))"
    unfolding microFromNumericText_def Let_def trim neg digits dot p n1 n2 m1 a1
    by (simp only: w(1) frac_text(2) not_True_eq_False disj_not1 simp_thms if_False)
  then show ?thesis by (cases "m < 0") simp_all
qed

lemma cost_micro_numeric_text: "cost_micro (numeric_text m) = m"
proof -
  let ?w = "nat_digits (nat (\<bar>m\<bar> div 1000000))" and ?t = "frac_text m"
  have t: "numeric_text m = (if m < 0 then u ''-'' else []) @ ?w @ 46 # ?t"
    by (simp add: numeric_text_def frac_text_def u_def)
  have neg: "is_prefix (u ''-'') (numeric_text m) \<longleftrightarrow> m < 0"
    using all_digits_head [OF all_digits_nat nat_digits_nonempty, of "nat (\<bar>m\<bar> div 1000000)"]
    by (cases ?w) (auto simp: t u_def)
  have digits: "(if m < 0 then drop 1 (numeric_text m) else numeric_text m) = ?w @ 46 # ?t" by (simp add: t u_def)
  have shift: "digits_value (xs @ ys) = digits_value xs * 10 ^ length ys + digits_value ys" for xs ys
    by (induction xs) (simp_all add: digits_value_Cons power_add add_mult_distrib)
  have "filter (\<lambda>c. c \<noteq> 46) (?w @ 46 # ?t) = ?w @ ?t"
    using all_digits_no_dot [of ?w] all_digits_no_dot [OF frac_text(2) [of m]] by simp
  then have "digits_value (filter (\<lambda>c. c \<noteq> 46) (?w @ 46 # ?t)) = nat \<bar>m\<bar>"
    using frac_text [of m] by (simp add: shift nat_div_distrib nat_mod_distrib)
  then show ?thesis unfolding cost_micro_def Let_def neg digits by (simp only: int_nat_eq) simp
qed

lemma spentMicroAud_sum:
  assumes "\<bar>sum_list (map (cost_micro \<circ> cost_aud) (spent_rows org run table))\<bar> \<le> 2 ^ 52"
  shows "spentMicroAud org run table = Inr (Fin (of_int (sum_list (map (cost_micro \<circ> cost_aud) (spent_rows org run table)))))"
proof (cases "spent_rows org run table = []")
  case True
  have "js_trim (u ''0'') = u ''0''" by (rule js_trim_id) (simp_all add: u_def is_space_def)
  moreover have "digits_value (replicate 6 48) = 0" by (simp add: digits_value_def eval_nat_numeral)
  ultimately have "microFromNumericText (u ''0'') = Inr (Fin 0)"
    using to_num_int [of 0]
    by (simp add: microFromNumericText_def u_def all_digits_def pad_end_def number_of_digits_def) (simp add: digits_value_def)
  with True show ?thesis by (simp add: spentMicroAud_def)
next
  case False
  then show ?thesis using micro_of_numeric_text [OF assms] by (simp add: spentMicroAud_def)
qed

text \<open>
  money survives its trip through the ledger: an amount of up to \<open>2 ^ 52\<close> millionths is written by
  \<open>formatAud\<close> as a decimal of six places, the column holds exactly that amount, and the reader turns
  the text back into exactly the integer it came from.
\<close>

theorem money_text_round_trip:
  assumes "\<bar>m\<bar> \<le> 2 ^ 52"
  shows "\<exists>t. formatAud (Fin (of_int m)) = Inr t \<and> cost_micro t = m
     \<and> microFromNumericText t = Inr (Fin (of_int m))"
  using formatAud_int [OF assms] micro_of_numeric_text [OF assms] cost_micro_numeric_text by blast

theorem money_text_round_trip_witness:
  "\<exists>t. formatAud (Fin (of_int (- 1500000))) = Inr t \<and> microFromNumericText t = Inr (Fin (of_int (- 1500000)))"
  using money_text_round_trip [of "- 1500000"] by auto

subsection \<open>System rows\<close>

definition storable_system :: "system_row \<Rightarrow> bool" where
  "storable_system row =
     ((\<exists>keys. CLASS_REQUIRED_KEYS (sr_class row) = Some keys \<and> list_all (names (sr_output row)) keys)
      \<and> is_plain_object (sr_output row) \<and> (sr_class row = AgreementR3 \<longrightarrow> sr_split_id row \<noteq> None)
      \<and> code_units (schema_version (sr_state row)) \<and> code_units (ruleset_hash (sr_state row))
      \<and> code_units (kb_snapshot (sr_state row)))"

lemma stateHash_total:
  "code_units (schema_version s) \<Longrightarrow> code_units (ruleset_hash s) \<Longrightarrow> code_units (kb_snapshot s) \<Longrightarrow>
   \<exists>h. stateHash sha s = Inr h"
  using canonical_reads [of "JObj [(u ''schema_version'', JStr (schema_version s)),
      (u ''ruleset_hash'', JStr (ruleset_hash s)), (u ''kb_snapshot'', JStr (kb_snapshot s))]"]
  by (simp add: stateHash_def digestOf_def code_units_def u_def)

text \<open>The keys the writer demands are the keys the trigger demands.\<close>

lemma writer_keys_are_trigger_keys: "CLASS_REQUIRED_KEYS c = Some keys \<Longrightarrow> trigger_keys c = keys
    \<and> c \<notin> {AgentCall, PromotionAttempt, ModificationEvent}"
  by (cases c) (auto simp: CLASS_REQUIRED_KEYS_def)

lemma zero_cost_text [simp]: "zero_cost (u ''0.000000'')"
  by (simp add: zero_cost_def u_def digits_value_def)

lemma system_row_checks:
  assumes "storable_system row" "ledger_row.truncate r = system_content row state head"
    "isHex64 (row_hash r)" "is_parent_text (prev_hash r)" "row_hash r \<noteq> prev_hash r"
  shows "row_checks r"
proof -
  obtain keys where k: "CLASS_REQUIRED_KEYS (sr_class row) = Some keys" "list_all (names (sr_output row)) keys"
    using assms(1) by (auto simp: storable_system_def)
  have f: "class_of r = sr_class row" "row_output r = sr_output row" "agent r = System" "split_id r = sr_split_id row"
    "tokens_in r = 0" "tokens_out r = 0" "cost_aud r = u ''0.000000''" "latency_ms r = 0" "restarts r = 0"
    using assms(2) by (simp_all add: ledger_row.truncate_def system_content_def)
  then show ?thesis
    using writer_keys_are_trigger_keys [OF k(1)] k(2) assms(1,3-5)
    by (auto simp: row_checks_def call_complete_def attempt_complete_def storable_system_def)
qed

text \<open>A head that no row of its run already follows: what a collision-free digest gives.\<close>

definition open_head :: "jstr \<Rightarrow> ledger_table \<Rightarrow> bool" where
  "open_head run table = (\<forall>x \<in> set (run_rows run table).
     prev_hash x \<noteq> (case head_of_run run table of Some h \<Rightarrow> h_row_hash h | None \<Rightarrow> GENESIS))"

lemma head_seq_last:
  assumes "ledger_ok sha table" "x \<in> set (run_rows run table)"
  shows "\<exists>h. head_of_run run table = Some h \<and> seq x \<le> h_seq h"
proof -
  let ?rows = "run_rows run table"
  have s: "sorted_wrt (\<lambda>a b. seq a < seq b) ?rows" using assms(1) by (simp add: ledger_ok_def run_ok_def)
  obtain a b where ab: "?rows = a @ [b]" using assms(2) by (metis append_butlast_last_id empty_iff list.set(1))
  have "seq x \<le> seq b" using s assms(2) by (auto simp: ab sorted_wrt_append)
  moreover have "head_of_run run table = Some (head_of_row b)"
    using last_by_seq_sorted [OF s] by (simp add: head_of_run_def ab)
  ultimately show ?thesis by (simp add: head_of_row_def)
qed

lemma head_hash_shape: "ledger_ok sha table \<Longrightarrow> head_of_run run table = Some h \<Longrightarrow> isHex64 (h_row_hash h)"
proof -
  assume ok: "ledger_ok sha table" and h: "head_of_run run table = Some h"
  let ?rows = "run_rows run table"
  have r: "run_ok sha ?rows" using ok by (simp add: ledger_ok_def)
  then have "?rows \<noteq> []" "h = head_of_row (last ?rows)"
    using h last_by_seq_sorted [of ?rows] by (auto simp: head_of_run_def run_ok_def split: if_splits)
  moreover from this(1) have "verifyRowHash sha (last ?rows) = Inr True"
    using r chain_snoc [of sha GENESIS "butlast ?rows" "last ?rows"] by (simp add: run_ok_def)
  ultimately show ?thesis by (auto simp: head_of_row_def verifyRowHash_def split: if_splits)
qed

lemma append_open:
  assumes "\<forall>t. isHex64 (sha t)" "ledger_ok sha table" "read_head org run table = head_of_run run table" "open_head run table"
    and link: "linkRow sha (build (head_of_run run table)) (map_option h_row_hash (head_of_run run table)) = Inr r"
    and "run_id r = run" "org_id r = org" "seq r = (case head_of_run run table of Some h \<Rightarrow> h_seq h | None \<Rightarrow> 0) + 1"
    and checks: "isHex64 (row_hash r) \<Longrightarrow> is_parent_text (prev_hash r) \<Longrightarrow> row_hash r \<noteq> prev_hash r \<Longrightarrow> row_checks r"
    and "class_of r \<in> {Start, PromotionAttempt} \<Longrightarrow> \<forall>x \<in> set table. class_of x = class_of r \<longrightarrow>
           obj_get (row_output x) ''attempt_id'' \<noteq> obj_get (row_output r) ''attempt_id''"
  shows "ledger_append sha undisturbed undisturbed run org build table =
      (table @ [r], Inr \<lparr>ap_seq = seq r, ap_prev_hash = prev_hash r, ap_row_hash = row_hash r, ap_ts = ts r\<rparr>)
    \<and> row_checks r \<and> ledger_ok sha (table @ [r])"
proof -
  let ?head = "head_of_run run table"
  note l = linkRow_Inr [OF link assms(1)]
  have prev: "prev_hash r = (case map_option h_row_hash ?head of Some h \<Rightarrow> h | None \<Rightarrow> GENESIS)" using l by blast
  have "isHex64 (row_hash r)" using l by (auto simp: verifyRowHash_def split: if_splits)
  moreover have "is_parent_text (prev_hash r)"
    using prev head_hash_shape [OF assms(2), of run] by (auto simp: is_parent_text_def split: option.splits)
  ultimately have ok: "row_checks r" using checks l by blast
  have "prev_hash x \<noteq> prev_hash r \<and> seq x \<noteq> seq r" if "x \<in> set table" "run_id x = run_id r" for x
  proof -
    have x: "x \<in> set (run_rows run table)" using that assms(6) by (simp add: run_rows_def)
    then obtain h where "?head = Some h" "seq x \<le> h_seq h" using head_seq_last [OF assms(2)] by blast
    then show ?thesis using x assms(4,8) prev by (auto simp: open_head_def)
  qed
  then have uniq: "unique_ok table r" using assms(10) by (auto simp: unique_ok_def)
  have ins: "ledger_insert org table r = Inr (table @ [r])"
    by (rule insert_on_head [OF assms(6,7) ok uniq _ prev]) (use assms(8) in simp)
  have "verifyRowHash sha r = Inr True" using l by blast
  with insert_keeps_ok [OF assms(2) ins] append_undisturbed [where build = build, OF assms(3) link ins] ok
  show ?thesis by blast
qed


definition sample_system :: system_row where
  "sample_system =
     \<lparr>sr_run_id = u ''r'', sr_org_id = u ''o'', sr_ticket_id = None, sr_class = Checkpoint,
      sr_output = JObj [(u ''seq_covered'', JStr (u ''1'')), (u ''head_row_hash'', JStr (u ''h'')), (u ''k'', JStr (u ''5''))],
      sr_state = \<lparr>schema_version = u ''1'', ruleset_hash = u ''a'', kb_snapshot = u ''b''\<rparr>,
      sr_toolchain = JObj [], sr_split_id = None, sr_ts = u ''2026-01-01T00:00:00.000Z''\<rparr>"


end
