(* ===== verification/Regex.thy ===== *)
theory Regex
  imports Js_Value
begin

section \<open>Regular expressions\<close>

text \<open>
  What src/agents/redaction.ts uses of RegExp, with the order of the backtracking search of the
  standard: \<open>steps e x\<close> lists the positions a match of \<open>e\<close> from \<open>x\<close> can end at, the preferred one
  first, so the match is the head of the list.  A position is the text before it, reversed, and the
  text after it.  An optional iteration that consumes nothing is rejected, so an unbounded
  repetition never needs more iterations than there are code units left.
\<close>

type_synonym pos = "jstr \<times> jstr"

datatype re =
    Eps
  | Cls "nat \<Rightarrow> bool"
  | Seq re re
  | Alt re re
  | Rep nat "nat option" re
  | WordBound
  | Behind re

definition is_word :: "nat \<Rightarrow> bool" where
  "is_word c = (97 \<le> c \<and> c \<le> 122 \<or> 65 \<le> c \<and> c \<le> 90 \<or> 48 \<le> c \<and> c \<le> 57 \<or> c = 95)"

definition word_at :: "jstr \<Rightarrow> bool" where
  "word_at s = (case s of [] \<Rightarrow> False | c # _ \<Rightarrow> is_word c)"

fun rep :: "(pos \<Rightarrow> pos list) \<Rightarrow> nat \<Rightarrow> nat \<Rightarrow> pos \<Rightarrow> pos list" where
  "rep f lo 0 x = [x]"
| "rep f lo (Suc hi) x =
     concat (map (\<lambda>y. if lo = 0 \<and> y = x then [] else rep f (lo - 1) hi y) (f x))
     @ (if lo = 0 then [x] else [])"

primrec steps :: "re \<Rightarrow> pos \<Rightarrow> pos list" where
  "steps Eps = (\<lambda>x. [x])"
| "steps (Cls p) = (\<lambda>(b, r). case r of [] \<Rightarrow> [] | c # r' \<Rightarrow> if p c then [(c # b, r')] else [])"
| "steps (Seq d e) = (\<lambda>x. concat (map (steps e) (steps d x)))"
| "steps (Alt d e) = (\<lambda>x. steps d x @ steps e x)"
| "steps (Rep lo hi e) = (\<lambda>x. rep (steps e) lo (case hi of Some h \<Rightarrow> h | None \<Rightarrow> lo + length (snd x)) x)"
| "steps WordBound = (\<lambda>(b, r). if word_at b \<noteq> word_at r then [(b, r)] else [])"
| "steps (Behind e) = (\<lambda>(b, r).
     if list_ex (\<lambda>i. (b, r) \<in> set (steps e (drop i b, rev (take i b) @ r))) [0..<Suc (length b)]
     then [(b, r)] else [])"

subsection \<open>A lookbehind computed by walking back\<close>

text \<open>One code unit at a time, no further than the longest match.\<close>

primrec max_len :: "re \<Rightarrow> nat option" where
  "max_len Eps = Some 0"
| "max_len (Cls p) = Some 1"
| "max_len (Seq d e) = (case (max_len d, max_len e) of (Some m, Some n) \<Rightarrow> Some (m + n) | _ \<Rightarrow> None)"
| "max_len (Alt d e) = (case (max_len d, max_len e) of (Some m, Some n) \<Rightarrow> Some (max m n) | _ \<Rightarrow> None)"
| "max_len (Rep lo hi e) = (case (hi, max_len e) of (Some h, Some n) \<Rightarrow> Some (h * n) | _ \<Rightarrow> None)"
| "max_len WordBound = Some 0"
| "max_len (Behind e) = Some 0"

lemma rep_max_len:
  "(\<And>x y. y \<in> set (f x) \<Longrightarrow> length (snd x) \<le> length (snd y) + n) \<Longrightarrow> y \<in> set (rep f lo hi x) \<Longrightarrow>
     length (snd x) \<le> length (snd y) + hi * n"
proof (induction hi arbitrary: lo x)
  case (Suc hi)
  from Suc.prems(2) consider "y = x" | z where "z \<in> set (f x)" "y \<in> set (rep f (lo - 1) hi z)"
    by (auto split: if_splits)
  then show ?case
  proof cases
    case 2
    have "length (snd z) \<le> length (snd y) + hi * n" by (rule Suc.IH [OF Suc.prems(1) 2(2)])
    with Suc.prems(1) [OF 2(1)] show ?thesis by simp
  qed simp
qed simp

lemma steps_max_len: "y \<in> set (steps e x) \<Longrightarrow> max_len e = Some n \<Longrightarrow> length (snd x) \<le> length (snd y) + n"
proof (induction e arbitrary: x y n)
  case (Cls p)
  then show ?case by (cases x; cases "snd x") (auto split: if_splits)
next
  case (Seq d e)
  obtain z where z: "z \<in> set (steps d x)" "y \<in> set (steps e z)" using Seq.prems(1) by auto
  obtain k l where kl: "max_len d = Some k" "max_len e = Some l" "n = k + l"
    using Seq.prems(2) by (auto split: option.splits)
  show ?case using Seq.IH(1) [OF z(1) kl(1)] Seq.IH(2) [OF z(2) kl(2)] kl(3) by simp
next
  case (Alt d e)
  obtain k l where kl: "max_len d = Some k" "max_len e = Some l" "n = max k l"
    using Alt.prems(2) by (auto split: option.splits)
  from Alt.prems(1) consider "y \<in> set (steps d x)" | "y \<in> set (steps e x)" by auto
  then show ?case using Alt.IH(1) [OF _ kl(1)] Alt.IH(2) [OF _ kl(2)] kl(3) by cases fastforce+
next
  case (Rep lo hi e)
  obtain h k where hk: "hi = Some h" "max_len e = Some k" "n = h * k"
    using Rep.prems(2) by (auto split: option.splits)
  have "length (snd x) \<le> length (snd y) + h * k"
    by (rule rep_max_len [of "steps e" k y lo h x]) (use Rep hk in auto)
  then show ?case using hk(3) by simp
qed (auto split: if_splits)

fun walk_back :: "nat \<Rightarrow> re \<Rightarrow> pos \<Rightarrow> jstr \<Rightarrow> jstr \<Rightarrow> bool" where
  "walk_back n e x [] r = (x \<in> set (steps e ([], r)))"
| "walk_back 0 e x (c # b) r = (x \<in> set (steps e (c # b, r)))"
| "walk_back (Suc n) e x (c # b) r = (x \<in> set (steps e (c # b, r)) \<or> walk_back n e x b (c # r))"

lemma walk_back_iff:
  "walk_back n e x b r \<longleftrightarrow> (\<exists>i \<le> length b. i \<le> n \<and> x \<in> set (steps e (drop i b, rev (take i b) @ r)))"
proof (induction n e x b r rule: walk_back.induct)
  case (3 n e x c b r)
  have "(\<exists>i \<le> length (c # b). i \<le> Suc n \<and> P i) \<longleftrightarrow> P 0 \<or> (\<exists>i \<le> length b. i \<le> n \<and> P (Suc i))" for P :: "nat \<Rightarrow> bool"
    by (auto simp: less_Suc_eq_0_disj less_Suc_eq_le [symmetric])
  from this [of "\<lambda>i. x \<in> set (steps e (drop i (c # b), rev (take i (c # b)) @ r))"] show ?case
    using 3 by simp
qed auto

lemma steps_Behind:
  "steps (Behind e) = (\<lambda>(b, r).
     if walk_back (case max_len e of Some n \<Rightarrow> n | None \<Rightarrow> length b) e (b, r) b r then [(b, r)] else [])"
proof -
  have bound: "i \<le> n" if "(b, r) \<in> set (steps e (drop i b, rev (take i b) @ r))" "max_len e = Some n" "i \<le> length b" for b r i n
    using steps_max_len [OF that(1,2)] that(3) by simp
  have "walk_back (case max_len e of Some n \<Rightarrow> n | None \<Rightarrow> length b) e (b, r) b r
      \<longleftrightarrow> (\<exists>i \<le> length b. (b, r) \<in> set (steps e (drop i b, rev (take i b) @ r)))" for b r
  proof (cases "max_len e")
    case None
    then show ?thesis unfolding walk_back_iff by simp
  next
    case (Some n)
    show ?thesis unfolding walk_back_iff Some option.case using bound [OF _ Some] by blast
  qed
  then show ?thesis
    by (auto simp: fun_eq_iff list_ex_iff Bex_def less_Suc_eq_le simp del: upt_Suc)
qed

declare steps.simps(1-6) [code] steps_Behind [code]

subsection \<open>The search of a replacement\<close>

text \<open>The search of \<open>String.replace\<close> with the global flag: matches and the code units between them.\<close>

datatype piece = Kept nat | Hit jstr

function pieces :: "re \<Rightarrow> jstr \<Rightarrow> jstr \<Rightarrow> piece list" where
  "pieces e b r =
     (case steps e (b, r) of
        (b', r') # _ \<Rightarrow>
          if length r' < length r then Hit (take (length r - length r') r) # pieces e b' r'
          else Hit [] # (case r of [] \<Rightarrow> [] | c # r'' \<Rightarrow> Kept c # pieces e (c # b) r'')
      | [] \<Rightarrow> (case r of [] \<Rightarrow> [] | c # r'' \<Rightarrow> Kept c # pieces e (c # b) r''))"
  by auto
termination by (relation "measure (\<lambda>(e, b, r). length r)") auto

declare pieces.simps [simp del]

definition piece_text :: "piece \<Rightarrow> jstr" where
  "piece_text p = (case p of Kept c \<Rightarrow> [c] | Hit m \<Rightarrow> m)"

definition replaced :: "jstr \<Rightarrow> piece \<Rightarrow> jstr" where
  "replaced by p = (case p of Kept c \<Rightarrow> [c] | Hit m \<Rightarrow> by)"

definition hits :: "piece list \<Rightarrow> jstr list" where
  "hits ps = concat (map (\<lambda>p. case p of Kept c \<Rightarrow> [] | Hit m \<Rightarrow> [m]) ps)"

definition replace_all :: "re \<Rightarrow> jstr \<Rightarrow> jstr \<Rightarrow> jstr" where
  "replace_all e by s = concat (map (replaced by) (pieces e [] s))"

lemma piece_simps [simp]:
  "piece_text (Kept c) = [c]" "piece_text (Hit m) = m" "replaced by (Kept c) = [c]" "replaced by (Hit m) = by"
  "hits [] = []" "hits (Kept c # ps) = hits ps" "hits (Hit m # ps) = m # hits ps" "hits (ps @ qs) = hits ps @ hits qs"
  by (simp_all add: piece_text_def replaced_def hits_def)

subsection \<open>Building expressions\<close>

definition lits :: "(nat \<Rightarrow> nat \<Rightarrow> bool) \<Rightarrow> jstr \<Rightarrow> re" where
  "lits same s = foldr (\<lambda>c e. Seq (Cls (same c)) e) s Eps"

abbreviation word_lit :: "string \<Rightarrow> re" where
  "word_lit s \<equiv> lits (=) (u s)"

fun alts :: "re list \<Rightarrow> re" where
  "alts [] = Cls (\<lambda>c. False)"
| "alts [e] = e"
| "alts (e # es) = Alt e (alts es)"

fun seqs :: "re list \<Rightarrow> re" where
  "seqs [] = Eps"
| "seqs [e] = e"
| "seqs (e # es) = Seq e (seqs es)"

abbreviation opt :: "re \<Rightarrow> re" where "opt e \<equiv> Rep 0 (Some 1) e"
abbreviation plus :: "re \<Rightarrow> re" where "plus e \<equiv> Rep 1 None e"
abbreviation times :: "nat \<Rightarrow> re \<Rightarrow> re" where "times n e \<equiv> Rep n (Some n) e"

subsection \<open>A match consumes a prefix of the text\<close>

definition advances :: "pos \<Rightarrow> pos \<Rightarrow> bool" where
  "advances x y \<longleftrightarrow> (\<exists>m. snd x = m @ snd y \<and> fst y = rev m @ fst x)"

lemma advances_refl [simp]: "advances x x"
  by (simp add: advances_def)

lemma advances_trans: "advances x y \<Longrightarrow> advances y z \<Longrightarrow> advances x z"
proof -
  assume "advances x y" "advances y z"
  then obtain m n where "snd x = m @ snd y" "fst y = rev m @ fst x" "snd y = n @ snd z" "fst z = rev n @ fst y"
    unfolding advances_def by blast
  then have "snd x = (m @ n) @ snd z \<and> fst z = rev (m @ n) @ fst x" by simp
  then show ?thesis unfolding advances_def by blast
qed

lemma rep_advances:
  "(\<And>x y. y \<in> set (f x) \<Longrightarrow> advances x y) \<Longrightarrow> y \<in> set (rep f lo hi x) \<Longrightarrow> advances x y"
proof (induction hi arbitrary: lo x)
  case (Suc hi)
  from Suc.prems(2) consider "y = x" | z where "z \<in> set (f x)" "y \<in> set (rep f (lo - 1) hi z)"
    by (auto split: if_splits)
  then show ?case
  proof cases
    case 2
    have "advances z y" by (rule Suc.IH [OF Suc.prems(1) 2(2)])
    with Suc.prems(1) [OF 2(1)] show ?thesis by (rule advances_trans)
  qed simp
qed simp

lemma steps_advance: "y \<in> set (steps e x) \<Longrightarrow> advances x y"
proof (induction e arbitrary: x y)
  case (Cls p)
  then show ?case
    by (cases x; cases "snd x") (auto simp: advances_def split: if_splits list.splits)
next
  case (Seq d e)
  then obtain z where "z \<in> set (steps d x)" "y \<in> set (steps e z)" by auto
  with Seq.IH have "advances x z" "advances z y" by blast+
  then show ?case by (rule advances_trans)
next
  case (Rep lo hi e)
  then show ?case using rep_advances [of "steps e"] by auto
qed (auto split: if_splits)

lemma pieces_text: "concat (map piece_text (pieces e b r)) = r"
proof (induction e b r rule: pieces.induct)
  case (1 e b r)
  show ?case
  proof (cases "steps e (b, r)")
    case Nil
    then show ?thesis using 1 by (subst pieces.simps) (auto split: list.splits)
  next
    case (Cons y ys)
    obtain b' r' where y: "y = (b', r')" by (cases y)
    have adv: "advances (b, r) (b', r')" using Cons y by (intro steps_advance [of _ e]) simp
    show ?thesis
    proof (cases "length r' < length r")
      case True
      then have "concat (map piece_text (pieces e b' r')) = r'" using 1(2) [OF Cons y [symmetric]] by blast
      moreover have "take (length r - length r') r @ r' = r" using adv by (auto simp: advances_def)
      ultimately show ?thesis using Cons y True by (subst pieces.simps) simp
    next
      case False
      then show ?thesis using 1(3) Cons y by (subst pieces.simps) (auto split: list.splits)
    qed
  qed
qed

subsection \<open>Separators\<close>

text \<open>
  \<open>avoids s e\<close>: no match of \<open>e\<close> contains \<open>s\<close>.  \<open>shuns s e\<close>: what stands on the other side of an \<open>s\<close>
  before the match is not seen either.
\<close>

primrec avoids :: "nat \<Rightarrow> re \<Rightarrow> bool" where
  "avoids s Eps = True"
| "avoids s (Cls p) = (\<not> p s)"
| "avoids s (Seq d e) = (avoids s d \<and> avoids s e)"
| "avoids s (Alt d e) = (avoids s d \<and> avoids s e)"
| "avoids s (Rep lo hi e) = avoids s e"
| "avoids s WordBound = True"
| "avoids s (Behind e) = True"

primrec shuns :: "nat \<Rightarrow> re \<Rightarrow> bool" where
  "shuns s Eps = True"
| "shuns s (Cls p) = (\<not> p s)"
| "shuns s (Seq d e) = (shuns s d \<and> shuns s e)"
| "shuns s (Alt d e) = (shuns s d \<and> shuns s e)"
| "shuns s (Rep lo hi e) = shuns s e"
| "shuns s WordBound = (\<not> is_word s)"
| "shuns s (Behind e) = shuns s e"

lemma shuns_avoids: "shuns s e \<Longrightarrow> avoids s e"
  by (induction e) simp_all

lemma rep_shuns:
  "(\<And>x y. y \<in> set (f x) \<Longrightarrow> \<exists>m. snd x = m @ snd y \<and> fst y = rev m @ fst x \<and> s \<notin> set m) \<Longrightarrow>
     y \<in> set (rep f lo hi x) \<Longrightarrow> \<exists>m. snd x = m @ snd y \<and> fst y = rev m @ fst x \<and> s \<notin> set m"
proof (induction hi arbitrary: lo x)
  case (Suc hi)
  from Suc.prems(2) consider "y = x" | z where "z \<in> set (f x)" "y \<in> set (rep f (lo - 1) hi z)"
    by (auto split: if_splits)
  then show ?case
  proof cases
    case 2
    obtain m where m: "snd x = m @ snd z \<and> fst z = rev m @ fst x \<and> s \<notin> set m" using Suc.prems(1) [OF 2(1)] ..
    obtain n where n: "snd z = n @ snd y \<and> fst y = rev n @ fst z \<and> s \<notin> set n"
      using Suc.IH [OF Suc.prems(1) 2(2)] by blast
    from m n have "snd x = (m @ n) @ snd y \<and> fst y = rev (m @ n) @ fst x \<and> s \<notin> set (m @ n)" by simp
    then show ?thesis by blast
  qed simp
qed simp

lemma steps_shun:
  "avoids s e \<Longrightarrow> y \<in> set (steps e x) \<Longrightarrow> \<exists>m. snd x = m @ snd y \<and> fst y = rev m @ fst x \<and> s \<notin> set m"
proof (induction e arbitrary: x y)
  case (Cls p)
  obtain b r where x: "x = (b, r)" by (cases x)
  with Cls.prems(2) obtain c r' where r: "r = c # r'" "p c" "y = (c # b, r')"
    by (auto split: list.splits if_splits)
  then have "snd x = [c] @ snd y \<and> fst y = rev [c] @ fst x \<and> s \<notin> set [c]" using x Cls.prems(1) by auto
  then show ?case by blast
next
  case (Seq d e)
  then obtain z where z: "z \<in> set (steps d x)" "y \<in> set (steps e z)" by auto
  obtain m where m: "snd x = m @ snd z \<and> fst z = rev m @ fst x \<and> s \<notin> set m"
    using Seq.IH(1) [OF _ z(1)] Seq.prems(1) by auto
  obtain n where n: "snd z = n @ snd y \<and> fst y = rev n @ fst z \<and> s \<notin> set n"
    using Seq.IH(2) [OF _ z(2)] Seq.prems(1) by auto
  from m n have "snd x = (m @ n) @ snd y \<and> fst y = rev (m @ n) @ fst x \<and> s \<notin> set (m @ n)" by simp
  then show ?case by blast
next
  case (Alt d e)
  then show ?case by auto
next
  case (Rep lo hi e)
  have "\<And>x y. y \<in> set (steps e x) \<Longrightarrow> \<exists>m. snd x = m @ snd y \<and> fst y = rev m @ fst x \<and> s \<notin> set m"
    using Rep.IH Rep.prems(1) by simp
  from rep_shuns [OF this] Rep.prems(2) show ?case by simp
qed (auto split: if_splits)

lemma rep_cong_hi:
  assumes "\<And>y. y \<in> set (f x) \<Longrightarrow> \<not> (lo = 0 \<and> y = x) \<Longrightarrow> rep f (lo - 1) n y = rep f (lo - 1) k y"
  shows "rep f lo (Suc n) x = rep f lo (Suc k) x"
proof -
  have "map (\<lambda>y. if lo = 0 \<and> y = x then [] else rep f (lo - 1) n y) (f x)
      = map (\<lambda>y. if lo = 0 \<and> y = x then [] else rep f (lo - 1) k y) (f x)"
    by (intro map_cong) (use assms in auto)
  then show ?thesis unfolding rep.simps by (rule arg_cong)
qed

lemma rep_stuck:
  assumes "\<And>y. y \<in> set (f x) \<Longrightarrow> y = x"
  shows "rep f 0 n x = [x]"
proof (cases n)
  case (Suc k)
  have "concat (map (\<lambda>y. if 0 = (0 :: nat) \<and> y = x then [] else rep f (0 - 1) k y) (f x)) = []"
    using assms by auto
  with Suc show ?thesis by simp
qed simp

text \<open>More iterations than there are code units left change nothing.\<close>

lemma rep_enough:
  assumes adv: "\<And>x y. y \<in> set (f x) \<Longrightarrow> advances x y"
  shows "length (snd x) \<le> n \<Longrightarrow> length (snd x) \<le> k \<Longrightarrow> rep f lo (lo + n) x = rep f lo (lo + k) x"
proof (induction lo arbitrary: x n k)
  have still: "y = x" if "snd x = []" "y \<in> set (f x)" for x y
    using adv [OF that(2)] that(1) by (cases x; cases y) (auto simp: advances_def)
  case 0
  then show ?case
  proof (induction n arbitrary: x k)
    case 0
    then have "snd x = []" by simp
    then have "rep f 0 j x = [x]" for j by (intro rep_stuck still)
    then show ?case by (simp only: add_0)
  next
    case (Suc n)
    show ?case
    proof (cases k)
      case 0
      with Suc.prems have "snd x = []" by simp
      then have "rep f 0 j x = [x]" for j by (intro rep_stuck still)
      then show ?thesis by (simp only: add_0)
    next
      case (Suc j)
      have "rep f 0 n y = rep f 0 j y" if y: "y \<in> set (f x)" "y \<noteq> x" for y
      proof -
        obtain m where m: "snd x = m @ snd y" "fst y = rev m @ fst x" using adv [OF y(1)] by (auto simp: advances_def)
        with y(2) have "m \<noteq> []" by (cases x; cases y) auto
        then have "length (snd y) < length (snd x)" using m(1) by simp
        then show ?thesis using Suc.IH [of y j] Suc.prems Suc by simp
      qed
      then have "rep f 0 (Suc n) x = rep f 0 (Suc j) x" by (intro rep_cong_hi) simp
      then show ?thesis by (simp only: Suc add_0)
    qed
  qed
next
  case (Suc lo)
  have "rep f lo (lo + n) y = rep f lo (lo + k) y" if y: "y \<in> set (f x)" for y
  proof -
    have "length (snd y) \<le> length (snd x)" using adv [OF y] by (auto simp: advances_def)
    then show ?thesis by (intro Suc.IH order_trans [OF _ Suc.prems(1)] order_trans [OF _ Suc.prems(2)])
  qed
  then show ?case unfolding add_Suc by (intro rep_cong_hi) simp
qed

definition beside :: "jstr \<Rightarrow> jstr \<Rightarrow> pos \<Rightarrow> pos" where
  "beside l r x = (fst x @ l, snd x @ r)"

lemma beside_inject [simp]: "beside l r x = beside l r y \<longleftrightarrow> x = y"
  by (auto simp: beside_def prod_eq_iff)

lemma beside_mem [simp]: "beside l r x \<in> beside l r ` A \<longleftrightarrow> x \<in> A"
  by (auto simp: image_iff)

lemma rep_beside:
  "(\<And>x. g (beside l r x) = map (beside l r) (f x)) \<Longrightarrow> rep g lo hi (beside l r x) = map (beside l r) (rep f lo hi x)"
proof (induction hi arbitrary: lo x)
  case (Suc hi)
  have "map (\<lambda>y. if lo = 0 \<and> y = beside l r x then [] else rep g (lo - 1) hi y) (g (beside l r x))
      = map (map (beside l r)) (map (\<lambda>y. if lo = 0 \<and> y = x then [] else rep f (lo - 1) hi y) (f x))"
    using Suc by (simp add: o_def)
  then show ?case by (simp add: map_concat)
qed simp

definition edge :: "nat \<Rightarrow> jstr \<Rightarrow> bool" where
  "edge s t = (t = [] \<or> hd t = s)"

lemma word_at_edge: "\<not> is_word s \<Longrightarrow> edge s l \<Longrightarrow> word_at (b @ l) = word_at b"
  by (cases b; cases l) (auto simp: word_at_def edge_def)

lemma steps_beside:
  "shuns s e \<Longrightarrow> edge s l \<Longrightarrow> edge s r \<Longrightarrow> steps e (beside l r x) = map (beside l r) (steps e x)"
proof (induction e arbitrary: x)
  case (Cls p)
  then show ?case
    by (cases x; cases "snd x"; cases r) (auto simp: beside_def edge_def)
next
  case (Seq d e)
  then show ?case by (simp add: map_concat o_def)
next
  case (Rep lo hi e)
  have step: "steps e (beside l r y) = map (beside l r) (steps e y)" for y using Rep by simp
  have adv: "\<And>x y. y \<in> set (steps e x) \<Longrightarrow> advances x y" by (rule steps_advance)
  have times: "rep (steps e) lo h (beside l r x) = map (beside l r) (rep (steps e) lo h x)" for h
    by (rule rep_beside) (rule step)
  have "rep (steps e) lo (lo + length (snd (beside l r x))) x = rep (steps e) lo (lo + length (snd x)) x"
    by (rule rep_enough [OF adv]) (auto simp: beside_def)
  then show ?case using times by (cases hi) simp_all
next
  case WordBound
  then show ?case by (cases x) (auto simp: beside_def word_at_edge)
next
  case (Behind e)
  obtain b t where x: "x = (b, t)" by (cases x)
  have inside: "(b @ l, t @ r) \<in> set (steps e (drop i (b @ l), rev (take i (b @ l)) @ t @ r))
      \<longleftrightarrow> (b, t) \<in> set (steps e (drop i b, rev (take i b) @ t))" if "i \<le> length b" for i
  proof -
    have "(drop i (b @ l), rev (take i (b @ l)) @ t @ r) = beside l r (drop i b, rev (take i b) @ t)"
      using that by (simp add: beside_def)
    moreover have "(b @ l, t @ r) = beside l r (b, t)" by (simp add: beside_def)
    ultimately show ?thesis using Behind by (simp only: set_map beside_mem shuns.simps)
  qed
  have outside: "(b @ l, t @ r) \<notin> set (steps e (drop i (b @ l), rev (take i (b @ l)) @ t @ r))"
    if i: "length b < i" "i \<le> length (b @ l)" for i
  proof
    assume "(b @ l, t @ r) \<in> set (steps e (drop i (b @ l), rev (take i (b @ l)) @ t @ r))"
    from steps_shun [OF _ this, of s] shuns_avoids [of s e] Behind.prems(1)
    obtain m where "rev (take i (b @ l)) @ t @ r = m @ t @ r" "s \<notin> set m" by auto
    then have "rev (take i (b @ l)) = m" by (simp only: append_same_eq)
    then have "set (take i (b @ l)) = set m" by (metis set_rev)
    moreover obtain l' where l': "l = s # l'" using i Behind.prems(2) by (cases l) (auto simp: edge_def)
    moreover obtain j where "i - length b = Suc j" using i(1) by (cases "i - length b") auto
    then have "s \<in> set (take i (b @ l))" unfolding l' take_append by simp
    ultimately show False using \<open>s \<notin> set m\<close> by simp
  qed
  have "list_ex (\<lambda>i. (b @ l, t @ r) \<in> set (steps e (drop i (b @ l), rev (take i (b @ l)) @ t @ r))) [0..<Suc (length (b @ l))]
      = list_ex (\<lambda>i. (b, t) \<in> set (steps e (drop i b, rev (take i b) @ t))) [0..<Suc (length b)]"
  proof -
    have "(\<exists>i. i \<le> length (b @ l) \<and> (b @ l, t @ r) \<in> set (steps e (drop i (b @ l), rev (take i (b @ l)) @ t @ r)))
      = (\<exists>i. i \<le> length b \<and> (b, t) \<in> set (steps e (drop i b, rev (take i b) @ t)))"
    proof
      assume "\<exists>i. i \<le> length (b @ l) \<and> (b @ l, t @ r) \<in> set (steps e (drop i (b @ l), rev (take i (b @ l)) @ t @ r))"
      then obtain i where i: "i \<le> length (b @ l)"
        "(b @ l, t @ r) \<in> set (steps e (drop i (b @ l), rev (take i (b @ l)) @ t @ r))" by blast
      then have "i \<le> length b" using outside [of i] by fastforce
      then show "\<exists>i. i \<le> length b \<and> (b, t) \<in> set (steps e (drop i b, rev (take i b) @ t))"
        using inside i(2) by blast
    next
      assume "\<exists>i. i \<le> length b \<and> (b, t) \<in> set (steps e (drop i b, rev (take i b) @ t))"
      then obtain i where i: "i \<le> length b" "(b, t) \<in> set (steps e (drop i b, rev (take i b) @ t))" by blast
      moreover have "i \<le> length (b @ l)" using i(1) by simp
      ultimately show "\<exists>i. i \<le> length (b @ l)
          \<and> (b @ l, t @ r) \<in> set (steps e (drop i (b @ l), rev (take i (b @ l)) @ t @ r))"
        using inside by blast
    qed
    then show ?thesis unfolding list_ex_iff by (simp only: set_upt atLeastLessThan_iff less_Suc_eq_le le0 simp_thms bex_simps Bex_def)
  qed
  then show ?case using x by (simp add: beside_def)
qed simp_all

lemma pieces_left: "shuns s e \<Longrightarrow> edge s l \<Longrightarrow> pieces e (b @ l) r = pieces e b r"
proof (induction e b r rule: pieces.induct)
  case (1 e b r)
  have bes: "steps e (b @ l, r) = map (beside l []) (steps e (b, r))"
    using steps_beside [OF 1(4,5), of "[]" "(b, r)"] by (simp add: edge_def beside_def)
  show ?case
  proof (cases "steps e (b, r)")
    case Nil
    then show ?thesis
      by (subst (1 2) pieces.simps) (use bes 1 in \<open>auto split: list.splits\<close>)
  next
    case (Cons y ys)
    obtain b' r' where y: "y = (b', r')" by (cases y)
    show ?thesis
    proof (cases "length r' < length r")
      case True
      have "pieces e (b' @ l) r' = pieces e b' r'" using 1(2) [OF Cons y [symmetric] True 1(4,5)] .
      then show ?thesis using bes Cons y True by (subst (1 2) pieces.simps) (simp add: beside_def)
    next
      case False
      then show ?thesis
        by (subst (1 2) pieces.simps) (use bes 1(3) [OF Cons y [symmetric] False] 1(4,5) Cons y in \<open>auto simp: beside_def split: list.splits\<close>)
    qed
  qed
qed

text \<open>What follows an \<open>s\<close> is not seen by a search that ends before it.\<close>

abbreviation ahead :: "jstr \<Rightarrow> pos list \<Rightarrow> pos list" where
  "ahead t ys \<equiv> filter (\<lambda>y. length t \<le> length (snd y)) ys"

lemma short_dies:
  assumes "\<And>y. y \<in> set (g x) \<Longrightarrow> advances x y" "length (snd x) < length t"
  shows "ahead t (g x) = []"
proof -
  have "length (snd y) \<le> length (snd x)" if "y \<in> set (g x)" for y
    using assms(1) [OF that] by (auto simp: advances_def)
  then show ?thesis using assms(2) by (auto simp: filter_empty_conv) (metis not_le order.strict_trans2)
qed

lemma filter_concat_map: "filter P (concat (map g ys)) = concat (map (\<lambda>y. filter P (g y)) ys)"
  by (induction ys) simp_all

lemma concat_map_within:
  assumes "\<And>y. y \<in> set ys \<Longrightarrow> length (snd y) < length t \<Longrightarrow> g y = []" "ahead t ys = map (beside [] t) zs"
  shows "concat (map g ys) = concat (map (\<lambda>z. g (beside [] t z)) zs)"
proof -
  have "concat (map g ys) = concat (map g (ahead t ys))"
    using assms(1) by (induction ys) (auto simp: not_le)
  then show ?thesis by (simp add: assms(2) o_def)
qed

lemma rep_within:
  assumes step: "\<And>x. ahead t (f (beside [] t x)) = map (beside [] t) (f x)"
    and adv: "\<And>x y. y \<in> set (f x) \<Longrightarrow> advances x y"
  shows "ahead t (rep f lo hi (beside [] t x)) = map (beside [] t) (rep f lo hi x)"
proof (induction hi arbitrary: lo x)
  case (Suc hi)
  let ?g = "\<lambda>y. if lo = 0 \<and> y = beside [] t x then [] else rep f (lo - 1) hi y"
  have dead: "ahead t (?g y) = []" if "y \<in> set (f (beside [] t x))" "length (snd y) < length t" for y
    using short_dies [of "rep f (lo - 1) hi" y t] rep_advances [of f] adv that(2) by auto
  have "concat (map (\<lambda>y. ahead t (?g y)) (f (beside [] t x))) = concat (map (\<lambda>z. ahead t (?g (beside [] t z))) (f x))"
    by (rule concat_map_within) (use dead step in auto)
  also have "\<dots> = concat (map (\<lambda>z. map (beside [] t) (if lo = 0 \<and> z = x then [] else rep f (lo - 1) hi z)) (f x))"
    using Suc.IH by (intro arg_cong [where f = concat] map_cong) auto
  finally show ?case by (simp add: filter_concat_map map_concat o_def) (simp add: beside_def)
qed (simp add: beside_def)

lemma steps_within:
  "\<not> is_word s \<Longrightarrow> edge s t \<Longrightarrow> ahead t (steps e (beside [] t x)) = map (beside [] t) (steps e x)"
proof (induction e arbitrary: x)
  case (Cls p)
  then show ?case by (cases x; cases "snd x"; cases t) (auto simp: beside_def)
next
  case (Seq d e)
  have dead: "ahead t (steps e y) = []" if "length (snd y) < length t" for y
    using short_dies [of "steps e" y t] steps_advance that by blast
  have "ahead t (steps (Seq d e) (beside [] t x)) = concat (map (\<lambda>y. ahead t (steps e y)) (steps d (beside [] t x)))"
    by (simp add: filter_concat_map)
  also have "\<dots> = concat (map (\<lambda>z. ahead t (steps e (beside [] t z))) (steps d x))"
    by (rule concat_map_within) (use dead Seq in auto)
  finally show ?case using Seq by (simp add: map_concat o_def)
next
  case (Rep lo hi e)
  have adv: "\<And>x y. y \<in> set (steps e x) \<Longrightarrow> advances x y" by (rule steps_advance)
  have times: "ahead t (rep (steps e) lo h (beside [] t x)) = map (beside [] t) (rep (steps e) lo h x)" for h
    by (rule rep_within) (use Rep adv in auto)
  have "rep (steps e) lo (lo + length (snd (beside [] t x))) x = rep (steps e) lo (lo + length (snd x)) x"
    by (rule rep_enough [OF adv]) (auto simp: beside_def)
  then show ?case using times by (cases hi) simp_all
next
  case WordBound
  then show ?case by (cases x) (auto simp: beside_def word_at_edge)
next
  case (Behind e)
  obtain b r where x: "x = (b, r)" by (cases x)
  have "(b, r @ t) \<in> set (steps e (drop i b, rev (take i b) @ r @ t)) \<longleftrightarrow> (b, r) \<in> set (steps e (drop i b, rev (take i b) @ r))" for i
  proof -
    let ?x = "(drop i b, rev (take i b) @ r)"
    have "(b, r @ t) = beside [] t (b, r)" "(drop i b, rev (take i b) @ r @ t) = beside [] t ?x" by (simp_all add: beside_def)
    moreover have "beside [] t (b, r) \<in> set (steps e (beside [] t ?x)) \<longleftrightarrow> beside [] t (b, r) \<in> set (ahead t (steps e (beside [] t ?x)))"
      by (simp add: beside_def)
    moreover have "ahead t (steps e (beside [] t ?x)) = map (beside [] t) (steps e ?x)" by (rule Behind)+
    ultimately show ?thesis by (simp only: set_map beside_mem)
  qed
  then have "(\<lambda>i. (b, r @ t) \<in> set (steps e (drop i b, rev (take i b) @ r @ t)))
      = (\<lambda>i. (b, r) \<in> set (steps e (drop i b, rev (take i b) @ r)))" by blast
  then show ?case using x by (simp only: steps.simps beside_def) (simp del: upt_Suc)
qed (simp_all add: beside_def)

lemma steps_right:
  assumes "avoids s e" "\<not> is_word s"
  shows "steps e (b, r @ s # t) = map (beside [] (s # t)) (steps e (b, r))"
proof -
  have "length (s # t) \<le> length (snd y)" if y: "y \<in> set (steps e (b, r @ s # t))" for y
  proof -
    obtain m where m: "r @ s # t = m @ snd y" "s \<notin> set m" using steps_shun [OF assms(1) y] by auto
    then show ?thesis by (auto simp: append_eq_append_conv2 Cons_eq_append_conv dest!: sym [of _ "snd y"])
  qed
  then have "ahead (s # t) (steps e (b, r @ s # t)) = steps e (b, r @ s # t)" by (simp add: filter_id_conv)
  then show ?thesis
    using steps_within [OF assms(2), of "s # t" e "(b, r)"] by (simp add: edge_def beside_def)
qed

lemma pieces_right:
  "avoids s e \<Longrightarrow> \<not> is_word s \<Longrightarrow> pieces e b (r @ s # t) = pieces e b r @ Kept s # pieces e (s # rev r @ b) t"
proof (induction e b r rule: pieces.induct)
  case (1 e b r)
  note right = steps_right [OF 1(4,5), of b r t]
  show ?case
  proof (cases "steps e (b, r)")
    case Nil
    then show ?thesis
      by (subst (1 2) pieces.simps) (use right 1 in \<open>auto split: list.splits\<close>)
  next
    case (Cons y ys)
    obtain b' r' where y: "y = (b', r')" by (cases y)
    have adv: "advances (b, r) (b', r')" using Cons y by (intro steps_advance [of _ e]) simp
    show ?thesis
    proof (cases "length r' < length r")
      case True
      obtain m where m: "r = m @ r'" "b' = rev m @ b" using adv by (auto simp: advances_def)
      have "pieces e b' (r' @ s # t) = pieces e b' r' @ Kept s # pieces e (s # rev r' @ b') t"
        using 1(2) [OF Cons y [symmetric] True 1(4,5)] .
      then show ?thesis using right Cons y True m by (subst (1 2) pieces.simps) (simp add: beside_def)
    next
      case False
      then show ?thesis
        by (subst (1 2) pieces.simps)
          (use right 1(3) [OF Cons y [symmetric] False] 1(4,5) Cons y in \<open>auto simp: beside_def split: list.splits\<close>)
    qed
  qed
qed

lemma pieces_split:
  "shuns s e \<Longrightarrow> \<not> is_word s \<Longrightarrow> pieces e b (r @ s # t) = pieces e b r @ Kept s # pieces e [] t"
  using pieces_right [OF shuns_avoids] pieces_left [of s e "s # rev r @ b" "[]" t] by (simp add: edge_def)

lemma pieces_none:
  assumes "\<And>m r'. r = m @ r' \<Longrightarrow> steps e (rev m @ b, r') = []"
  shows "pieces e b r = map Kept r"
  using assms
proof (induction r arbitrary: b)
  case Nil
  then show ?case by (subst pieces.simps) simp
next
  case (Cons c r)
  have "steps e (b, c # r) = []" using Cons.prems [of "[]"] by simp
  moreover have "pieces e (c # b) r = map Kept r"
    by (rule Cons.IH) (use Cons.prems [of "c # _"] in simp)
  ultimately show ?case by (subst pieces.simps) simp
qed

end
