(* ===== verification/Redaction.thy ===== *)
theory Redaction
  imports Regex "HOL-Library.Multiset" "HOL-Library.Code_Target_Nat"
begin

section \<open>Redaction and its canaries (src/agents/redaction.ts, src/agents/canary.ts)\<close>

text \<open>
  The dictionary, the machine that applies it, the search for what it removed, and the synthetic
  values planted in every call.  The case folding of a code unit that a case-insensitive expression
  uses and \<open>toLowerCase\<close> depend on the Unicode tables; they are the parameters \<open>canon\<close> and \<open>lower\<close>.
  The labels of the dictionary are ASCII, for which the folding is fixed by the standard.
\<close>

subsection \<open>The dictionary\<close>

datatype redaction_kind = KLiteral | KEmail | KCard | KAccount | KPhone | KId

definition REDACTION_KINDS :: "redaction_kind list" where
  "REDACTION_KINDS = [KLiteral, KEmail, KCard, KAccount, KPhone, KId]"

fun kind_name :: "redaction_kind \<Rightarrow> jstr" where
  "kind_name KLiteral = u ''literal''"
| "kind_name KEmail = u ''email''"
| "kind_name KCard = u ''card''"
| "kind_name KAccount = u ''account''"
| "kind_name KPhone = u ''phone''"
| "kind_name KId = u ''id''"

definition marker :: "redaction_kind \<Rightarrow> jstr" where
  "marker k = u ''[REDACTED:'' @ kind_name k @ u '']''"

definition dig :: "nat \<Rightarrow> bool" where "dig c = (48 \<le> c \<and> c \<le> 57)"
definition upper :: "nat \<Rightarrow> bool" where "upper c = (65 \<le> c \<and> c \<le> 90)"
definition alnum :: "nat \<Rightarrow> bool" where "alnum c = (97 \<le> c \<and> c \<le> 122 \<or> upper c \<or> dig c)"
definition host_unit :: "nat \<Rightarrow> bool" where "host_unit c = (alnum c \<or> c = 45)"
definition local_unit :: "nat \<Rightarrow> bool" where
  "local_unit c = (alnum c \<or> c = 46 \<or> c = 95 \<or> c = 37 \<or> c = 43 \<or> c = 45)"
definition blank_dash :: "nat \<Rightarrow> bool" where "blank_dash c = (c = 32 \<or> c = 45)"

definition same_letter :: "nat \<Rightarrow> nat \<Rightarrow> bool" where
  "same_letter l c = ((if upper c then c + 32 else c) = (if upper l then l + 32 else l))"

abbreviation "D \<equiv> Cls dig"
abbreviation "gap_opt \<equiv> opt (Cls blank_dash)"
abbreviation "label s \<equiv> lits same_letter (u s)"

definition label_gap :: re where
  "label_gap = Rep 0 (Some 16) (Cls (\<lambda>c. \<not> dig c \<and> c \<noteq> 10))"

definition email_re :: re where
  "email_re = Seq (plus (Cls local_unit)) (Seq (Cls (\<lambda>c. c = 64)) (Seq (plus (Cls host_unit))
     (plus (Seq (Cls (\<lambda>c. c = 46)) (plus (Cls host_unit))))))"

definition iban_re :: re where
  "iban_re = seqs [WordBound, times 2 (Cls upper), times 2 D,
     Rep 2 (Some 7) (Seq (opt (Cls (\<lambda>c. c = 32))) (times 4 (Cls alnum))),
     opt (Seq (opt (Cls (\<lambda>c. c = 32))) (Rep 1 (Some 3) (Cls alnum))), WordBound]"

definition bsb_re :: re where
  "bsb_re = seqs [WordBound, times 3 D, Cls (\<lambda>c. c = 45), times 3 D, plus (Cls (\<lambda>c. c = 32)),
     Rep 6 (Some 10) D, WordBound]"

definition card_groups_re :: re where
  "card_groups_re = seqs [WordBound, times 4 D, Cls blank_dash, times 4 D, Cls blank_dash, times 4 D,
     opt (Seq (Cls blank_dash) (Rep 1 (Some 4) D)), WordBound]"

definition card_amex_re :: re where
  "card_amex_re = seqs [WordBound, times 4 D, Cls blank_dash, times 6 D, Cls blank_dash, times 5 D, WordBound]"

definition card_run_re :: re where
  "card_run_re = seqs [WordBound, Rep 13 (Some 19) D, WordBound]"

definition phone_plus_re :: re where
  "phone_plus_re = seqs [Cls (\<lambda>c. c = 43), Rep 1 (Some 3) D, gap_opt, D, Rep 6 (Some 13) (Seq gap_opt D), WordBound]"

definition phone_area_re :: re where
  "phone_area_re = seqs [Cls (\<lambda>c. c = 40), times 2 D, Cls (\<lambda>c. c = 41), opt (Cls (\<lambda>c. c = 32)), times 4 D,
     gap_opt, times 4 D, WordBound]"

definition phone_zero_re :: re where
  "phone_zero_re = seqs [WordBound, Cls (\<lambda>c. c = 48), D, Rep 7 (Some 9) (Seq gap_opt D), WordBound]"

definition account_label_re :: re where
  "account_label_re = Seq (Behind (seqs [WordBound,
       alts [label ''account'', label ''acct'', label ''a/c'', label ''bsb'', label ''iban'', label ''bank''],
       WordBound, label_gap]))
     (Seq D (Rep 4 (Some 18) (Seq gap_opt D)))"

definition id_label_re :: re where
  "id_label_re = Seq (Behind (seqs [WordBound,
       alts [label ''tfn'', label ''abn'', label ''acn'', label ''medicare'', label ''licence'', label ''license'',
             label ''passport'', seqs [label ''customer'', plus (Cls is_space), label ''id''],
             seqs [label ''member'', plus (Cls is_space), label ''id'']],
       WordBound, label_gap]))
     (Seq D (Rep 4 (Some 15) (Seq gap_opt D)))"

definition RULES :: "(redaction_kind \<times> re) list" where
  "RULES = [(KEmail, email_re), (KAccount, iban_re), (KAccount, bsb_re), (KCard, card_groups_re),
     (KCard, card_amex_re), (KCard, card_run_re), (KPhone, phone_plus_re), (KPhone, phone_area_re),
     (KPhone, phone_zero_re), (KAccount, account_label_re), (KId, id_label_re)]"

subsection \<open>The machine\<close>

definition MIN_LITERAL_LENGTH :: nat where
  "MIN_LITERAL_LENGTH = 8"

record removal =
  rm_kind :: redaction_kind
  rm_literal :: jstr

record redaction_result =
  rd_text :: jstr
  rd_removed :: "removal list"
  rd_counts :: "redaction_kind \<Rightarrow> int"

text \<open>\<open>new RegExp(escapeForRegExp(literal), 'gi')\<close>: the literal unit by unit, up to case.\<close>

definition escapeForRegExp :: "(nat \<Rightarrow> nat) \<Rightarrow> jstr \<Rightarrow> re" where
  "escapeForRegExp canon literal = lits (\<lambda>l c. canon c = canon l) literal"

definition emptyCounts :: "redaction_kind \<Rightarrow> int" where
  "emptyCounts = (\<lambda>k. 0)"

text \<open>\<open>[...new Set(xs)]\<close> keeps the first of equal elements, in order.\<close>

definition first_distinct :: "'a list \<Rightarrow> 'a list" where
  "first_distinct xs = rev (remdups (rev xs))"

definition ordered_literals :: "jstr list \<Rightarrow> jstr list" where
  "ordered_literals literals =
     stable_sort (\<lambda>a b. length a < length b)
       (filter (\<lambda>l. length l > 0) (map js_trim (first_distinct literals)))"

definition run_rule :: "redaction_result \<Rightarrow> redaction_kind \<times> re \<Rightarrow> redaction_result" where
  "run_rule st rule =
     (let k = fst rule; ps = pieces (snd rule) [] (rd_text st)
      in \<lparr>rd_text = concat (map (replaced (marker k)) ps),
          rd_removed = rd_removed st @ map (\<lambda>m. \<lparr>rm_kind = k, rm_literal = m\<rparr>) (hits ps),
          rd_counts = (rd_counts st)(k := rd_counts st k + int (length (hits ps)))\<rparr>)"

definition redact :: "(nat \<Rightarrow> nat) \<Rightarrow> jstr \<Rightarrow> jstr list \<Rightarrow> redaction_result" where
  "redact canon text literals =
     foldl run_rule (foldl run_rule \<lparr>rd_text = text, rd_removed = [], rd_counts = emptyCounts\<rparr>
         (map (\<lambda>l. (KLiteral, escapeForRegExp canon l)) (ordered_literals literals)))
       RULES"

definition findLeak :: "(jstr \<Rightarrow> jstr) \<Rightarrow> jstr \<Rightarrow> removal list \<Rightarrow> removal option" where
  "findLeak lower haystack removed =
     List.find (\<lambda>r. let literal = js_trim (rm_literal r)
                    in literal \<noteq> [] \<and> \<not> (rm_kind r = KLiteral \<and> length literal < MIN_LITERAL_LENGTH)
                       \<and> js_includes (lower haystack) (lower literal)) removed"

definition MARKER_PATTERN :: re where
  "MARKER_PATTERN = seqs [word_lit ''[REDACTED:'', alts (map (\<lambda>k. lits (=) (kind_name k)) REDACTION_KINDS), word_lit '']'']"

definition withoutMarkers :: "jstr \<Rightarrow> jstr" where
  "withoutMarkers text = replace_all MARKER_PATTERN (u '' '') text"

subsection \<open>The canaries\<close>

definition CANARY_MARK :: jstr where
  "CANARY_MARK = 10 # u ''<<ledgerdesk-canary>> ''"

record canary_spec =
  cn_kind :: redaction_kind
  cn_value :: "jstr \<Rightarrow> jstr"
  cn_lead :: "jstr option"

definition CANARIES :: "canary_spec list" where
  "CANARIES =
     [\<lparr>cn_kind = KEmail, cn_value = (\<lambda>token. u ''ld-canary-'' @ token @ u ''@canary.invalid''), cn_lead = None\<rparr>,
      \<lparr>cn_kind = KAccount, cn_value = (\<lambda>token. u ''DE89 3704 0044 0532 0130 00''), cn_lead = None\<rparr>,
      \<lparr>cn_kind = KCard, cn_value = (\<lambda>token. u ''4111 1111 1111 1111''), cn_lead = None\<rparr>,
      \<lparr>cn_kind = KPhone, cn_value = (\<lambda>token. u ''0400 000 000''), cn_lead = None\<rparr>,
      \<lparr>cn_kind = KId, cn_value = (\<lambda>token. u ''123 456 782''), cn_lead = Some (u ''TFN '')\<rparr>]"

definition CANARY_CONTRIBUTION :: "redaction_kind \<Rightarrow> int" where
  "CANARY_CONTRIBUTION = foldl (\<lambda>totals c. totals(cn_kind c := totals (cn_kind c) + 1)) (\<lambda>k. 0) CANARIES"

record planted_canaries =
  pl_block :: jstr
  pl_expected_tail :: jstr
  pl_values :: "jstr list"

definition join_blank :: "jstr list \<Rightarrow> jstr" where
  "join_blank ts = (case ts of [] \<Rightarrow> [] | t # ts' \<Rightarrow> t @ concat (map (\<lambda>x. 32 # x) ts'))"

definition lead_of :: "canary_spec \<Rightarrow> jstr" where
  "lead_of c = (case cn_lead c of None \<Rightarrow> [] | Some l \<Rightarrow> l)"

definition plant :: "jstr \<Rightarrow> planted_canaries" where
  "plant token =
     \<lparr>pl_block = CANARY_MARK @ join_blank (map (\<lambda>c. lead_of c @ cn_value c token) CANARIES),
      pl_expected_tail = CANARY_MARK @ join_blank (map (\<lambda>c. lead_of c @ marker (cn_kind c)) CANARIES),
      pl_values = map (\<lambda>c. cn_value c token) CANARIES\<rparr>"

definition survivingKinds :: "jstr \<Rightarrow> jstr \<Rightarrow> redaction_kind list" where
  "survivingKinds redacted token = map cn_kind (filter (\<lambda>c. js_includes redacted (cn_value c token)) CANARIES)"

subsection \<open>Accounting\<close>

definition units_of :: "removal list \<Rightarrow> nat multiset" where
  "units_of rs = sum_list (map (\<lambda>r. mset (rm_literal r)) rs)"

definition markers_of :: "removal list \<Rightarrow> nat multiset" where
  "markers_of rs = sum_list (map (\<lambda>r. mset (marker (rm_kind r))) rs)"

definition balanced :: "jstr \<Rightarrow> redaction_result \<Rightarrow> bool" where
  "balanced text st \<longleftrightarrow>
     mset text + markers_of (rd_removed st) = mset (rd_text st) + units_of (rd_removed st)
     \<and> (\<forall>k. rd_counts st k = int (length (filter (\<lambda>r. rm_kind r = k) (rd_removed st))))
     \<and> (rd_removed st = [] \<longrightarrow> rd_text st = text)"

lemma pieces_balance:
  "mset (concat (map piece_text ps)) + sum_list (map (\<lambda>m. mset by) (hits ps))
     = mset (concat (map (replaced by) ps)) + sum_list (map mset (hits ps))"
proof (induction ps)
  case (Cons p ps)
  then show ?case by (cases p) (simp_all add: algebra_simps)
qed simp

lemma no_hits_same: "hits ps = [] \<Longrightarrow> concat (map (replaced by) ps) = concat (map piece_text ps)"
proof (induction ps)
  case (Cons p ps)
  then show ?case by (cases p) simp_all
qed simp

lemma units_append: "units_of (rs @ qs) = units_of rs + units_of qs"
  by (simp add: units_of_def)

lemma markers_append: "markers_of (rs @ qs) = markers_of rs + markers_of qs"
  by (simp add: markers_of_def)

lemma balance_step: "a + m = t + w \<Longrightarrow> t + s = n + s' \<Longrightarrow> a + (m + s) = n + (w + (s' :: 'a multiset))"
  by (metis add.assoc add.commute)

lemma run_rule_balanced: "balanced text st \<Longrightarrow> balanced text (run_rule st rule)"
proof -
  assume b: "balanced text st"
  obtain k e where rule: "rule = (k, e)" by (cases rule)
  let ?ps = "pieces e [] (rd_text st)"
  have t: "concat (map piece_text ?ps) = rd_text st" by (rule pieces_text)
  have "mset (rd_text st) + sum_list (map (\<lambda>m. mset (marker k)) (hits ?ps))
      = mset (concat (map (replaced (marker k)) ?ps)) + sum_list (map mset (hits ?ps))"
    using pieces_balance [of ?ps "marker k"] by (simp add: t)
  moreover have "hits ?ps = [] \<Longrightarrow> concat (map (replaced (marker k)) ?ps) = rd_text st"
    using no_hits_same [of ?ps] by (simp add: t)
  moreover have "length (filter (\<lambda>r. rm_kind r = j) (map (\<lambda>m. \<lparr>rm_kind = k, rm_literal = m\<rparr>) ms))
      = (if j = k then length ms else 0)" for j ms
    by (induction ms) simp_all
  moreover have "sum_list (map mset (hits ?ps)) = units_of (map (\<lambda>m. \<lparr>rm_kind = k, rm_literal = m\<rparr>) (hits ?ps))"
    "sum_list (map (\<lambda>m. mset (marker k)) (hits ?ps)) = markers_of (map (\<lambda>m. \<lparr>rm_kind = k, rm_literal = m\<rparr>) (hits ?ps))"
    by (simp_all add: units_of_def markers_of_def o_def)
  ultimately show ?thesis using b
    by (auto simp: balanced_def run_rule_def Let_def rule units_append markers_append intro: balance_step)
qed

lemma fold_rules_balanced: "balanced text st \<Longrightarrow> balanced text (foldl run_rule st rules)"
  by (induction rules arbitrary: st) (simp_all add: run_rule_balanced)

lemma redact_balanced: "balanced text (redact canon text literals)"
  unfolding redact_def
  by (intro fold_rules_balanced) (simp add: balanced_def units_of_def markers_of_def emptyCounts_def)

text \<open>
  redaction loses and invents nothing: whatever the text and the caller's literals, the code units
  of the text are exactly those of the redacted text with every marker traded back for the value it
  stands for; the count published for a kind is the number of values of that kind removed; and a text
  from which nothing was removed is returned unchanged.
\<close>

theorem redaction_is_accounted_for:
  "(let r = redact canon text literals
    in mset text + markers_of (rd_removed r) = mset (rd_text r) + units_of (rd_removed r)
       \<and> (\<forall>k. rd_counts r k = int (length (filter (\<lambda>x. rm_kind x = k) (rd_removed r))))
       \<and> (rd_removed r = [] \<longrightarrow> rd_text r = text))"
  using redact_balanced [of _ canon literals] by (simp add: balanced_def Let_def)

theorem redaction_is_accounted_for_witness:
  "rd_text (redact id (u ''hi, call 5'') []) = u ''hi, call 5''"
proof -
  have "rd_removed (redact id (u ''hi, call 5'') []) = []" by code_simp
  then show ?thesis using redaction_is_accounted_for [of id "u ''hi, call 5''" "[]"] by (simp add: Let_def)
qed

subsection \<open>The canaries clear\<close>

lemma pieces_end: "steps e (b, []) = [] \<Longrightarrow> pieces e b [] = []"
  by (subst pieces.simps) simp

lemma pieces_hit:
  "steps e (b, r) = (b', r') # ys \<Longrightarrow> length r' < length r \<Longrightarrow>
     pieces e b r = Hit (take (length r - length r') r) # pieces e b' r'"
  by (subst pieces.simps) simp

lemma rep_numeral:
  "rep f lo (numeral n) x =
     concat (map (\<lambda>y. if lo = 0 \<and> y = x then [] else rep f (lo - 1) (pred_numeral n) y) (f x))
     @ (if lo = 0 then [x] else [])"
  by (simp only: numeral_eq_Suc rep.simps)

lemmas class_defs = dig_def upper_def alnum_def host_unit_def local_unit_def blank_dash_def is_word_def word_at_def
  is_space_def same_letter_def

lemma steps_Cls: "steps (Cls p) (b, c # r) = (if p c then [(c # b, r)] else [])"
  by simp

lemma rep_greedy:
  "\<forall>x \<in> set w. p x \<Longrightarrow> \<not> p c \<Longrightarrow> lo \<le> length w \<Longrightarrow> length w \<le> hi \<Longrightarrow>
     \<exists>ys. rep (steps (Cls p)) lo hi (b, w @ c # r) = (rev w @ b, c # r) # ys"
proof (induction w arbitrary: lo hi b)
  case Nil
  then show ?case by (cases hi) (simp_all add: steps_Cls del: steps.simps)
next
  case (Cons x w)
  then obtain h where h: "hi = Suc h" "length w \<le> h" by (cases hi) auto
  obtain ys where "rep (steps (Cls p)) (lo - 1) h (x # b, w @ c # r) = (rev w @ x # b, c # r) # ys"
    using Cons.IH [of "lo - 1" h "x # b"] Cons.prems h
    by (auto simp: le_diff_conv simp del: steps.simps)
  then show ?case using h Cons.prems(1) by (simp add: steps_Cls del: steps.simps)
qed

text \<open>The address canary is one match, whatever token it carries.\<close>

lemma email_canary:
  assumes "\<forall>c \<in> set token. local_unit c"
  shows "pieces email_re [] (u ''ld-canary-'' @ token @ u ''@canary.invalid'') = [Hit (u ''ld-canary-'' @ token @ u ''@canary.invalid'')]"
proof -
  let ?w = "u ''ld-canary-'' @ token" and ?d = "u ''canary.invalid''"
  let ?rest = "Seq (Cls (\<lambda>c. c = 64)) (Seq (plus (Cls host_unit)) (plus (Seq (Cls (\<lambda>c. c = 46)) (plus (Cls host_unit)))))"
  have s: "u ''ld-canary-'' @ token @ u ''@canary.invalid'' = ?w @ 64 # ?d" by (simp add: u_def)
  have w: "\<forall>c \<in> set ?w. local_unit c" using assms by (auto simp: u_def class_defs)
  have np: "\<not> local_unit 64" by (simp add: class_defs)
  have "\<exists>ys. rep (steps (Cls local_unit)) 1 (1 + length (?w @ 64 # ?d)) ([], ?w @ 64 # ?d) = (rev ?w @ [], 64 # ?d) # ys"
    by (rule rep_greedy [OF w np]) (simp_all add: u_def)
  then obtain ys where ys: "steps (plus (Cls local_unit)) ([], ?w @ 64 # ?d) = (rev ?w, 64 # ?d) # ys"
    by (elim exE) (simp only: steps.simps(5) option.case snd_conv append_Nil2)
  have "\<exists>zs. steps ?rest (b, 64 # ?d) = (rev ?d @ 64 # b, []) # zs" for b
    by (simp add: u_def class_defs rep_numeral)
  then obtain zs where "steps ?rest (rev ?w, 64 # ?d) = (rev ?d @ 64 # rev ?w, []) # zs" by blast
  then have "\<exists>vs. steps email_re ([], ?w @ 64 # ?d) = (rev ?d @ 64 # rev ?w, []) # vs"
    unfolding email_re_def steps.simps(3) ys list.map concat.simps by simp
  moreover have "steps email_re (b, []) = []" for b by (simp add: email_re_def)
  ultimately show ?thesis unfolding s
    by (elim exE) (simp add: pieces_hit pieces_end del: append_assoc)
qed

definition tail_step :: "jstr \<times> removal list \<Rightarrow> redaction_kind \<times> re \<Rightarrow> jstr \<times> removal list" where
  "tail_step t rule =
     (let ps = pieces (snd rule) [] (fst t)
      in (concat (map (replaced (marker (fst rule))) ps),
          snd t @ map (\<lambda>m. \<lparr>rm_kind = fst rule, rm_literal = m\<rparr>) (hits ps)))"

lemma tail_step_acc: "tail_step (t, acc) rule = (fst (tail_step (t, []) rule), acc @ snd (tail_step (t, []) rule))"
  by (simp add: tail_step_def Let_def)

definition beside_tail :: "redaction_result \<Rightarrow> redaction_result \<Rightarrow> jstr \<times> removal list \<Rightarrow> bool" where
  "beside_tail st st0 t \<longleftrightarrow>
     rd_text st = rd_text st0 @ 10 # fst t
     \<and> (\<forall>k. rd_counts st k = rd_counts st0 k + int (count_list (map rm_kind (snd t)) k))
     \<and> set (rd_removed st) = set (rd_removed st0) \<union> set (snd t)"

lemma count_kind: "count_list (map rm_kind (map (\<lambda>m. \<lparr>rm_kind = x, rm_literal = m\<rparr>) ms)) y = (if x = y then length ms else 0)"
  by (cases "x = y"; induction ms) simp_all

lemma run_rule_beside:
  assumes "beside_tail st st0 t" "shuns 10 (snd rule)"
  shows "beside_tail (run_rule st rule) (run_rule st0 rule) (tail_step t rule)"
proof -
  have "pieces (snd rule) [] (rd_text st0 @ 10 # fst t) = pieces (snd rule) [] (rd_text st0) @ Kept 10 # pieces (snd rule) [] (fst t)"
    by (rule pieces_split [OF assms(2)]) (simp add: is_word_def)
  then show ?thesis using assms(1)
    by (auto simp: beside_tail_def run_rule_def tail_step_def Let_def count_kind simp del: map_map)
qed

lemma fold_rules_beside:
  "beside_tail st st0 t \<Longrightarrow> \<forall>r \<in> set rules. shuns 10 (snd r) \<Longrightarrow>
     beside_tail (foldl run_rule st rules) (foldl run_rule st0 rules) (foldl tail_step t rules)"
  by (induction rules arbitrary: st st0 t) (simp_all add: run_rule_beside)

abbreviation "mid_rules \<equiv>
  [(KAccount, iban_re), (KAccount, bsb_re), (KCard, card_groups_re), (KCard, card_amex_re), (KCard, card_run_re),
   (KPhone, phone_plus_re), (KPhone, phone_area_re), (KPhone, phone_zero_re), (KAccount, account_label_re)]"

lemma mid_rules_shun: "\<forall>r \<in> set mid_rules. shuns 10 (snd r)"
  by (simp add: iban_re_def bsb_re_def card_groups_re_def card_amex_re_def card_run_re_def phone_plus_re_def
      phone_area_re_def phone_zero_re_def account_label_re_def label_gap_def class_defs lits_def u_def)

text \<open>Each rule of the dictionary takes its own canary out of what the rules before it left.\<close>

lemma iban_tail: "tail_step (u ''<<ledgerdesk-canary>> [REDACTED:email] DE89 3704 0044 0532 0130 00 4111 1111 1111 1111 0400 000 000 TFN 123 456 782'', []) (KAccount, iban_re) = (u ''<<ledgerdesk-canary>> [REDACTED:email] [REDACTED:account] 4111 1111 1111 1111 0400 000 000 TFN 123 456 782'', [\<lparr>rm_kind = KAccount, rm_literal = u ''DE89 3704 0044 0532 0130 00''\<rparr>])"
  by code_simp

lemma bsb_tail: "tail_step (u ''<<ledgerdesk-canary>> [REDACTED:email] [REDACTED:account] 4111 1111 1111 1111 0400 000 000 TFN 123 456 782'', []) (KAccount, bsb_re) = (u ''<<ledgerdesk-canary>> [REDACTED:email] [REDACTED:account] 4111 1111 1111 1111 0400 000 000 TFN 123 456 782'', [])"
  by code_simp

lemma card_groups_tail: "tail_step (u ''<<ledgerdesk-canary>> [REDACTED:email] [REDACTED:account] 4111 1111 1111 1111 0400 000 000 TFN 123 456 782'', []) (KCard, card_groups_re) = (u ''<<ledgerdesk-canary>> [REDACTED:email] [REDACTED:account] [REDACTED:card] 0400 000 000 TFN 123 456 782'', [\<lparr>rm_kind = KCard, rm_literal = u ''4111 1111 1111 1111''\<rparr>])"
  by code_simp

lemma card_amex_tail: "tail_step (u ''<<ledgerdesk-canary>> [REDACTED:email] [REDACTED:account] [REDACTED:card] 0400 000 000 TFN 123 456 782'', []) (KCard, card_amex_re) = (u ''<<ledgerdesk-canary>> [REDACTED:email] [REDACTED:account] [REDACTED:card] 0400 000 000 TFN 123 456 782'', [])"
  by code_simp

lemma card_run_tail: "tail_step (u ''<<ledgerdesk-canary>> [REDACTED:email] [REDACTED:account] [REDACTED:card] 0400 000 000 TFN 123 456 782'', []) (KCard, card_run_re) = (u ''<<ledgerdesk-canary>> [REDACTED:email] [REDACTED:account] [REDACTED:card] 0400 000 000 TFN 123 456 782'', [])"
  by code_simp

lemma phone_plus_tail: "tail_step (u ''<<ledgerdesk-canary>> [REDACTED:email] [REDACTED:account] [REDACTED:card] 0400 000 000 TFN 123 456 782'', []) (KPhone, phone_plus_re) = (u ''<<ledgerdesk-canary>> [REDACTED:email] [REDACTED:account] [REDACTED:card] 0400 000 000 TFN 123 456 782'', [])"
  by code_simp

lemma phone_area_tail: "tail_step (u ''<<ledgerdesk-canary>> [REDACTED:email] [REDACTED:account] [REDACTED:card] 0400 000 000 TFN 123 456 782'', []) (KPhone, phone_area_re) = (u ''<<ledgerdesk-canary>> [REDACTED:email] [REDACTED:account] [REDACTED:card] 0400 000 000 TFN 123 456 782'', [])"
  by code_simp

lemma phone_zero_tail: "tail_step (u ''<<ledgerdesk-canary>> [REDACTED:email] [REDACTED:account] [REDACTED:card] 0400 000 000 TFN 123 456 782'', []) (KPhone, phone_zero_re) = (u ''<<ledgerdesk-canary>> [REDACTED:email] [REDACTED:account] [REDACTED:card] [REDACTED:phone] TFN 123 456 782'', [\<lparr>rm_kind = KPhone, rm_literal = u ''0400 000 000''\<rparr>])"
  by code_simp

text \<open>The labelled rules look for a digit first.\<close>

lemma labelled_skip:
  assumes "e = Seq (Behind d) (Seq D m)"
  shows "\<forall>c \<in> set w. \<not> dig c \<Longrightarrow> pieces e b (w @ r) = map Kept w @ pieces e (rev w @ b) r"
proof (induction w arbitrary: b)
  case (Cons c w)
  have "steps e (b, c # w @ r) = []" using Cons.prems by (simp add: assms)
  then have "pieces e b (c # w @ r) = Kept c # pieces e (c # b) (w @ r)" by (subst pieces.simps) simp
  then show ?case using Cons by simp
qed simp

abbreviation "labelled_lead \<equiv> u ''<<ledgerdesk-canary>> [REDACTED:email] [REDACTED:account] [REDACTED:card] [REDACTED:phone] TFN ''"

lemma lead_no_digit: "\<forall>c \<in> set labelled_lead. \<not> dig c"
  by (simp add: u_def dig_def)

lemma account_label_end:
  "pieces account_label_re (rev labelled_lead) (u ''123 456 782'') = map Kept (u ''123 456 782'')"
  by code_simp

lemma account_label_tail: "tail_step (labelled_lead @ u ''123 456 782'', ks) (KAccount, account_label_re)
   = (labelled_lead @ u ''123 456 782'', ks)"
proof -
  have "pieces account_label_re [] (labelled_lead @ u ''123 456 782'') = map Kept (labelled_lead @ u ''123 456 782'')"
    using labelled_skip [OF account_label_re_def lead_no_digit, of "[]" "u ''123 456 782''"] account_label_end by simp
  moreover have "concat (map (replaced mk) (map Kept xs)) = xs" "hits (map Kept xs) = []" for mk xs
    by (induction xs) simp_all
  ultimately show ?thesis by (simp add: tail_step_def)
qed

lemma u_append: "u (s @ t) = u s @ u t"
  by (simp add: u_def)

lemma account_label_tail': "tail_step (u ''<<ledgerdesk-canary>> [REDACTED:email] [REDACTED:account] [REDACTED:card] [REDACTED:phone] TFN 123 456 782'', ks)
     (KAccount, account_label_re)
   = (u ''<<ledgerdesk-canary>> [REDACTED:email] [REDACTED:account] [REDACTED:card] [REDACTED:phone] TFN 123 456 782'', ks)"
  using account_label_tail [of ks] unfolding u_append [symmetric] append_Cons append_Nil .

lemma mid_rules_tail:
  "foldl tail_step (u ''<<ledgerdesk-canary>> [REDACTED:email] DE89 3704 0044 0532 0130 00 4111 1111 1111 1111 0400 000 000 TFN 123 456 782'', acc) mid_rules = (u ''<<ledgerdesk-canary>> [REDACTED:email] [REDACTED:account] [REDACTED:card] [REDACTED:phone] TFN 123 456 782'', acc @ [\<lparr>rm_kind = KAccount, rm_literal = u ''DE89 3704 0044 0532 0130 00''\<rparr>, \<lparr>rm_kind = KCard, rm_literal = u ''4111 1111 1111 1111''\<rparr>, \<lparr>rm_kind = KPhone, rm_literal = u ''0400 000 000''\<rparr>])"
  by (simp only: foldl_Cons foldl_Nil tail_step_acc [of _ "_ # _"] tail_step_acc [of _ "_ @ _"] tail_step_acc [of _ acc]
      iban_tail bsb_tail card_groups_tail card_amex_tail card_run_tail phone_plus_tail
      phone_area_tail phone_zero_tail account_label_tail' fst_conv snd_conv append_Nil2 append_assoc append_Cons append_Nil)

lemma behindI:
  "i \<le> length b \<Longrightarrow> (b, r) \<in> set (steps e (drop i b, rev (take i b) @ r)) \<Longrightarrow> steps (Behind e) (b, r) = [(b, r)]"
  by (auto simp: list_ex_iff Bex_def less_Suc_eq_le simp del: upt_Suc)

lemma id_label_end:
  "pieces id_label_re (32 # 78 # 70 # 84 # 32 # b) (u ''123 456 782'') = [Hit (u ''123 456 782'')]"
proof -
  let ?r = "u ''123 456 782''" and ?l = "32 # 78 # 70 # 84 # 32 # b"
  let ?label = "seqs [WordBound,
       alts [label ''tfn'', label ''abn'', label ''acn'', label ''medicare'', label ''licence'', label ''license'',
             label ''passport'', seqs [label ''customer'', plus (Cls is_space), label ''id''],
             seqs [label ''member'', plus (Cls is_space), label ''id'']],
       WordBound, label_gap]"
  have "(?l, ?r) \<in> set (steps ?label (drop 4 ?l, rev (take 4 ?l) @ ?r))"
    by (simp add: u_def lits_def label_gap_def class_defs rep_numeral)
  then have "steps (Behind ?label) (?l, ?r) = [(?l, ?r)]" by (rule behindI [rotated]) simp
  then have "\<exists>ys. steps id_label_re (?l, ?r) = (rev ?r @ ?l, []) # ys"
    unfolding id_label_re_def steps.simps(3) [of "Behind _"] by (simp add: u_def class_defs rep_numeral)
  moreover have "steps id_label_re (x, []) = []" for x by (simp add: id_label_re_def)
  ultimately show ?thesis by (elim exE) (simp add: pieces_hit pieces_end)
qed

definition canary_rest :: jstr where
  "canary_rest = u ''DE89 3704 0044 0532 0130 00 4111 1111 1111 1111 0400 000 000 TFN 123 456 782''"

lemma block_form:
  "pl_block (plant token) = 10 # u ''<<ledgerdesk-canary>>'' @ 32 # (u ''ld-canary-'' @ token @ u ''@canary.invalid'') @ 32 # canary_rest"
  by (simp add: plant_def CANARIES_def CANARY_MARK_def join_blank_def lead_of_def canary_rest_def u_def)

lemma tail_form:
  "pl_expected_tail (plant token) = 10 # labelled_lead @ marker KId"
  by (simp add: plant_def CANARIES_def CANARY_MARK_def join_blank_def lead_of_def marker_def u_def)

lemma map_kept [simp]: "concat (map (replaced mk) (map Kept xs)) = xs" "hits (map Kept xs) = []"
    "concat (map (replaced mk \<circ> Kept) xs) = xs"
  by (induction xs) simp_all

lemma email_mark: "pieces email_re [] (u ''<<ledgerdesk-canary>>'') = map Kept (u ''<<ledgerdesk-canary>>'')"
  by code_simp

lemma email_rest: "pieces email_re [] canary_rest = map Kept canary_rest"
  by code_simp

lemma email_shuns: "shuns 32 email_re" "shuns 10 email_re"
  by (simp_all add: email_re_def class_defs)

lemma email_tail:
  assumes "\<forall>c \<in> set token. local_unit c"
  shows "tail_step (u ''<<ledgerdesk-canary>>'' @ 32 # (u ''ld-canary-'' @ token @ u ''@canary.invalid'') @ 32 # canary_rest, []) (KEmail, email_re)
    = (u ''<<ledgerdesk-canary>> [REDACTED:email] DE89 3704 0044 0532 0130 00 4111 1111 1111 1111 0400 000 000 TFN 123 456 782'',
       [\<lparr>rm_kind = KEmail, rm_literal = u ''ld-canary-'' @ token @ u ''@canary.invalid''\<rparr>])"
proof -
  have w: "\<not> is_word 32" by (simp add: is_word_def)
  have "pieces email_re [] (u ''<<ledgerdesk-canary>>'' @ 32 # (u ''ld-canary-'' @ token @ u ''@canary.invalid'') @ 32 # canary_rest)
      = map Kept (u ''<<ledgerdesk-canary>>'') @ Kept 32 # [Hit (u ''ld-canary-'' @ token @ u ''@canary.invalid'')] @ Kept 32 # map Kept canary_rest"
    unfolding pieces_split [OF email_shuns(1) w] email_mark email_rest email_canary [OF assms] ..
  then show ?thesis
    unfolding tail_step_def fst_conv snd_conv Let_def
    by (simp add: canary_rest_def marker_def u_def)
qed

lemma run_id_rule:
  assumes "beside_tail st st0 (labelled_lead @ u ''123 456 782'', rs)"
  shows "rd_text (run_rule st (KId, id_label_re)) = rd_text (run_rule st0 (KId, id_label_re)) @ 10 # labelled_lead @ marker KId
    \<and> (\<forall>k. rd_counts (run_rule st (KId, id_label_re)) k
          = rd_counts (run_rule st0 (KId, id_label_re)) k + int (count_list (KId # map rm_kind rs) k))
    \<and> set (rd_removed (run_rule st (KId, id_label_re)))
        = set (rd_removed (run_rule st0 (KId, id_label_re))) \<union> set rs \<union> {\<lparr>rm_kind = KId, rm_literal = u ''123 456 782''\<rparr>}"
proof -
  have a: "avoids 10 id_label_re" "\<not> is_word 10" by (simp_all add: id_label_re_def class_defs)
  have "rev labelled_lead @ b = 32 # 78 # 70 # 84 # 32 # drop 5 (rev labelled_lead @ b)" for b by (simp add: u_def)
  then have e: "pieces id_label_re (rev labelled_lead @ b) (u ''123 456 782'') = [Hit (u ''123 456 782'')]" for b
    using id_label_end by metis
  have t: "rd_text st = rd_text st0 @ 10 # labelled_lead @ u ''123 456 782''" using assms by (simp add: beside_tail_def)
  have "pieces id_label_re [] (rd_text st) = pieces id_label_re [] (rd_text st0) @ Kept 10 # map Kept labelled_lead @ [Hit (u ''123 456 782'')]"
    unfolding t pieces_right [OF a] labelled_skip [OF id_label_re_def lead_no_digit] e ..
  then show ?thesis using assms by (auto simp: beside_tail_def run_rule_def Let_def)
qed

definition canary_removals :: "jstr \<Rightarrow> removal list" where
  "canary_removals token = map (\<lambda>c. \<lparr>rm_kind = cn_kind c, rm_literal = cn_value c token\<rparr>) CANARIES"

lemma canaries_beside:
  assumes "\<forall>c \<in> set token. local_unit c"
  shows "rd_text (redact canon (body @ pl_block (plant token)) []) = rd_text (redact canon body []) @ pl_expected_tail (plant token)
    \<and> (\<forall>k. rd_counts (redact canon (body @ pl_block (plant token)) []) k = rd_counts (redact canon body []) k + CANARY_CONTRIBUTION k)
    \<and> set (rd_removed (redact canon (body @ pl_block (plant token)) [])) = set (rd_removed (redact canon body [])) \<union> set (canary_removals token)"
proof -
  let ?init = "\<lambda>t. \<lparr>rd_text = t, rd_removed = [], rd_counts = emptyCounts\<rparr>"
  let ?blk = "u ''<<ledgerdesk-canary>>'' @ 32 # (u ''ld-canary-'' @ token @ u ''@canary.invalid'') @ 32 # canary_rest"
  let ?rules = "(KEmail, email_re) # mid_rules"
  let ?rs = "[\<lparr>rm_kind = KEmail, rm_literal = u ''ld-canary-'' @ token @ u ''@canary.invalid''\<rparr>,
      \<lparr>rm_kind = KAccount, rm_literal = u ''DE89 3704 0044 0532 0130 00''\<rparr>,
      \<lparr>rm_kind = KCard, rm_literal = u ''4111 1111 1111 1111''\<rparr>, \<lparr>rm_kind = KPhone, rm_literal = u ''0400 000 000''\<rparr>]"
  have rules: "RULES = ?rules @ [(KId, id_label_re)]" by (simp add: RULES_def)
  have run: "redact canon t [] = run_rule (foldl run_rule (?init t) ?rules) (KId, id_label_re)" for t
    by (simp add: redact_def rules ordered_literals_def first_distinct_def stable_sort_def)
  have "beside_tail (?init (body @ 10 # ?blk)) (?init body) (?blk, [])" by (simp add: beside_tail_def)
  then have "beside_tail (foldl run_rule (?init (body @ 10 # ?blk)) ?rules) (foldl run_rule (?init body) ?rules)
      (foldl tail_step (?blk, []) ?rules)"
    by (rule fold_rules_beside) (use email_shuns mid_rules_shun in simp)
  moreover have "foldl tail_step (?blk, []) ?rules = (labelled_lead @ u ''123 456 782'', ?rs)"
    unfolding foldl_Cons [of _ _ "(KEmail, email_re)"] email_tail [OF assms] mid_rules_tail
    unfolding u_append [symmetric] append_Cons append_Nil ..
  ultimately have b: "beside_tail (foldl run_rule (?init (body @ 10 # ?blk)) ?rules) (foldl run_rule (?init body) ?rules)
      (labelled_lead @ u ''123 456 782'', ?rs)" by simp
  have "int (count_list (KId # map rm_kind ?rs) k) = CANARY_CONTRIBUTION k" for k
    by (cases k) (simp_all add: CANARY_CONTRIBUTION_def CANARIES_def)
  moreover have "set (canary_removals token) = set ?rs \<union> {\<lparr>rm_kind = KId, rm_literal = u ''123 456 782''\<rparr>}"
    by (auto simp: canary_removals_def CANARIES_def)
  ultimately show ?thesis using run_id_rule [OF b] unfolding run block_form tail_form by (simp only: Un_assoc simp_thms)
qed

text \<open>
  C5: the instrumentation of a call is invisible: for every body, with no caller literals and a token of
  address characters, redacting the body with its canaries planted gives exactly the redaction of the
  body alone followed by the expected tail, so the check that every rule fired always passes; the values
  removed are those of the body and the five canaries; and taking the canaries' contribution back out of
  the counts leaves the counts of the body alone.
\<close>

theorem planted_canaries_always_clear:
  assumes "\<forall>c \<in> set token. local_unit c"
  shows "let r = redact canon (body @ pl_block (plant token)) []; r0 = redact canon body []
    in rd_text r = rd_text r0 @ pl_expected_tail (plant token)
       \<and> set (rd_removed r) = set (rd_removed r0) \<union> set (canary_removals token)
       \<and> (\<forall>k. rd_counts r k - CANARY_CONTRIBUTION k = rd_counts r0 k)"
  using canaries_beside [OF assms] by (simp add: Let_def)

theorem planted_canaries_always_clear_witness:
  "\<exists>t. rd_text (redact id (u ''hello'' @ pl_block (plant (u ''ab12''))) []) = t @ pl_expected_tail (plant (u ''ab12''))"
  using planted_canaries_always_clear [of "u ''ab12''" id "u ''hello''"] by (simp add: Let_def u_def class_defs)

end
