(* ===== verification/Audit_Store.thy ===== *)
theory Audit_Store
  imports Ledger_Store
begin

section \<open>The audit chain (record of src/agents/ledger/pg.ts, audit_event of migrations/0001_core.sql)\<close>

text \<open>
  Security events are appended to the chain of an organisation: the writer reads the head of the
  organisation, links the event and inserts it; the trigger checks the link.  The order of the table
  is the order of \<open>id\<close>.  As for the ledger, what other writers commit meanwhile is an argument.
\<close>

type_synonym audit_table = "chained_audit list"

definition org_events :: "jstr \<Rightarrow> audit_table \<Rightarrow> audit_table" where
  "org_events org table = filter (\<lambda>r. ae_org_id r = org) table"

definition audit_head :: "jstr \<Rightarrow> audit_table \<Rightarrow> jstr option" where
  "audit_head org table = (let rows = org_events org table in if rows = [] then None else Some (ae_row_hash (last rows)))"

definition audit_insert :: "audit_table \<Rightarrow> chained_audit \<Rightarrow> db_error + audit_table" where
  "audit_insert table r =
     (if ae_prev_hash r \<noteq> (case audit_head (ae_org_id r) table of Some h \<Rightarrow> h | None \<Rightarrow> GENESIS) then Inl Conflict
      else if \<not> (isHex64 (ae_row_hash r) \<and> (ae_prev_hash r = GENESIS \<or> isHex64 (ae_prev_hash r))
                 \<and> ae_row_hash r \<noteq> ae_prev_hash r) then Inl Refused
      else if \<exists>x \<in> set table. ae_org_id x = ae_org_id r \<and> ae_prev_hash x = ae_prev_hash r then Inl Conflict
      else Inr (table @ [r]))"

fun audit_loop ::
    "(jstr \<Rightarrow> jstr) \<Rightarrow> (nat \<Rightarrow> audit_table \<Rightarrow> audit_table) \<Rightarrow> (nat \<Rightarrow> audit_table \<Rightarrow> audit_table)
       \<Rightarrow> nat \<Rightarrow> nat \<Rightarrow> audit_event \<Rightarrow> audit_table \<Rightarrow> audit_table \<times> (store_error + jstr)" where
  "audit_loop sha gap env 0 attempt event table = (table, Inl (Refusal E_LEDGER_WRITE_FAILED))"
| "audit_loop sha gap env (Suc left) attempt event table =
     (let seen = gap attempt table
      in case linkAuditRow sha event (audit_head (ae_org_id event) seen) of
           Inl e \<Rightarrow> (seen, Inl (Thrown e))
         | Inr row \<Rightarrow>
             let now = env attempt seen
             in case audit_insert now row of
                  Inr table' \<Rightarrow> (table', Inr (ae_row_hash row))
                | Inl Conflict \<Rightarrow> audit_loop sha gap env left (attempt + 1) event now
                | Inl Refused \<Rightarrow> (now, Inl Database))"

definition audit_record ::
    "(jstr \<Rightarrow> jstr) \<Rightarrow> (nat \<Rightarrow> audit_table \<Rightarrow> audit_table) \<Rightarrow> (nat \<Rightarrow> audit_table \<Rightarrow> audit_table)
       \<Rightarrow> audit_event \<Rightarrow> audit_table \<Rightarrow> audit_table \<times> (store_error + jstr)" where
  "audit_record sha gap env event table = audit_loop sha gap env APPEND_ATTEMPTS 0 event table"

subsection \<open>The chain of every organisation verifies\<close>

fun audit_chain_from :: "(jstr \<Rightarrow> jstr) \<Rightarrow> jstr \<Rightarrow> audit_table \<Rightarrow> bool" where
  "audit_chain_from sha prev [] = True"
| "audit_chain_from sha prev (r # rs) =
     (ae_prev_hash r = prev \<and> verifyAuditRowHash sha r = Inr True \<and> audit_chain_from sha (ae_row_hash r) rs)"

definition audit_ok :: "(jstr \<Rightarrow> jstr) \<Rightarrow> audit_table \<Rightarrow> bool" where
  "audit_ok sha table = (\<forall>org. audit_chain_from sha GENESIS (org_events org table))"

lemma audit_chain_snoc:
  "audit_chain_from sha prev (rs @ [r]) \<longleftrightarrow> audit_chain_from sha prev rs
     \<and> ae_prev_hash r = (if rs = [] then prev else ae_row_hash (last rs)) \<and> verifyAuditRowHash sha r = Inr True"
  by (induction rs arbitrary: prev) auto

lemma linkAuditRow_Inr:
  assumes "linkAuditRow sha event prev = Inr r" "\<forall>t. isHex64 (sha t)"
  shows "verifyAuditRowHash sha r = Inr True" "audit_event.truncate r = event"
    "ae_prev_hash r = (case prev of Some h \<Rightarrow> h | None \<Rightarrow> GENESIS)"
proof -
  let ?p = "case prev of Some h \<Rightarrow> h | None \<Rightarrow> GENESIS"
  obtain t where t: "canonicalAuditRow event = Inr t"
    and r: "r = audit_event.extend event \<lparr>ae_prev_hash = ?p, ae_row_hash = sha (?p @ t)\<rparr>"
    using assms(1) by (auto simp: linkAuditRow_def auditRowHash_def Let_def split: sum.splits)
  have "canonicalAuditRow r = Inr t" using t by (simp add: r canonicalAuditRow_def audit_event.extend_def)
  then show "verifyAuditRowHash sha r = Inr True"
    using assms(2) by (simp add: verifyAuditRowHash_def auditRowHash_def r audit_event.extend_def)
  show "audit_event.truncate r = event" "ae_prev_hash r = ?p"
    by (simp_all add: r audit_event.extend_def audit_event.truncate_def)
qed

lemma audit_insert_ok:
  assumes "audit_ok sha table" "audit_insert table r = Inr table'" "verifyAuditRowHash sha r = Inr True"
  shows "audit_ok sha table' \<and> table' = table @ [r]"
proof -
  have t: "table' = table @ [r]"
    and p: "ae_prev_hash r = (case audit_head (ae_org_id r) table of Some h \<Rightarrow> h | None \<Rightarrow> GENESIS)"
    using assms(2) by (auto simp: audit_insert_def split: if_splits)
  have "audit_chain_from sha GENESIS (org_events org (table @ [r]))" for org
  proof (cases "ae_org_id r = org")
    case True
    then show ?thesis using assms(1,3) p
      by (auto simp: audit_ok_def org_events_def audit_chain_snoc audit_head_def Let_def)
  next
    case False
    then show ?thesis using assms(1) by (simp add: audit_ok_def org_events_def)
  qed
  then show ?thesis using t by (simp add: audit_ok_def)
qed

definition audit_honest :: "(jstr \<Rightarrow> jstr) \<Rightarrow> (nat \<Rightarrow> audit_table \<Rightarrow> audit_table) \<Rightarrow> bool" where
  "audit_honest sha g \<longleftrightarrow> (\<forall>i t. audit_ok sha t \<longrightarrow> audit_ok sha (g i t) \<and> (\<exists>s. g i t = t @ s))"

lemma audit_honestD: "audit_honest sha g \<Longrightarrow> audit_ok sha t \<Longrightarrow> audit_ok sha (g i t) \<and> (\<exists>s. g i t = t @ s)"
  by (simp add: audit_honest_def)

lemma audit_loop_result:
  "audit_honest sha gap \<Longrightarrow> audit_honest sha env \<Longrightarrow> \<forall>t. isHex64 (sha t) \<Longrightarrow> audit_ok sha table \<Longrightarrow>
     audit_loop sha gap env n i event table = (table', res) \<Longrightarrow>
     audit_ok sha table' \<and> (\<exists>s. table' = table @ s)
     \<and> (\<forall>h. res = Inr h \<longrightarrow> (\<exists>r. last table' = r \<and> table' \<noteq> [] \<and> ae_row_hash r = h \<and> audit_event.truncate r = event))"
proof (induction n arbitrary: i table)
  case (Suc n)
  let ?seen = "gap i table"
  obtain s1 where seen: "audit_ok sha ?seen" "?seen = table @ s1"
    using audit_honestD [OF Suc.prems(1,4)] by blast
  show ?case
  proof (cases "linkAuditRow sha event (audit_head (ae_org_id event) ?seen)")
    case (Inl e)
    moreover have "\<exists>s. ?seen = table @ s" using seen(2) by blast
    ultimately show ?thesis using Suc.prems seen(1) by auto
  next
    case (Inr row)
    note l = linkAuditRow_Inr [OF Inr Suc.prems(3)]
    let ?now = "env i ?seen"
    obtain s2 where now: "audit_ok sha ?now" "?now = ?seen @ s2"
      using audit_honestD [OF Suc.prems(2) seen(1)] by blast
    show ?thesis
    proof (cases "audit_insert ?now row")
      case (Inr t)
      with audit_insert_ok [OF now(1) this l(1)] show ?thesis
        using Suc.prems(5) \<open>linkAuditRow _ _ _ = _\<close> l(2) seen now by auto
    next
      case (Inl e)
      show ?thesis
      proof (cases e)
        case Conflict
        then have "audit_loop sha gap env n (i + 1) event ?now = (table', res)"
          using Suc.prems(5) \<open>linkAuditRow _ _ _ = _\<close> Inl by simp
        from Suc.IH [OF Suc.prems(1-3) now(1) this] show ?thesis using now seen by auto
      next
        case Refused
        moreover have "\<exists>s. ?now = table @ s" using now(2) seen(2) by (metis append_assoc)
        ultimately show ?thesis using Suc.prems(5) \<open>linkAuditRow _ _ _ = _\<close> Inl now(1) by auto
      qed
    qed
  qed
qed auto

end
