(* ===== verification/Json_Text.thy ===== *)
theory Json_Text
  imports Canonical
begin

section \<open>JSON.parse and JSON.stringify\<close>

text \<open>
  The two functions of the standard library the boundaries of the source use on text of unknown
  shape.  A member written twice keeps its first place and its last value.  \<open>Object.keys\<close> lists
  keys that are array indices first; no code modelled here reads the order of the members.
\<close>

definition json_space :: "nat \<Rightarrow> bool" where
  "json_space c = (c \<in> {9, 10, 13, 32})"

definition dec_digit :: "nat \<Rightarrow> bool" where
  "dec_digit c = (48 \<le> c \<and> c \<le> 57)"

definition hex_unit :: "nat \<Rightarrow> bool" where
  "hex_unit c = (dec_digit c \<or> 97 \<le> c \<and> c \<le> 102 \<or> 65 \<le> c \<and> c \<le> 70)"

definition hex_lower :: "nat \<Rightarrow> nat" where
  "hex_lower c = (if 65 \<le> c \<and> c \<le> 70 then c + 32 else c)"

fun parse_units :: "jstr \<Rightarrow> (jstr \<times> jstr) option" where
  "parse_units [] = None"
| "parse_units (c # r) =
     (if c = 34 then Some ([], r)
      else if c < 32 then None
      else if c = 92 then
        (case r of
           [] \<Rightarrow> None
         | e # r' \<Rightarrow>
             if e = 117 then
               (case r' of
                  a # b # x # y # r'' \<Rightarrow>
                    if hex_unit a \<and> hex_unit b \<and> hex_unit x \<and> hex_unit y
                    then cons_unit (unhex4 (hex_lower a) (hex_lower b) (hex_lower x) (hex_lower y)) (parse_units r'')
                    else None
                | _ \<Rightarrow> None)
             else if e \<in> {34, 92, 47, 98, 102, 110, 114, 116} then cons_unit (unescape_unit e) (parse_units r')
             else None)
      else cons_unit c (parse_units r))"

text \<open>The optional fraction and exponent of a number.\<close>

definition parse_fraction :: "jstr \<Rightarrow> (jstr \<times> jstr) option" where
  "parse_fraction s =
     (if is_prefix (u ''.'') s then
        (let ds = takeWhile dec_digit (tl s) in if ds = [] then None else Some (ds, dropWhile dec_digit (tl s)))
      else Some ([], s))"

definition parse_exponent :: "jstr \<Rightarrow> (int \<times> jstr) option" where
  "parse_exponent s =
     (if is_prefix (u ''e'') s \<or> is_prefix (u ''E'') s then
        (let neg = is_prefix (u ''-'') (tl s);
             r = (if neg \<or> is_prefix (u ''+'') (tl s) then tl (tl s) else tl s);
             ds = takeWhile dec_digit r
         in if ds = [] then None
            else Some (if neg then - int (digits_value ds) else int (digits_value ds), dropWhile dec_digit r))
      else Some (0, s))"

definition parse_number :: "jstr \<Rightarrow> (jnum \<times> jstr) option" where
  "parse_number s =
     (let neg = is_prefix (u ''-'') s;
          s1 = (if neg then tl s else s);
          whole = (if is_prefix (u ''0'') s1 then u ''0'' else takeWhile dec_digit s1)
      in if whole = [] then None
         else case parse_fraction (drop (length whole) s1) of
           None \<Rightarrow> None
         | Some (part, s2) \<Rightarrow>
             (case parse_exponent s2 of
                None \<Rightarrow> None
              | Some (e, s3) \<Rightarrow>
                  let x = of_nat (digits_value (whole @ part)) * 10 powi (e - int (length part))
                  in Some (to_num (if neg then - x else x), s3)))"

text \<open>For evaluation: a whole number below \<open>2 ^ 53\<close> is itself.\<close>

lemma parse_number_code [code]:
  "parse_number s =
     (let neg = is_prefix (u ''-'') s;
          s1 = (if neg then tl s else s);
          whole = (if is_prefix (u ''0'') s1 then u ''0'' else takeWhile dec_digit s1)
      in if whole = [] then None
         else case parse_fraction (drop (length whole) s1) of
           None \<Rightarrow> None
         | Some (part, s2) \<Rightarrow>
             (case parse_exponent s2 of
                None \<Rightarrow> None
              | Some (e, s3) \<Rightarrow>
                  let v = int (digits_value (whole @ part))
                  in if part = [] \<and> e = 0 \<and> v < 9007199254740992
                     then Some (Fin (of_int (if neg then - v else v)), s3)
                     else let x = of_nat (digits_value (whole @ part)) * 10 powi (e - int (length part))
                          in Some (to_num (if neg then - x else x), s3)))"
proof -
  have n: "to_num (of_nat k) = Fin (of_nat k)" "to_num (- of_nat k) = Fin (- of_nat k)" if "int k < 9007199254740992" for k
    using to_num_int [of "int k"] to_num_int [of "- int k"] that by simp_all
  show ?thesis
    unfolding parse_number_def Let_def
    by (auto split: option.split simp: n)
qed

definition put_member :: "jstr \<Rightarrow> jsval \<Rightarrow> (jstr \<times> jsval) list \<Rightarrow> (jstr \<times> jsval) list" where
  "put_member k v fs =
     (if k \<in> fst ` set fs then map (\<lambda>(k', v'). if k' = k then (k, v) else (k', v')) fs else fs @ [(k, v)])"

text \<open>The fuel is the nesting the text can still hold: every level consumes a bracket.\<close>

fun parse_value :: "nat \<Rightarrow> jstr \<Rightarrow> (jsval \<times> jstr) option"
  and parse_items :: "nat \<Rightarrow> jstr \<Rightarrow> jsval list \<Rightarrow> (jsval \<times> jstr) option"
  and parse_members :: "nat \<Rightarrow> jstr \<Rightarrow> (jstr \<times> jsval) list \<Rightarrow> (jsval \<times> jstr) option" where
  "parse_value 0 s = None"
| "parse_value (Suc n) s =
     (let t = dropWhile json_space s
      in if is_prefix (u ''null'') t then Some (JNull, drop 4 t)
         else if is_prefix (u ''true'') t then Some (JBool True, drop 4 t)
         else if is_prefix (u ''false'') t then Some (JBool False, drop 5 t)
         else if is_prefix (u ''\"'') t then map_option (\<lambda>(x, r). (JStr x, r)) (parse_units (tl t))
         else if is_prefix (u ''['') t then
           (let r = dropWhile json_space (tl t)
            in if is_prefix (u '']'') r then Some (JArr [], tl r) else parse_items n r [])
         else if is_prefix (u ''{'') t then
           (let r = dropWhile json_space (tl t)
            in if is_prefix (u ''}'') r then Some (JObj [], tl r) else parse_members n r [])
         else map_option (\<lambda>(x, r). (JNum x, r)) (parse_number t))"
| "parse_items 0 s acc = None"
| "parse_items (Suc n) s acc =
     (case parse_value n s of
        None \<Rightarrow> None
      | Some (v, r) \<Rightarrow>
          (let t = dropWhile json_space r
           in if is_prefix (u '','') t then parse_items n (tl t) (acc @ [v])
              else if is_prefix (u '']'') t then Some (JArr (acc @ [v]), tl t) else None))"
| "parse_members 0 s acc = None"
| "parse_members (Suc n) s acc =
     (let t = dropWhile json_space s
      in if \<not> is_prefix (u ''\"'') t then None
         else case parse_units (tl t) of
           None \<Rightarrow> None
         | Some (k, r) \<Rightarrow>
             (let t2 = dropWhile json_space r
              in if \<not> is_prefix (u '':'') t2 then None
                 else case parse_value n (tl t2) of
                   None \<Rightarrow> None
                 | Some (v, r2) \<Rightarrow>
                     (let t3 = dropWhile json_space r2
                      in if is_prefix (u '','') t3 then parse_members n (tl t3) (put_member k v acc)
                         else if is_prefix (u ''}'') t3 then Some (JObj (put_member k v acc), tl t3) else None)))"

definition json_parse :: "jstr \<Rightarrow> jsval option" where
  "json_parse s =
     (case parse_value (2 * length s + 1) s of
        Some (v, r) \<Rightarrow> if dropWhile json_space r = [] then Some v else None
      | None \<Rightarrow> None)"

fun json_stringify :: "jsval \<Rightarrow> jstr option"
  and stringify_items :: "jsval list \<Rightarrow> jstr list"
  and stringify_members :: "(jstr \<times> jsval) list \<Rightarrow> jstr list" where
  "json_stringify JUndef = None"
| "json_stringify JNull = Some (u ''null'')"
| "json_stringify (JBool b) = Some (if b then u ''true'' else u ''false'')"
| "json_stringify (JNum n) = Some (if is_finite n then num_string n else u ''null'')"
| "json_stringify (JStr s) = Some (json_quote s)"
| "json_stringify (JArr xs) = Some (u ''['' @ join_with (u '','') (stringify_items xs) @ u '']'')"
| "json_stringify (JObj fs) = Some (u ''{'' @ join_with (u '','') (stringify_members fs) @ u ''}'')"
| "stringify_items [] = []"
| "stringify_items (x # xs) = (case json_stringify x of None \<Rightarrow> u ''null'' | Some t \<Rightarrow> t) # stringify_items xs"
| "stringify_members [] = []"
| "stringify_members ((k, v) # fs) =
     (case json_stringify v of None \<Rightarrow> stringify_members fs
        | Some t \<Rightarrow> (json_quote k @ u '':'' @ t) # stringify_members fs)"

text \<open>Every member of an object is printed whole.\<close>

lemma join_infix: "t \<in> set ts \<Longrightarrow> \<exists>a b. join_with sep ts = a @ t @ b"
proof (induction ts)
  case (Cons x ts)
  show ?case
  proof (cases "t = x")
    case True
    then have "join_with sep (x # ts) = [] @ t @ concat (map (\<lambda>y. sep @ y) ts)" by (simp add: join_with_def)
    then show ?thesis by blast
  next
    case False
    with Cons.prems have "t \<in> set ts" by simp
    then obtain a b where ab: "join_with sep ts = a @ t @ b" and ne: "ts \<noteq> []" using Cons.IH by force
    then have "join_with sep (x # ts) = (x @ sep @ a) @ t @ b" by (simp add: join_Cons)
    then show ?thesis by blast
  qed
qed simp

lemma stringify_member_in: "(k, v) \<in> set fs \<Longrightarrow> json_stringify v = Some t \<Longrightarrow> (json_quote k @ u '':'' @ t) \<in> set (stringify_members fs)"
  by (induction fs) (auto split: option.splits)

lemma stringify_member_infix:
  assumes "(k, v) \<in> set fs" "json_stringify v = Some t"
  shows "\<exists>s. json_stringify (JObj fs) = Some s \<and> js_includes s t"
proof -
  obtain a b where "join_with (u '','') (stringify_members fs) = a @ (json_quote k @ u '':'' @ t) @ b"
    using join_infix [OF stringify_member_in [OF assms]] by blast
  then have "u ''{'' @ join_with (u '','') (stringify_members fs) @ u ''}'' = (u ''{'' @ a @ json_quote k @ u '':'') @ t @ b @ u ''}''"
    by simp
  then have "js_includes (u ''{'' @ join_with (u '','') (stringify_members fs) @ u ''}'') t"
    unfolding js_includes_iff by blast
  then show ?thesis by simp
qed

end
