(* ===== verification/Action.thy ===== *)
theory Action
  imports Prelude
begin

section \<open>Handlers that change a state and may fail\<close>

text \<open>
  An asynchronous function of the source that changes what is outside it: from a state to the state
  it leaves behind and either the error it raised or its result.  The state changes made before an
  error are kept, as they are in the program.
\<close>

type_synonym ('s, 'e, 'a) action = "'s \<Rightarrow> 's \<times> ('e + 'a)"

definition ret :: "'a \<Rightarrow> ('s, 'e, 'a) action" where
  "ret x s = (s, Inr x)"

definition fail :: "'e \<Rightarrow> ('s, 'e, 'a) action" where
  "fail e s = (s, Inl e)"

definition then_do :: "('s, 'e, 'a) action \<Rightarrow> ('a \<Rightarrow> ('s, 'e, 'b) action) \<Rightarrow> ('s, 'e, 'b) action" where
  "then_do m f s = (case m s of (s', Inl e) \<Rightarrow> (s', Inl e) | (s', Inr x) \<Rightarrow> f x s')"

definition lift_err :: "'e + 'a \<Rightarrow> ('s, 'e, 'a) action" where
  "lift_err r s = (s, r)"

definition get_state :: "('s, 'e, 's) action" where
  "get_state s = (s, Inr s)"

definition change :: "('s \<Rightarrow> 's) \<Rightarrow> ('s, 'e, unit) action" where
  "change f s = (f s, Inr ())"

text \<open>\<open>guard ok e\<close>: an early refusal.\<close>

definition guard :: "bool \<Rightarrow> 'e \<Rightarrow> ('s, 'e, unit) action" where
  "guard ok e = (if ok then ret () else fail e)"

text \<open>A transaction: an error rolls its own changes back.\<close>

definition in_transaction :: "('s, 'e, 'a) action \<Rightarrow> ('s, 'e, 'a) action" where
  "in_transaction m s = (case m s of (s', Inl e) \<Rightarrow> (s, Inl e) | (s', Inr x) \<Rightarrow> (s', Inr x))"

named_theorems action_simps \<open>running an action on a state\<close>

lemma action_run [action_simps]:
  "ret x s = (s, Inr x)" "fail e s = (s, Inl e)" "lift_err r s = (s, r)" "get_state s = (s, Inr s)"
  "change f s = (f s, Inr ())" "guard ok e s = (s, if ok then Inr () else Inl e)"
  by (simp_all add: ret_def fail_def lift_err_def get_state_def change_def guard_def)

lemma then_do_ret [simp]: "then_do (ret x) f = f x"
  by (simp add: fun_eq_iff then_do_def ret_def)

lemma then_do_fail [simp]: "then_do (fail e) f = fail e"
  by (simp add: fun_eq_iff then_do_def fail_def)

lemma then_do_assoc: "then_do (then_do m f) g = then_do m (\<lambda>x. then_do (f x) g)"
  by (auto simp: fun_eq_iff then_do_def split: prod.splits sum.splits)

lemma then_do_cases:
  assumes "then_do m f s = (s', r)"
  obtains e where "m s = (s', Inl e)" "r = Inl e"
  | x s1 where "m s = (s1, Inr x)" "f x s1 = (s', r)"
  using assms by (auto simp: then_do_def split: prod.splits sum.splits)

lemma in_transaction_cases:
  assumes "in_transaction m s = (s', r)"
  obtains e where "s' = s" "r = Inl e" | x where "m s = (s', Inr x)" "r = Inr x"
  using assms by (auto simp: in_transaction_def split: prod.splits sum.splits)

lemma then_do_Inr:
  "then_do m f s = (s', Inr y) \<longleftrightarrow> (\<exists>s1 x. m s = (s1, Inr x) \<and> f x s1 = (s', Inr y))"
  by (auto simp: then_do_def split: prod.splits sum.splits)

text \<open>
  What every step of a handler keeps: a relation between the state before and the state after that is
  reflexive and transitive.  A handler composed of steps that keep it keeps it.
\<close>

locale step_relation =
  fixes rel :: "'s \<Rightarrow> 's \<Rightarrow> bool"
  assumes same: "rel s s" and chain: "rel s t \<Longrightarrow> rel t w \<Longrightarrow> rel s w"
begin

definition keeps :: "('s, 'e, 'a) action \<Rightarrow> bool" where
  "keeps m \<longleftrightarrow> (\<forall>s. rel s (fst (m s)))"

lemma keeps_ret [simp]: "keeps (ret x)" "keeps (fail e)" "keeps (lift_err r)" "keeps get_state" "keeps (guard ok e)"
  by (simp_all add: keeps_def action_run same)

lemma keeps_then_do: "keeps m \<Longrightarrow> (\<And>x. keeps (f x)) \<Longrightarrow> keeps (then_do m f)"
  unfolding keeps_def then_do_def
  by (auto split: prod.splits sum.splits) (metis chain fst_conv)+

lemma keeps_in_transaction: "keeps m \<Longrightarrow> keeps (in_transaction m)"
  unfolding keeps_def in_transaction_def using same by (auto split: prod.splits sum.splits) (metis fst_conv)

lemma keeps_change: "(\<And>s. rel s (f s)) \<Longrightarrow> keeps (change f)"
  by (simp add: keeps_def action_run)

end

end
