(* ===== verification/Gateway.thy ===== *)
theory Gateway
  imports Ledger_System Redaction Audit_Store Json_Text Action
begin

section \<open>The path to the model (src/agents/gateway.ts)\<close>

text \<open>
  One handler: redact with a canary per rule, look in the chain, recompute the ceiling, search what
  is about to leave, call, search what came back, file the row.  The state a call changes is the
  \<open>world\<close>: the ledger, the audit chain, what this process has committed and not yet recorded, and
  whether the cut has been filed; \<open>w_sent\<close> lists the requests handed to the provider, so that what
  left can be stated.  The provider, the clock, the random token, the digest, the Unicode tables and
  what other writers commit meanwhile are arguments (\<open>call_env\<close>).
\<close>

subsection \<open>Contracts\<close>

record sampling_options =
  sm_temperature :: jnum
  sm_top_p :: jnum
  sm_max_tokens :: jnum
  sm_stop :: "jstr list option"

record provider_request =
  pq_model :: jstr
  pq_system :: jstr
  pq_user :: jstr
  pq_sampling :: sampling_options
  pq_seed :: "int option"

record provider_response =
  ps_model :: jstr
  ps_text :: jstr
  ps_tokens_in :: int
  ps_tokens_out :: int

text \<open>What the race between the provider and the deadline settles as: a value, a rejection, or the deadline.\<close>

datatype provider_outcome = Answered jsval | Rejected | Late

record model_price =
  input_aud_per_1k :: jnum
  output_aud_per_1k :: jnum

datatype budget_scope = RunScope | TermScope

fun scope_name :: "budget_scope \<Rightarrow> jstr" where
  "scope_name RunScope = u ''run''"
| "scope_name TermScope = u ''term''"

record budget_ceiling =
  cap_aud :: jnum
  cut_aud :: jnum
  bc_scope :: budget_scope

record gateway_config =
  gc_provider_id :: jstr
  gc_run_id :: jstr
  gc_state :: state_parts
  gc_app :: jstr
  gc_node :: jstr
  gc_ruleset :: jstr
  gc_pricing :: "(jstr \<times> model_price) list"
  gc_budget :: budget_ceiling
  gc_timeout_ms :: "jnum option"
  gc_restarts :: "int option"
  gc_cache :: "bool option"
  gc_replay :: "bool option"

record kb_excerpt =
  kb_id :: jstr
  excerpt :: jstr

record gateway_call =
  gq_agent :: agent_kind
  gq_org_id :: jstr
  gq_ticket_id :: "jstr option"
  gq_prompt_version_id :: jstr
  gq_prompt_text :: jstr
  gq_body :: jstr
  gq_literals :: "jstr list"
  gq_kb_context :: "kb_excerpt list"
  gq_locale :: jstr
  gq_model_requested :: jstr
  gq_sampling :: sampling_options
  gq_seed :: "int option"
  gq_input_path :: jstr
  gq_split_id :: "jstr option"
  gq_pin_model :: bool

record redaction_summary =
  rs_body :: "redaction_kind \<Rightarrow> int"
  rs_kb :: "redaction_kind \<Rightarrow> int"

record gateway_result =
  gr_response_text :: jstr
  gr_model_returned :: "jstr option"
  gr_body_redacted :: jstr
  gr_kb_context_redacted :: "kb_excerpt list"
  gr_redaction :: redaction_summary
  gr_cached :: bool
  gr_cost_aud :: jstr
  gr_tokens_in :: int
  gr_tokens_out :: int
  gr_latency_ms :: int
  gr_input_hash :: jstr
  gr_ledger :: appended_row

text \<open>
  \<open>GatewayError\<close>: the code and the members of its detail that anything reads.  \<open>Raised\<close> is an error
  of the language, \<open>DatabaseError\<close> one of the store that is not a conflict.
\<close>

record error_detail =
  ed_kind :: "jstr option"
  ed_kinds :: "jstr list option"
  ed_spent_aud :: "jstr option"
  ed_in_flight_aud :: "jstr option"
  ed_cut_aud :: "jstr option"
  ed_scope :: "jstr option"
  ed_unrecorded_aud :: "jstr option"

definition no_detail :: error_detail where
  "no_detail = \<lparr>ed_kind = None, ed_kinds = None, ed_spent_aud = None, ed_in_flight_aud = None,
     ed_cut_aud = None, ed_scope = None, ed_unrecorded_aud = None\<rparr>"

datatype call_error = GatewayError gateway_code error_detail | Raised js_error | DatabaseError

abbreviation refuse :: "gateway_code \<Rightarrow> call_error" where
  "refuse c \<equiv> GatewayError c no_detail"

fun of_store :: "store_error \<Rightarrow> call_error" where
  "of_store (Refusal c) = refuse c"
| "of_store (Thrown e) = Raised e"
| "of_store Database = DatabaseError"

abbreviation raised :: "js_error + 'a \<Rightarrow> call_error + 'a" where
  "raised r \<equiv> (case r of Inl e \<Rightarrow> Inl (Raised e) | Inr x \<Rightarrow> Inr x)"

record world =
  w_ledger :: ledger_table
  w_audit :: audit_table
  w_in_flight :: jnum
  w_cut_recorded :: bool
  w_sent :: "provider_request list"

record call_env =
  ce_sha :: "jstr \<Rightarrow> jstr"
  ce_canon :: "nat \<Rightarrow> nat"
  ce_lower :: "jstr \<Rightarrow> jstr"
  ce_token :: jstr
  ce_now :: jstr
  ce_cache_ms :: int
  ce_call_ms :: int
  ce_provider :: "provider_request \<Rightarrow> provider_outcome"
  ce_gap :: "nat \<Rightarrow> ledger_table \<Rightarrow> ledger_table"
  ce_env :: "nat \<Rightarrow> ledger_table \<Rightarrow> ledger_table"
  ce_audit_gap :: "nat \<Rightarrow> audit_table \<Rightarrow> audit_table"
  ce_audit_env :: "nat \<Rightarrow> audit_table \<Rightarrow> audit_table"

type_synonym 'a gateway_action = "(world, call_error, 'a) action"

subsection \<open>Construction\<close>

record gateway =
  gw_config :: gateway_config
  gw_timeout_ms :: jnum
  gw_replay :: bool
  gw_cache_enabled :: bool
  gw_restarts :: int
  gw_cut_micro :: jnum
  gw_state_hash :: jstr
  gw_toolchain :: jsval

definition blank :: "jstr \<Rightarrow> bool" where
  "blank s = (js_trim s = [])"

definition createGateway :: "(jstr \<Rightarrow> jstr) \<Rightarrow> gateway_config \<Rightarrow> call_error + gateway" where
  "createGateway sha config =
     (let timeout = (case gc_timeout_ms config of None \<Rightarrow> Fin 30000 | Some t \<Rightarrow> t);
          budget = gc_budget config;
          replay = (gc_replay config = Some True);
          state = gc_state config
      in if gc_run_id config = [] then Inl (refuse E_CONFIG_INVALID)
         else if gc_provider_id config = [] then Inl (refuse E_CONFIG_INVALID)
         else if \<not> cut_aud budget > Fin 0 \<or> \<not> cap_aud budget \<ge> cut_aud budget then Inl (refuse E_CONFIG_INVALID)
         else if \<not> timeout > Fin 0 then Inl (refuse E_CONFIG_INVALID)
         else if blank (schema_version state) \<or> blank (ruleset_hash state) \<or> blank (kb_snapshot state)
           then Inl (refuse E_CONFIG_INVALID)
         else if replay \<and> gc_cache config = Some False then Inl (refuse E_CONFIG_INVALID)
         else bind_err (raised (audToMicro (cut_aud budget))) (\<lambda>cut.
              bind_err (raised (stateHash sha state)) (\<lambda>h.
              Inr \<lparr>gw_config = config, gw_timeout_ms = timeout, gw_replay = replay,
                gw_cache_enabled = (replay \<or> gc_cache config \<noteq> Some False),
                gw_restarts = (case gc_restarts config of None \<Rightarrow> 0 | Some n \<Rightarrow> n),
                gw_cut_micro = cut, gw_state_hash = h,
                gw_toolchain = JObj [(u ''app'', JStr (gc_app config)), (u ''node'', JStr (gc_node config)),
                  (u ''model_sdk'', JStr (gc_provider_id config)), (u ''ruleset'', JStr (gc_ruleset config))]\<rparr>)))"

subsection \<open>Small conversions\<close>

definition EXCERPT_SEPARATOR :: jstr where
  "EXCERPT_SEPARATOR = 10 # u ''<<ledgerdesk-source>>'' @ [10]"

definition withoutCanaryContribution :: "(redaction_kind \<Rightarrow> int) \<Rightarrow> redaction_kind \<Rightarrow> int" where
  "withoutCanaryContribution counts = (\<lambda>k. counts k - CANARY_CONTRIBUTION k)"

definition samplingJson :: "sampling_options \<Rightarrow> jsval" where
  "samplingJson s = JObj [(u ''temperature'', JNum (sm_temperature s)), (u ''top_p'', JNum (sm_top_p s)),
     (u ''max_tokens'', JNum (sm_max_tokens s)),
     (u ''stop'', case sm_stop s of None \<Rightarrow> JNull | Some xs \<Rightarrow> JArr (map JStr xs))]"

definition estimateTokens :: "jstr \<Rightarrow> jnum" where
  "estimateTokens t = jceil (jdiv (Fin (of_nat (length t))) (Fin 4))"

definition priceMicro :: "jnum \<Rightarrow> jnum \<Rightarrow> js_error + jnum" where
  "priceMicro tokens audPer1k =
     bind_err (audToMicro audPer1k) (\<lambda>m. Inr (jceil (jdiv (jmul tokens m) (Fin 1000))))"

definition declaredConfidence :: "jstr \<Rightarrow> js_error + jstr option" where
  "declaredConfidence t =
     (case json_parse t of
        Some (JObj fs) \<Rightarrow>
          (case get_prop fs ''confidence'' of
             JNum n \<Rightarrow> if \<not> is_finite n \<or> n < Fin 0 \<or> n > Fin 1 then Inr None
                       else bind_err (formatConfidence n) (\<lambda>c. Inr (Some c))
           | _ \<Rightarrow> Inr None)
      | _ \<Rightarrow> Inr None)"

definition renderUserMessage :: "jstr \<Rightarrow> kb_excerpt list \<Rightarrow> js_error + jstr" where
  "renderUserMessage body kb = canonicalJson
     (JObj [(u ''enquiry'', JStr body),
            (u ''sources'', JArr (map (\<lambda>e. JObj [(u ''kb_id'', JStr (kb_id e)), (u ''excerpt'', JStr (excerpt e))]) kb))])"

text \<open>\<open>String.prototype.split\<close> with a text that is not empty, and \<open>join\<close>.\<close>

function split_on :: "jstr \<Rightarrow> jstr \<Rightarrow> jstr list" where
  "split_on sep s =
     (if sep = [] then [s]
      else if is_prefix sep s then [] # split_on sep (drop (length sep) s)
      else case s of
        [] \<Rightarrow> [[]]
      | c # cs \<Rightarrow> (case split_on sep cs of [] \<Rightarrow> [[c]] | p # ps \<Rightarrow> (c # p) # ps))"
  by auto
termination
  by (relation "measure (\<lambda>(sep, s). length s)") (auto elim: is_prefix.elims)

declare split_on.simps [simp del]

subsection \<open>The refusals before anything is redacted\<close>

definition check_request :: "gateway \<Rightarrow> gateway_call \<Rightarrow> call_error + model_price" where
  "check_request gw q =
     (if \<exists>l \<in> set (gq_literals q). length (js_trim l) < MIN_LITERAL_LENGTH then Inl (refuse E_CONFIG_INVALID)
      else if blank (gq_input_path q) then Inl (refuse E_INPUT_PATH_MISSING)
      else case map_of (gc_pricing (gw_config gw)) (gq_model_requested q) of
        None \<Rightarrow> Inl (refuse E_MODEL_PRICE_UNKNOWN)
      | Some p \<Rightarrow> Inr p)"

subsection \<open>Redaction\<close>

definition ends_with :: "jstr \<Rightarrow> jstr \<Rightarrow> bool" where
  "ends_with s t = is_prefix (rev t) (rev s)"

text \<open>One attested pass: the redacted material without the tail, or the refusal that names the rules.\<close>

definition attested_pass :: "call_env \<Rightarrow> jstr \<Rightarrow> jstr list \<Rightarrow> call_error + jstr \<times> redaction_result" where
  "attested_pass env material literals =
     (let canaries = plant (ce_token env);
          r = redact (ce_canon env) (material @ pl_block canaries) literals
      in if ends_with (rd_text r) (pl_expected_tail canaries)
         then Inr (take (length (rd_text r) - length (pl_expected_tail canaries)) (rd_text r), r)
         else Inl (GatewayError E_CANARY_NOT_REDACTED
                (no_detail\<lparr>ed_kinds := Some (map kind_name (survivingKinds (rd_text r) (ce_token env)))\<rparr>)))"

record redacted_material =
  rm_body :: jstr
  rm_kb :: "kb_excerpt list"
  rm_removals :: "removal list"
  rm_counts :: redaction_summary

definition redact_request :: "call_env \<Rightarrow> gateway_call \<Rightarrow> call_error + redacted_material" where
  "redact_request env q =
     bind_err (attested_pass env (gq_body q) (gq_literals q)) (\<lambda>(body, r).
       if blank (withoutMarkers body) then Inl (refuse E_EMPTY_AFTER_REDACTION)
       else if gq_kb_context q = [] then
         Inr \<lparr>rm_body = body, rm_kb = [], rm_removals = rd_removed r,
              rm_counts = \<lparr>rs_body = withoutCanaryContribution (rd_counts r), rs_kb = emptyCounts\<rparr>\<rparr>
       else
         bind_err (attested_pass env (join_with EXCERPT_SEPARATOR (map excerpt (gq_kb_context q))) (gq_literals q))
           (\<lambda>(joined, pass).
              let pieces = split_on EXCERPT_SEPARATOR joined
              in if length pieces \<noteq> length (gq_kb_context q) then Inl (refuse E_CONFIG_INVALID)
                 else Inr \<lparr>rm_body = body,
                        rm_kb = map (\<lambda>(e, p). \<lparr>kb_id = kb_id e, excerpt = p\<rparr>) (zip (gq_kb_context q) pieces),
                        rm_removals = rd_removed r @ rd_removed pass,
                        rm_counts = \<lparr>rs_body = withoutCanaryContribution (rd_counts r),
                                     rs_kb = withoutCanaryContribution (rd_counts pass)\<rparr>\<rparr>))"

definition input_envelope :: "gateway_call \<Rightarrow> redacted_material \<Rightarrow> jsval" where
  "input_envelope q m = JObj
     [(u ''schema_version'', JStr (u ''1.0'')), (u ''agent'', JStr (agent_name (gq_agent q))),
      (u ''prompt_version_id'', JStr (gq_prompt_version_id q)), (u ''ticket_id'', j_opt JStr (gq_ticket_id q)),
      (u ''body_redacted'', JStr (rm_body m)),
      (u ''kb_context'', JArr (map (\<lambda>e. JObj [(u ''kb_id'', JStr (kb_id e)), (u ''excerpt'', JStr (excerpt e))]) (rm_kb m))),
      (u ''locale'', JStr (gq_locale q))]"

subsection \<open>The searches and the row\<close>

definition canary_values :: "call_env \<Rightarrow> jstr list" where
  "canary_values env = ce_token env # pl_values (plant (ce_token env))"

definition assertResponseIsClean :: "call_env \<Rightarrow> jstr \<Rightarrow> removal list \<Rightarrow> call_error + unit" where
  "assertResponseIsClean env t removals =
     (if \<exists>v \<in> set (canary_values env). js_includes t v then Inl (refuse E_CANARY_IN_RESPONSE)
      else case findLeak (ce_lower env) t removals of
        Some r \<Rightarrow> Inl (GatewayError E_PII_IN_RESPONSE (no_detail\<lparr>ed_kind := Some (kind_name (rm_kind r))\<rparr>))
      | None \<Rightarrow> Inr ())"

definition requestJson :: "provider_request \<Rightarrow> jsval" where
  "requestJson p = JObj
     [(u ''model'', JStr (pq_model p)), (u ''system'', JStr (pq_system p)), (u ''user'', JStr (pq_user p)),
      (u ''sampling'', JObj ([(u ''temperature'', JNum (sm_temperature (pq_sampling p))),
         (u ''top_p'', JNum (sm_top_p (pq_sampling p))), (u ''max_tokens'', JNum (sm_max_tokens (pq_sampling p)))]
         @ (case sm_stop (pq_sampling p) of None \<Rightarrow> [] | Some xs \<Rightarrow> [(u ''stop'', JArr (map JStr xs))]))),
      (u ''seed'', j_opt j_int (pq_seed p))]"

definition outbound_text :: "provider_request \<Rightarrow> jstr" where
  "outbound_text p = (case json_stringify (requestJson p) of Some t \<Rightarrow> t | None \<Rightarrow> [])"

definition scan_egress :: "call_env \<Rightarrow> provider_request \<Rightarrow> removal list \<Rightarrow> call_error + unit" where
  "scan_egress env p removals =
     (if \<exists>v \<in> set (canary_values env). js_includes (outbound_text p) v then Inl (refuse E_CANARY_EGRESS)
      else case findLeak (ce_lower env) (outbound_text p) removals of
        Some r \<Rightarrow> Inl (GatewayError E_PII_EGRESS (no_detail\<lparr>ed_kind := Some (kind_name (rm_kind r))\<rparr>))
      | None \<Rightarrow> Inr ())"

fun assertProviderResponse :: "jsval \<Rightarrow> provider_response option" where
  "assertProviderResponse (JObj fs) =
     (case (get_prop fs ''model'', get_prop fs ''text'', get_prop fs ''tokens_in'', get_prop fs ''tokens_out'') of
        (JStr m, JStr t, JNum (Fin i), JNum (Fin q)) \<Rightarrow>
          if i = of_int \<lfloor>i\<rfloor> \<and> q = of_int \<lfloor>q\<rfloor>
          then Some \<lparr>ps_model = m, ps_text = t, ps_tokens_in = \<lfloor>i\<rfloor>, ps_tokens_out = \<lfloor>q\<rfloor>\<rparr> else None
      | _ \<Rightarrow> None)"
| "assertProviderResponse v = None"

definition callProvider :: "(provider_request \<Rightarrow> provider_outcome) \<Rightarrow> provider_request \<Rightarrow> call_error + provider_response" where
  "callProvider provider p =
     (case provider p of
        Answered v \<Rightarrow> (case assertProviderResponse v of Some r \<Rightarrow> Inr r | None \<Rightarrow> Inl (refuse E_PROVIDER_FAILED))
      | Rejected \<Rightarrow> Inl (refuse E_PROVIDER_FAILED)
      | Late \<Rightarrow> Inl (refuse E_PROVIDER_TIMEOUT))"

record row_facts =
  rf_input_hash :: jstr
  rf_prompt_hash :: jstr
  rf_model_returned :: "jstr option"
  rf_response_hash :: "jstr option"
  rf_response_text :: jstr
  rf_tokens_in :: int
  rf_tokens_out :: int
  rf_cost_aud :: jstr
  rf_latency_ms :: int
  rf_counts :: redaction_summary
  rf_confidence :: "jstr option"
  rf_cache_hit :: bool
  rf_source_seq :: "int option"

definition countsJson :: "(redaction_kind \<Rightarrow> int) \<Rightarrow> jsval" where
  "countsJson counts = JObj (map (\<lambda>k. (kind_name k, j_int (counts k))) REDACTION_KINDS)"

definition buildRow :: "gateway \<Rightarrow> call_env \<Rightarrow> gateway_call \<Rightarrow> row_facts \<Rightarrow> ledger_head option \<Rightarrow> ledger_row" where
  "buildRow gw env q f head =
     \<lparr>run_id = gc_run_id (gw_config gw), seq = (case head of Some h \<Rightarrow> h_seq h | None \<Rightarrow> 0) + 1,
      org_id = gq_org_id q, ticket_id = gq_ticket_id q, agent = gq_agent q,
      prompt_version_id = Some (gq_prompt_version_id q), model_requested = Some (gq_model_requested q),
      model_returned = rf_model_returned f, sampling = Some (samplingJson (gq_sampling q)), seed = gq_seed q,
      input_hash = Some (rf_input_hash f), input_path = Some (gq_input_path q), prompt_hash = Some (rf_prompt_hash f),
      response_hash = rf_response_hash f, state_hash = gw_state_hash gw, split_id = gq_split_id q,
      toolchain = gw_toolchain gw, restarts = gw_restarts gw, tokens_in = rf_tokens_in f, tokens_out = rf_tokens_out f,
      cost_aud = rf_cost_aud f, latency_ms = rf_latency_ms f,
      cum_tokens = (case head of Some h \<Rightarrow> h_cum_tokens h | None \<Rightarrow> 0) + rf_tokens_in f + rf_tokens_out f,
      class_of = AgentCall,
      row_output = JObj
        [(u ''response'', JStr (rf_response_text f)),
         (u ''redaction'', JObj [(u ''body'', countsJson (rs_body (rf_counts f))), (u ''kb'', countsJson (rs_kb (rf_counts f)))]),
         (u ''canary'', JStr (u ''cleared'')),
         (u ''cache'', JObj [(u ''hit'', JBool (rf_cache_hit f)), (u ''source_seq'', j_opt j_int (rf_source_seq f))])],
      confidence = rf_confidence f, ts = ce_now env\<rparr>"

definition store_append :: "gateway \<Rightarrow> call_env \<Rightarrow> gateway_call \<Rightarrow> row_facts \<Rightarrow> appended_row gateway_action" where
  "store_append gw env q f w =
     (case ledger_append (ce_sha env) (ce_gap env) (ce_env env) (gc_run_id (gw_config gw)) (gq_org_id q)
             (buildRow gw env q f) (w_ledger w) of
        (t, Inl e) \<Rightarrow> (w\<lparr>w_ledger := t\<rparr>, Inl (of_store e))
      | (t, Inr a) \<Rightarrow> (w\<lparr>w_ledger := t\<rparr>, Inr a))"

subsection \<open>Answering from the chain\<close>

definition cache_key :: "gateway \<Rightarrow> gateway_call \<Rightarrow> jstr \<Rightarrow> jstr \<Rightarrow> cache_probe" where
  "cache_key gw q input prompt =
     \<lparr>pr_input_hash = input, pr_prompt_version_id = gq_prompt_version_id q, pr_prompt_hash = prompt,
      pr_state_hash = gw_state_hash gw, pr_model_requested = gq_model_requested q,
      pr_sampling = samplingJson (gq_sampling q), pr_seed = gq_seed q\<rparr>"

definition result_of :: "redacted_material \<Rightarrow> row_facts \<Rightarrow> appended_row \<Rightarrow> gateway_result" where
  "result_of m f a =
     \<lparr>gr_response_text = rf_response_text f, gr_model_returned = rf_model_returned f, gr_body_redacted = rm_body m,
      gr_kb_context_redacted = rm_kb m, gr_redaction = rm_counts m, gr_cached = rf_cache_hit f,
      gr_cost_aud = rf_cost_aud f, gr_tokens_in = rf_tokens_in f, gr_tokens_out = rf_tokens_out f,
      gr_latency_ms = rf_latency_ms f, gr_input_hash = rf_input_hash f, gr_ledger = a\<rparr>"

definition serve_cached ::
    "gateway \<Rightarrow> call_env \<Rightarrow> gateway_call \<Rightarrow> redacted_material \<Rightarrow> jstr \<Rightarrow> jstr \<Rightarrow> cached_call \<Rightarrow> gateway_result gateway_action" where
  "serve_cached gw env q m input prompt hit =
     then_do (lift_err (assertResponseIsClean env (cc_response_text hit) (rm_removals m))) (\<lambda>_.
     then_do (lift_err (raised (formatAud (Fin 0)))) (\<lambda>zero.
     let f = \<lparr>rf_input_hash = input, rf_prompt_hash = prompt, rf_model_returned = cc_model_returned hit,
              rf_response_hash = cc_response_hash hit, rf_response_text = cc_response_text hit, rf_tokens_in = 0,
              rf_tokens_out = 0, rf_cost_aud = zero, rf_latency_ms = max 0 (ce_cache_ms env), rf_counts = rm_counts m,
              rf_confidence = cc_confidence hit, rf_cache_hit = True, rf_source_seq = Some (cc_seq hit)\<rparr>
     in then_do (store_append gw env q f) (\<lambda>a. ret (result_of m f a))))"

subsection \<open>The ceiling\<close>

definition scope_run :: "gateway \<Rightarrow> jstr option" where
  "scope_run gw = (case bc_scope (gc_budget (gw_config gw)) of
     RunScope \<Rightarrow> Some (gc_run_id (gw_config gw)) | TermScope \<Rightarrow> None)"

definition projectedMicro :: "model_price \<Rightarrow> jstr \<Rightarrow> jstr \<Rightarrow> jnum \<Rightarrow> js_error + jnum" where
  "projectedMicro price system user max_tokens =
     bind_err (priceMicro (jadd (estimateTokens system) (estimateTokens user)) (input_aud_per_1k price)) (\<lambda>a.
     bind_err (priceMicro max_tokens (output_aud_per_1k price)) (\<lambda>b. Inr (jadd a b)))"

definition budget_refusal :: "gateway \<Rightarrow> jnum \<Rightarrow> jnum \<Rightarrow> jnum \<Rightarrow> call_error" where
  "budget_refusal gw spent in_flight projected =
     (case bind_err (formatAud spent) (\<lambda>s. bind_err (formatAud in_flight) (\<lambda>i.
           bind_err (formatAud projected) (\<lambda>p. bind_err (formatAud (gw_cut_micro gw)) (\<lambda>c. Inr (s, i, c))))) of
        Inl e \<Rightarrow> Raised e
      | Inr (s, i, c) \<Rightarrow> GatewayError E_BUDGET_EXHAUSTED
          (no_detail\<lparr>ed_spent_aud := Some s, ed_in_flight_aud := Some i, ed_cut_aud := Some c,
             ed_scope := Some (scope_name (bc_scope (gc_budget (gw_config gw))))\<rparr>))"

definition over_cut :: "jnum \<Rightarrow> jnum \<Rightarrow> jnum \<Rightarrow> bool" where
  "over_cut limit committed projected = (committed \<ge> limit \<or> projected > limit)"

text \<open>The user message and the projection of the call, when the ceiling admits it.\<close>

definition admit :: "gateway \<Rightarrow> gateway_call \<Rightarrow> model_price \<Rightarrow> redacted_material \<Rightarrow> (jstr \<times> jnum) gateway_action" where
  "admit gw q price m =
     then_do get_state (\<lambda>w.
     then_do (lift_err (raised (spentMicroAud (gq_org_id q) (scope_run gw) (w_ledger w)))) (\<lambda>spent.
     then_do (lift_err (raised (renderUserMessage (rm_body m) (rm_kb m)))) (\<lambda>user.
     then_do (lift_err (raised (projectedMicro price (gq_prompt_text q) user (sm_max_tokens (gq_sampling q))))) (\<lambda>callMicro.
     let committed = jadd spent (w_in_flight w); projected = jadd committed callMicro
     in if over_cut (gw_cut_micro gw) committed projected
        then fail (budget_refusal gw spent (w_in_flight w) projected)
        else ret (user, callMicro)))))"

subsection \<open>The call\<close>

definition reserve :: "jnum \<Rightarrow> unit gateway_action" where
  "reserve x = change (\<lambda>w. w\<lparr>w_in_flight := jadd (w_in_flight w) x\<rparr>)"

definition release :: "jnum \<Rightarrow> unit gateway_action" where
  "release x = change (\<lambda>w. w\<lparr>w_in_flight := jsub (w_in_flight w) x\<rparr>)"

definition provider_request_of :: "gateway_call \<Rightarrow> jstr \<Rightarrow> provider_request" where
  "provider_request_of q user =
     \<lparr>pq_model = gq_model_requested q, pq_system = gq_prompt_text q, pq_user = user,
      pq_sampling = gq_sampling q, pq_seed = gq_seed q\<rparr>"

text \<open>The reservation is given back unless the deadline passed: then the work may have been billed.\<close>

definition deadline_error :: "jnum \<Rightarrow> call_error" where
  "deadline_error callMicro =
     (case formatAud callMicro of
        Inl e \<Rightarrow> Raised e
      | Inr t \<Rightarrow> GatewayError E_PROVIDER_TIMEOUT (no_detail\<lparr>ed_unrecorded_aud := Some t\<rparr>))"

definition send :: "call_env \<Rightarrow> provider_request \<Rightarrow> jnum \<Rightarrow> provider_response gateway_action" where
  "send env p callMicro =
     then_do (reserve callMicro) (\<lambda>_.
     then_do (change (\<lambda>w. w\<lparr>w_sent := w_sent w @ [p]\<rparr>)) (\<lambda>_.
     case callProvider (ce_provider env) p of
       Inr r \<Rightarrow> ret r
     | Inl e \<Rightarrow> if e = refuse E_PROVIDER_TIMEOUT then fail (deadline_error callMicro)
                else then_do (release callMicro) (\<lambda>_. fail e)))"

definition costMicro :: "model_price \<Rightarrow> provider_response \<Rightarrow> js_error + jnum" where
  "costMicro price r =
     bind_err (priceMicro (Fin (of_int (ps_tokens_in r))) (input_aud_per_1k price)) (\<lambda>a.
     bind_err (priceMicro (Fin (of_int (ps_tokens_out r))) (output_aud_per_1k price)) (\<lambda>b. Inr (jadd a b)))"

definition fresh_call ::
    "gateway \<Rightarrow> call_env \<Rightarrow> gateway_call \<Rightarrow> model_price \<Rightarrow> redacted_material \<Rightarrow> jstr \<Rightarrow> jstr \<Rightarrow> gateway_result gateway_action" where
  "fresh_call gw env q price m input prompt =
     then_do (admit gw q price m) (\<lambda>(user, callMicro).
     let p = provider_request_of q user
     in then_do (lift_err (scan_egress env p (rm_removals m))) (\<lambda>_.
        then_do (send env p callMicro) (\<lambda>r.
        then_do (lift_err (assertResponseIsClean env (ps_text r) (rm_removals m))) (\<lambda>_.
        then_do (lift_err (raised (costMicro price r))) (\<lambda>micro.
        then_do (lift_err (raised (formatAud micro))) (\<lambda>cost.
        then_do (lift_err (raised (declaredConfidence (ps_text r)))) (\<lambda>confidence.
        let f = \<lparr>rf_input_hash = input, rf_prompt_hash = prompt, rf_model_returned = Some (ps_model r),
                 rf_response_hash = Some (ce_sha env (ps_text r)), rf_response_text = ps_text r,
                 rf_tokens_in = ps_tokens_in r, rf_tokens_out = ps_tokens_out r, rf_cost_aud = cost,
                 rf_latency_ms = max 0 (ce_call_ms env), rf_counts = rm_counts m, rf_confidence = confidence,
                 rf_cache_hit = False, rf_source_seq = None\<rparr>
        in then_do (store_append gw env q f) (\<lambda>a.
           then_do (release callMicro) (\<lambda>_.
           if gq_pin_model q \<and> ps_model r \<noteq> gq_model_requested q then fail (refuse E_MODEL_UNEXPECTED)
           else ret (result_of m f a))))))))))"

definition find_hit :: "gateway \<Rightarrow> gateway_call \<Rightarrow> jstr \<Rightarrow> jstr \<Rightarrow> cached_call option gateway_action" where
  "find_hit gw q input prompt =
     (if gw_cache_enabled gw then
        then_do (lift_err (raised (canonicalJson (samplingJson (gq_sampling q))))) (\<lambda>_.
        then_do get_state (\<lambda>w. ret (findCached (gq_org_id q) (cache_key gw q input prompt) (w_ledger w))))
      else ret None)"

definition run_call :: "gateway \<Rightarrow> call_env \<Rightarrow> gateway_call \<Rightarrow> gateway_result gateway_action" where
  "run_call gw env q =
     then_do (lift_err (check_request gw q)) (\<lambda>price.
     then_do (lift_err (redact_request env q)) (\<lambda>m.
     then_do (lift_err (raised (digestOf (ce_sha env) (input_envelope q m)))) (\<lambda>input.
     let prompt = ce_sha env (gq_prompt_text q)
     in then_do (find_hit gw q input prompt) (\<lambda>hit.
        case hit of
          Some h \<Rightarrow> serve_cached gw env q m input prompt h
        | None \<Rightarrow> if gw_replay gw then fail (refuse E_REPLAY_CACHE_MISS)
                  else fresh_call gw env q price m input prompt))))"

subsection \<open>Security events\<close>

definition SECURITY_EVENTS :: "gateway_code list" where
  "SECURITY_EVENTS = [E_CANARY_NOT_REDACTED, E_CANARY_EGRESS, E_PII_EGRESS, E_CANARY_IN_RESPONSE,
     E_PII_IN_RESPONSE, E_BUDGET_EXHAUSTED]"

fun code_name :: "gateway_code \<Rightarrow> jstr" where
  "code_name E_CONFIG_INVALID = u ''E_CONFIG_INVALID''"
| "code_name E_INPUT_PATH_MISSING = u ''E_INPUT_PATH_MISSING''"
| "code_name E_MODEL_PRICE_UNKNOWN = u ''E_MODEL_PRICE_UNKNOWN''"
| "code_name E_EMPTY_AFTER_REDACTION = u ''E_EMPTY_AFTER_REDACTION''"
| "code_name E_CANARY_NOT_REDACTED = u ''E_CANARY_NOT_REDACTED''"
| "code_name E_CANARY_EGRESS = u ''E_CANARY_EGRESS''"
| "code_name E_PII_EGRESS = u ''E_PII_EGRESS''"
| "code_name E_CANARY_IN_RESPONSE = u ''E_CANARY_IN_RESPONSE''"
| "code_name E_PII_IN_RESPONSE = u ''E_PII_IN_RESPONSE''"
| "code_name E_BUDGET_EXHAUSTED = u ''E_BUDGET_EXHAUSTED''"
| "code_name E_PROVIDER_TIMEOUT = u ''E_PROVIDER_TIMEOUT''"
| "code_name E_PROVIDER_FAILED = u ''E_PROVIDER_FAILED''"
| "code_name E_MODEL_UNEXPECTED = u ''E_MODEL_UNEXPECTED''"
| "code_name E_LEDGER_WRITE_FAILED = u ''E_LEDGER_WRITE_FAILED''"
| "code_name E_REPLAY_CACHE_MISS = u ''E_REPLAY_CACHE_MISS''"

definition security_event :: "gateway \<Rightarrow> call_env \<Rightarrow> gateway_code \<Rightarrow> error_detail \<Rightarrow> gateway_call \<Rightarrow> audit_event" where
  "security_event gw env code d q =
     \<lparr>ae_org_id = gq_org_id q, actor_id = None, action = code_name code,
      object_type = (case gq_ticket_id q of None \<Rightarrow> u ''run''
                       | Some t \<Rightarrow> if t = [] then u ''run'' else u ''ticket''),
      object_id = (case gq_ticket_id q of None \<Rightarrow> gc_run_id (gw_config gw) | Some t \<Rightarrow> t),
      ae_detail = JObj
        [(u ''run_id'', JStr (gc_run_id (gw_config gw))), (u ''agent'', JStr (agent_name (gq_agent q))),
         (u ''model_requested'', JStr (gq_model_requested q)), (u ''kind'', j_opt JStr (ed_kind d)),
         (u ''kinds'', j_opt (\<lambda>ks. JArr (map JStr ks)) (ed_kinds d)), (u ''spent_aud'', j_opt JStr (ed_spent_aud d)),
         (u ''in_flight_aud'', j_opt JStr (ed_in_flight_aud d)), (u ''cut_aud'', j_opt JStr (ed_cut_aud d)),
         (u ''scope'', j_opt JStr (ed_scope d))],
      ae_ts = ce_now env\<rparr>"

text \<open>Best effort: whatever the audit store answers, the caller sees the refusal that happened.\<close>

definition recordSecurityEvent :: "gateway \<Rightarrow> call_env \<Rightarrow> gateway_code \<Rightarrow> error_detail \<Rightarrow> gateway_call \<Rightarrow> world \<Rightarrow> world" where
  "recordSecurityEvent gw env code d q w =
     (if code = E_BUDGET_EXHAUSTED \<and> w_cut_recorded w then w
      else let w' = (if code = E_BUDGET_EXHAUSTED then w\<lparr>w_cut_recorded := True\<rparr> else w)
           in w'\<lparr>w_audit := fst (audit_record (ce_sha env) (ce_audit_gap env) (ce_audit_env env)
                                    (security_event gw env code d q) (w_audit w'))\<rparr>)"

definition call :: "gateway \<Rightarrow> call_env \<Rightarrow> gateway_call \<Rightarrow> gateway_result gateway_action" where
  "call gw env q w =
     (case run_call gw env q w of
        (w', Inl (GatewayError code d)) \<Rightarrow>
          (if code \<in> set SECURITY_EVENTS then recordSecurityEvent gw env code d q w' else w', Inl (GatewayError code d))
      | r \<Rightarrow> r)"

subsection \<open>Asking before a set of calls\<close>

record budget_probe =
  bp_model_requested :: jstr
  bp_prompt_text :: jstr
  bp_body :: jstr
  bp_kb_context :: "kb_excerpt list"
  bp_sampling :: sampling_options

fun project_probes :: "gateway \<Rightarrow> budget_probe list \<Rightarrow> jnum \<Rightarrow> call_error + jnum" where
  "project_probes gw [] acc = Inr acc"
| "project_probes gw (p # ps) acc =
     (case map_of (gc_pricing (gw_config gw)) (bp_model_requested p) of
        None \<Rightarrow> Inl (refuse E_MODEL_PRICE_UNKNOWN)
      | Some price \<Rightarrow>
          bind_err (raised (renderUserMessage (bp_body p) (bp_kb_context p))) (\<lambda>user.
          bind_err (raised (projectedMicro price (bp_prompt_text p) user (sm_max_tokens (bp_sampling p)))) (\<lambda>c.
          project_probes gw ps (jadd acc c))))"

definition wouldAdmit :: "gateway \<Rightarrow> jstr \<Rightarrow> budget_probe list \<Rightarrow> unit gateway_action" where
  "wouldAdmit gw org probes =
     (if gw_replay gw then ret ()
      else then_do (lift_err (project_probes gw probes (Fin 0))) (\<lambda>projected.
           then_do get_state (\<lambda>w.
           then_do (lift_err (raised (spentMicroAud org (scope_run gw) (w_ledger w)))) (\<lambda>spent.
           let committed = jadd spent (w_in_flight w)
           in if over_cut (gw_cut_micro gw) committed (jadd committed projected)
              then fail (budget_refusal gw spent (w_in_flight w) (jadd committed projected))
              else ret ()))))"

end
