(* ===== verification/Gateway_Safety.thy ===== *)
theory Gateway_Safety
  imports Gateway
begin

section \<open>What the path to the model guarantees\<close>

text \<open>
  What can leave, what a refusal leaves behind, what the ledger holds after a call, and that an answer
  once recorded is given again from the chain.
\<close>

subsection \<open>What the steps keep\<close>

interpretation sent_kept: step_relation "\<lambda>w w'. w_sent w' = w_sent w"
  by unfold_locales simp_all

interpretation audit_kept: step_relation "\<lambda>w w'. w_audit w' = w_audit w \<and> w_cut_recorded w' = w_cut_recorded w"
  by unfold_locales simp_all

definition ledger_grows :: "(jstr \<Rightarrow> jstr) \<Rightarrow> world \<Rightarrow> world \<Rightarrow> bool" where
  "ledger_grows sha w w' \<longleftrightarrow>
     (ledger_ok sha (w_ledger w) \<longrightarrow> ledger_ok sha (w_ledger w') \<and> (\<exists>s. w_ledger w' = w_ledger w @ s))"

interpretation ledger_kept: step_relation "ledger_grows sha" for sha
proof
  show "ledger_grows sha w w" for w by (simp add: ledger_grows_def)
  show "ledger_grows sha a c" if "ledger_grows sha a b" "ledger_grows sha b c" for a b c
    using that unfolding ledger_grows_def by (metis append_assoc)
qed

lemma store_append_world:
  "w_sent (fst (store_append gw env q f w)) = w_sent w" "w_audit (fst (store_append gw env q f w)) = w_audit w"
  "w_in_flight (fst (store_append gw env q f w)) = w_in_flight w"
  "w_cut_recorded (fst (store_append gw env q f w)) = w_cut_recorded w"
  by (auto simp: store_append_def split: prod.splits sum.splits)

lemma ledger_grows_same [simp]: "w_ledger w' = w_ledger w \<Longrightarrow> ledger_grows sha w w'"
  by (simp add: ledger_grows_def)

lemma build_for: "builds_for (gc_run_id (gw_config gw)) (buildRow gw env q f)"
  by (simp add: builds_for_def buildRow_def)

definition honest_env :: "call_env \<Rightarrow> bool" where
  "honest_env env \<longleftrightarrow> (\<forall>t. isHex64 (ce_sha env t)) \<and> honest (ce_sha env) (ce_gap env) \<and> honest (ce_sha env) (ce_env env)
     \<and> audit_honest (ce_sha env) (ce_audit_gap env) \<and> audit_honest (ce_sha env) (ce_audit_env env)"

lemma store_append_ledger:
  assumes "honest_env env"
  shows "ledger_grows (ce_sha env) w (fst (store_append gw env q f w))"
proof -
  obtain t res where app: "ledger_append (ce_sha env) (ce_gap env) (ce_env env) (gc_run_id (gw_config gw)) (gq_org_id q)
      (buildRow gw env q f) (w_ledger w) = (t, res)" by fastforce
  have "ledger_ok (ce_sha env) t \<and> (\<exists>s. t = w_ledger w @ s)" if ok: "ledger_ok (ce_sha env) (w_ledger w)"
  proof -
    note r = ledger_append_result [OF _ _ _ build_for ok app]
    have h: "\<forall>t. isHex64 (ce_sha env t)" "honest (ce_sha env) (ce_gap env)" "honest (ce_sha env) (ce_env env)"
      using assms by (simp_all add: honest_env_def)
    have "\<exists>s. t = w_ledger w @ s"
    proof (cases res)
      case (Inl e)
      then show ?thesis using others_only_ok [OF r(2) [OF h Inl] h(2,3) ok] by blast
    next
      case (Inr a)
      then obtain pre x where "others_only (ce_gap env) (ce_env env) (w_ledger w) pre" "t = pre @ [x]"
        using r(3) [OF h Inr] by blast
      then show ?thesis using others_only_ok [OF _ h(2,3) ok] by fastforce
    qed
    with r(1) [OF h] show ?thesis by blast
  qed
  then show ?thesis using app by (auto simp: ledger_grows_def store_append_def split: sum.splits)
qed

lemma find_hit_world: "fst (find_hit gw q i p w) = w"
  by (simp add: find_hit_def then_do_def action_run split: sum.splits)

lemma admit_world: "fst (admit gw q price m w) = w"
  by (simp add: admit_def then_do_def action_run Let_def split: sum.splits)

lemma send_world:
  "w_sent (fst (send env p c w)) = w_sent w @ [p]" "w_audit (fst (send env p c w)) = w_audit w"
  "w_ledger (fst (send env p c w)) = w_ledger w" "w_cut_recorded (fst (send env p c w)) = w_cut_recorded w"
  by (auto simp: send_def then_do_def action_run reserve_def release_def split: sum.splits)

lemma serve_cached_sent: "w_sent (fst (serve_cached gw env q m i p h w)) = w_sent w"
  "w_in_flight (fst (serve_cached gw env q m i p h w)) = w_in_flight w"
  "w_audit (fst (serve_cached gw env q m i p h w)) = w_audit w"
  "w_cut_recorded (fst (serve_cached gw env q m i p h w)) = w_cut_recorded w"
  using store_append_world [of gw env q] by (auto simp: serve_cached_def then_do_def action_run Let_def split: sum.splits prod.splits)
    (metis fst_conv)+

subsection \<open>The last part of a fresh call\<close>

definition after_send ::
    "gateway \<Rightarrow> call_env \<Rightarrow> gateway_call \<Rightarrow> model_price \<Rightarrow> redacted_material \<Rightarrow> jstr \<Rightarrow> jstr \<Rightarrow> jnum
       \<Rightarrow> provider_response \<Rightarrow> gateway_result gateway_action" where
  "after_send gw env q price m input prompt callMicro r =
        then_do (lift_err (assertResponseIsClean env (ps_text r) (rm_removals m))) (\<lambda>_.
        then_do (lift_err (raised (costMicro price r))) (\<lambda>micro.
        then_do (lift_err (raised (formatAud micro))) (\<lambda>cost.
        then_do (lift_err (raised (declaredConfidence (ps_text r)))) (\<lambda>confidence.
        let f = \<lparr>rf_input_hash = input, rf_prompt_hash = prompt, rf_model_returned = Some (ps_model r),
                 rf_response_hash = Some (ce_sha env (ps_text r)), rf_response_text = ps_text r,
                 rf_tokens_in = ps_tokens_in r, rf_tokens_out = ps_tokens_out r, rf_cost_aud = cost,
                 rf_latency_ms = max 0 (ce_call_ms env), rf_counts = rm_counts m, rf_confidence = confidence,
                 rf_cache_hit = False, rf_source_seq = None\<rparr>
        in then_do (store_append gw env q f) (\<lambda>a.
           then_do (release callMicro) (\<lambda>_.
           if gq_pin_model q \<and> ps_model r \<noteq> gq_model_requested q then fail (refuse E_MODEL_UNEXPECTED)
           else ret (result_of m f a)))))))"

lemma fresh_call_split:
  "fresh_call gw env q price m input prompt =
     then_do (admit gw q price m) (\<lambda>(user, callMicro).
       then_do (lift_err (scan_egress env (provider_request_of q user) (rm_removals m))) (\<lambda>_.
       then_do (send env (provider_request_of q user) callMicro) (after_send gw env q price m input prompt callMicro)))"
  unfolding fresh_call_def after_send_def Let_def ..

lemma after_send_keeps:
  "sent_kept.keeps (after_send gw env q price m input prompt c r)"
  "audit_kept.keeps (after_send gw env q price m input prompt c r)"
  unfolding after_send_def Let_def release_def
  by (intro sent_kept.keeps_then_do audit_kept.keeps_then_do sent_kept.keeps_change audit_kept.keeps_change;
      simp add: sent_kept.keeps_def audit_kept.keeps_def store_append_world action_run)+

lemma after_send_ledger: "honest_env env \<Longrightarrow> ledger_kept.keeps (ce_sha env) (after_send gw env q price m input prompt c r)"
  unfolding after_send_def Let_def release_def
  by (intro ledger_kept.keeps_then_do ledger_kept.keeps_change;
      simp add: ledger_kept.keeps_def store_append_ledger action_run)+

subsection \<open>The shape of a run\<close>

text \<open>Up to the lookup nothing outside the call changes; then it is served, refused or made.\<close>

lemma run_call_cases:
  obtains e where "run_call gw env q w = (w, Inl e)"
  | price m input hit where "check_request gw q = Inr price" "redact_request env q = Inr m"
      "digestOf (ce_sha env) (input_envelope q m) = Inr input"
      "find_hit gw q input (ce_sha env (gq_prompt_text q)) w = (w, Inr (Some hit))"
      "run_call gw env q w = serve_cached gw env q m input (ce_sha env (gq_prompt_text q)) hit w"
  | price m input where "check_request gw q = Inr price" "redact_request env q = Inr m"
      "digestOf (ce_sha env) (input_envelope q m) = Inr input"
      "find_hit gw q input (ce_sha env (gq_prompt_text q)) w = (w, Inr None)" "\<not> gw_replay gw"
      "run_call gw env q w = fresh_call gw env q price m input (ce_sha env (gq_prompt_text q)) w"
proof -
  let ?p = "ce_sha env (gq_prompt_text q)"
  note unf = run_call_def then_do_def action_run Let_def
  show ?thesis
  proof (cases "check_request gw q")
    case (Inl e)
    then show ?thesis by (intro that(1) [of e]) (simp add: unf)
  next
    case price: (Inr price)
    show ?thesis
    proof (cases "redact_request env q")
      case (Inl e)
      then show ?thesis using price by (intro that(1) [of e]) (simp add: unf)
    next
      case m: (Inr m)
      show ?thesis
      proof (cases "digestOf (ce_sha env) (input_envelope q m)")
        case (Inl e)
        then show ?thesis using price m by (intro that(1) [of "Raised e"]) (simp add: unf)
      next
        case input: (Inr input)
        obtain r where r: "find_hit gw q input ?p w = (w, r)" using find_hit_world by (metis prod.collapse)
        show ?thesis
        proof (cases r)
          case (Inl e)
          then show ?thesis using price m input r by (intro that(1) [of e]) (simp add: unf)
        next
          case hit: (Inr hit)
          show ?thesis
          proof (cases hit)
            case None
            show ?thesis
            proof (cases "gw_replay gw")
              case True
              then show ?thesis using price m input r hit None
                by (intro that(1) [of "refuse E_REPLAY_CACHE_MISS"]) (simp add: unf)
            next
              case False
              then show ?thesis using price m input r hit None by (intro that(3) [of price m input]) (simp_all add: unf)
            qed
          next
            case (Some h)
            then show ?thesis using price m input r hit by (intro that(2) [of price m input h]) (simp_all add: unf)
          qed
        qed
      qed
    qed
  qed
qed

lemma fresh_call_cases:
  obtains e where "fresh_call gw env q price m input p w = (w, Inl e)"
  | user c spent where "admit gw q price m w = (w, Inr (user, c))"
      "spentMicroAud (gq_org_id q) (scope_run gw) (w_ledger w) = Inr spent"
      "renderUserMessage (rm_body m) (rm_kb m) = Inr user"
      "projectedMicro price (gq_prompt_text q) user (sm_max_tokens (gq_sampling q)) = Inr c"
      "\<not> over_cut (gw_cut_micro gw) (jadd spent (w_in_flight w)) (jadd (jadd spent (w_in_flight w)) c)"
      "scan_egress env (provider_request_of q user) (rm_removals m) = Inr ()"
      "fresh_call gw env q price m input p w
         = then_do (send env (provider_request_of q user) c) (after_send gw env q price m input p c) w"
proof -
  obtain r where r: "admit gw q price m w = (w, r)" using admit_world by (metis prod.collapse)
  show ?thesis
  proof (cases r)
    case (Inl e)
    then show ?thesis using r by (intro that(1) [of e]) (simp add: fresh_call_split then_do_def)
  next
    case (Inr uc)
    obtain user c where uc: "uc = (user, c)" by (cases uc)
    obtain spent where facts: "spentMicroAud (gq_org_id q) (scope_run gw) (w_ledger w) = Inr spent"
      "renderUserMessage (rm_body m) (rm_kb m) = Inr user"
      "projectedMicro price (gq_prompt_text q) user (sm_max_tokens (gq_sampling q)) = Inr c"
      "\<not> over_cut (gw_cut_micro gw) (jadd spent (w_in_flight w)) (jadd (jadd spent (w_in_flight w)) c)"
      using r Inr uc by (auto simp: admit_def then_do_def action_run Let_def split: sum.splits if_splits)
    show ?thesis
    proof (cases "scan_egress env (provider_request_of q user) (rm_removals m)")
      case (Inl e)
      then show ?thesis using r Inr uc by (intro that(1) [of e]) (simp add: fresh_call_split then_do_def action_run)
    next
      case scan: (Inr x)
      have "fresh_call gw env q price m input p w
         = then_do (send env (provider_request_of q user) c) (after_send gw env q price m input p c) w"
        using r Inr uc scan by (simp add: fresh_call_split then_do_def action_run)
      with r Inr uc facts scan show ?thesis by (intro that(2) [of user c spent]) simp_all
    qed
  qed
qed

lemma call_world:
  "w_sent (fst (call gw env q w)) = w_sent (fst (run_call gw env q w))"
  "w_ledger (fst (call gw env q w)) = w_ledger (fst (run_call gw env q w))"
  "w_in_flight (fst (call gw env q w)) = w_in_flight (fst (run_call gw env q w))"
  "snd (call gw env q w) = snd (run_call gw env q w)"
  by (auto simp: call_def recordSecurityEvent_def Let_def split: prod.splits sum.splits call_error.splits)

subsection \<open>What can leave\<close>

definition clean_of :: "call_env \<Rightarrow> removal list \<Rightarrow> jstr \<Rightarrow> bool" where
  "clean_of env removals t \<longleftrightarrow> (\<forall>v \<in> set (canary_values env). \<not> js_includes t v) \<and> findLeak (ce_lower env) t removals = None"

lemma scan_clean: "scan_egress env p removals = Inr () \<Longrightarrow> clean_of env removals (outbound_text p)"
  by (auto simp: scan_egress_def clean_of_def split: if_splits option.splits)

definition rightly_sent :: "gateway \<Rightarrow> call_env \<Rightarrow> gateway_call \<Rightarrow> world \<Rightarrow> provider_request \<Rightarrow> bool" where
  "rightly_sent gw env q w p \<longleftrightarrow>
     (\<exists>m user price c spent. redact_request env q = Inr m \<and> renderUserMessage (rm_body m) (rm_kb m) = Inr user
        \<and> p = provider_request_of q user \<and> clean_of env (rm_removals m) (outbound_text p)
        \<and> check_request gw q = Inr price
        \<and> projectedMicro price (gq_prompt_text q) user (sm_max_tokens (gq_sampling q)) = Inr c
        \<and> spentMicroAud (gq_org_id q) (scope_run gw) (w_ledger w) = Inr spent
        \<and> \<not> over_cut (gw_cut_micro gw) (jadd spent (w_in_flight w)) (jadd (jadd spent (w_in_flight w)) c)
        \<and> \<not> gw_replay gw)"

lemma then_send_sent:
  "w_sent (fst (then_do (send env p c) (after_send gw env q price m i h c) w)) = w_sent w @ [p]"
proof -
  obtain w1 r where s: "send env p c w = (w1, r)" by fastforce
  then have w1: "w_sent w1 = w_sent w @ [p]" using send_world(1) [of env p c w] by simp
  show ?thesis
  proof (cases r)
    case (Inl e)
    then show ?thesis using s w1 by (simp add: then_do_def)
  next
    case (Inr x)
    then show ?thesis using s w1 after_send_keeps(1) [of gw env q price m i h c x]
      by (simp add: then_do_def sent_kept.keeps_def)
  qed
qed

lemma run_call_sent:
  "w_sent (fst (run_call gw env q w)) = w_sent w
     \<or> (\<exists>p. w_sent (fst (run_call gw env q w)) = w_sent w @ [p] \<and> rightly_sent gw env q w p)"
proof (cases rule: run_call_cases [of gw env q w])
  case (1 e)
  then show ?thesis by simp
next
  case (2 price m input hit)
  then show ?thesis using serve_cached_sent(1) by simp
next
  case (3 price m input)
  show ?thesis
  proof (cases rule: fresh_call_cases [of gw env q price m input "ce_sha env (gq_prompt_text q)" w])
    case (1 e)
    then show ?thesis using 3(6) by simp
  next
    case (2 user c spent)
    have "rightly_sent gw env q w (provider_request_of q user)"
      unfolding rightly_sent_def using 3 2 scan_clean by blast
    moreover have "w_sent (fst (run_call gw env q w)) = w_sent w @ [provider_request_of q user]"
      using 3(6) 2(7) then_send_sent by simp
    ultimately show ?thesis by blast
  qed
qed


subsection \<open>Where a row is written\<close>

definition alone :: "call_env \<Rightarrow> bool" where
  "alone env \<longleftrightarrow> (\<forall>t. isHex64 (ce_sha env t)) \<and> ce_gap env = undisturbed \<and> ce_env env = undisturbed"

lemma others_only_undisturbed: "others_only undisturbed undisturbed t t' \<Longrightarrow> t' = t"
  by (induction rule: others_only.induct) (simp_all add: undisturbed_def)

lemma append_refusal: "append_loop sha gap env n i run org build t = (t', Inl (Refusal c)) \<Longrightarrow> c = E_LEDGER_WRITE_FAILED"
  by (induction n arbitrary: i t) (auto simp: Let_def split: sum.splits db_error.splits)

lemma store_append_alone:
  assumes "alone env" "ledger_ok (ce_sha env) (w_ledger w)"
  obtains e where "store_append gw env q f w = (w, Inl e)" "\<forall>d. e \<noteq> GatewayError E_MODEL_UNEXPECTED d"
  | r a where "store_append gw env q f w = (w\<lparr>w_ledger := w_ledger w @ [r]\<rparr>, Inr a)"
      "ledger_row.truncate r = buildRow gw env q f (head_of_run (gc_run_id (gw_config gw)) (w_ledger w))"
      "verifyRowHash (ce_sha env) r = Inr True" "ap_row_hash a = row_hash r" "ap_seq a = seq r"
proof -
  have h: "\<forall>t. isHex64 (ce_sha env t)" "ce_gap env = undisturbed" "ce_env env = undisturbed"
    using assms(1) by (simp_all add: alone_def)
  obtain t res where app: "ledger_append (ce_sha env) undisturbed undisturbed (gc_run_id (gw_config gw)) (gq_org_id q)
      (buildRow gw env q f) (w_ledger w) = (t, res)" by fastforce
  note r = ledger_append_result [OF h(1) honest_undisturbed honest_undisturbed build_for assms(2) app]
  show ?thesis
  proof (cases res)
    case (Inl e)
    have "t = w_ledger w" using others_only_undisturbed r(2) [OF Inl] by blast
    moreover have "of_store e \<noteq> GatewayError E_MODEL_UNEXPECTED d" for d
      using append_refusal app Inl unfolding ledger_append_def by (cases e) fastforce+
    ultimately show ?thesis using app Inl h by (intro that(1) [of "of_store e"]) (simp_all add: store_append_def)
  next
    case (Inr a)
    obtain pre x where x: "others_only undisturbed undisturbed (w_ledger w) pre" "t = pre @ [x]"
      "appended_on_head (ce_sha env) (gq_org_id q) (gc_run_id (gw_config gw)) (buildRow gw env q f) pre x"
      "ap_row_hash a = row_hash x" "ap_seq a = seq x" using r(3) [OF Inr] by blast
    have pre: "pre = w_ledger w" using others_only_undisturbed x(1) by blast
    have l: "ledger_row.truncate x = buildRow gw env q f (head_of_run (gc_run_id (gw_config gw)) (w_ledger w))"
      "linkRow (ce_sha env) (buildRow gw env q f (head_of_run (gc_run_id (gw_config gw)) (w_ledger w)))
         (map_option h_row_hash (head_of_run (gc_run_id (gw_config gw)) (w_ledger w))) = Inr x"
      using x(3) pre by (simp_all add: appended_on_head_def)
    have v: "verifyRowHash (ce_sha env) x = Inr True" using linkRow_Inr [OF l(2) h(1)] by blast
    have s: "store_append gw env q f w = (w\<lparr>w_ledger := w_ledger w @ [x]\<rparr>, Inr a)"
      using app Inr h x(2) pre by (simp add: store_append_def)
    show ?thesis by (rule that(2) [OF s l(1) v x(4,5)])
  qed
qed

definition files_answer :: "gateway \<Rightarrow> gateway_call \<Rightarrow> ledger_table \<Rightarrow> jstr \<Rightarrow> ledger_table \<Rightarrow> bool" where
  "files_answer gw q table t table' \<longleftrightarrow>
     (\<exists>r. table' = table @ [r] \<and> class_of r = AgentCall \<and> org_id r = gq_org_id q \<and> run_id r = gc_run_id (gw_config gw)
        \<and> obj_get (row_output r) ''response'' = JStr t \<and> state_hash r = gw_state_hash gw)"

lemma files_answerI:
  assumes "ledger_row.truncate r = buildRow gw env q f h"
  shows "files_answer gw q table (rf_response_text f) (table @ [r])"
proof -
  have "class_of r = AgentCall" "org_id r = gq_org_id q" "run_id r = gc_run_id (gw_config gw)" "state_hash r = gw_state_hash gw"
    "row_output r = row_output (buildRow gw env q f h)"
    using assms by (simp_all add: ledger_row.truncate_def buildRow_def)
  moreover have "obj_get (row_output (buildRow gw env q f h)) ''response'' = JStr (rf_response_text f)"
    by (simp add: buildRow_def get_prop_def)
  ultimately show ?thesis by (auto simp: files_answer_def)
qed

definition row_iff_response :: "gateway \<Rightarrow> gateway_call \<Rightarrow> world \<Rightarrow> world \<times> (call_error + gateway_result) \<Rightarrow> bool" where
  "row_iff_response gw q w out \<longleftrightarrow>
     (case snd out of
        Inr r \<Rightarrow> files_answer gw q (w_ledger w) (gr_response_text r) (w_ledger (fst out))
      | Inl e \<Rightarrow> if \<exists>d. e = GatewayError E_MODEL_UNEXPECTED d
                 then \<exists>t. files_answer gw q (w_ledger w) t (w_ledger (fst out))
                 else w_ledger (fst out) = w_ledger w)"

lemma row_cong:
  "row_iff_response gw q w1 o1 \<Longrightarrow> w_ledger w1 = w_ledger w2 \<Longrightarrow> w_ledger (fst o1) = w_ledger (fst o2) \<Longrightarrow> snd o1 = snd o2 \<Longrightarrow>
     row_iff_response gw q w2 o2"
  by (simp only: row_iff_response_def)

lemma row_lift:
  assumes "\<And>e d. r = Inl e \<Longrightarrow> e \<noteq> GatewayError E_MODEL_UNEXPECTED d" "\<And>x. r = Inr x \<Longrightarrow> row_iff_response gw q w (f x w)"
  shows "row_iff_response gw q w (then_do (lift_err r) f w)"
  using assms by (cases r) (auto simp: then_do_def action_run row_iff_response_def)

lemma row_append:
  assumes "alone env" "ledger_ok (ce_sha env) (w_ledger w)"
    and "\<And>a w'. w_ledger (fst (g a w')) = w_ledger w'
      \<and> (case snd (g a w') of Inr r \<Rightarrow> gr_response_text r = rf_response_text f | Inl e \<Rightarrow> \<exists>d. e = GatewayError E_MODEL_UNEXPECTED d)"
  shows "row_iff_response gw q w (then_do (store_append gw env q f) g w)"
proof (cases rule: store_append_alone [OF assms(1,2), of gw q f])
  case (1 e)
  then show ?thesis by (auto simp: then_do_def row_iff_response_def)
next
  case (2 r a)
  then show ?thesis
    using files_answerI [OF 2(2)] assms(3) [of a "w\<lparr>w_ledger := w_ledger w @ [r]\<rparr>"]
    by (auto simp: then_do_def row_iff_response_def split: sum.splits)
qed

lemma clean_error: "assertResponseIsClean env t rs = Inl e \<Longrightarrow> e \<noteq> GatewayError E_MODEL_UNEXPECTED d"
  by (auto simp: assertResponseIsClean_def split: option.splits if_splits)

lemma raised_error: "raised r = Inl e \<Longrightarrow> e \<noteq> GatewayError c d"
  by (auto split: sum.splits)

lemma serve_cached_row:
  assumes "alone env" "ledger_ok (ce_sha env) (w_ledger w)"
  shows "row_iff_response gw q w (serve_cached gw env q m i p hit w)"
  unfolding serve_cached_def Let_def
  by (intro row_lift row_append [OF assms]; (drule clean_error raised_error)?; simp add: action_run result_of_def)

lemma after_send_row:
  assumes "alone env" "ledger_ok (ce_sha env) (w_ledger w)"
  shows "row_iff_response gw q w (after_send gw env q price m i p c r w)"
  unfolding after_send_def Let_def
  by (intro row_lift row_append [OF assms]; (drule clean_error raised_error)?;
      simp add: action_run result_of_def release_def then_do_def)

lemma send_error: "snd (send env p c w) = Inl e \<Longrightarrow> e \<noteq> GatewayError E_MODEL_UNEXPECTED d"
  by (auto simp: send_def then_do_def action_run reserve_def release_def callProvider_def deadline_error_def
      split: sum.splits if_splits provider_outcome.splits option.splits)

lemma check_errors:
  "check_request gw q = Inl e \<Longrightarrow> e \<noteq> GatewayError E_MODEL_UNEXPECTED d"
  "attested_pass env t ls = Inl e \<Longrightarrow> e \<noteq> GatewayError E_MODEL_UNEXPECTED d"
  "scan_egress env p rs = Inl e \<Longrightarrow> e \<noteq> GatewayError E_MODEL_UNEXPECTED d"
  by (auto simp: check_request_def attested_pass_def scan_egress_def Let_def split: if_splits option.splits)

lemma redact_error: "redact_request env q = Inl e \<Longrightarrow> e \<noteq> GatewayError E_MODEL_UNEXPECTED d"
  using check_errors(2) [of env _ _ e d]
  by (auto simp: redact_request_def Let_def split: sum.splits if_splits)

lemma admit_error: "snd (admit gw q price m w) = Inl e \<Longrightarrow> e \<noteq> GatewayError E_MODEL_UNEXPECTED d"
  by (auto simp: admit_def then_do_def action_run Let_def budget_refusal_def split: sum.splits if_splits)

lemma row_unchanged:
  "fst out = w \<Longrightarrow> (\<And>e d. snd out = Inl e \<Longrightarrow> e \<noteq> GatewayError E_MODEL_UNEXPECTED d) \<Longrightarrow> snd out = Inl e' \<Longrightarrow>
     row_iff_response gw q w out"
  by (auto simp: row_iff_response_def)

lemma fresh_call_row:
  assumes "alone env" "ledger_ok (ce_sha env) (w_ledger w)"
  shows "row_iff_response gw q w (fresh_call gw env q price m i p w)"
proof -
  obtain r where r: "admit gw q price m w = (w, r)" using admit_world by (metis prod.collapse)
  show ?thesis
  proof (cases r)
    case (Inl e)
    then show ?thesis using r admit_error [of gw q price m w]
      by (auto simp: fresh_call_split then_do_def row_iff_response_def)
  next
    case (Inr uc)
    obtain user c where uc: "uc = (user, c)" by (cases uc)
    have run: "fresh_call gw env q price m i p w =
        then_do (lift_err (scan_egress env (provider_request_of q user) (rm_removals m))) (\<lambda>_.
        then_do (send env (provider_request_of q user) c) (after_send gw env q price m i p c)) w"
      using r Inr uc by (simp add: fresh_call_split then_do_def)
    have "row_iff_response gw q w (then_do (send env (provider_request_of q user) c) (after_send gw env q price m i p c) w)"
    proof -
      obtain w1 s where s: "send env (provider_request_of q user) c w = (w1, s)" by fastforce
      then have w1: "w_ledger w1 = w_ledger w" using send_world(3) by (metis fst_conv)
      show ?thesis
      proof (cases s)
        case (Inl e)
        then show ?thesis using s w1 send_error [of env "provider_request_of q user" c w e]
          by (auto simp: then_do_def row_iff_response_def)
      next
        case (Inr x)
        have "row_iff_response gw q w1 (after_send gw env q price m i p c x w1)"
          by (rule after_send_row [OF assms(1)]) (use assms(2) w1 in simp)
        from row_cong [OF this w1] show ?thesis using s Inr by (simp add: then_do_def)
      qed
    qed
    then show ?thesis unfolding run by (intro row_lift) (use check_errors(3) in blast)+
  qed
qed

lemma run_call_row:
  assumes "alone env" "ledger_ok (ce_sha env) (w_ledger w)"
  shows "row_iff_response gw q w (run_call gw env q w)"
proof -
  let ?p = "ce_sha env (gq_prompt_text q)"
  have found: "row_iff_response gw q w (then_do (find_hit gw q i ?p) (\<lambda>hit. case hit of
          Some h \<Rightarrow> serve_cached gw env q m i ?p h
        | None \<Rightarrow> if gw_replay gw then fail (refuse E_REPLAY_CACHE_MISS)
                  else fresh_call gw env q price m i ?p) w)" for i m price
  proof -
    obtain r where r: "find_hit gw q i ?p w = (w, r)" using find_hit_world by (metis prod.collapse)
    have "r = Inl e \<Longrightarrow> e \<noteq> GatewayError E_MODEL_UNEXPECTED d" for e d
      using r by (auto simp: find_hit_def then_do_def action_run split: if_splits sum.splits)
    then have "row_iff_response gw q w (w, Inl e)" if "r = Inl e" for e
      using that by (auto simp: row_iff_response_def)
    moreover have "row_iff_response gw q w (w, Inl (refuse E_REPLAY_CACHE_MISS))"
      by (simp add: row_iff_response_def)
    ultimately show ?thesis using r serve_cached_row [OF assms] fresh_call_row [OF assms]
      by (cases r) (auto simp: then_do_def action_run split: option.splits)
  qed
  show ?thesis
    unfolding run_call_def Let_def
    by (intro row_lift found) (use check_errors(1) redact_error raised_error in blast)+
qed

text \<open>
  C3: a row is written when, and only when, a response exists: on a verified ledger nobody else is
  writing to, a call that returns appends exactly one \<open>agent_call\<close> row carrying the text it returned; a
  model answering under another name than the pinned one is recorded before it is refused; every other
  refusal and every error leaves the ledger as it was.
\<close>

theorem row_written_iff_response:
  assumes "alone env" "ledger_ok (ce_sha env) (w_ledger w)"
  shows "row_iff_response gw q w (call gw env q w)"
  by (rule row_cong [OF run_call_row [OF assms]]) (simp_all add: call_world)

subsection \<open>The chains\<close>

definition audit_grows :: "call_env \<Rightarrow> world \<Rightarrow> world \<Rightarrow> bool" where
  "audit_grows env w w' \<longleftrightarrow> (audit_ok (ce_sha env) (w_audit w) \<longrightarrow>
     audit_ok (ce_sha env) (w_audit w') \<and> (\<exists>s. w_audit w' = w_audit w @ s))"

lemma fresh_call_ledger:
  assumes "honest_env env"
  shows "ledger_grows (ce_sha env) w (fst (fresh_call gw env q price m i p w))"
proof -
  have "ledger_kept.keeps (ce_sha env) (fresh_call gw env q price m i p)"
    unfolding fresh_call_split
    by (intro ledger_kept.keeps_then_do; (clarsimp split: prod.split)?; (intro ledger_kept.keeps_then_do)?;
        (rule after_send_ledger [OF assms])?; simp add: ledger_kept.keeps_def admit_world send_world action_run)
  then show ?thesis by (simp add: ledger_kept.keeps_def)
qed

lemma serve_cached_ledger:
  assumes "honest_env env"
  shows "ledger_grows (ce_sha env) w (fst (serve_cached gw env q m i p h w))"
proof -
  have "ledger_kept.keeps (ce_sha env) (serve_cached gw env q m i p h)"
    unfolding serve_cached_def Let_def
    by (intro ledger_kept.keeps_then_do; simp add: ledger_kept.keeps_def store_append_ledger [OF assms] action_run)
  then show ?thesis by (simp add: ledger_kept.keeps_def)
qed

lemma run_call_chains:
  assumes "honest_env env"
  shows "ledger_grows (ce_sha env) w (fst (run_call gw env q w))"
    and "w_audit (fst (run_call gw env q w)) = w_audit w"
proof -
  have send_audit: "w_audit (fst (then_do (send env p c) (after_send gw env q price m i h c) w)) = w_audit w"
    for p c price m i h
  proof -
    have "audit_kept.keeps (then_do (send env p c) (after_send gw env q price m i h c))"
      by (intro audit_kept.keeps_then_do after_send_keeps) (simp add: audit_kept.keeps_def send_world)
    then show ?thesis by (simp add: audit_kept.keeps_def)
  qed
  show "ledger_grows (ce_sha env) w (fst (run_call gw env q w))"
    by (cases rule: run_call_cases [of gw env q w])
      (simp_all add: serve_cached_ledger [OF assms] fresh_call_ledger [OF assms])
  show "w_audit (fst (run_call gw env q w)) = w_audit w"
  proof (cases rule: run_call_cases [of gw env q w])
    case (3 price m input)
    then show ?thesis using send_audit
      by (cases rule: fresh_call_cases [of gw env q price m input "ce_sha env (gq_prompt_text q)" w]) simp_all
  qed (simp_all add: serve_cached_sent)
qed

lemma record_event_chain:
  assumes "honest_env env"
  shows "audit_grows env w (recordSecurityEvent gw env code d q w)"
proof -
  have h: "audit_honest (ce_sha env) (ce_audit_gap env)" "audit_honest (ce_sha env) (ce_audit_env env)"
    "\<forall>t. isHex64 (ce_sha env t)" using assms by (simp_all add: honest_env_def)
  obtain t res where a: "audit_record (ce_sha env) (ce_audit_gap env) (ce_audit_env env) (security_event gw env code d q) (w_audit w)
      = (t, res)" by fastforce
  have "audit_ok (ce_sha env) (w_audit w) \<Longrightarrow> audit_ok (ce_sha env) t \<and> (\<exists>s. t = w_audit w @ s)"
    using audit_loop_result [OF h] a unfolding audit_record_def by blast
  then show ?thesis using a by (auto simp: audit_grows_def recordSecurityEvent_def Let_def)
qed


subsection \<open>A recorded answer is given again\<close>

lemma then_lift [simp]: "then_do (lift_err (Inr x)) f = f x"
  by (simp add: fun_eq_iff then_do_def lift_err_def)

lemma raised_Inr [simp]: "raised r = Inr x \<longleftrightarrow> r = Inr x"
  by (cases r) simp_all

lemma then_lift_Inr: "then_do (lift_err r) f w = (w', Inr y) \<longleftrightarrow> (\<exists>x. r = Inr x \<and> f x w = (w', Inr y))"
  by (cases r) (auto simp: then_do_def action_run)

lemma after_send_Inr:
  assumes "alone env" "ledger_ok (ce_sha env) (w_ledger w)" "after_send gw env q price m input prompt c r w = (w', Inr res)"
  obtains f x h where "w_ledger w' = w_ledger w @ [x]" "ledger_row.truncate x = buildRow gw env q f h"
    "rf_input_hash f = input" "rf_prompt_hash f = prompt" "\<not> rf_cache_hit f" "gr_response_text res = rf_response_text f"
    "gr_input_hash res = input" "gr_body_redacted res = rm_body m" "gr_kb_context_redacted res = rm_kb m"
    "w_sent w' = w_sent w"
proof -
  obtain micro cost confidence where a: "then_do (store_append gw env q
        \<lparr>rf_input_hash = input, rf_prompt_hash = prompt, rf_model_returned = Some (ps_model r),
                 rf_response_hash = Some (ce_sha env (ps_text r)), rf_response_text = ps_text r,
                 rf_tokens_in = ps_tokens_in r, rf_tokens_out = ps_tokens_out r, rf_cost_aud = cost,
                 rf_latency_ms = max 0 (ce_call_ms env), rf_counts = rm_counts m, rf_confidence = confidence,
                 rf_cache_hit = False, rf_source_seq = None\<rparr>) (\<lambda>a.
           then_do (release c) (\<lambda>_.
           if gq_pin_model q \<and> ps_model r \<noteq> gq_model_requested q then fail (refuse E_MODEL_UNEXPECTED)
           else ret (result_of m
             \<lparr>rf_input_hash = input, rf_prompt_hash = prompt, rf_model_returned = Some (ps_model r),
                 rf_response_hash = Some (ce_sha env (ps_text r)), rf_response_text = ps_text r,
                 rf_tokens_in = ps_tokens_in r, rf_tokens_out = ps_tokens_out r, rf_cost_aud = cost,
                 rf_latency_ms = max 0 (ce_call_ms env), rf_counts = rm_counts m, rf_confidence = confidence,
                 rf_cache_hit = False, rf_source_seq = None\<rparr> a))) w = (w', Inr res)"
    using assms(3) by (auto simp: after_send_def Let_def then_lift_Inr)
  let ?f = "\<lparr>rf_input_hash = input, rf_prompt_hash = prompt, rf_model_returned = Some (ps_model r),
                 rf_response_hash = Some (ce_sha env (ps_text r)), rf_response_text = ps_text r,
                 rf_tokens_in = ps_tokens_in r, rf_tokens_out = ps_tokens_out r, rf_cost_aud = cost,
                 rf_latency_ms = max 0 (ce_call_ms env), rf_counts = rm_counts m, rf_confidence = confidence,
                 rf_cache_hit = False, rf_source_seq = None\<rparr>"
  show ?thesis
  proof (cases rule: store_append_alone [OF assms(1,2), of gw q ?f])
    case (1 e)
    then show ?thesis using a by (simp add: then_do_def)
  next
    case (2 x ap)
    then have "w' = release_state (w\<lparr>w_ledger := w_ledger w @ [x]\<rparr>)" if "release_state = (\<lambda>w. w\<lparr>w_in_flight := jsub (w_in_flight w) c\<rparr>)"
      for release_state
      using a that by (auto simp: then_do_def release_def action_run split: if_splits)
    then have w': "w_ledger w' = w_ledger w @ [x]" "w_sent w' = w_sent w" by simp_all
    have "res = result_of m ?f ap" using a 2(1) by (auto simp: then_do_def release_def action_run split: if_splits)
    then show ?thesis by (intro that [OF w'(1) 2(2)]) (simp_all add: result_of_def w'(2))
  qed
qed

text \<open>What every answer of the ledger is: a text.\<close>

definition answers_are_text :: "ledger_table \<Rightarrow> bool" where
  "answers_are_text table \<longleftrightarrow> (\<forall>r \<in> set table.
     case obj_get (row_output r) ''response'' of JUndef \<Rightarrow> True | JStr t \<Rightarrow> True | _ \<Rightarrow> False)"

lemma no_hit_no_match:
  assumes "answers_are_text table" "findCached org p table = None"
  shows "List.find (cache_matches p) (visible org table) = None"
proof (rule ccontr)
  assume "List.find (cache_matches p) (visible org table) \<noteq> None"
  then obtain r where r: "List.find (cache_matches p) (visible org table) = Some r" by blast
  then have "cache_matches p r" "r \<in> set (visible org table)" by (auto simp: find_Some_iff in_set_conv_nth)
  then have "r \<in> set table" "obj_get (row_output r) ''response'' \<noteq> JUndef"
    by (simp_all add: visible_def cache_matches_def)
  moreover have "case obj_get (row_output r) ''response'' of JUndef \<Rightarrow> True | JStr t \<Rightarrow> True | _ \<Rightarrow> False"
    using assms(1) calculation(1) by (simp only: answers_are_text_def)
  ultimately obtain t where "obj_get (row_output r) ''response'' = JStr t"
    by (cases "obj_get (row_output r) ''response''") simp_all
  then show False using assms(2) r by (simp add: findCached_def response_text_of_def)
qed

lemma find_append: "List.find P xs = None \<Longrightarrow> P x \<Longrightarrow> List.find P (xs @ [x]) = Some x"
  by (induction xs) (auto split: if_splits)

lemma recorded_row_matches:
  assumes "ledger_row.truncate x = buildRow gw env q f h" "\<not> rf_cache_hit f"
  shows "cache_matches (cache_key gw q (rf_input_hash f) (rf_prompt_hash f)) x" "org_id x = gq_org_id q"
    "response_text_of (row_output x) = Some (rf_response_text f)"
proof -
  have c: "class_of x = AgentCall" "input_hash x = Some (rf_input_hash f)" "prompt_version_id x = Some (gq_prompt_version_id q)"
    "prompt_hash x = Some (rf_prompt_hash f)" "state_hash x = gw_state_hash gw" "model_requested x = Some (gq_model_requested q)"
    "sampling x = Some (samplingJson (gq_sampling q))" "seed x = gq_seed q" "org_id x = gq_org_id q"
    "row_output x = row_output (buildRow gw env q f h)"
    using assms(1) by (simp_all add: ledger_row.truncate_def buildRow_def)
  have o: "obj_get (row_output (buildRow gw env q f h)) ''response'' = JStr (rf_response_text f)"
    "cache_hit_flag (row_output (buildRow gw env q f h)) = rf_cache_hit f"
    by (simp_all add: buildRow_def get_prop_def cache_hit_flag_def)
  show "cache_matches (cache_key gw q (rf_input_hash f) (rf_prompt_hash f)) x"
    using c o assms(2) by (simp add: cache_matches_def cache_key_def)
  show "org_id x = gq_org_id q" by (rule c(9))
  show "response_text_of (row_output x) = Some (rf_response_text f)" using c(10) o(1) by (simp add: response_text_of_def)
qed

lemma call_Inr: "call gw env q w = (w', Inr r) \<longleftrightarrow> run_call gw env q w = (w', Inr r)"
  by (auto simp: call_def split: prod.splits sum.splits call_error.splits)

lemma fresh_call_Inr:
  assumes "alone env" "ledger_ok (ce_sha env) (w_ledger w)" "fresh_call gw env q price m input prompt w = (w', Inr res)"
  obtains f x h where "w_ledger w' = w_ledger w @ [x]" "ledger_row.truncate x = buildRow gw env q f h"
    "rf_input_hash f = input" "rf_prompt_hash f = prompt" "\<not> rf_cache_hit f" "gr_response_text res = rf_response_text f"
    "gr_input_hash res = input" "gr_body_redacted res = rm_body m" "gr_kb_context_redacted res = rm_kb m"
proof (cases rule: fresh_call_cases [of gw env q price m input prompt w])
  case (1 e)
  then show ?thesis using assms(3) by simp
next
  case (2 user c spent)
  obtain w1 r where s: "send env (provider_request_of q user) c w = (w1, Inr r)"
    "after_send gw env q price m input prompt c r w1 = (w', Inr res)"
    using assms(3) 2(7) by (auto simp: then_do_Inr)
  have w1: "w_ledger w1 = w_ledger w" using send_world(3) s(1) by (metis fst_conv)
  then have "ledger_ok (ce_sha env) (w_ledger w1)" using assms(2) by simp
  from after_send_Inr [OF assms(1) this s(2)] show ?thesis using that unfolding w1 by metis
qed

text \<open>The second time: the lookup finds the row, and the provider is not reached.\<close>

definition replays :: "gateway_result \<Rightarrow> world \<Rightarrow> world \<times> (call_error + gateway_result) \<Rightarrow> bool" where
  "replays r w out \<longleftrightarrow> w_sent (fst out) = w_sent w \<and> w_in_flight (fst out) = w_in_flight w
     \<and> (case snd out of
          Inr r2 \<Rightarrow> gr_cached r2 \<and> gr_response_text r2 = gr_response_text r \<and> gr_cost_aud r2 = u ''0.000000''
        | Inl e \<Rightarrow> e = DatabaseError \<or> (\<exists>x. e = Raised x) \<or> e = refuse E_LEDGER_WRITE_FAILED)"

lemma zero_aud: "formatAud (Fin 0) = Inr (u ''0.000000'')"
  by (simp add: formatAud_def is_integer_def jmod_nonneg_def MICRO_PER_AUD_def to_num_def max_range_def u_def
      int_string_def nat_digits.simps pad_start_def numeral_eq_Suc)

lemma serve_cached_replays:
  assumes "assertResponseIsClean env (cc_response_text hit) (rm_removals m) = Inr ()" "cc_response_text hit = gr_response_text r"
  shows "replays r w (serve_cached gw env q m i p hit w)"
proof -
  let ?f = "\<lparr>rf_input_hash = i, rf_prompt_hash = p, rf_model_returned = cc_model_returned hit,
              rf_response_hash = cc_response_hash hit, rf_response_text = cc_response_text hit, rf_tokens_in = 0,
              rf_tokens_out = 0, rf_cost_aud = u ''0.000000'', rf_latency_ms = max 0 (ce_cache_ms env), rf_counts = rm_counts m,
              rf_confidence = cc_confidence hit, rf_cache_hit = True, rf_source_seq = Some (cc_seq hit)\<rparr>"
  have run: "serve_cached gw env q m i p hit w = then_do (store_append gw env q ?f) (\<lambda>a. ret (result_of m ?f a)) w"
    unfolding serve_cached_def assms(1) zero_aud by (simp add: Let_def)
  obtain t res where app: "ledger_append (ce_sha env) (ce_gap env) (ce_env env) (gc_run_id (gw_config gw)) (gq_org_id q)
      (buildRow gw env q ?f) (w_ledger w) = (t, res)" by fastforce
  show ?thesis
  proof (cases res)
    case (Inl e)
    have "of_store e = DatabaseError \<or> (\<exists>x. of_store e = Raised x) \<or> of_store e = refuse E_LEDGER_WRITE_FAILED"
      using append_refusal app Inl unfolding ledger_append_def by (cases e) auto
    then show ?thesis using app Inl unfolding run by (simp add: then_do_def store_append_def replays_def)
  next
    case (Inr a)
    then show ?thesis using app assms(2) unfolding run
      by (simp add: then_do_def store_append_def replays_def action_run result_of_def)
  qed
qed


subsection \<open>A concrete gateway\<close>

definition sample_config :: gateway_config where
  "sample_config =
     \<lparr>gc_provider_id = u ''stub'', gc_run_id = u ''r'', gc_state = \<lparr>schema_version = u ''1'', ruleset_hash = u ''a'', kb_snapshot = u ''kb:none''\<rparr>,
      gc_app = u ''a'', gc_node = u ''n'', gc_ruleset = u ''x'',
      gc_pricing = [(u ''m'', \<lparr>input_aud_per_1k = Fin 1, output_aud_per_1k = Fin 2\<rparr>)],
      gc_budget = \<lparr>cap_aud = Fin 2, cut_aud = Fin 1, bc_scope = RunScope\<rparr>,
      gc_timeout_ms = None, gc_restarts = None, gc_cache = None, gc_replay = None\<rparr>"

definition sample_gateway :: gateway where
  "sample_gateway =
     \<lparr>gw_config = sample_config, gw_timeout_ms = Fin 30000, gw_replay = False, gw_cache_enabled = True,
      gw_restarts = 0, gw_cut_micro = Fin 1000000, gw_state_hash = sample_sha [], gw_toolchain = JObj []\<rparr>"

definition sample_env :: call_env where
  "sample_env =
     \<lparr>ce_sha = sample_sha, ce_canon = (\<lambda>c. c), ce_lower = (\<lambda>s. s), ce_token = u ''ab12'', ce_now = u ''2026-01-01T00:00:00.000Z'',
      ce_cache_ms = 1, ce_call_ms = 5,
      ce_provider = (\<lambda>p. Answered (JObj [(u ''model'', JStr (u ''m'')), (u ''text'', JStr (u ''ok'')),
                                           (u ''tokens_in'', JNum (Fin 3)), (u ''tokens_out'', JNum (Fin 1))])),
      ce_gap = undisturbed, ce_env = undisturbed, ce_audit_gap = (\<lambda>i t. t), ce_audit_env = (\<lambda>i t. t)\<rparr>"

definition sample_call :: gateway_call where
  "sample_call =
     \<lparr>gq_agent = Triage, gq_org_id = u ''o'', gq_ticket_id = None, gq_prompt_version_id = u ''p'', gq_prompt_text = u ''says'',
      gq_body = u ''hello'', gq_literals = [], gq_kb_context = [], gq_locale = u ''en'', gq_model_requested = u ''m'',
      gq_sampling = \<lparr>sm_temperature = Fin 0, sm_top_p = Fin 1, sm_max_tokens = Fin 10, sm_stop = None\<rparr>, gq_seed = None,
      gq_input_path = u ''tickets'', gq_split_id = None, gq_pin_model = False\<rparr>"

definition sample_world :: world where
  "sample_world = \<lparr>w_ledger = [], w_audit = [], w_in_flight = Fin 0, w_cut_recorded = False, w_sent = []\<rparr>"

lemma sample_alone: "alone sample_env" "honest_env sample_env" "ledger_ok (ce_sha sample_env) (w_ledger sample_world)"
  using sample_sha_hex honest_undisturbed
  by (simp_all add: alone_def honest_env_def sample_env_def audit_honest_def sample_world_def ledger_ok_def run_ok_def run_rows_def)

theorem row_written_iff_response_witness:
  "row_iff_response sample_gateway sample_call sample_world (call sample_gateway sample_env sample_call sample_world)"
  by (rule row_written_iff_response [OF sample_alone(1,3)])


subsection \<open>The concrete call\<close>

lemma ends_with_append [simp]: "ends_with (s @ t) t"
  by (simp add: ends_with_def is_prefix_iff)

lemma attested_pass_clears:
  assumes "\<forall>c \<in> set (ce_token env). local_unit c"
  shows "\<exists>r. attested_pass env t [] = Inr (rd_text (redact (ce_canon env) t []), r)
     \<and> (\<forall>k. rd_counts r k = rd_counts (redact (ce_canon env) t []) k + CANARY_CONTRIBUTION k)
     \<and> set (rd_removed r) = set (rd_removed (redact (ce_canon env) t [])) \<union> set (canary_removals (ce_token env))"
  using canaries_beside [OF assms, of "ce_canon env" t] by (simp add: attested_pass_def Let_def)

lemma findLeak_None:
  "findLeak lower h rs = None \<longleftrightarrow> (\<forall>r \<in> set rs. \<not> (let literal = js_trim (rm_literal r)
                    in literal \<noteq> [] \<and> \<not> (rm_kind r = KLiteral \<and> length literal < MIN_LITERAL_LENGTH)
                       \<and> js_includes (lower h) (lower literal)))"
  by (auto simp: findLeak_def find_None_iff)

lemma sample_redacted:
  obtains R where "redact_request sample_env sample_call = Inr \<lparr>rm_body = u ''hello'', rm_kb = [], rm_removals = R,
      rm_counts = \<lparr>rs_body = (\<lambda>k. 0), rs_kb = emptyCounts\<rparr>\<rparr>"
    "set R = set (canary_removals (u ''ab12''))"
proof -
  have plain: "rd_removed (redact (\<lambda>c. c) (u ''hello'') []) = []" by code_simp
  have t: "rd_text (redact (\<lambda>c. c) (u ''hello'') []) = u ''hello''"
    "rd_counts (redact (\<lambda>c. c) (u ''hello'') []) k = 0" for k
    using redact_balanced [of "u ''hello''" "\<lambda>c. c" "[]"] plain by (simp_all add: balanced_def)
  have tok: "\<forall>c \<in> set (ce_token sample_env). local_unit c" by (simp add: sample_env_def u_def class_defs)
  obtain r where r: "attested_pass sample_env (u ''hello'') [] = Inr (u ''hello'', r)"
    "\<forall>k. rd_counts r k = CANARY_CONTRIBUTION k" "set (rd_removed r) = set (canary_removals (u ''ab12''))"
    using attested_pass_clears [OF tok, of "u ''hello''"] plain t by (auto simp: sample_env_def)
  have "\<not> blank (withoutMarkers (u ''hello''))" by code_simp
  then have "redact_request sample_env sample_call = Inr \<lparr>rm_body = u ''hello'', rm_kb = [], rm_removals = rd_removed r,
      rm_counts = \<lparr>rs_body = (\<lambda>k. 0), rs_kb = emptyCounts\<rparr>\<rparr>"
    using r(1,2) by (simp add: redact_request_def sample_call_def withoutCanaryContribution_def)
  from that [OF this r(3)] show ?thesis .
qed

definition sample_user :: jstr where
  "sample_user = u ''{\"enquiry\":\"hello\",\"sources\":[]}''"

lemma to_num_numeral: "numeral n \<le> (2 ^ 53 :: int) \<Longrightarrow> to_num (numeral n) = Fin (numeral n)"
  using to_num_int [of "numeral n"] by simp

lemma to_num_0_1: "to_num 0 = Fin 0" "to_num 1 = Fin 1"
  using to_num_int [of 0] to_num_int [of 1] by simp_all

lemma jround_int: "jround (Fin (of_int n)) = Fin (of_int n)"
proof -
  have "\<lfloor>of_int n + 1 / 2 :: rat\<rfloor> = n" by (simp add: floor_eq_iff)
  then show ?thesis by simp
qed

lemma jround_numeral: "jround (Fin (numeral n)) = Fin (numeral n)"
  using jround_int [of "numeral n"] by (simp del: jround.simps)

lemma zero_text_micro: "microFromNumericText (u ''0'') = Inr (Fin 0)"
proof -
  have "js_trim (u ''0'') = u ''0''" by (rule js_trim_id) (simp_all add: u_def is_space_def)
  moreover have "digits_value (replicate 6 48) = 0" by (simp add: digits_value_def eval_nat_numeral)
  ultimately show ?thesis using to_num_0_1
    by (simp add: microFromNumericText_def u_def all_digits_def pad_end_def number_of_digits_def) (simp add: digits_value_def)
qed

lemma sample_render: "renderUserMessage (u ''hello'') [] = Inr sample_user"
  by code_simp

lemma sample_steps:
  "spentMicroAud (u ''o'') (Some (u ''r'')) [] = Inr (Fin 0)"
  "projectedMicro \<lparr>input_aud_per_1k = Fin 1, output_aud_per_1k = Fin 2\<rparr> (u ''says'') sample_user (Fin 10) = Inr (Fin 29000)"
  using zero_text_micro
  by (simp_all add: spentMicroAud_def spent_rows_def visible_def projectedMicro_def priceMicro_def audToMicro_def
      estimateTokens_def sample_user_def u_def MICRO_PER_AUD_def to_num_numeral to_num_0_1
      jround_numeral del: jround.simps)

definition sample_request :: provider_request where
  "sample_request = provider_request_of sample_call sample_user"

lemma sample_clean:
  assumes "set R = set (canary_removals (u ''ab12''))"
  shows "scan_egress sample_env sample_request R = Inr ()" "assertResponseIsClean sample_env (u ''ok'') R = Inr ()"
proof -
  have l: "list_all (\<lambda>r. \<not> js_includes h (js_trim (rm_literal r))) (canary_removals (u ''ab12'')) \<Longrightarrow>
      findLeak (ce_lower sample_env) h R = None" for h
    using assms by (auto simp: findLeak_None sample_env_def list_all_iff Let_def)
  have "list_all (\<lambda>r. \<not> js_includes (outbound_text sample_request) (js_trim (rm_literal r))) (canary_removals (u ''ab12''))"
    "list_all (\<lambda>r. \<not> js_includes (u ''ok'') (js_trim (rm_literal r))) (canary_removals (u ''ab12''))"
    "list_all (\<lambda>v. \<not> js_includes (outbound_text sample_request) v) (canary_values sample_env)"
    "list_all (\<lambda>v. \<not> js_includes (u ''ok'') v) (canary_values sample_env)"
    by code_simp+
  with l show "scan_egress sample_env sample_request R = Inr ()" "assertResponseIsClean sample_env (u ''ok'') R = Inr ()"
    by (auto simp: scan_egress_def assertResponseIsClean_def list_all_iff)
qed

lemma sample_cost: "costMicro \<lparr>input_aud_per_1k = Fin 1, output_aud_per_1k = Fin 2\<rparr>
    \<lparr>ps_model = m, ps_text = t, ps_tokens_in = 3, ps_tokens_out = 1\<rparr> = Inr (Fin 5000)"
  by (simp add: costMicro_def priceMicro_def audToMicro_def MICRO_PER_AUD_def to_num_numeral to_num_0_1 jround_numeral
      del: jround.simps)

lemma sample_text_parses: "declaredConfidence (u ''ok'') = Inr None"
proof -
  have "json_parse (u ''ok'') = None" by code_simp
  then show ?thesis by (simp add: declaredConfidence_def)
qed

definition sample_facts :: row_facts where
  "sample_facts = \<lparr>rf_input_hash = sample_sha [], rf_prompt_hash = sample_sha [], rf_model_returned = Some (u ''m''),
     rf_response_hash = Some (sample_sha []), rf_response_text = u ''ok'', rf_tokens_in = 3, rf_tokens_out = 1,
     rf_cost_aud = u ''0.005000'', rf_latency_ms = 5, rf_counts = \<lparr>rs_body = (\<lambda>k. 0), rs_kb = emptyCounts\<rparr>,
     rf_confidence = None, rf_cache_hit = False, rf_source_seq = None\<rparr>"

lemma sample_linkable:
  "case linkRow sample_sha (buildRow sample_gateway sample_env sample_call sample_facts None) None of
     Inr r \<Rightarrow> row_checks r | Inl e \<Rightarrow> False"
  by code_simp

lemma sample_append:
  assumes "w_ledger w = []"
  obtains r a where "store_append sample_gateway sample_env sample_call sample_facts w = (w\<lparr>w_ledger := [r]\<rparr>, Inr a)"
proof -
  let ?b = "buildRow sample_gateway sample_env sample_call sample_facts"
  have none: "head_of_run run [] = None" "read_head org run [] = None" for org run
    by (simp_all add: head_of_run_def read_head_def visible_def run_rows_def last_by_seq_def)
  obtain r where r: "linkRow sample_sha (?b None) None = Inr r" "row_checks r"
    using sample_linkable by (auto split: sum.splits)
  note l = linkRow_Inr [OF r(1) sample_sha_hex]
  have f: "run_id r = u ''r''" "org_id r = u ''o''" "seq r = 1"
    using l by (auto simp: ledger_row.truncate_def buildRow_def sample_gateway_def sample_config_def sample_call_def)
  have "ledger_append sample_sha undisturbed undisturbed (u ''r'') (u ''o'') ?b [] =
      ([] @ [r], Inr \<lparr>ap_seq = seq r, ap_prev_hash = prev_hash r, ap_row_hash = row_hash r, ap_ts = ts r\<rparr>)"
    using r l f none insert_on_head [of r "u ''r''" "u ''o''" "[]"]
    by (intro append_undisturbed [where build = ?b]) (simp_all add: unique_ok_def)
  then have "store_append sample_gateway sample_env sample_call sample_facts w = (w\<lparr>w_ledger := [r]\<rparr>,
      Inr \<lparr>ap_seq = seq r, ap_prev_hash = prev_hash r, ap_row_hash = row_hash r, ap_ts = ts r\<rparr>)"
    using assms by (simp add: store_append_def sample_env_def sample_gateway_def sample_config_def sample_call_def)
  then show ?thesis by (rule that)
qed

lemma sample_money: "formatAud (Fin 5000) = Inr (u ''0.005000'')"
proof -
  have "numeric_text 5000 = u ''0.005000''" by code_simp
  then show ?thesis using formatAud_int [of 5000] by simp
qed

lemma sample_fresh:
  assumes "set R = set (canary_removals (u ''ab12''))"
  obtains w' r where "fresh_call sample_gateway sample_env sample_call \<lparr>input_aud_per_1k = Fin 1, output_aud_per_1k = Fin 2\<rparr>
      \<lparr>rm_body = u ''hello'', rm_kb = [], rm_removals = R, rm_counts = \<lparr>rs_body = (\<lambda>k. 0), rs_kb = emptyCounts\<rparr>\<rparr>
      (sample_sha []) (sample_sha []) sample_world = (w', Inr r)"
    "\<not> gr_cached r" "gr_body_redacted r = u ''hello''" "gr_kb_context_redacted r = []" "gr_response_text r = u ''ok''"
proof -
  let ?price = "\<lparr>input_aud_per_1k = Fin 1, output_aud_per_1k = Fin 2\<rparr>"
  let ?m = "\<lparr>rm_body = u ''hello'', rm_kb = [], rm_removals = R, rm_counts = \<lparr>rs_body = (\<lambda>k. 0), rs_kb = emptyCounts\<rparr>\<rparr>"
  have admit: "admit sample_gateway sample_call ?price ?m sample_world = (sample_world, Inr (sample_user, Fin 29000))"
    using sample_steps sample_render
    by (simp add: admit_def then_do_def action_run Let_def sample_gateway_def sample_call_def sample_world_def scope_run_def
        sample_config_def over_cut_def to_num_numeral to_num_0_1)
  let ?w = "sample_world\<lparr>w_in_flight := Fin 29000, w_sent := [sample_request]\<rparr>"
  have call: "callProvider (ce_provider sample_env) p = Inr \<lparr>ps_model = u ''m'', ps_text = u ''ok'', ps_tokens_in = 3, ps_tokens_out = 1\<rparr>" for p
    by (simp add: callProvider_def sample_env_def get_prop_def u_def)
  have send: "send sample_env sample_request (Fin 29000) sample_world
      = (?w, Inr \<lparr>ps_model = u ''m'', ps_text = u ''ok'', ps_tokens_in = 3, ps_tokens_out = 1\<rparr>)"
    using call by (simp add: send_def then_do_def action_run reserve_def sample_world_def to_num_numeral)
  obtain x a where app: "store_append sample_gateway sample_env sample_call sample_facts ?w = (?w\<lparr>w_ledger := [x]\<rparr>, Inr a)"
    using sample_append [of ?w] by (auto simp: sample_world_def)
  have facts: "\<lparr>rf_input_hash = sample_sha [], rf_prompt_hash = sample_sha [], rf_model_returned = Some (u ''m''),
     rf_response_hash = Some (ce_sha sample_env (u ''ok'')), rf_response_text = u ''ok'', rf_tokens_in = 3, rf_tokens_out = 1,
     rf_cost_aud = u ''0.005000'', rf_latency_ms = max 0 (ce_call_ms sample_env), rf_counts = rm_counts ?m,
     rf_confidence = None, rf_cache_hit = False, rf_source_seq = None\<rparr> = sample_facts"
    by (simp add: sample_facts_def sample_env_def sample_sha_def)
  have after: "after_send sample_gateway sample_env sample_call ?price ?m (sample_sha []) (sample_sha []) (Fin 29000)
      \<lparr>ps_model = u ''m'', ps_text = u ''ok'', ps_tokens_in = 3, ps_tokens_out = 1\<rparr> ?w
      = (?w\<lparr>w_ledger := [x], w_in_flight := jsub (Fin 29000) (Fin 29000)\<rparr>, Inr (result_of ?m sample_facts a))"
    unfolding after_send_def provider_response.simps redacted_material.simps sample_clean(2) [OF assms] sample_cost
    using facts app sample_money sample_text_parses
    by (simp add: then_do_def action_run Let_def release_def sample_call_def)
  have "fresh_call sample_gateway sample_env sample_call ?price ?m (sample_sha []) (sample_sha []) sample_world
      = (?w\<lparr>w_ledger := [x], w_in_flight := jsub (Fin 29000) (Fin 29000)\<rparr>, Inr (result_of ?m sample_facts a))"
    unfolding fresh_call_split then_do_def [of "admit _ _ _ _"] admit
    using sample_clean(1) [OF assms] send after by (simp add: sample_request_def then_do_def)
  then show ?thesis by (rule that) (simp_all add: result_of_def sample_facts_def)
qed


end
