(* ===== verification/Gateway_Ceiling.thy ===== *)
theory Gateway_Ceiling
  imports Gateway_Safety "HOL-Library.Transitive_Closure_Table"
begin

section \<open>The ceiling under concurrent calls of one process (src/agents/gateway.ts)\<close>

text \<open>
  The awaits of a call are where another call can run.  Four segments of \<open>run\<close> touch the ceiling:
  the read of the consumption; from there to the reservation, without a pause; the row, in the
  database; and the release, when the call resumes.  A state holds what the chain has recorded, what the
  process has reserved, and the segment each call is in.  Amounts are whole micro-dollars.
\<close>

datatype phase =
    Waiting
  | HasRead int
  | Reserved
  | Recorded
  | Finished
  | Lost

record ceiling =
  cl_spent :: int
  cl_in_flight :: int
  cl_phase :: "nat \<Rightarrow> phase"

text \<open>\<open>project i\<close> is the projection of call \<open>i\<close>, \<open>cost i\<close> what it really costs.\<close>

definition admits :: "int \<Rightarrow> int \<Rightarrow> int \<Rightarrow> int \<Rightarrow> bool" where
  "admits limit spent in_flight c = (\<not> over_cut (Fin (of_int limit)) (Fin (of_int (spent + in_flight))) (Fin (of_int (spent + in_flight + c))))"

inductive ceiling_step :: "int \<Rightarrow> (nat \<Rightarrow> int) \<Rightarrow> (nat \<Rightarrow> int) \<Rightarrow> ceiling \<Rightarrow> ceiling \<Rightarrow> bool"
  for limit project cost where
  reading: "cl_phase s i = Waiting \<Longrightarrow>
     ceiling_step limit project cost s (s\<lparr>cl_phase := (cl_phase s)(i := HasRead (cl_spent s))\<rparr>)"
| admitted: "cl_phase s i = HasRead spent \<Longrightarrow> admits limit spent (cl_in_flight s) (project i) \<Longrightarrow>
     ceiling_step limit project cost s
       (s\<lparr>cl_in_flight := cl_in_flight s + project i, cl_phase := (cl_phase s)(i := Reserved)\<rparr>)"
| refused: "cl_phase s i = HasRead spent \<Longrightarrow> \<not> admits limit spent (cl_in_flight s) (project i) \<Longrightarrow>
     ceiling_step limit project cost s (s\<lparr>cl_phase := (cl_phase s)(i := Finished)\<rparr>)"
| recording: "cl_phase s i = Reserved \<Longrightarrow>
     ceiling_step limit project cost s (s\<lparr>cl_spent := cl_spent s + cost i, cl_phase := (cl_phase s)(i := Recorded)\<rparr>)"
| releasing: "cl_phase s i = Recorded \<Longrightarrow>
     ceiling_step limit project cost s
       (s\<lparr>cl_in_flight := cl_in_flight s - project i, cl_phase := (cl_phase s)(i := Finished)\<rparr>)"
| rejected: "cl_phase s i = Reserved \<Longrightarrow>
     ceiling_step limit project cost s
       (s\<lparr>cl_in_flight := cl_in_flight s - project i, cl_phase := (cl_phase s)(i := Finished)\<rparr>)"
| lost: "cl_phase s i = Reserved \<Longrightarrow>
     ceiling_step limit project cost s (s\<lparr>cl_phase := (cl_phase s)(i := Lost)\<rparr>)"

text \<open>The same process when nothing runs between the read and the reservation.\<close>

inductive serial_step :: "int \<Rightarrow> (nat \<Rightarrow> int) \<Rightarrow> (nat \<Rightarrow> int) \<Rightarrow> ceiling \<Rightarrow> ceiling \<Rightarrow> bool"
  for limit project cost where
  admission: "cl_phase s i = Waiting \<Longrightarrow> admits limit (cl_spent s) (cl_in_flight s) (project i) \<Longrightarrow>
     serial_step limit project cost s
       (s\<lparr>cl_in_flight := cl_in_flight s + project i, cl_phase := (cl_phase s)(i := Reserved)\<rparr>)"
| refusal: "cl_phase s i = Waiting \<Longrightarrow> \<not> admits limit (cl_spent s) (cl_in_flight s) (project i) \<Longrightarrow>
     serial_step limit project cost s (s\<lparr>cl_phase := (cl_phase s)(i := Finished)\<rparr>)"
| later: "cl_phase s i \<in> {Reserved, Recorded} \<Longrightarrow> ceiling_step limit project cost s t \<Longrightarrow> cl_phase t i \<noteq> cl_phase s i \<Longrightarrow>
     serial_step limit project cost s t"

lemma admits_iff: "admits limit spent in_flight c \<longleftrightarrow> spent + in_flight < limit \<and> spent + in_flight + c \<le> limit"
  by (auto simp: admits_def over_cut_def)

inductive_cases ceiling_stepE: "ceiling_step limit project cost s t"
inductive_cases serial_stepE: "serial_step limit project cost s t"

lemma serial_is_concurrent: "serial_step limit project cost s t \<Longrightarrow> (ceiling_step limit project cost)\<^sup>+\<^sup>+ s t"
proof (induction rule: serial_step.induct)
  case (admission s i)
  let ?r = "s\<lparr>cl_phase := (cl_phase s)(i := HasRead (cl_spent s))\<rparr>"
  have "ceiling_step limit project cost s ?r" by (rule ceiling_step.reading) (rule admission)
  moreover have "ceiling_step limit project cost ?r
      (?r\<lparr>cl_in_flight := cl_in_flight ?r + project i, cl_phase := (cl_phase ?r)(i := Reserved)\<rparr>)"
    by (rule ceiling_step.admitted [of _ _ "cl_spent s"]) (use admission in simp_all)
  ultimately show ?case by (simp add: tranclp.trancl_into_trancl [OF tranclp.r_into_trancl])
next
  case (refusal s i)
  let ?r = "s\<lparr>cl_phase := (cl_phase s)(i := HasRead (cl_spent s))\<rparr>"
  have "ceiling_step limit project cost s ?r" by (rule ceiling_step.reading) (rule refusal)
  moreover have "ceiling_step limit project cost ?r (?r\<lparr>cl_phase := (cl_phase ?r)(i := Finished)\<rparr>)"
    by (rule ceiling_step.refused [of _ _ "cl_spent s"]) (use refusal in simp_all)
  ultimately show ?case by (simp add: tranclp.trancl_into_trancl [OF tranclp.r_into_trancl])
qed (rule tranclp.r_into_trancl)

subsection \<open>Serial admission keeps the cut\<close>

definition out_calls :: "ceiling \<Rightarrow> nat set" where
  "out_calls s = {i. cl_phase s i \<in> {Reserved, Lost}}"

definition unreleased :: "ceiling \<Rightarrow> nat set" where
  "unreleased s = {i. cl_phase s i = Recorded}"

text \<open>
  What is reserved is the projections of the calls that are out or lost, and of those recorded and not
  yet released; the recorded consumption and what is still out stay under the cut.
\<close>

definition ceiling_inv :: "int \<Rightarrow> (nat \<Rightarrow> int) \<Rightarrow> ceiling \<Rightarrow> bool" where
  "ceiling_inv limit project s \<longleftrightarrow>
     finite (out_calls s) \<and> finite (unreleased s) \<and> (\<forall>i n. cl_phase s i \<noteq> HasRead n)
     \<and> cl_in_flight s = sum project (out_calls s) + sum project (unreleased s)
     \<and> cl_spent s + sum project (out_calls s) \<le> limit"

lemma sum_insert_new: "finite A \<Longrightarrow> i \<notin> A \<Longrightarrow> sum f (insert i A) = sum f A + (f i :: int)"
  by simp

lemma sum_remove_old: "finite A \<Longrightarrow> i \<in> A \<Longrightarrow> sum f (A - {i}) = sum f A - (f i :: int)"
  by (simp add: sum_diff1)

lemma phase_sets:
  assumes "cl_phase t = (cl_phase s)(i := p)"
  shows "out_calls t = (if p \<in> {Reserved, Lost} then insert i (out_calls s) else out_calls s - {i})"
    "unreleased t = (if p = Recorded then insert i (unreleased s) else unreleased s - {i})"
    "(\<forall>i n. cl_phase s i \<noteq> HasRead n) \<Longrightarrow> \<forall>n. p \<noteq> HasRead n \<Longrightarrow> \<forall>i n. cl_phase t i \<noteq> HasRead n"
  using assms by (auto simp: out_calls_def unreleased_def)

lemma in_sets: "i \<in> out_calls s \<longleftrightarrow> cl_phase s i \<in> {Reserved, Lost}" "i \<in> unreleased s \<longleftrightarrow> cl_phase s i = Recorded"
  by (simp_all add: out_calls_def unreleased_def)

lemma later_keeps_inv:
  assumes "ceiling_step limit project cost s t" "ceiling_inv limit project s" "\<forall>i. 0 \<le> project i \<and> cost i \<le> project i"
    and "cl_phase s i \<in> {Reserved, Recorded}" "cl_phase t i \<noteq> cl_phase s i"
  shows "ceiling_inv limit project t"
proof -
  have fin: "finite (out_calls s)" "finite (unreleased s)" and no_read: "\<forall>i n. cl_phase s i \<noteq> HasRead n"
    and flight: "cl_in_flight s = sum project (out_calls s) + sum project (unreleased s)"
    and under: "cl_spent s + sum project (out_calls s) \<le> limit"
    using assms(2) by (simp_all add: ceiling_inv_def)
  from assms(1) show ?thesis
  proof cases
    case (reading j)
    then have "j = i" using assms(5) by (auto split: if_splits)
    then show ?thesis using reading assms(4) by simp
  next
    case (recording j)
    have ps: "cl_phase t = (cl_phase s)(j := Recorded)" using recording by simp
    have v: "cl_spent t = cl_spent s + cost j" "cl_in_flight t = cl_in_flight s" using recording(1) by simp_all
    have j: "j \<in> out_calls s" "j \<notin> unreleased s" using recording by (simp_all add: in_sets)
    have "cost j \<le> project j" using assms(3) by blast
    then show ?thesis
      using fin flight under phase_sets(3) [OF ps no_read] v
      by (simp add: ceiling_inv_def phase_sets(1,2) [OF ps] sum_remove_old [OF fin(1) j(1)] sum_insert_new [OF fin(2) j(2)])
  next
    case (releasing j)
    have ps: "cl_phase t = (cl_phase s)(j := Finished)" using releasing by simp
    have v: "cl_spent t = cl_spent s" "cl_in_flight t = cl_in_flight s - project j" using releasing(1) by simp_all
    have j: "out_calls s - {j} = out_calls s" "j \<in> unreleased s" using releasing by (auto simp: in_sets)
    then show ?thesis
      using fin flight under phase_sets(3) [OF ps no_read] v
      by (simp add: ceiling_inv_def phase_sets(1,2) [OF ps] sum_remove_old [OF fin(2) j(2)])
  next
    case (rejected j)
    have ps: "cl_phase t = (cl_phase s)(j := Finished)" using rejected by simp
    have v: "cl_spent t = cl_spent s" "cl_in_flight t = cl_in_flight s - project j" using rejected(1) by simp_all
    have j: "j \<in> out_calls s" "unreleased s - {j} = unreleased s" using rejected by (auto simp: in_sets)
    have "0 \<le> project j" using assms(3) by blast
    then show ?thesis
      using j(2) fin flight under phase_sets(3) [OF ps no_read] v
      by (simp add: ceiling_inv_def phase_sets(1,2) [OF ps] sum_remove_old [OF fin(1) j(1)])
  next
    case (lost j)
    have ps: "cl_phase t = (cl_phase s)(j := Lost)" using lost by simp
    have v: "cl_spent t = cl_spent s" "cl_in_flight t = cl_in_flight s" using lost(1) by simp_all
    have j: "insert j (out_calls s) = out_calls s" "unreleased s - {j} = unreleased s" using lost by (auto simp: in_sets)
    then show ?thesis
      using fin flight under phase_sets(3) [OF ps no_read] v by (simp add: ceiling_inv_def phase_sets(1,2) [OF ps])
  qed (use no_read in blast)+
qed

lemma serial_keeps_inv:
  assumes "serial_step limit project cost s t" "ceiling_inv limit project s" "\<forall>i. 0 \<le> project i \<and> cost i \<le> project i"
  shows "ceiling_inv limit project t"
proof -
  have fin: "finite (out_calls s)" "finite (unreleased s)" and no_read: "\<forall>i n. cl_phase s i \<noteq> HasRead n"
    and flight: "cl_in_flight s = sum project (out_calls s) + sum project (unreleased s)"
    and under: "cl_spent s + sum project (out_calls s) \<le> limit"
    using assms(2) by (simp_all add: ceiling_inv_def)
  from assms(1) show ?thesis
  proof cases
    case (admission i)
    have ps: "cl_phase t = (cl_phase s)(i := Reserved)" using admission by simp
    have v: "cl_spent t = cl_spent s" "cl_in_flight t = cl_in_flight s + project i" using admission(1) by simp_all
    have i: "i \<notin> out_calls s" "unreleased s - {i} = unreleased s" using admission by (auto simp: in_sets)
    have "0 \<le> sum project (unreleased s)" using assms(3) by (simp add: sum_nonneg)
    then show ?thesis
      using i(2) fin flight admission(3) phase_sets(3) [OF ps no_read] v
      by (simp add: ceiling_inv_def phase_sets(1,2) [OF ps] sum_insert_new [OF fin(1) i(1)] admits_iff)
  next
    case (refusal i)
    have ps: "cl_phase t = (cl_phase s)(i := Finished)" using refusal by simp
    have v: "cl_spent t = cl_spent s" "cl_in_flight t = cl_in_flight s" using refusal(1) by simp_all
    have i: "out_calls s - {i} = out_calls s" "unreleased s - {i} = unreleased s" using refusal by (auto simp: in_sets)
    then show ?thesis
      using fin flight under phase_sets(3) [OF ps no_read] v by (simp add: ceiling_inv_def phase_sets(1,2) [OF ps])
  next
    case (later i)
    then show ?thesis using later_keeps_inv [OF later(2) assms(2,3)] by blast
  qed
qed

definition fresh_process :: "int \<Rightarrow> ceiling" where
  "fresh_process spent = \<lparr>cl_spent = spent, cl_in_flight = 0, cl_phase = (\<lambda>i. Waiting)\<rparr>"

lemma fresh_inv: "spent \<le> limit \<Longrightarrow> ceiling_inv limit project (fresh_process spent)"
  by (simp add: ceiling_inv_def out_calls_def unreleased_def fresh_process_def)

text \<open>
  C6: when no other call runs between reading the consumption and reserving, the breaker is exact: if no
  call costs more than its projection, then from a process that starts under the cut no interleaving of
  rows, releases, rejections and deadlines ever takes the recorded consumption past it; and what is
  reserved is always exactly the projections of the calls not yet settled.
\<close>

theorem serial_admission_respects_the_cut:
  assumes "(serial_step limit project cost)\<^sup>*\<^sup>* (fresh_process spent) s" "spent \<le> limit"
    and "\<forall>i. 0 \<le> project i \<and> cost i \<le> project i"
  shows "cl_spent s \<le> limit \<and> cl_in_flight s = sum project (out_calls s) + sum project (unreleased s)"
proof -
  have "ceiling_inv limit project s"
    using assms(1)
  proof (induction rule: rtranclp_induct)
    case base
    show ?case by (rule fresh_inv [OF assms(2)])
  next
    case (step y z)
    then show ?case using serial_keeps_inv assms(3) by blast
  qed
  moreover have "0 \<le> sum project (out_calls s)" using assms(3) by (simp add: sum_nonneg)
  ultimately show ?thesis by (simp add: ceiling_inv_def)
qed

theorem serial_admission_respects_the_cut_witness:
  "cl_spent (\<lparr>cl_spent = 0, cl_in_flight = 60, cl_phase = (\<lambda>i. Waiting)(0 := Reserved)\<rparr>) \<le> 100
     \<and> (serial_step 100 (\<lambda>i. 60) (\<lambda>i. 60))\<^sup>*\<^sup>* (fresh_process 0)
          \<lparr>cl_spent = 0, cl_in_flight = 60, cl_phase = (\<lambda>i. Waiting)(0 := Reserved)\<rparr>"
proof -
  have "serial_step 100 (\<lambda>i. 60) (\<lambda>i. 60) (fresh_process 0)
      \<lparr>cl_spent = 0, cl_in_flight = 60, cl_phase = (\<lambda>i. Waiting)(0 := Reserved)\<rparr>"
    using serial_step.admission [of "fresh_process 0" 0 100 "\<lambda>i. 60" "\<lambda>i. 60"]
    by (simp add: fresh_process_def admits_iff)
  then have run: "(serial_step 100 (\<lambda>i. 60) (\<lambda>i. 60))\<^sup>*\<^sup>* (fresh_process 0)
      \<lparr>cl_spent = 0, cl_in_flight = 60, cl_phase = (\<lambda>i. Waiting)(0 := Reserved)\<rparr>" by (rule r_into_rtranclp)
  with serial_admission_respects_the_cut [OF run] show ?thesis by simp
qed

text \<open>
  a call that resumes between the read and the reservation breaks it: two calls of 60 under a cut of
  100, the second reading before the row of the first is committed and resuming after the first has
  released, are both admitted, and the chain records 120.
\<close>

theorem stale_read_crosses_the_cut:
  "\<exists>s. (ceiling_step 100 (\<lambda>i. 60) (\<lambda>i. 60))\<^sup>*\<^sup>* (fresh_process 0) s \<and> cl_spent s = 120"
proof -
  let ?step = "ceiling_step 100 (\<lambda>i. 60) (\<lambda>i. 60)"
  let ?s = "\<lambda>n f ph. \<lparr>cl_spent = n, cl_in_flight = f, cl_phase = ph\<rparr>"
  let ?w = "\<lambda>i :: nat. Waiting"
  have steps: "?step (?s 0 0 ?w) (?s 0 0 (?w(0 := HasRead 0)))"
    "?step (?s 0 0 (?w(0 := HasRead 0))) (?s 0 60 (?w(0 := Reserved)))"
    "?step (?s 0 60 (?w(0 := Reserved))) (?s 0 60 (?w(0 := Reserved, 1 := HasRead 0)))"
    "?step (?s 0 60 (?w(0 := Reserved, 1 := HasRead 0))) (?s 60 60 (?w(0 := Recorded, 1 := HasRead 0)))"
    "?step (?s 60 60 (?w(0 := Recorded, 1 := HasRead 0))) (?s 60 0 (?w(0 := Finished, 1 := HasRead 0)))"
    "?step (?s 60 0 (?w(0 := Finished, 1 := HasRead 0))) (?s 60 60 (?w(0 := Finished, 1 := Reserved)))"
    "?step (?s 60 60 (?w(0 := Finished, 1 := Reserved))) (?s 120 60 (?w(0 := Finished, 1 := Recorded)))"
    using ceiling_step.reading [of "?s 0 0 ?w" 0 100 "\<lambda>i. 60" "\<lambda>i. 60"]
      ceiling_step.admitted [of "?s 0 0 (?w(0 := HasRead 0))" 0 0 100 "\<lambda>i. 60" "\<lambda>i. 60"]
      ceiling_step.reading [of "?s 0 60 (?w(0 := Reserved))" 1 100 "\<lambda>i. 60" "\<lambda>i. 60"]
      ceiling_step.recording [of "?s 0 60 (?w(0 := Reserved, 1 := HasRead 0))" 0 100 "\<lambda>i. 60" "\<lambda>i. 60"]
      ceiling_step.releasing [of "?s 60 60 (?w(0 := Recorded, 1 := HasRead 0))" 0 100 "\<lambda>i. 60" "\<lambda>i. 60"]
      ceiling_step.admitted [of "?s 60 0 (?w(0 := Finished, 1 := HasRead 0))" 1 0 100 "\<lambda>i. 60" "\<lambda>i. 60"]
      ceiling_step.recording [of "?s 60 60 (?w(0 := Finished, 1 := Reserved))" 1 100 "\<lambda>i. 60" "\<lambda>i. 60"]
    by (simp_all add: admits_iff fun_upd_twist)
  have "?step\<^sup>*\<^sup>* (?s 0 0 ?w) (?s 120 60 (?w(0 := Finished, 1 := Recorded)))"
    by (rule steps converse_rtranclp_into_rtranclp rtranclp.rtrancl_refl)+
  then show ?thesis unfolding fresh_process_def by (metis ceiling.select_convs(1))
qed

end
