(* ===== verification/States.thy ===== *)
theory States
  imports Prelude
begin

section \<open>The ticket state machine\<close>

text \<open>
  \<open>src/server/states.ts\<close>: the ten states, the owners of the guards and the table of published
  edges, in the order the source declares them, with the functions that read the table.
  \<open>published_path\<close> is the walk along published edges; the lemmas about it are what the ticket
  operations rest on.
\<close>

datatype user_role = Customer | Agent | Supervisor

datatype ticket_state =
    NEW | TRIAGED | DRAFTED | AWAITING_AGENT | SENT | ESCALATED | RESOLVED | CLOSED | REOPENED
  | TRIAGE_FAILED

fun state_name :: "ticket_state \<Rightarrow> jstr" where
  "state_name NEW = u ''NEW''"
| "state_name TRIAGED = u ''TRIAGED''"
| "state_name DRAFTED = u ''DRAFTED''"
| "state_name AWAITING_AGENT = u ''AWAITING_AGENT''"
| "state_name SENT = u ''SENT''"
| "state_name ESCALATED = u ''ESCALATED''"
| "state_name RESOLVED = u ''RESOLVED''"
| "state_name CLOSED = u ''CLOSED''"
| "state_name REOPENED = u ''REOPENED''"
| "state_name TRIAGE_FAILED = u ''TRIAGE_FAILED''"

definition TICKET_STATES :: "ticket_state list" where
  "TICKET_STATES = [NEW, TRIAGED, DRAFTED, AWAITING_AGENT, SENT, ESCALATED, RESOLVED, CLOSED, REOPENED,
     TRIAGE_FAILED]"

text \<open>\<open>isTicketState\<close> narrows a text to the state it names.\<close>

definition isTicketState :: "jstr \<Rightarrow> bool" where
  "isTicketState s = (s \<in> set (map state_name TICKET_STATES))"

datatype guard_owner =
    Console | Triage_Agent | Draft_Agent | Grounding_Validator | Escalation_Rule | Approval_Constraint
  | Reopen_Window

record transition =
  tr_from :: ticket_state
  tr_to :: ticket_state
  tr_guard :: jstr
  tr_guardedBy :: guard_owner
  tr_requiresRole :: "user_role list option"

definition ESCALATION_GUARD :: jstr where
  "ESCALATION_GUARD = u ''a clause of the escalation rule fires, and the firing clause is recorded''"

definition ESCALATION_EDGES :: "transition list" where
  "ESCALATION_EDGES =
     map (\<lambda>state. \<lparr>tr_from = state, tr_to = ESCALATED, tr_guard = ESCALATION_GUARD,
            tr_guardedBy = Escalation_Rule, tr_requiresRole = None\<rparr>)
       (filter (\<lambda>state. state \<noteq> ESCALATED) TICKET_STATES)"

definition TRANSITIONS :: "transition list" where
  "TRANSITIONS = [
     \<lparr>tr_from = NEW, tr_to = TRIAGED,
        tr_guard = u ''triage returned a schema-valid object carrying its confidence'',
        tr_guardedBy = Triage_Agent, tr_requiresRole = None\<rparr>,
     \<lparr>tr_from = NEW, tr_to = TRIAGE_FAILED,
        tr_guard = u ''schema violation, timeout, or an empty body after redaction'',
        tr_guardedBy = Triage_Agent, tr_requiresRole = None\<rparr>,
     \<lparr>tr_from = TRIAGED, tr_to = DRAFTED,
        tr_guard = u ''a draft was produced for the ticket'',
        tr_guardedBy = Draft_Agent, tr_requiresRole = None\<rparr>,
     \<lparr>tr_from = DRAFTED, tr_to = AWAITING_AGENT,
        tr_guard = u ''the validator reports grounded = true and the policy check passes'',
        tr_guardedBy = Grounding_Validator, tr_requiresRole = None\<rparr>,
     \<lparr>tr_from = AWAITING_AGENT, tr_to = SENT,
        tr_guard = u ''approved_by is not null '' @ [8212] @ u '' a database constraint, not a convention'',
        tr_guardedBy = Approval_Constraint, tr_requiresRole = None\<rparr>,
     \<lparr>tr_from = SENT, tr_to = RESOLVED,
        tr_guard = u ''the ticket is resolved; no further guard is published for this edge'',
        tr_guardedBy = Console, tr_requiresRole = None\<rparr>,
     \<lparr>tr_from = RESOLVED, tr_to = CLOSED,
        tr_guard = u ''the resolution is closed out; no further guard is published for this edge'',
        tr_guardedBy = Console, tr_requiresRole = None\<rparr>,
     \<lparr>tr_from = ESCALATED, tr_to = RESOLVED,
        tr_guard = u ''taken from the supervisor console; the human closes what was escalated to a human'',
        tr_guardedBy = Console, tr_requiresRole = Some [Supervisor]\<rparr>,
     \<lparr>tr_from = CLOSED, tr_to = REOPENED,
        tr_guard = u ''a customer reply inside the retention window; the SLA clock restarts and retries are preserved. The customer supplies the event (their reply); staff or the system executes the state transition '' @ [8212] @ u '' the staff-only write policy is correct and permanent'',
        tr_guardedBy = Reopen_Window, tr_requiresRole = None\<rparr>,
     \<lparr>tr_from = REOPENED, tr_to = TRIAGED,
        tr_guard = u ''the reopened ticket is triaged again'',
        tr_guardedBy = Triage_Agent, tr_requiresRole = None\<rparr>] @ ESCALATION_EDGES"

definition transitionsFrom :: "ticket_state \<Rightarrow> transition list" where
  "transitionsFrom s = filter (\<lambda>t. tr_from t = s) TRANSITIONS"

definition findTransition :: "ticket_state \<Rightarrow> ticket_state \<Rightarrow> transition option" where
  "findTransition s d = List.find (\<lambda>t. tr_from t = s \<and> tr_to t = d) TRANSITIONS"

definition isGuardAvailable :: "transition \<Rightarrow> bool" where
  "isGuardAvailable t = (tr_guardedBy t = Console)"

definition isAvailableTo :: "transition \<Rightarrow> user_role \<Rightarrow> bool" where
  "isAvailableTo t role =
     (if \<not> isGuardAvailable t then False
      else case tr_requiresRole t of Some roles \<Rightarrow> role \<in> set roles | None \<Rightarrow> True)"

subsection \<open>What the table publishes\<close>

text \<open>The table read as a function of the two states, by its owners.\<close>

definition edge_owners :: "(ticket_state \<times> ticket_state \<times> guard_owner) list" where
  "edge_owners = map (\<lambda>t. (tr_from t, tr_to t, tr_guardedBy t)) TRANSITIONS"

lemma find_transition_ends:
  "findTransition s d = Some t \<Longrightarrow> t \<in> set TRANSITIONS \<and> tr_from t = s \<and> tr_to t = d"
  by (auto simp: findTransition_def find_Some_iff)

lemma find_transition_None: "findTransition s d = None \<longleftrightarrow> d \<notin> tr_to ` set (transitionsFrom s)"
  by (auto simp: findTransition_def find_None_iff transitionsFrom_def)

lemma edge_owners_eq: "edge_owners =
    [(NEW, TRIAGED, Triage_Agent), (NEW, TRIAGE_FAILED, Triage_Agent), (TRIAGED, DRAFTED, Draft_Agent),
     (DRAFTED, AWAITING_AGENT, Grounding_Validator), (AWAITING_AGENT, SENT, Approval_Constraint),
     (SENT, RESOLVED, Console), (RESOLVED, CLOSED, Console), (ESCALATED, RESOLVED, Console),
     (CLOSED, REOPENED, Reopen_Window), (REOPENED, TRIAGED, Triage_Agent)]
    @ map (\<lambda>s. (s, ESCALATED, Escalation_Rule))
        [NEW, TRIAGED, DRAFTED, AWAITING_AGENT, SENT, RESOLVED, CLOSED, REOPENED, TRIAGE_FAILED]"
  by (simp add: edge_owners_def TRANSITIONS_def ESCALATION_EDGES_def TICKET_STATES_def)

lemma edge_owner_listed:
  "findTransition s d = Some t \<Longrightarrow> (s, d, tr_guardedBy t) \<in> set edge_owners"
  using find_transition_ends [of s d t] by (force simp: edge_owners_def)

text \<open>Which edges lead into a state, and which a console guards.\<close>

lemma edge_into:
  assumes "findTransition s d = Some t"
  shows "d = SENT \<Longrightarrow> s = AWAITING_AGENT \<and> tr_guardedBy t = Approval_Constraint"
    and "d = AWAITING_AGENT \<Longrightarrow> s = DRAFTED \<and> tr_guardedBy t = Grounding_Validator"
    and "d = DRAFTED \<Longrightarrow> s = TRIAGED \<and> tr_guardedBy t = Draft_Agent"
    and "d = TRIAGED \<Longrightarrow> s \<in> {NEW, REOPENED} \<and> tr_guardedBy t = Triage_Agent"
    and "d = REOPENED \<Longrightarrow> s = CLOSED \<and> tr_guardedBy t = Reopen_Window"
    and "d = ESCALATED \<Longrightarrow> s \<noteq> ESCALATED \<and> tr_guardedBy t = Escalation_Rule"
    and "d = RESOLVED \<Longrightarrow> s \<in> {SENT, ESCALATED} \<and> tr_guardedBy t = Console"
    and "d = CLOSED \<Longrightarrow> s = RESOLVED \<and> tr_guardedBy t = Console"
    and "d = TRIAGE_FAILED \<Longrightarrow> s = NEW \<and> tr_guardedBy t = Triage_Agent"
    and "d \<noteq> NEW"
  using edge_owner_listed [OF assms] by (auto simp: edge_owners_eq)

lemma console_edge:
  assumes "findTransition s d = Some t" "tr_guardedBy t = Console"
  shows "(s = SENT \<and> d = RESOLVED) \<or> (s = RESOLVED \<and> d = CLOSED) \<or> (s = ESCALATED \<and> d = RESOLVED)"
  using edge_owner_listed [OF assms(1)] assms(2) by (auto simp: edge_owners_eq)

lemma escalated_resolution: "findTransition ESCALATED RESOLVED = Some t \<Longrightarrow> tr_requiresRole t = Some [Supervisor]"
  by (auto simp: findTransition_def TRANSITIONS_def)

lemma every_state_escalates: "s \<noteq> ESCALATED \<Longrightarrow> \<exists>t. findTransition s ESCALATED = Some t"
  by (cases s) (simp_all add: findTransition_def TRANSITIONS_def ESCALATION_EDGES_def TICKET_STATES_def)

text \<open>\<open>isTicketState\<close> accepts exactly the names of the states, and a name stands for one state.\<close>

lemma state_name_inject [simp]: "state_name s = state_name d \<longleftrightarrow> s = d"
  by (cases s; cases d; simp)

lemma is_ticket_state_iff: "isTicketState x \<longleftrightarrow> (\<exists>s. x = state_name s)"
proof
  show "\<exists>s. x = state_name s \<Longrightarrow> isTicketState x"
  proof (elim exE)
    fix s assume "x = state_name s"
    then show "isTicketState x" by (cases s) (simp_all add: isTicketState_def TICKET_STATES_def)
  qed
qed (auto simp: isTicketState_def)

subsection \<open>Walks along published edges\<close>

text \<open>The edges a ticket has taken, oldest first.\<close>

inductive walk :: "ticket_state \<Rightarrow> transition list \<Rightarrow> ticket_state \<Rightarrow> bool" where
  start: "walk s [] s"
| edge: "walk s ts d \<Longrightarrow> findTransition d e = Some t \<Longrightarrow> walk s (ts @ [t]) e"

inductive_cases walk_end: "walk s ts d"

lemma walk_into:
  assumes "walk s ts d" "s \<noteq> d"
  obtains ts' b t where "ts = ts' @ [t]" "walk s ts' b" "findTransition b d = Some t"
  using assms by (auto elim: walk_end)

text \<open>
  C20: A reply is never sent on a shortcut.  Whatever edges a ticket takes from NEW (or from REOPENED,
  after a customer came back) to SENT, the last four are the triage agent's, the draft agent's, the
  grounding validator's and the approval constraint's, in that order: the published table has no walk
  to SENT around the validator or around a person's approval.
\<close>

theorem no_reply_without_validation_and_approval:
  assumes "walk s ts SENT" "s \<in> {NEW, REOPENED}"
  shows "\<exists>before. map tr_guardedBy ts
           = before @ [Triage_Agent, Draft_Agent, Grounding_Validator, Approval_Constraint]"
proof -
  from assms obtain ts1 b1 t1 where 1: "ts = ts1 @ [t1]" "walk s ts1 b1" "findTransition b1 SENT = Some t1"
    by (auto elim: walk_into)
  then have b1: "b1 = AWAITING_AGENT" "tr_guardedBy t1 = Approval_Constraint" using edge_into(1) by auto
  with 1 assms(2) obtain ts2 b2 t2 where 2: "ts1 = ts2 @ [t2]" "walk s ts2 b2" "findTransition b2 b1 = Some t2"
    by (auto elim: walk_into)
  with b1 have b2: "b2 = DRAFTED" "tr_guardedBy t2 = Grounding_Validator" using edge_into(2) by auto
  with 2 assms(2) obtain ts3 b3 t3 where 3: "ts2 = ts3 @ [t3]" "walk s ts3 b3" "findTransition b3 b2 = Some t3"
    by (auto elim: walk_into)
  with b2 have b3: "b3 = TRIAGED" "tr_guardedBy t3 = Draft_Agent" using edge_into(3) by auto
  with 3 assms(2) obtain ts4 b4 t4 where 4: "ts3 = ts4 @ [t4]" "walk s ts4 b4" "findTransition b4 b3 = Some t4"
    by (auto elim: walk_into)
  with b3 have "tr_guardedBy t4 = Triage_Agent" using edge_into(4) by auto
  with 1(1) 2(1) 3(1) 4(1) b1 b2 b3
  have "map tr_guardedBy ts = map tr_guardedBy ts4 @ [Triage_Agent, Draft_Agent, Grounding_Validator, Approval_Constraint]"
    by simp
  then show ?thesis by blast
qed

definition sample_walk :: "transition list" where
  "sample_walk = map (\<lambda>(s, d). the (findTransition s d))
     [(NEW, TRIAGED), (TRIAGED, DRAFTED), (DRAFTED, AWAITING_AGENT), (AWAITING_AGENT, SENT)]"

lemma sample_walk_sent: "walk NEW sample_walk SENT"
proof -
  have e: "findTransition x y = Some (the (findTransition x y))" if "(x, y, g) \<in> set edge_owners" for x y g
    using that find_transition_None [of x y] by (force simp: edge_owners_def transitionsFrom_def)
  note edges = e [of NEW TRIAGED Triage_Agent] e [of TRIAGED DRAFTED Draft_Agent]
    e [of DRAFTED AWAITING_AGENT Grounding_Validator] e [of AWAITING_AGENT SENT Approval_Constraint]
  have "walk NEW (((([] @ [the (findTransition NEW TRIAGED)]) @ [the (findTransition TRIAGED DRAFTED)])
          @ [the (findTransition DRAFTED AWAITING_AGENT)]) @ [the (findTransition AWAITING_AGENT SENT)]) SENT"
    by (rule walk.edge [OF walk.edge [OF walk.edge [OF walk.edge [OF walk.start edges(1)] edges(2)] edges(3)] edges(4)])
      (simp_all add: edge_owners_eq)
  then show ?thesis by (simp add: sample_walk_def)
qed

theorem no_reply_without_validation_and_approval_witness:
  "\<exists>before. map tr_guardedBy sample_walk
      = before @ [Triage_Agent, Draft_Agent, Grounding_Validator, Approval_Constraint]"
  using no_reply_without_validation_and_approval [OF sample_walk_sent] by simp

end
