(* ===== verification/Js_Date.thy ===== *)
theory Js_Date
  imports Js_Text "HOL-Library.Code_Target_Nat"
begin

section \<open>Instants as text\<close>

text \<open>
  \<open>Date.prototype.toISOString\<close> of the standard, for a time value in milliseconds since the epoch.
  The calendar is the proleptic Gregorian one: \<open>civil_of_days\<close> counts the days since 0000-03-01,
  so that the leap day ends a year of the count, in eras of 400 years (146097 days each).
\<close>

definition MS_PER_DAY :: int where
  "MS_PER_DAY = 86400000"

definition civil_of_days :: "int \<Rightarrow> int \<times> int \<times> int" where
  "civil_of_days days =
     (let z = days + 719468; era = z div 146097; doe = z mod 146097;
          yoe = (doe - doe div 1460 + doe div 36524 - doe div 146096) div 365;
          doy = doe - (365 * yoe + yoe div 4 - yoe div 100);
          mp = (5 * doy + 2) div 153;
          d = doy - (153 * mp + 2) div 5 + 1;
          m = (if mp < 10 then mp + 3 else mp - 9)
      in (yoe + era * 400 + (if m \<le> 2 then 1 else 0), m, d))"

definition padded :: "nat \<Rightarrow> int \<Rightarrow> jstr" where
  "padded w n = pad_start w 48 (nat_digits (nat n))"

definition year_text :: "int \<Rightarrow> jstr" where
  "year_text y =
     (if 0 \<le> y \<and> y \<le> 9999 then padded 4 y
      else if 0 \<le> y then u ''+'' @ padded 6 y else u ''-'' @ padded 6 (- y))"

definition toISOString :: "int \<Rightarrow> jstr" where
  "toISOString ms =
     (let (y, m, d) = civil_of_days (ms div MS_PER_DAY); t = ms mod MS_PER_DAY
      in year_text y @ u ''-'' @ padded 2 m @ u ''-'' @ padded 2 d @ u ''T''
         @ padded 2 (t div 3600000) @ u '':'' @ padded 2 (t div 60000 mod 60) @ u '':''
         @ padded 2 (t div 1000 mod 60) @ u ''.'' @ padded 3 (t mod 1000) @ u ''Z'')"

lemma toISOString_samples:
  "toISOString 0 = u ''1970-01-01T00:00:00.000Z''"
  "toISOString 1785542399999 = u ''2026-07-31T23:59:59.999Z''"
  "toISOString 951782400000 = u ''2000-02-29T00:00:00.000Z''"
  by code_simp+

end
