(* ===== verification/Tickets.thy ===== *)
theory Tickets
  imports States Queue_Order Js_Date Action
begin

section \<open>The ticket table and its operations\<close>

text \<open>
  \<open>src/server/tickets.ts\<close> and \<open>src/server/pipeline.ts\<close> over the table \<open>ticket\<close>: the intake
  of a submission with its collapse of duplicates, the transition a person takes at a console and the
  transition a component takes.  A statement runs under the claims of its session; which rows it sees
  and may change is what the policies of the schema say (\<open>visible_to\<close>, \<open>updatable\<close>).

  Times are microseconds in the table and milliseconds once the driver has made a \<open>Date\<close> of them.
  What the service decides and the model cannot see is \<open>desk_env\<close>: which responses were approved
  or grounded, which texts a numeric column accepts, the clock, the next generated identifier.
\<close>

subsection \<open>Sessions and rows\<close>

text \<open>\<open>Claims\<close>, \<open>MachineClaims\<close> (no subject) and \<open>TenantClaims\<close> (no role either).\<close>

record claims =
  cl_org :: jstr
  cl_role :: "user_role option"
  cl_sub :: "jstr option"

definition COMPONENT_ROLE :: user_role where
  "COMPONENT_ROLE = Agent"

definition componentClaims :: "jstr \<Rightarrow> claims" where
  "componentClaims org = \<lparr>cl_org = org, cl_role = Some COMPONENT_ROLE, cl_sub = None\<rparr>"

record ticket_row =
  tk_id :: jstr
  tk_org :: jstr
  tk_account :: jstr
  tk_customer :: jstr
  tk_subject :: jstr
  tk_body_raw :: jstr
  tk_body_redacted :: "jstr option"
  tk_created :: int
  tk_status :: ticket_state
  tk_category :: "jstr option"
  tk_severity :: "int option"
  tk_sentiment :: "jstr option"
  tk_confidence :: "jstr option"
  tk_sla_policy :: "jstr option"
  tk_sla_due :: "int option"
  tk_retries :: "int option"
  tk_priority :: "jstr option"
  tk_escalation_reason :: "jstr option"
  tk_escalation_clause :: "jstr option"
  tk_body_sha256 :: "jstr option"
  tk_dedupe_key :: "jstr option"

type_synonym ticket_table = "ticket_row list"

record desk_env =
  approved_and_sent :: "jstr \<Rightarrow> bool"
  grounded_response :: "jstr \<Rightarrow> bool"
  numeric_accepts :: "jstr \<Rightarrow> jstr \<Rightarrow> bool"
  accounts :: "(jstr \<times> jstr) list"
  clock_us :: int
  fresh_id :: jstr
  body_digest :: "jstr \<Rightarrow> jstr"

text \<open>The error register of the consoles, and what else can be thrown.\<close>

datatype app_error_code =
    E_NO_SESSION | E_ROLE_NOT_PERMITTED | E_DEV_IDENTITY_DISABLED | E_FIELD_INVALID
  | E_TICKET_NOT_VISIBLE | E_TRANSITION_ILLEGAL | E_TRANSITION_GUARD_UNAVAILABLE | E_TRANSITION_STALE
  | E_NO_ACCOUNT_FOR_ORG | E_ACCOUNT_AMBIGUOUS | E_CONTRACT_VIOLATION | E_GAP_COMMITMENT_MISSING
  | E_RUNTIME_SNAPSHOT_STALE | E_INTERNAL

datatype desk_error =
    App app_error_code nat
  | Programmer
  | Dedupe_Key_Conflict
  | Database

subsection \<open>What the schema lets a session see and change\<close>

definition is_staff :: "claims \<Rightarrow> bool" where
  "is_staff c = (cl_role c = Some Agent \<or> cl_role c = Some Supervisor)"

definition visible_to :: "claims \<Rightarrow> ticket_row \<Rightarrow> bool" where
  "visible_to c r = (tk_org r = cl_org c \<and> (is_staff c \<or> cl_sub c = Some (tk_customer r)))"

definition updatable :: "claims \<Rightarrow> ticket_row \<Rightarrow> bool" where
  "updatable c r = (visible_to c r \<and> is_staff c)"

definition ESCALATION_REASON_TEXTS :: "jstr list" where
  "ESCALATION_REASON_TEXTS =
     map u [''CONF'', ''SENT'', ''TIER'', ''RETRY'', ''SLA'', ''GROUND'', ''POLICY'', ''LANG'']"

fun opt_ok :: "('a \<Rightarrow> bool) \<Rightarrow> 'a option \<Rightarrow> bool" where
  "opt_ok p None = True"
| "opt_ok p (Some x) = p x"

text \<open>The checks of the table and its evidence trigger, on the row about to be written.\<close>

definition ticket_checks :: "desk_env \<Rightarrow> ticket_row \<Rightarrow> bool" where
  "ticket_checks env r =
     (opt_ok (\<lambda>n. 1 \<le> n \<and> n \<le> 4) (tk_severity r)
      \<and> opt_ok (numeric_accepts env (u ''sentiment'')) (tk_sentiment r)
      \<and> opt_ok (numeric_accepts env (u ''confidence'')) (tk_confidence r)
      \<and> opt_ok (numeric_accepts env (u ''priority'')) (tk_priority r)
      \<and> tk_retries r \<noteq> None
      \<and> opt_ok (\<lambda>x. x \<in> set ESCALATION_REASON_TEXTS) (tk_escalation_reason r)
      \<and> (tk_status r \<noteq> ESCALATED
          \<or> tk_escalation_reason r \<noteq> None \<and> tk_escalation_clause r \<noteq> None))"

definition evidence_ok :: "desk_env \<Rightarrow> ticket_row \<Rightarrow> bool" where
  "evidence_ok env r =
     ((tk_status r = SENT \<longrightarrow> approved_and_sent env (tk_id r))
      \<and> (tk_status r = AWAITING_AGENT \<longrightarrow> grounded_response env (tk_id r)))"

definition row_accepted :: "desk_env \<Rightarrow> ticket_row \<Rightarrow> bool" where
  "row_accepted env r = (ticket_checks env r \<and> evidence_ok env r)"

text \<open>\<open>update ticket set \<dots> where id = \<dots> and status = \<dots> returning \<dots>\<close>: the rows it changed.\<close>

definition update_ticket ::
    "desk_env \<Rightarrow> claims \<Rightarrow> jstr \<Rightarrow> ticket_state \<Rightarrow> (ticket_row \<Rightarrow> ticket_row)
      \<Rightarrow> (ticket_table, desk_error, ticket_row list) action" where
  "update_ticket env c ticketId from f table =
     (let hit = (\<lambda>r. updatable c r \<and> tk_id r = ticketId \<and> tk_status r = from);
          rows = map f (filter hit table)
      in if list_all (row_accepted env) rows
         then (map (\<lambda>r. if hit r then f r else r) table, Inr rows)
         else (table, Inl Database))"

definition readOne :: "claims \<Rightarrow> jstr \<Rightarrow> (ticket_table, desk_error, ticket_row option) action" where
  "readOne c ticketId table = (table, Inr (List.find (\<lambda>r. visible_to c r \<and> tk_id r = ticketId) table))"

subsection \<open>A ticket as a console renders it\<close>

record ticket =
  id_of :: jstr
  subject_of :: jstr
  status_of :: ticket_state
  created_at_of :: jstr
  customer_id_of :: jstr
  sla_due_at_of :: "jstr option"
  category_of :: "jstr option"
  severity_of :: "int option"
  sentiment_of :: "jstr option"
  confidence_of :: "jstr option"
  priority_of :: "jstr option"
  escalation_reason_of :: "jstr option"
  escalation_clause_of :: "jstr option"

definition ms_of :: "int \<Rightarrow> int" where
  "ms_of us = us div 1000"

definition toTicket :: "ticket_row \<Rightarrow> ticket" where
  "toTicket r =
     \<lparr>id_of = tk_id r, subject_of = tk_subject r, status_of = tk_status r,
      created_at_of = toISOString (ms_of (tk_created r)), customer_id_of = tk_customer r,
      sla_due_at_of = map_option (\<lambda>t. toISOString (ms_of t)) (tk_sla_due r),
      category_of = tk_category r, severity_of = tk_severity r, sentiment_of = tk_sentiment r,
      confidence_of = tk_confidence r, priority_of = tk_priority r,
      escalation_reason_of = tk_escalation_reason r, escalation_clause_of = tk_escalation_clause r\<rparr>"

definition getTicket :: "claims \<Rightarrow> jstr \<Rightarrow> (ticket_table, desk_error, ticket option) action" where
  "getTicket c ticketId = then_do (readOne c ticketId) (\<lambda>row. ret (map_option toTicket row))"

text \<open>Newest first; of two of one instant, by identifier.\<close>

definition listed_after :: "ticket_row \<Rightarrow> ticket_row \<Rightarrow> bool" where
  "listed_after a b = (tk_created a < tk_created b \<or> tk_created a = tk_created b \<and> tk_id b < tk_id a)"

definition listTickets :: "claims \<Rightarrow> ticket_table \<Rightarrow> ticket list" where
  "listTickets c table = map toTicket (stable_sort listed_after (filter (visible_to c) table))"

definition countTicketsByState :: "claims \<Rightarrow> ticket_table \<Rightarrow> (ticket_state \<times> nat) list" where
  "countTicketsByState c table =
     (let n = (\<lambda>s. length (filter (\<lambda>r. visible_to c r \<and> tk_status r = s) table))
      in filter (\<lambda>(s, k). k > 0) (map (\<lambda>s. (s, n s)) TICKET_STATES))"

subsection \<open>Intake\<close>

definition SUBJECT_MAX :: nat where
  "SUBJECT_MAX = 200"

definition BODY_MAX :: nat where
  "BODY_MAX = 8000"

definition trimmed_text :: "jsval \<Rightarrow> jstr" where
  "trimmed_text v = (case v of JStr s \<Rightarrow> js_trim s | _ \<Rightarrow> [])"

definition validateDraft :: "jsval \<Rightarrow> jsval \<Rightarrow> desk_error + (jstr \<times> jstr)" where
  "validateDraft subject body =
     (let s = trimmed_text subject; b = trimmed_text body
      in if s = [] then Inl (App E_FIELD_INVALID 400)
         else if length s > SUBJECT_MAX then Inl (App E_FIELD_INVALID 400)
         else if b = [] then Inl (App E_FIELD_INVALID 400)
         else if length b > BODY_MAX then Inl (App E_FIELD_INVALID 400)
         else Inr (s, b))"

record intake_outcome =
  tracking_id :: jstr
  ack_status :: ticket_state
  ack_subject :: jstr
  ack_created_at :: jstr
  acknowledgement :: jstr
  was_collapsed :: bool

definition acknowledge :: "ticket \<Rightarrow> bool \<Rightarrow> intake_outcome" where
  "acknowledge t folded =
     \<lparr>tracking_id = id_of t, ack_status = status_of t, ack_subject = subject_of t,
      ack_created_at = created_at_of t,
      acknowledgement = u ''Ticket received. Your tracking number is '' @ id_of t @ u ''.'',
      was_collapsed = folded\<rparr>"

text \<open>The live tickets of a digest a session sees, and the one \<open>order by \<dots> limit 1\<close> picks.\<close>

definition live_with_digest :: "claims \<Rightarrow> jstr \<Rightarrow> ticket_row \<Rightarrow> bool" where
  "live_with_digest c sha r =
     (visible_to c r \<and> tk_body_sha256 r = Some sha \<and> tk_status r \<notin> {RESOLVED, CLOSED})"

definition later :: "ticket_row \<Rightarrow> ticket_row \<Rightarrow> bool" where
  "later a b = (tk_created b < tk_created a \<or> tk_created a = tk_created b \<and> tk_id b < tk_id a)"

definition latest :: "ticket_row list \<Rightarrow> ticket_row option" where
  "latest rows =
     foldl (\<lambda>best r. case best of None \<Rightarrow> Some r | Some b \<Rightarrow> if later r b then Some r else best) None rows"

definition find_incumbent :: "claims \<Rightarrow> jstr \<Rightarrow> ticket_table \<Rightarrow> ticket_row option" where
  "find_incumbent c sha table = latest (filter (live_with_digest c sha) table)"

definition read_incumbent :: "claims \<Rightarrow> jstr \<Rightarrow> (ticket_table, desk_error, ticket_row option) action" where
  "read_incumbent c sha table = (table, Inr (find_incumbent c sha table))"

definition incumbentOf :: "ticket_row \<Rightarrow> dedupe_incumbent" where
  "incumbentOf r = \<lparr>inc_id = tk_id r, inc_anchor = Fin (of_int (ms_of (tk_created r))), inc_open = True\<rparr>"

definition account_of :: "desk_env \<Rightarrow> jstr \<Rightarrow> desk_error + jstr" where
  "account_of env org =
     (case sort (map snd (filter (\<lambda>a. fst a = org) (accounts env))) of
        [] \<Rightarrow> Inl (App E_NO_ACCOUNT_FOR_ORG 409)
      | [a] \<Rightarrow> Inr a
      | _ \<Rightarrow> Inl (App E_ACCOUNT_AMBIGUOUS 409))"

definition new_ticket :: "desk_env \<Rightarrow> claims \<Rightarrow> jstr \<Rightarrow> jstr \<Rightarrow> jstr \<Rightarrow> jstr \<Rightarrow> jstr \<Rightarrow> ticket_row" where
  "new_ticket env c customer account subject body key =
     \<lparr>tk_id = fresh_id env, tk_org = cl_org c, tk_account = account, tk_customer = customer,
      tk_subject = subject, tk_body_raw = body, tk_body_redacted = None,
      tk_created = 1000 * ms_of (clock_us env), tk_status = NEW, tk_category = None, tk_severity = None,
      tk_sentiment = None, tk_confidence = None, tk_sla_policy = None, tk_sla_due = None,
      tk_retries = Some 0, tk_priority = None, tk_escalation_reason = None, tk_escalation_clause = None,
      tk_body_sha256 = Some (body_digest env body), tk_dedupe_key = Some key\<rparr>"

definition insert_ticket ::
    "desk_env \<Rightarrow> ticket_row \<Rightarrow> (ticket_table, desk_error, ticket_row) action" where
  "insert_ticket env r table =
     (if \<exists>x \<in> set table. tk_id x = tk_id r then (table, Inl Database)
      else if \<exists>x \<in> set table. tk_org x = tk_org r \<and> tk_dedupe_key x \<noteq> None \<and> tk_dedupe_key x = tk_dedupe_key r
      then (table, Inl Dedupe_Key_Conflict)
      else (table @ [r], Inr r))"

text \<open>The transaction of the intake: the account, the incumbent, the decision, the insert.\<close>

definition file_or_fold ::
    "desk_env \<Rightarrow> claims \<Rightarrow> jstr \<Rightarrow> jstr \<Rightarrow> (ticket_table, desk_error, intake_outcome) action" where
  "file_or_fold env c subject body =
     (let sha = body_digest env body; now = Fin (of_int (ms_of (clock_us env)))
      in then_do (lift_err (account_of env (cl_org c))) (\<lambda>account.
         then_do (read_incumbent c sha) (\<lambda>held.
           let decision = dedupeDecision
                 \<lparr>sub_id = u ''pending'', orgId = cl_org c, bodySha256 = sha, sub_createdAt = now\<rparr>
                 (map_option incumbentOf held) DEFAULT_DEDUPE_WINDOW_MS
           in case (d_collapse decision, held) of
                (True, Some r) \<Rightarrow> ret (acknowledge (toTicket r) True)
              | _ \<Rightarrow>
                  (case cl_sub c of
                     None \<Rightarrow> fail Database
                   | Some customer \<Rightarrow>
                       then_do (insert_ticket env (new_ticket env c customer account subject body (d_key decision)))
                         (\<lambda>r. ret (acknowledge (toTicket r) False))))))"

definition createTicket ::
    "desk_env \<Rightarrow> claims \<Rightarrow> jstr \<Rightarrow> jstr \<Rightarrow> (ticket_table, desk_error, intake_outcome) action" where
  "createTicket env c subject body table =
     (case file_or_fold env c subject body table of
        (table', Inl e) \<Rightarrow>
          if e = Dedupe_Key_Conflict then
            then_do (read_incumbent c (body_digest env body)) (\<lambda>held. case held of
              Some r \<Rightarrow> ret (acknowledge (toTicket r) True)
            | None \<Rightarrow> fail e) table'
          else (table', Inl e)
      | (table', Inr x) \<Rightarrow> (table', Inr x))"

subsection \<open>The transition of a person\<close>

text \<open>
  \<open>others\<close> is what concurrent sessions commit between the read and the update of this one; the
  update is a compare-and-set on the state that was read.
\<close>

definition transitionTicket ::
    "desk_env \<Rightarrow> (ticket_table \<Rightarrow> ticket_table) \<Rightarrow> claims \<Rightarrow> jstr \<Rightarrow> ticket_state
      \<Rightarrow> (ticket_table, desk_error, ticket) action" where
  "transitionTicket env others c ticketId to =
     then_do (guard (cl_role c = Some Agent \<or> cl_role c = Some Supervisor) (App E_ROLE_NOT_PERMITTED 403)) (\<lambda>_.
     then_do (readOne c ticketId) (\<lambda>current. case current of
       None \<Rightarrow> fail (App E_TICKET_NOT_VISIBLE 404)
     | Some row \<Rightarrow>
         (case findTransition (tk_status row) to of
            None \<Rightarrow> fail (App E_TRANSITION_ILLEGAL 409)
          | Some t \<Rightarrow>
              then_do (guard (isGuardAvailable t) (App E_TRANSITION_GUARD_UNAVAILABLE 409)) (\<lambda>_.
              then_do (guard (case (tr_requiresRole t, cl_role c) of
                                (Some roles, Some role) \<Rightarrow> role \<in> set roles | _ \<Rightarrow> True)
                         (App E_ROLE_NOT_PERMITTED 403)) (\<lambda>_.
              then_do (change others) (\<lambda>_.
              in_transaction (then_do (update_ticket env c ticketId (tk_status row) (\<lambda>r. r\<lparr>tk_status := to\<rparr>)) (\<lambda>applied.
              case applied of
                [r] \<Rightarrow> ret (toTicket r)
              | _ \<Rightarrow> fail (App E_TRANSITION_STALE 409)))))))))"

subsection \<open>The transition of a component\<close>

text \<open>A value a component writes into a column; one of a type the column refuses is an error.\<close>

datatype column_value = V_Null | V_Text jstr | V_Int int | V_Time int

definition ASSIGNABLE_COLUMNS :: "jstr list" where
  "ASSIGNABLE_COLUMNS = map u
     [''category'', ''severity'', ''sentiment'', ''confidence'', ''body_redacted'', ''sla_policy_id'',
      ''sla_due_at'', ''priority'', ''escalation_reason'', ''escalation_clause'', ''retries'']"

fun text_value :: "column_value \<Rightarrow> jstr option" where
  "text_value (V_Text s) = Some s"
| "text_value _ = None"

fun int_value :: "column_value \<Rightarrow> int option" where
  "int_value (V_Int n) = Some n"
| "int_value _ = None"

fun time_value :: "column_value \<Rightarrow> int option" where
  "time_value (V_Time t) = Some t"
| "time_value _ = None"

definition value_fits :: "jstr \<Rightarrow> column_value \<Rightarrow> bool" where
  "value_fits col v =
     (v = V_Null
      \<or> (if col = u ''severity'' \<or> col = u ''retries'' then int_value v \<noteq> None
         else if col = u ''sla_due_at'' then time_value v \<noteq> None
         else text_value v \<noteq> None))"

definition set_column :: "jstr \<Rightarrow> column_value \<Rightarrow> ticket_row \<Rightarrow> ticket_row" where
  "set_column col v r =
     (if col = u ''category'' then r\<lparr>tk_category := text_value v\<rparr>
      else if col = u ''severity'' then r\<lparr>tk_severity := int_value v\<rparr>
      else if col = u ''sentiment'' then r\<lparr>tk_sentiment := text_value v\<rparr>
      else if col = u ''confidence'' then r\<lparr>tk_confidence := text_value v\<rparr>
      else if col = u ''body_redacted'' then r\<lparr>tk_body_redacted := text_value v\<rparr>
      else if col = u ''sla_policy_id'' then r\<lparr>tk_sla_policy := text_value v\<rparr>
      else if col = u ''sla_due_at'' then r\<lparr>tk_sla_due := time_value v\<rparr>
      else if col = u ''priority'' then r\<lparr>tk_priority := text_value v\<rparr>
      else if col = u ''escalation_reason'' then r\<lparr>tk_escalation_reason := text_value v\<rparr>
      else if col = u ''escalation_clause'' then r\<lparr>tk_escalation_clause := text_value v\<rparr>
      else if col = u ''retries'' then r\<lparr>tk_retries := int_value v\<rparr>
      else r)"

definition assign_columns :: "(jstr \<times> column_value) list \<Rightarrow> ticket_row \<Rightarrow> ticket_row" where
  "assign_columns assign r = foldl (\<lambda>r (col, v). set_column col v r) r assign"

record component_transition =
  ct_ticket :: jstr
  ct_from :: ticket_state
  ct_to :: ticket_state
  ct_owner :: guard_owner
  ct_assign :: "(jstr \<times> column_value) list"

definition NEVER_A_COMPONENT :: "guard_owner list" where
  "NEVER_A_COMPONENT = [Console, Approval_Constraint, Reopen_Window]"

definition applyComponentTransitionOn ::
    "desk_env \<Rightarrow> claims \<Rightarrow> component_transition \<Rightarrow> (ticket_table, desk_error, unit) action" where
  "applyComponentTransitionOn env c ct =
     then_do (guard (ct_owner ct \<notin> set NEVER_A_COMPONENT) Programmer) (\<lambda>_.
     case findTransition (ct_from ct) (ct_to ct) of
       None \<Rightarrow> fail (App E_TRANSITION_ILLEGAL 409)
     | Some t \<Rightarrow>
         then_do (guard (tr_guardedBy t = ct_owner ct) Programmer) (\<lambda>_.
         then_do (guard (list_all (\<lambda>(col, _). col \<in> set ASSIGNABLE_COLUMNS) (ct_assign ct)) Programmer) (\<lambda>_.
         then_do (guard (list_all (\<lambda>(col, v). value_fits col v) (ct_assign ct)) Database) (\<lambda>_.
         then_do (update_ticket env c (ct_ticket ct) (ct_from ct)
                    (\<lambda>r. (assign_columns (ct_assign ct) r)\<lparr>tk_status := ct_to ct\<rparr>)) (\<lambda>applied.
         guard (length applied = 1) (App E_TRANSITION_STALE 409))))))"

text \<open>Several edges on one client, as a runner takes them in the transaction it holds.\<close>

fun take_all ::
    "desk_env \<Rightarrow> claims \<Rightarrow> component_transition list \<Rightarrow> (ticket_table, desk_error, unit) action" where
  "take_all env c [] = ret ()"
| "take_all env c (ct # cts) = then_do (applyComponentTransitionOn env c ct) (\<lambda>_. take_all env c cts)"

definition applyComponentTransition ::
    "desk_env \<Rightarrow> jstr \<Rightarrow> component_transition \<Rightarrow> (ticket_table, desk_error, unit) action" where
  "applyComponentTransition env org ct = in_transaction (applyComponentTransitionOn env (componentClaims org) ct)"

end
