(* ===== verification/Ticket_Safety.thy ===== *)
theory Ticket_Safety
  imports Tickets
begin

section \<open>What the ticket operations keep\<close>

text \<open>
  The lemmas of \<open>Tickets\<close>: what one compare-and-set does to the rows, what every operation keeps
  of a row predicate (\<open>rows_keep\<close>) and of the rows of other tenants (\<open>foreign\<close>), and that an
  answer depends on the tenant's own rows (\<open>local_to\<close>).
\<close>

subsection \<open>The compare-and-set\<close>

lemma update_ticket_cases:
  assumes "update_ticket env c k from f t = (t', res)"
  obtains "t' = t" "res = Inl Database"
  | "t' = map (\<lambda>r. if updatable c r \<and> tk_id r = k \<and> tk_status r = from then f r else r) t"
    "res = Inr (map f (filter (\<lambda>r. updatable c r \<and> tk_id r = k \<and> tk_status r = from) t))"
    "\<And>r. r \<in> set t \<Longrightarrow> updatable c r \<Longrightarrow> tk_id r = k \<Longrightarrow> tk_status r = from \<Longrightarrow> row_accepted env (f r)"
  using assms by (auto simp: update_ticket_def Let_def list_all_iff split: if_splits)

lemma set_column_keeps [simp]:
  "tk_id (set_column col v r) = tk_id r" "tk_org (set_column col v r) = tk_org r"
  "tk_customer (set_column col v r) = tk_customer r" "tk_status (set_column col v r) = tk_status r"
  by (simp_all add: set_column_def)

lemma assign_columns_keeps [simp]:
  "tk_id (assign_columns a r) = tk_id r" "tk_org (assign_columns a r) = tk_org r"
  "tk_customer (assign_columns a r) = tk_customer r" "tk_status (assign_columns a r) = tk_status r"
proof -
  have "tk_id (assign_columns a r) = tk_id r \<and> tk_org (assign_columns a r) = tk_org r
    \<and> tk_customer (assign_columns a r) = tk_customer r \<and> tk_status (assign_columns a r) = tk_status r"
    unfolding assign_columns_def by (induction a arbitrary: r) (auto simp: case_prod_beta)
  then show "tk_id (assign_columns a r) = tk_id r" "tk_org (assign_columns a r) = tk_org r"
    "tk_customer (assign_columns a r) = tk_customer r" "tk_status (assign_columns a r) = tk_status r" by simp_all
qed

text \<open>A customer's claims satisfy no update policy: the schema alone refuses the write.\<close>

lemma customer_claims_update_nothing:
  "cl_role c = Some Customer \<Longrightarrow> update_ticket env c k from f t = (t, Inr [])"
  by (simp add: update_ticket_def updatable_def is_staff_def)

subsection \<open>What every row keeps\<close>

text \<open>
  The actions as steps that keep a predicate of the rows, for the reflexive and transitive relation
  \<open>if it holds of every row before, it holds of every row after\<close>.
\<close>

definition all_rows :: "(ticket_row \<Rightarrow> bool) \<Rightarrow> ticket_table \<Rightarrow> ticket_table \<Rightarrow> bool" where
  "all_rows P t t' = ((\<forall>r \<in> set t. P r) \<longrightarrow> (\<forall>r \<in> set t'. P r))"

interpretation rows_keep: step_relation "all_rows P" for P
  by unfold_locales (auto simp: all_rows_def)

definition foreign :: "jstr \<Rightarrow> ticket_table \<Rightarrow> ticket_table" where
  "foreign org t = filter (\<lambda>r. tk_org r \<noteq> org) t"

interpretation others_kept: step_relation "\<lambda>t t'. foreign org t = foreign org t'" for org
  by unfold_locales auto

lemma reads_keep [simp]:
  "rows_keep.keeps P (readOne c k)" "rows_keep.keeps P (read_incumbent c sha)"
  "others_kept.keeps org (readOne c k)" "others_kept.keeps org (read_incumbent c sha)"
  by (simp_all add: rows_keep.keeps_def others_kept.keeps_def readOne_def read_incumbent_def all_rows_def)

lemma update_keeps_rows:
  assumes "\<And>r. P r \<Longrightarrow> tk_status r = from \<Longrightarrow> row_accepted env (f r) \<Longrightarrow> P (f r)"
  shows "rows_keep.keeps P (update_ticket env c k from f)"
  unfolding rows_keep.keeps_def all_rows_def
proof (intro allI impI ballI)
  fix t r
  assume t: "\<forall>r \<in> set t. P r" and r: "r \<in> set (fst (update_ticket env c k from f t))"
  obtain t' res where e: "update_ticket env c k from f t = (t', res)" by fastforce
  then show "P r"
    by (cases rule: update_ticket_cases) (use t r e assms in auto)
qed

lemma update_keeps_foreign:
  assumes "\<And>r. tk_org (f r) = tk_org r" "cl_org c = org"
  shows "others_kept.keeps org (update_ticket env c k from f)"
  unfolding others_kept.keeps_def
proof
  fix t
  have "filter (\<lambda>r. tk_org r \<noteq> org) (map (\<lambda>r. if updatable c r \<and> tk_id r = k \<and> tk_status r = from then f r else r) t)
      = filter (\<lambda>r. tk_org r \<noteq> org) t"
    by (induction t) (auto simp: assms updatable_def visible_to_def)
  then show "foreign org t = foreign org (fst (update_ticket env c k from f t))"
    by (simp add: update_ticket_def Let_def foreign_def)
qed

lemma guarded_edge:
  "findTransition from to = Some t \<Longrightarrow> tr_guardedBy t \<notin> {Console, Approval_Constraint, Reopen_Window}
    \<Longrightarrow> to \<notin> {SENT, REOPENED, RESOLVED, CLOSED}"
  using edge_into(1,5,7,8) [of "from" "to" t] by auto

subsection \<open>A resolved ticket was escalated\<close>

text \<open>What holds of every row of a table the operations of this program have written.\<close>

definition row_legal :: "ticket_row \<Rightarrow> bool" where
  "row_legal r =
     (tk_status r \<notin> {SENT, REOPENED}
      \<and> (tk_status r \<in> {ESCALATED, RESOLVED, CLOSED}
          \<longrightarrow> tk_escalation_reason r \<noteq> None \<and> tk_escalation_clause r \<noteq> None))"

lemma component_keeps_legal: "rows_keep.keeps row_legal (applyComponentTransitionOn env c ct)"
proof -
  have step: "row_legal (f\<lparr>tk_status := ct_to ct\<rparr>)"
    if "findTransition (ct_from ct) (ct_to ct) = Some t" "tr_guardedBy t = ct_owner ct"
      "ct_owner ct \<notin> set NEVER_A_COMPONENT" "row_accepted env (f\<lparr>tk_status := ct_to ct\<rparr>)" for f t
    using guarded_edge [OF that(1)] that
    by (auto simp: row_legal_def NEVER_A_COMPONENT_def row_accepted_def ticket_checks_def)
  show ?thesis
    unfolding applyComponentTransitionOn_def guard_def
    by (auto split: option.split intro!: rows_keep.keeps_then_do update_keeps_rows step)
qed

subsection \<open>The transition of a person, case by case\<close>

lemma transition_ticket_cases:
  assumes "transitionTicket env others c k to t = (t', res)"
  obtains (refused) e where "t' = t" "res = Inl e"
  | (stale) e where "t' = others t" "res = Inl e"
  | (taken) row tr r where "is_staff c" "row \<in> set t" "visible_to c row" "tk_id row = k"
      "findTransition (tk_status row) to = Some tr" "isAvailableTo tr (the (cl_role c))"
      "update_ticket env c k (tk_status row) (\<lambda>r. r\<lparr>tk_status := to\<rparr>) (others t) = (t', Inr [r])"
      "res = Inr (toTicket r)"
proof -
  show thesis
  proof (cases "is_staff c")
    case False
    then show thesis
      using assms refused by (auto simp: transitionTicket_def is_staff_def then_do_def guard_def fail_def)
  next
    case True
    show thesis
    proof (cases "List.find (\<lambda>r. visible_to c r \<and> tk_id r = k) t")
      case None
      with True show thesis
        using assms refused by (auto simp: transitionTicket_def is_staff_def then_do_def action_run readOne_def)
    next
      case (Some row)
      then have row: "row \<in> set t" "visible_to c row" "tk_id row = k" by (auto simp: find_Some_iff)
      show thesis
      proof (cases "findTransition (tk_status row) to")
        case None
        with True Some show thesis
          using assms refused by (auto simp: transitionTicket_def is_staff_def then_do_def action_run readOne_def)
      next
        case (Some tr)
        show thesis
        proof (cases "isAvailableTo tr (the (cl_role c))")
          case False
          with True Some \<open>List.find _ t = Some row\<close> show thesis
            using assms refused
            by (auto simp: transitionTicket_def is_staff_def then_do_def action_run readOne_def isAvailableTo_def
                split: option.splits if_splits)
        next
          case av: True
          let ?m = "then_do (update_ticket env c k (tk_status row) (\<lambda>r. r\<lparr>tk_status := to\<rparr>)) (\<lambda>applied.
              case applied of [r] \<Rightarrow> ret (toTicket r) | _ \<Rightarrow> fail (App E_TRANSITION_STALE 409))"
          have "transitionTicket env others c k to t = in_transaction ?m (others t)"
            using av True Some \<open>List.find _ t = Some row\<close>
            by (auto simp: transitionTicket_def is_staff_def then_do_def action_run readOne_def isAvailableTo_def
                split: option.splits if_splits)
          with assms have "in_transaction ?m (others t) = (t', res)" by simp
          then show thesis
          proof (cases rule: in_transaction_cases)
            case (1 e)
            then show thesis by (rule stale)
          next
            case (2 x)
            then obtain s1 applied where "update_ticket env c k (tk_status row) (\<lambda>r. r\<lparr>tk_status := to\<rparr>) (others t) = (s1, Inr applied)"
              "(case applied of [r] \<Rightarrow> ret (toTicket r) | _ \<Rightarrow> fail (App E_TRANSITION_STALE 409)) s1 = (t', Inr x)"
              unfolding then_do_Inr by blast
            with 2 show thesis
              using taken [OF True row Some av]
              by (cases applied; cases "tl applied") (auto simp: action_run)
          qed
        qed
      qed
    qed
  qed
qed

lemma console_keeps_legal:
  assumes "\<forall>r \<in> set t. row_legal r" "\<forall>r \<in> set (others t). row_legal r"
    and e: "transitionTicket env others c k to t = (t', res)"
  shows "\<forall>r \<in> set t'. row_legal r"
  using e
proof (cases rule: transition_ticket_cases)
  case (taken row tr r)
  have "tr_guardedBy tr = Console" using taken(6) by (simp add: isAvailableTo_def isGuardAvailable_def split: if_splits)
  then have edge: "(tk_status row = SENT \<and> to = RESOLVED) \<or> (tk_status row = RESOLVED \<and> to = CLOSED)
      \<or> (tk_status row = ESCALATED \<and> to = RESOLVED)"
    using console_edge [OF taken(5)] by blast
  have "rows_keep.keeps row_legal (update_ticket env c k (tk_status row) (\<lambda>r. r\<lparr>tk_status := to\<rparr>))"
    by (rule update_keeps_rows) (use edge in \<open>auto simp: row_legal_def\<close>)
  with taken(7) assms(2) show ?thesis by (auto simp: rows_keep.keeps_def all_rows_def)
qed (use assms in auto)

subsection \<open>Every table the operations can reach\<close>

lemma take_all_keeps: "(\<And>ct. rows_keep.keeps P (applyComponentTransitionOn env c ct)) \<Longrightarrow> rows_keep.keeps P (take_all env c cts)"
  by (induction cts) (auto intro!: rows_keep.keeps_then_do)

lemma insert_keeps_rows: "P r \<Longrightarrow> rows_keep.keeps P (insert_ticket env r)"
  by (auto simp: rows_keep.keeps_def all_rows_def insert_ticket_def)

lemma new_ticket_legal: "row_legal (new_ticket env c customer account s b key)"
  by (simp add: row_legal_def new_ticket_def)

lemma file_or_fold_keeps_legal: "rows_keep.keeps row_legal (file_or_fold env c s b)"
  unfolding file_or_fold_def Let_def
  by (auto intro!: rows_keep.keeps_then_do insert_keeps_rows new_ticket_legal split: option.split bool.split)

lemma create_ticket_table: "fst (createTicket env c s b t) = fst (file_or_fold env c s b t)"
  by (auto simp: createTicket_def then_do_def read_incumbent_def action_run split: prod.splits sum.splits option.splits)

text \<open>
  The tables that can be reached from the empty one: submissions, transitions of people (with whatever
  other sessions commit in between, itself reachable) and transactions of components, each with any
  clock, any approvals and any arguments.
\<close>

inductive reached :: "ticket_table \<Rightarrow> bool" where
  none: "reached []"
| filed: "reached t \<Longrightarrow> reached (fst (createTicket env c s b t))"
| moved: "reached t \<Longrightarrow> reached (others t) \<Longrightarrow> reached (fst (transitionTicket env others c k to t))"
| taken: "reached t \<Longrightarrow> reached (fst (in_transaction (take_all env (componentClaims org) cts) t))"

text \<open>
  C21: In every table the operations of this program reach, no ticket is SENT or REOPENED (nothing
  here holds the approval that SENT asks for, and no component may claim it), and every ticket that is
  escalated, resolved or closed carries the reason and the clause of its escalation: a ticket can be
  closed only after it was escalated to a person, and the record of why survives the closing.
\<close>

theorem closed_tickets_were_escalated:
  assumes "reached t" "r \<in> set t"
  shows "tk_status r \<notin> {SENT, REOPENED}
    \<and> (tk_status r \<in> {ESCALATED, RESOLVED, CLOSED}
        \<longrightarrow> tk_escalation_reason r \<noteq> None \<and> tk_escalation_clause r \<noteq> None)"
proof -
  from assms(1) have "\<forall>r \<in> set t. row_legal r"
  proof induction
    case (filed t env c s b)
    then show ?case
      using file_or_fold_keeps_legal by (simp add: create_ticket_table rows_keep.keeps_def all_rows_def)
  next
    case (moved t others env c k d)
    obtain t' res where "transitionTicket env others c k d t = (t', res)" by fastforce
    with console_keeps_legal [of t others] moved.IH show ?case by simp
  next
    case (taken t env org cts)
    have "rows_keep.keeps row_legal (in_transaction (take_all env (componentClaims org) cts))"
      by (intro rows_keep.keeps_in_transaction take_all_keeps component_keeps_legal)
    with taken.IH show ?case by (simp add: rows_keep.keeps_def all_rows_def)
  qed (simp add: none)
  with assms(2) show ?thesis by (simp add: row_legal_def)
qed


definition sample_desk :: desk_env where
  "sample_desk =
     \<lparr>approved_and_sent = (\<lambda>_. False), grounded_response = (\<lambda>_. False), numeric_accepts = (\<lambda>_ _. True),
      accounts = [(u ''org-a'', u ''acc-1'')], clock_us = 5000, fresh_id = u ''t-1'', body_digest = (\<lambda>b. b)\<rparr>"

definition sample_customer :: claims where
  "sample_customer = \<lparr>cl_org = u ''org-a'', cl_role = Some Customer, cl_sub = Some (u ''cust'')\<rparr>"

definition sample_supervisor :: claims where
  "sample_supervisor = \<lparr>cl_org = u ''org-a'', cl_role = Some Supervisor, cl_sub = Some (u ''sup'')\<rparr>"

definition sample_escalation_edge :: component_transition where
  "sample_escalation_edge =
     \<lparr>ct_ticket = u ''t-1'', ct_from = NEW, ct_to = ESCALATED, ct_owner = Escalation_Rule,
      ct_assign = [(u ''escalation_reason'', V_Text (u ''SLA'')), (u ''escalation_clause'', V_Text (u ''sla''))]\<rparr>"

text \<open>A ticket filed, escalated by the rule, resolved and closed by a supervisor.\<close>

definition sample_filed :: ticket_table where
  "sample_filed = fst (createTicket sample_desk sample_customer (u ''help'') (u ''body'') [])"

definition sample_escalated :: ticket_table where
  "sample_escalated =
     fst (in_transaction (take_all sample_desk (componentClaims (u ''org-a'')) [sample_escalation_edge]) sample_filed)"

definition sample_moved :: "ticket_state \<Rightarrow> ticket_table \<Rightarrow> ticket_table" where
  "sample_moved d t = fst (transitionTicket sample_desk (\<lambda>t. t) sample_supervisor (u ''t-1'') d t)"

definition sample_closed :: ticket_table where
  "sample_closed = sample_moved CLOSED (sample_moved RESOLVED sample_escalated)"

lemma sample_closed_reached: "reached sample_closed"
  unfolding sample_closed_def sample_moved_def sample_escalated_def sample_filed_def
  by (intro reached.moved reached.taken reached.filed reached.none)

lemma sample_filed_eq:
  "\<exists>key. sample_filed = [new_ticket sample_desk sample_customer (u ''cust'') (u ''acc-1'') (u ''help'') (u ''body'') key]"
  by (rule exI [of _ "dedupeKey (u ''org-a'') (u ''body'') (Fin (rat_of_int (ms_of 5000)))"])
    (simp add: sample_filed_def createTicket_def file_or_fold_def Let_def then_do_def action_run account_of_def
      sample_desk_def sample_customer_def read_incumbent_def find_incumbent_def latest_def dedupeDecision_def
      insert_ticket_def)

lemma sample_escalated_eq:
  "\<exists>key. sample_escalated =
     [(new_ticket sample_desk sample_customer (u ''cust'') (u ''acc-1'') (u ''help'') (u ''body'') key)
        \<lparr>tk_status := ESCALATED, tk_escalation_reason := Some (u ''SLA''), tk_escalation_clause := Some (u ''sla'')\<rparr>]"
proof -
  obtain t where t: "findTransition NEW ESCALATED = Some t" "tr_guardedBy t = Escalation_Rule"
    using every_state_escalates [of NEW] edge_into(6) by auto
  obtain key where key:
    "sample_filed = [new_ticket sample_desk sample_customer (u ''cust'') (u ''acc-1'') (u ''help'') (u ''body'') key]"
    using sample_filed_eq by blast
  show ?thesis
    by (rule exI [of _ key])
      (simp add: sample_escalated_def key in_transaction_def applyComponentTransitionOn_def then_do_def action_run t
        sample_escalation_edge_def NEVER_A_COMPONENT_def ASSIGNABLE_COLUMNS_def value_fits_def update_ticket_def
        Let_def updatable_def visible_to_def is_staff_def componentClaims_def COMPONENT_ROLE_def new_ticket_def
        sample_customer_def sample_desk_def row_accepted_def ticket_checks_def evidence_ok_def
        ESCALATION_REASON_TEXTS_def assign_columns_def set_column_def)
qed

lemmas sample_run = transitionTicket_def then_do_def action_run isGuardAvailable_def sample_supervisor_def
  readOne_def visible_to_def is_staff_def in_transaction_def update_ticket_def Let_def updatable_def new_ticket_def
  sample_customer_def sample_desk_def row_accepted_def ticket_checks_def evidence_ok_def ESCALATION_REASON_TEXTS_def

lemma sample_edges:
  obtains t t' where "findTransition ESCALATED RESOLVED = Some t" "tr_guardedBy t = Console" "tr_requiresRole t = Some [Supervisor]"
    "findTransition RESOLVED CLOSED = Some t'" "tr_guardedBy t' = Console" "tr_requiresRole t' = None"
  by (auto simp: findTransition_def TRANSITIONS_def)

lemma sample_closed_status: "map tk_status sample_closed = [CLOSED]"
proof -
  obtain t t' where t: "findTransition ESCALATED RESOLVED = Some t" "tr_guardedBy t = Console" "tr_requiresRole t = Some [Supervisor]"
    "findTransition RESOLVED CLOSED = Some t'" "tr_guardedBy t' = Console" "tr_requiresRole t' = None"
    by (rule sample_edges)
  obtain key where key: "sample_escalated =
     [(new_ticket sample_desk sample_customer (u ''cust'') (u ''acc-1'') (u ''help'') (u ''body'') key)
        \<lparr>tk_status := ESCALATED, tk_escalation_reason := Some (u ''SLA''), tk_escalation_clause := Some (u ''sla'')\<rparr>]"
    using sample_escalated_eq by blast
  show ?thesis by (simp add: sample_closed_def sample_moved_def key t sample_run)
qed

lemma sample_resolution_accepted:
  "\<exists>seen. snd (transitionTicket sample_desk (\<lambda>t. t) sample_supervisor (u ''t-1'') RESOLVED sample_escalated) = Inr seen"
proof -
  obtain t t' where t: "findTransition ESCALATED RESOLVED = Some t" "tr_guardedBy t = Console" "tr_requiresRole t = Some [Supervisor]"
    "findTransition RESOLVED CLOSED = Some t'" "tr_guardedBy t' = Console" "tr_requiresRole t' = None"
    by (rule sample_edges)
  obtain key where key: "sample_escalated =
     [(new_ticket sample_desk sample_customer (u ''cust'') (u ''acc-1'') (u ''help'') (u ''body'') key)
        \<lparr>tk_status := ESCALATED, tk_escalation_reason := Some (u ''SLA''), tk_escalation_clause := Some (u ''sla'')\<rparr>]"
    using sample_escalated_eq by blast
  show ?thesis by (simp add: key t sample_run)
qed

theorem closed_tickets_were_escalated_witness:
  "tk_status (hd sample_closed) = CLOSED \<and> tk_escalation_reason (hd sample_closed) \<noteq> None"
proof -
  obtain x where x: "sample_closed = [x]" "tk_status x = CLOSED"
    using sample_closed_status by (auto simp: map_eq_Cons_conv)
  have r: "hd sample_closed \<in> set sample_closed \<and> tk_status (hd sample_closed) = CLOSED"
    unfolding x(1) using x(2) by simp
  from closed_tickets_were_escalated [OF sample_closed_reached conjunct1 [OF r]] r show ?thesis by simp
qed


subsection \<open>Tenants\<close>

text \<open>
  An action is local to a tenant, on the tables \<open>D\<close> admits, when its answer and what it makes of
  the tenant's rows are the same whatever the other tenants' rows are.
\<close>

definition own :: "jstr \<Rightarrow> ticket_table \<Rightarrow> ticket_table" where
  "own org t = filter (\<lambda>r. tk_org r = org) t"

definition local_on ::
    "(ticket_table \<Rightarrow> bool) \<Rightarrow> jstr \<Rightarrow> (ticket_table, desk_error, 'a) action \<Rightarrow> bool" where
  "local_on D org m \<longleftrightarrow>
     (\<forall>t1 t2. D t1 \<longrightarrow> D t2 \<longrightarrow> own org t1 = own org t2 \<longrightarrow>
        snd (m t1) = snd (m t2) \<and> own org (fst (m t1)) = own org (fst (m t2)))"

lemma local_simple [simp]:
  "local_on D org (ret x)" "local_on D org (fail e)" "local_on D org (lift_err r)" "local_on D org (guard ok e)"
  by (simp_all add: local_on_def action_run)

lemma local_onI:
  "(\<And>t1 t2. D t1 \<Longrightarrow> D t2 \<Longrightarrow> own org t1 = own org t2 \<Longrightarrow>
      snd (m t1) = snd (m t2) \<and> own org (fst (m t1)) = own org (fst (m t2))) \<Longrightarrow> local_on D org m"
  unfolding local_on_def by blast

lemma local_onD:
  assumes "local_on D org m" "D t1" "D t2" "own org t1 = own org t2" "m t1 = (s1, r1)" "m t2 = (s2, r2)"
  shows "r1 = r2 \<and> own org s1 = own org s2"
proof -
  have "snd (m t1) = snd (m t2) \<and> own org (fst (m t1)) = own org (fst (m t2))"
    using assms(1-4) unfolding local_on_def by blast
  then show ?thesis by (simp add: assms(5,6))
qed

lemma local_then_do:
  assumes "local_on D org m" "\<And>t. D t \<Longrightarrow> D (fst (m t))" "\<And>x. local_on D org (f x)"
  shows "local_on D org (then_do m f)"
proof (rule local_onI)
  fix t1 t2
  assume D: "D t1" "D t2" and eq: "own org t1 = own org t2"
  obtain s1 r1 s2 r2 where e: "m t1 = (s1, r1)" "m t2 = (s2, r2)" by fastforce
  have D': "D s1" "D s2" using assms(2) [OF D(1)] assms(2) [OF D(2)] by (simp_all add: e)
  have r: "r1 = r2" "own org s1 = own org s2" using local_onD [OF assms(1) D eq e] by simp_all
  show "snd (then_do m f t1) = snd (then_do m f t2)
      \<and> own org (fst (then_do m f t1)) = own org (fst (then_do m f t2))"
  proof (cases r2)
    case (Inr x)
    obtain w1 v1 w2 v2 where f: "f x s1 = (w1, v1)" "f x s2 = (w2, v2)" by fastforce
    from local_onD [OF assms(3) D' r(2) f] show ?thesis by (simp add: then_do_def e r(1) Inr f)
  qed (simp add: then_do_def e r)
qed

lemma local_in_transaction:
  assumes "local_on D org m" shows "local_on D org (in_transaction m)"
proof (rule local_onI)
  fix t1 t2
  assume D: "D t1" "D t2" and eq: "own org t1 = own org t2"
  obtain s1 r1 s2 r2 where e: "m t1 = (s1, r1)" "m t2 = (s2, r2)" by fastforce
  from local_onD [OF assms D eq e] show "snd (in_transaction m t1) = snd (in_transaction m t2)
      \<and> own org (fst (in_transaction m t1)) = own org (fst (in_transaction m t2))"
    by (cases r2) (simp_all add: in_transaction_def e eq)
qed

lemma filter_own:
  assumes "\<And>r. P r \<Longrightarrow> tk_org r = org" "own org t1 = own org t2"
  shows "filter P t1 = filter P t2"
proof -
  have e: "filter P t = filter P (own org t)" for t
    unfolding own_def using assms(1) by (induction t) auto
  show ?thesis unfolding e [of t1] e [of t2] assms(2) ..
qed

lemma find_filter: "List.find P t = (case filter P t of [] \<Rightarrow> None | r # _ \<Rightarrow> Some r)"
  by (induction t) auto

lemma local_readOne: "local_on D (cl_org c) (readOne c k)"
proof (rule local_onI)
  fix t1 t2 assume eq: "own (cl_org c) t1 = own (cl_org c) t2"
  have rows: "filter (\<lambda>r. visible_to c r \<and> tk_id r = k) t1 = filter (\<lambda>r. visible_to c r \<and> tk_id r = k) t2"
    by (rule filter_own [OF _ eq]) (simp add: visible_to_def)
  show "snd (readOne c k t1) = snd (readOne c k t2) \<and> own (cl_org c) (fst (readOne c k t1)) = own (cl_org c) (fst (readOne c k t2))"
    unfolding readOne_def find_filter rows eq by (simp add: eq)
qed

lemma local_read_incumbent: "local_on D (cl_org c) (read_incumbent c sha)"
proof (rule local_onI)
  fix t1 t2 assume eq: "own (cl_org c) t1 = own (cl_org c) t2"
  have rows: "filter (live_with_digest c sha) t1 = filter (live_with_digest c sha) t2"
    by (rule filter_own [OF _ eq]) (simp add: live_with_digest_def visible_to_def)
  show "snd (read_incumbent c sha t1) = snd (read_incumbent c sha t2)
      \<and> own (cl_org c) (fst (read_incumbent c sha t1)) = own (cl_org c) (fst (read_incumbent c sha t2))"
    unfolding read_incumbent_def find_incumbent_def rows by (simp add: eq)
qed

lemma local_update:
  assumes "\<And>r. tk_org (f r) = tk_org r"
  shows "local_on D (cl_org c) (update_ticket env c k from f)"
proof (rule local_onI)
  let ?hit = "\<lambda>r. updatable c r \<and> tk_id r = k \<and> tk_status r = from"
  have map_own: "own (cl_org c) (map (\<lambda>r. if ?hit r then f r else r) t)
      = map (\<lambda>r. if ?hit r then f r else r) (own (cl_org c) t)" for t
    unfolding own_def by (induction t) (auto simp: assms)
  fix t1 t2 assume eq: "own (cl_org c) t1 = own (cl_org c) t2"
  have rows: "filter ?hit t1 = filter ?hit t2"
    by (rule filter_own [OF _ eq]) (simp add: updatable_def visible_to_def)
  show "snd (update_ticket env c k from f t1) = snd (update_ticket env c k from f t2)
      \<and> own (cl_org c) (fst (update_ticket env c k from f t1)) = own (cl_org c) (fst (update_ticket env c k from f t2))"
    unfolding update_ticket_def Let_def rows using eq by (simp add: map_own)
qed

lemma local_insert:
  assumes "tk_org r = org" "\<And>t. D t \<Longrightarrow> tk_id r \<notin> tk_id ` set t"
  shows "local_on D org (insert_ticket env r)"
proof (rule local_onI)
  have key: "(\<exists>x \<in> set t. tk_org x = tk_org r \<and> Q x) \<longleftrightarrow> (\<exists>x \<in> set (own org t). Q x)" for t Q
    using assms(1) by (auto simp: own_def)
  have app: "own org (t @ [r]) = own org t @ [r]" for t using assms(1) by (simp add: own_def)
  fix t1 t2 assume D: "D t1" "D t2" and eq: "own org t1 = own org t2"
  have fresh: "(\<exists>x \<in> set t. tk_id x = tk_id r) = False" if "D t" for t using assms(2) [OF that] by (metis image_eqI)
  show "snd (insert_ticket env r t1) = snd (insert_ticket env r t2)
      \<and> own org (fst (insert_ticket env r t1)) = own org (fst (insert_ticket env r t2))"
    unfolding insert_ticket_def fresh [OF D(1)] fresh [OF D(2)] key eq using eq by (simp add: app)
qed

definition unused :: "desk_env \<Rightarrow> ticket_table \<Rightarrow> bool" where
  "unused env t = (fresh_id env \<notin> tk_id ` set t)"

lemma read_incumbent_same [simp]: "fst (read_incumbent c sha t) = t"
  by (simp add: read_incumbent_def)

lemma local_then_ret: "local_on D org m \<Longrightarrow> local_on D org (then_do m (\<lambda>x. ret (f x)))"
proof (rule local_onI)
  fix t1 t2
  assume m: "local_on D org m" and D: "D t1" "D t2" and eq: "own org t1 = own org t2"
  obtain s1 r1 s2 r2 where e: "m t1 = (s1, r1)" "m t2 = (s2, r2)" by fastforce
  from local_onD [OF m D eq e] show "snd (then_do m (\<lambda>x. ret (f x)) t1) = snd (then_do m (\<lambda>x. ret (f x)) t2)
      \<and> own org (fst (then_do m (\<lambda>x. ret (f x)) t1)) = own org (fst (then_do m (\<lambda>x. ret (f x)) t2))"
    by (cases r2) (simp_all add: then_do_def e action_run)
qed

lemma local_new_ticket:
  "local_on (unused env) (cl_org c)
     (then_do (insert_ticket env (new_ticket env c customer account s b key)) (\<lambda>r. ret (acknowledge (toTicket r) False)))"
  by (intro local_then_ret local_insert) (auto simp: new_ticket_def unused_def)

lemma local_file_or_fold: "local_on (unused env) (cl_org c) (file_or_fold env c s b)"
  unfolding file_or_fold_def Let_def
  by (auto intro!: local_then_do local_read_incumbent local_new_ticket split: option.split bool.split simp: action_run)

text \<open>The second session after a conflict of keys, and the whole intake.\<close>

lemma local_createTicket: "local_on (unused env) (cl_org c) (createTicket env c s b)"
proof (rule local_onI)
  fix t1 t2 assume u: "unused env t1" "unused env t2" and eq: "own (cl_org c) t1 = own (cl_org c) t2"
  obtain s1 r1 s2 r2 where e: "file_or_fold env c s b t1 = (s1, r1)" "file_or_fold env c s b t2 = (s2, r2)" by fastforce
  have r: "r1 = r2" "own (cl_org c) s1 = own (cl_org c) s2"
    using local_onD [OF local_file_or_fold u eq e] by simp_all
  let ?again = "\<lambda>err. then_do (read_incumbent c (body_digest env b)) (\<lambda>held. case held of
      Some r \<Rightarrow> ret (acknowledge (toTicket r) True) | None \<Rightarrow> fail err)"
  have "local_on (\<lambda>_. True) (cl_org c) (?again err)" for err
    by (auto intro!: local_then_do local_read_incumbent split: option.split)
  then have again: "snd (?again err s1) = snd (?again err s2) \<and> own (cl_org c) (fst (?again err s1)) = own (cl_org c) (fst (?again err s2))" for err
    using r(2) unfolding local_on_def by blast
  show "snd (createTicket env c s b t1) = snd (createTicket env c s b t2)
      \<and> own (cl_org c) (fst (createTicket env c s b t1)) = own (cl_org c) (fst (createTicket env c s b t2))"
  proof (cases r2)
    case (Inl err)
    show ?thesis
      using again [of Dedupe_Key_Conflict] r by (auto simp: createTicket_def e Inl)
  qed (simp add: createTicket_def e r)
qed

lemma local_component: "local_on (\<lambda>_. True) (cl_org c) (applyComponentTransitionOn env c ct)"
  unfolding applyComponentTransitionOn_def
  by (auto split: option.split intro!: local_then_do local_update)

lemma local_transition: "local_on (\<lambda>_. True) (cl_org c) (transitionTicket env (\<lambda>t. t) c k d)"
proof -
  have "local_on (\<lambda>_. True) (cl_org c) (change (\<lambda>t. t))" by (simp add: local_on_def action_run)
  then show ?thesis
    unfolding transitionTicket_def
    by (auto split: option.split list.split intro!: local_then_do local_update local_readOne local_in_transaction)
qed

lemma foreign_insert: "tk_org r = org \<Longrightarrow> foreign org (fst (insert_ticket env r t)) = foreign org t"
  by (simp add: insert_ticket_def foreign_def)

lemma file_or_fold_keeps_foreign: "others_kept.keeps (cl_org c) (file_or_fold env c s b)"
proof -
  have "others_kept.keeps (cl_org c) (insert_ticket env (new_ticket env c customer account s b key))"
    for customer account key
    unfolding others_kept.keeps_def by (simp add: foreign_insert new_ticket_def)
  then show ?thesis
    unfolding file_or_fold_def Let_def
    by (auto intro!: others_kept.keeps_then_do split: option.split bool.split)
qed

lemma component_keeps_foreign: "others_kept.keeps (cl_org c) (applyComponentTransitionOn env c ct)"
  unfolding applyComponentTransitionOn_def
  by (auto split: option.split intro!: others_kept.keeps_then_do update_keeps_foreign)

lemma transition_keeps_foreign: "others_kept.keeps (cl_org c) (transitionTicket env (\<lambda>t. t) c k d)"
  unfolding transitionTicket_def
  by (auto split: option.split list.split intro!: others_kept.keeps_then_do others_kept.keeps_change
      others_kept.keeps_in_transaction update_keeps_foreign)

text \<open>
  C22: Tenants neither disturb nor observe one another.  An intake, a console's transition and a
  component's transition under the claims of one organisation leave the rows of every other
  organisation as they were, and their answers and their effect on the organisation's own rows do
  not depend on what the other organisations' rows are (for an intake, while the generated identifier
  is unused).
\<close>

theorem tenants_do_not_interfere:
  "foreign (cl_org c) (fst (createTicket env c s b t)) = foreign (cl_org c) t
    \<and> foreign (cl_org c) (fst (transitionTicket env (\<lambda>t. t) c k d t)) = foreign (cl_org c) t
    \<and> foreign org (fst (applyComponentTransition env org ct t)) = foreign org t
    \<and> local_on (unused env) (cl_org c) (createTicket env c s b)
    \<and> local_on (\<lambda>_. True) (cl_org c) (transitionTicket env (\<lambda>t. t) c k d)
    \<and> local_on (\<lambda>_. True) org (applyComponentTransition env org ct)"
proof (intro conjI)
  show "foreign (cl_org c) (fst (createTicket env c s b t)) = foreign (cl_org c) t"
    using file_or_fold_keeps_foreign [of c env s b] by (simp add: create_ticket_table others_kept.keeps_def)
  show "foreign (cl_org c) (fst (transitionTicket env (\<lambda>t. t) c k d t)) = foreign (cl_org c) t"
    using transition_keeps_foreign [of c env k d] by (simp add: others_kept.keeps_def)
  have org: "cl_org (componentClaims org) = org" by (simp add: componentClaims_def)
  show "foreign org (fst (applyComponentTransition env org ct t)) = foreign org t"
    using others_kept.keeps_in_transaction [OF component_keeps_foreign [of "componentClaims org" env ct]]
    by (simp add: applyComponentTransition_def others_kept.keeps_def org)
  show "local_on (\<lambda>_. True) org (applyComponentTransition env org ct)"
    unfolding applyComponentTransition_def
    using local_in_transaction [OF local_component [of "componentClaims org" env ct]] by (simp add: org)
qed (rule local_createTicket local_transition)+

subsection \<open>What a refusal and an acceptance of a transition mean\<close>

text \<open>
  C23: A console's transition that is refused writes nothing: the table is the one it read, or the one
  other sessions committed in between.  One that is accepted was asked by staff, on a ticket its
  session sees, along a published edge that role may take, and changed exactly the status of exactly
  the rows of that identifier that still were in the state that was read: a ticket that moved in
  between is not overwritten.
\<close>

theorem console_moves_only_what_it_read:
  assumes "transitionTicket env others c k d t = (t', res)"
  shows "case res of
      Inl e \<Rightarrow> t' = t \<or> t' = others t
    | Inr seen \<Rightarrow>
        is_staff c \<and> status_of seen = d \<and>
        (\<exists>row \<in> set t. \<exists>tr. visible_to c row \<and> tk_id row = k
           \<and> findTransition (tk_status row) d = Some tr \<and> isAvailableTo tr (the (cl_role c))
           \<and> (\<exists>now \<in> set (others t). tk_id now = k \<and> tk_status now = tk_status row)
           \<and> t' = map (\<lambda>r. if updatable c r \<and> tk_id r = k \<and> tk_status r = tk_status row
                          then r\<lparr>tk_status := d\<rparr> else r) (others t))"
  using assms
proof (cases rule: transition_ticket_cases)
  case (taken row tr r)
  from taken(7) show ?thesis
  proof (cases rule: update_ticket_cases)
    case 2
    then obtain now where now: "filter (\<lambda>r. updatable c r \<and> tk_id r = k \<and> tk_status r = tk_status row) (others t) = [now]"
        "r = now\<lparr>tk_status := d\<rparr>"
      by (auto simp: map_eq_Cons_conv)
    have "now \<in> set (filter (\<lambda>r. updatable c r \<and> tk_id r = k \<and> tk_status r = tk_status row) (others t))"
      unfolding now(1) by simp
    then have "now \<in> set (others t) \<and> tk_id now = k \<and> tk_status now = tk_status row" by simp
    then show ?thesis
      using taken(1-6,8) 2(1) now(2) by (auto simp: toTicket_def)
  qed simp
qed simp_all

theorem console_moves_only_what_it_read_witness:
  "\<exists>row \<in> set sample_escalated. \<exists>tr. tk_id row = u ''t-1'' \<and> findTransition (tk_status row) RESOLVED = Some tr"
proof -
  obtain t' res where e: "transitionTicket sample_desk (\<lambda>t. t) sample_supervisor (u ''t-1'') RESOLVED sample_escalated = (t', res)"
    by fastforce
  have "\<exists>seen. snd (transitionTicket sample_desk (\<lambda>t. t) sample_supervisor (u ''t-1'') RESOLVED sample_escalated) = Inr seen"
    by (rule sample_resolution_accepted)
  then obtain seen where "res = Inr seen" unfolding e by auto
  with console_moves_only_what_it_read [OF e] have "\<exists>row \<in> set sample_escalated. \<exists>tr. tk_id row = u ''t-1''
      \<and> findTransition (tk_status row) RESOLVED = Some tr"
    by (simp only: sum.case) blast
  then show ?thesis .
qed

subsection \<open>The same words sent again\<close>

lemma foldl_latest_None: "foldl (\<lambda>best r. case best of None \<Rightarrow> Some r | Some b \<Rightarrow> if later r b then Some r else best) None xs = None
    \<longleftrightarrow> xs = []"
  by (induction xs rule: rev_induct) (auto split: option.splits)

lemma latest_in: "latest xs = Some b \<Longrightarrow> b \<in> set xs"
  unfolding latest_def by (induction xs arbitrary: b rule: rev_induct) (auto split: option.splits if_splits)

lemma latest_snoc: "\<forall>x \<in> set xs. tk_created x < tk_created r \<Longrightarrow> latest (xs @ [r]) = Some r"
  using latest_in [of xs] by (auto simp: latest_def later_def split: option.split)

lemma filed_outcome:
  assumes "createTicket env c s b t = (t', Inr out)" "\<not> was_collapsed out"
  obtains r where "t' = t @ [r]" "tracking_id out = tk_id r" "live_with_digest c (body_digest env b) r"
    "tk_created r = 1000 * ms_of (clock_us env)" "\<exists>a. account_of env (cl_org c) = Inr a"
proof -
  from assms have "file_or_fold env c s b t = (t', Inr out)"
    by (auto simp: createTicket_def then_do_def read_incumbent_def action_run acknowledge_def
        split: prod.splits sum.splits option.splits if_splits)
  then have "\<exists>a key customer r. account_of env (cl_org c) = Inr a \<and> cl_sub c = Some customer
      \<and> insert_ticket env (new_ticket env c customer a s b key) t = (t', Inr r) \<and> out = acknowledge (toTicket r) False"
    using assms(2)
    by (auto simp: file_or_fold_def Let_def then_do_Inr action_run read_incumbent_def acknowledge_def
        split: option.splits bool.splits) blast+
  then obtain a key customer r where f: "account_of env (cl_org c) = Inr a" "cl_sub c = Some customer"
      "insert_ticket env (new_ticket env c customer a s b key) t = (t', Inr r)" "out = acknowledge (toTicket r) False"
    by blast
  then show thesis
    using that [of r]
    by (auto simp: insert_ticket_def acknowledge_def toTicket_def live_with_digest_def new_ticket_def visible_to_def
        split: if_splits)
qed

text \<open>
  C32: A customer who sends the same words again within the window gets the same tracking number, and
  nothing is written: after an intake that filed a ticket, with every older row of the table strictly
  before it, a second intake of the same body by the same session up to five minutes later folds into
  that ticket.
\<close>

theorem repeated_words_fold_into_one_ticket:
  assumes "createTicket env c s b t = (t1, Inr out)" "\<not> was_collapsed out"
    and "\<forall>x \<in> set t. tk_created x < 1000 * ms_of (clock_us env)"
    and "accounts env2 = accounts env" "body_digest env2 = body_digest env"
    and "0 \<le> ms_of (clock_us env)" "ms_of (clock_us env) \<le> ms_of (clock_us env2)"
    and "ms_of (clock_us env2) < ms_of (clock_us env) + 5 * 60 * 1000" "ms_of (clock_us env2) \<le> 2 ^ 53"
  shows "\<exists>again. createTicket env2 c s2 b t1 = (t1, Inr again)
    \<and> was_collapsed again \<and> tracking_id again = tracking_id out"
proof -
  from assms(1,2) obtain r a where r: "t1 = t @ [r]" "tracking_id out = tk_id r"
      "live_with_digest c (body_digest env b) r" "tk_created r = 1000 * ms_of (clock_us env)"
      "account_of env (cl_org c) = Inr a"
    by (rule filed_outcome) blast
  let ?n = "ms_of (clock_us env)" and ?m = "ms_of (clock_us env2)"
  have held: "find_incumbent c (body_digest env b) t1 = Some r"
    unfolding find_incumbent_def r(1) using r(3,4) assms(3) by (simp add: latest_snoc)
  have acc: "account_of env2 (cl_org c) = Inr a" using r(5) by (simp add: account_of_def assms(4))
  have "jsub (Fin (of_int ?m)) (Fin (of_int ?n)) = Fin (fl (of_int ?m - of_int ?n))"
    using assms(6,7,9) by (intro instant_diff) (simp_all add: of_int_le_iff [of _ "2 ^ 53", simplified] flip: of_int_abs)
  also have "fl (of_int ?m - of_int ?n) = of_int (?m - ?n)"
    using fl_rep [OF rep_of_int [of "?m - ?n"]] assms(6-9) by simp
  finally have gap: "jsub (Fin (of_int ?m)) (Fin (of_int ?n)) = Fin (of_int (?m - ?n))" .
  have "(0::rat) \<le> of_int (?m - ?n)" "(of_int (?m - ?n) :: rat) < of_int (5 * 60 * 1000)"
    using assms(7,8) by (simp_all only: of_int_0_le_iff of_int_less_iff)
  then have window: "\<not> Fin (of_int (?m - ?n)) < Fin 0" "\<not> Fin (of_int (?m - ?n)) \<ge> DEFAULT_DEDUPE_WINDOW_MS"
    by (simp_all add: DEFAULT_DEDUPE_WINDOW_MS_def not_less)
  have anchor: "inc_anchor (incumbentOf r) = Fin (of_int ?n)" by (simp add: incumbentOf_def r(4) ms_of_def)
  have "file_or_fold env2 c s2 b t1 = (t1, Inr (acknowledge (toTicket r) True))"
    using held acc gap window anchor
    by (simp add: file_or_fold_def Let_def then_do_def action_run read_incumbent_def assms(5) dedupeDecision_def incumbentOf_def)
  then have "createTicket env2 c s2 b t1 = (t1, Inr (acknowledge (toTicket r) True))" by (simp add: createTicket_def)
  then show ?thesis using r(2) by (simp add: acknowledge_def toTicket_def)
qed

lemma sample_first_intake:
  "\<exists>out. createTicket sample_desk sample_customer (u ''help'') (u ''body'') [] = (sample_filed, Inr out) \<and> \<not> was_collapsed out"
  by (simp add: sample_filed_def createTicket_def file_or_fold_def Let_def then_do_def action_run account_of_def
      sample_desk_def sample_customer_def read_incumbent_def find_incumbent_def latest_def dedupeDecision_def
      insert_ticket_def acknowledge_def)

theorem repeated_words_fold_into_one_ticket_witness:
  "\<exists>again. createTicket (sample_desk\<lparr>clock_us := 7000\<rparr>) sample_customer (u ''again'') (u ''body'') sample_filed
      = (sample_filed, Inr again) \<and> was_collapsed again"
proof -
  obtain out where out: "createTicket sample_desk sample_customer (u ''help'') (u ''body'') [] = (sample_filed, Inr out)"
      "\<not> was_collapsed out"
    using sample_first_intake by blast
  have "\<exists>again. createTicket (sample_desk\<lparr>clock_us := 7000\<rparr>) sample_customer (u ''again'') (u ''body'') sample_filed
      = (sample_filed, Inr again) \<and> was_collapsed again \<and> tracking_id again = tracking_id out"
    by (rule repeated_words_fold_into_one_ticket [OF out]) (simp_all add: sample_desk_def ms_of_def)
  then show ?thesis by blast
qed

end
