(* ===== verification/Json_Schema.thy ===== *)
theory Json_Schema
  imports Json_Text
begin

section \<open>The part of JSON Schema the published contracts use\<close>

text \<open>
  \<open>conforms n pat defs schema v\<close>: whether a value conforms to a schema of draft 2020-12 built from
  the keywords below, as the standard words them.  \<open>pat\<close> says when a string matches a pattern and
  \<open>defs\<close> holds what a \<open>$ref\<close> into \<open>#/$defs/\<close> names.  The fuel is the number of schemas a
  value may pass through, one per level of nesting or reference.
\<close>

fun type_name :: "jsval \<Rightarrow> string" where
  "type_name (JStr _) = ''string''"
| "type_name (JNum _) = ''number''"
| "type_name (JBool _) = ''boolean''"
| "type_name (JArr _) = ''array''"
| "type_name (JObj _) = ''object''"
| "type_name JNull = ''null''"
| "type_name JUndef = ''undefined''"

fun is_integer :: "jsval \<Rightarrow> bool" where
  "is_integer (JNum (Fin x)) = (x = of_int \<lfloor>x\<rfloor>)"
| "is_integer _ = False"

definition has_type :: "jsval \<Rightarrow> jsval \<Rightarrow> bool" where
  "has_type v t = (t = JStr (u (type_name v)) \<or> t = JStr (u ''integer'') \<and> is_integer v)"

fun type_ok :: "jsval \<Rightarrow> jsval \<Rightarrow> bool" where
  "type_ok (JArr ts) v = list_ex (has_type v) ts"
| "type_ok t v = has_type v t"

text \<open>The length of a string is counted in code points: a surrogate pair is one.\<close>

fun code_points :: "jstr \<Rightarrow> nat" where
  "code_points (c # d # s) = (if is_high c \<and> is_low d then Suc (code_points s) else Suc (code_points (d # s)))"
| "code_points [c] = 1"
| "code_points [] = 0"

definition keyword :: "(jstr \<times> jsval) list \<Rightarrow> string \<Rightarrow> (jsval \<Rightarrow> bool) \<Rightarrow> bool" where
  "keyword s k p = (case map_of s (u k) of None \<Rightarrow> True | Some x \<Rightarrow> p x)"

fun at_least :: "jsval \<Rightarrow> jsval \<Rightarrow> bool" where
  "at_least (JNum m) (JNum x) = (m \<le> x)"
| "at_least _ _ = True"

fun at_most :: "jsval \<Rightarrow> jsval \<Rightarrow> bool" where
  "at_most (JNum m) (JNum x) = (x \<le> m)"
| "at_most _ _ = True"

fun count_of :: "jsval \<Rightarrow> jsval" where
  "count_of (JStr s) = JNum (Fin (of_nat (code_points s)))"
| "count_of (JArr xs) = JNum (Fin (of_nat (length xs)))"
| "count_of _ = JNull"

definition on_string :: "jsval \<Rightarrow> jsval" where
  "on_string v = (case v of JStr _ \<Rightarrow> count_of v | _ \<Rightarrow> JNull)"

definition on_array :: "jsval \<Rightarrow> jsval" where
  "on_array v = (case v of JArr _ \<Rightarrow> count_of v | _ \<Rightarrow> JNull)"

fun pattern_ok :: "(jstr \<Rightarrow> jstr \<Rightarrow> bool) \<Rightarrow> jsval \<Rightarrow> jsval \<Rightarrow> bool" where
  "pattern_ok pat (JStr p) (JStr s) = pat p s"
| "pattern_ok pat _ _ = True"

fun enum_ok :: "jsval \<Rightarrow> jsval \<Rightarrow> bool" where
  "enum_ok (JArr xs) v = (v \<in> set xs)"
| "enum_ok _ _ = False"

fun required_ok :: "jsval \<Rightarrow> jsval \<Rightarrow> bool" where
  "required_ok (JArr ks) (JObj fs) = list_all (\<lambda>k. case k of JStr n \<Rightarrow> n \<in> fst ` set fs | _ \<Rightarrow> False) ks"
| "required_ok _ _ = True"

fun members :: "jsval \<Rightarrow> (jstr \<times> jsval) list" where
  "members (JObj fs) = fs"
| "members _ = []"

fun elements :: "jsval \<Rightarrow> jsval list" where
  "elements (JArr xs) = xs"
| "elements _ = []"

definition property_schema :: "(jstr \<times> jsval) list \<Rightarrow> jstr \<Rightarrow> jsval option" where
  "property_schema s k = (case map_of s (u ''properties'') of Some (JObj ps) \<Rightarrow> map_of ps k | _ \<Rightarrow> None)"

definition additional_ok :: "(jstr \<times> jsval) list \<Rightarrow> bool" where
  "additional_ok s = (map_of s (u ''additionalProperties'') \<noteq> Some (JBool False))"

fun ref_target :: "(jstr \<times> jsval) list \<Rightarrow> jsval \<Rightarrow> jsval option" where
  "ref_target defs (JStr r) = (if is_prefix (u ''#/$defs/'') r then map_of defs (drop 8 r) else None)"
| "ref_target defs _ = None"

text \<open>The keywords that look at one value and nothing below it.\<close>

definition shallow_ok :: "(jstr \<Rightarrow> jstr \<Rightarrow> bool) \<Rightarrow> (jstr \<times> jsval) list \<Rightarrow> jsval \<Rightarrow> bool" where
  "shallow_ok pat s v =
     (keyword s ''type'' (\<lambda>t. type_ok t v) \<and> keyword s ''const'' (\<lambda>c. v = c) \<and> keyword s ''enum'' (\<lambda>e. enum_ok e v)
      \<and> keyword s ''minimum'' (\<lambda>m. at_least m v) \<and> keyword s ''maximum'' (\<lambda>m. at_most m v)
      \<and> keyword s ''minLength'' (\<lambda>m. at_least m (on_string v)) \<and> keyword s ''maxLength'' (\<lambda>m. at_most m (on_string v))
      \<and> keyword s ''minItems'' (\<lambda>m. at_least m (on_array v)) \<and> keyword s ''maxItems'' (\<lambda>m. at_most m (on_array v))
      \<and> keyword s ''pattern'' (\<lambda>p. pattern_ok pat p v) \<and> keyword s ''required'' (\<lambda>r. required_ok r v))"

fun conforms :: "nat \<Rightarrow> (jstr \<Rightarrow> jstr \<Rightarrow> bool) \<Rightarrow> (jstr \<times> jsval) list \<Rightarrow> jsval \<Rightarrow> jsval \<Rightarrow> bool" where
  "conforms (Suc n) pat defs (JObj s) v =
     (shallow_ok pat s v
      \<and> keyword s ''$ref'' (\<lambda>r. case ref_target defs r of Some t \<Rightarrow> conforms n pat defs t v | None \<Rightarrow> False)
      \<and> keyword s ''items'' (\<lambda>t. list_all (conforms n pat defs t) (elements v))
      \<and> list_all (\<lambda>(k, x). case property_schema s k of Some t \<Rightarrow> conforms n pat defs t x | None \<Rightarrow> additional_ok s) (members v))"
| "conforms _ _ _ _ _ = False"

lemma code_points_le: "code_points s \<le> length s"
  by (induction s rule: code_points.induct) auto

lemma code_points_pos: "s \<noteq> [] \<Longrightarrow> 1 \<le> code_points s"
  by (cases s rule: code_points.cases) auto

text \<open>A keyword that is present, and one that is absent.\<close>

lemma keyword_simps [simp]:
  "map_of s (u k) = Some x \<Longrightarrow> keyword s k p = p x"
  "map_of s (u k) = None \<Longrightarrow> keyword s k p"
  by (simp_all add: keyword_def)

lemma keyword_cons: "keyword ((u k', x) # s) k p = (if k = k' then p x else keyword s k p)"
  by (simp add: keyword_def)

lemma keyword_nil [simp]: "keyword [] k p"
  by (simp add: keyword_def)

text \<open>Members of an object with distinct keys, and the key of a member that is not undefined.\<close>

lemma member_is_prop:
  "distinct (map fst fs) \<Longrightarrow> (u k, x) \<in> set fs \<Longrightarrow> get_prop fs k = x"
  by (simp add: get_prop_def)

lemma has_prop_get: "get_prop fs k \<noteq> JUndef \<Longrightarrow> u k \<in> fst ` set fs"
  by (auto simp: get_prop_def split: option.splits) (metis map_of_SomeD fst_conv image_eqI)

end
