(* ===== verification/Envelope.thy ===== *)
theory Envelope
  imports Json_Schema "HOL-Library.Code_Target_Nat"
begin

section \<open>The answers of the agents\<close>

text \<open>
  The three readers of a model's response text, \<open>agents/triage/envelope.ts\<close>,
  \<open>agents/draft/envelope.ts\<close> and \<open>agents/validate/envelope.ts\<close>, and the contract they
  publish, \<open>AGENT_IO_SCHEMA\<close> of \<open>agents/triage/schema.ts\<close>.  A refusal is the error class with its
  code and its message.  The first half of the three readers is the same code written three times; it is
  \<open>open_envelope\<close> here, with what differs as its arguments.
\<close>

subsection \<open>The published contract\<close>

definition AGENT_NAMES :: "jstr list" where
  "AGENT_NAMES = map u [''triage'', ''draft'', ''validate'', ''evolve'']"

definition BODY_REDACTED_MAX :: nat where
  "BODY_REDACTED_MAX = 8192"

definition EXCERPT_MAX :: nat where
  "EXCERPT_MAX = 2048"

definition DRAFT_TEXT_MAX :: nat where
  "DRAFT_TEXT_MAX = 4096"

definition KB_ID_PATTERN :: jstr where
  "KB_ID_PATTERN = u ''^[A-Za-z0-9:_/-]{1,128}$''"

definition agent_input_schema :: jsval where
  "agent_input_schema = JObj [(u ''type'', JStr (u ''object'')),
      (u ''description'', JStr (u ''What the gateway assembles and digests. The raw body never appears in it.'')),
      (u ''required'', JArr [JStr (u ''schema_version''), JStr (u ''agent''), JStr (u ''ticket_id''), JStr (u ''body_redacted''), JStr (u ''kb_context''), JStr (u ''locale'')]),
      (u ''additionalProperties'', JBool False),
      (u ''properties'', JObj [(u ''schema_version'', JObj [(u ''const'', JStr (u ''1.0''))]),
        (u ''agent'', JObj [(u ''enum'', JArr (map JStr AGENT_NAMES))]),
        (u ''prompt_version_id'', JObj [(u ''type'', JStr (u ''string''))]),
        (u ''ticket_id'', JObj [(u ''type'', JArr [JStr (u ''string''), JStr (u ''null'')]),
          (u ''description'', JStr (u ''Null for a call that belongs to no ticket, which is how a corpus item is scored.''))]),
        (u ''body_redacted'', JObj [(u ''type'', JStr (u ''string'')),
          (u ''maxLength'', JNum (Fin (of_nat BODY_REDACTED_MAX)))]),
        (u ''kb_context'', JObj [(u ''type'', JStr (u ''array'')),
          (u ''description'', JStr (u ''Always present, empty when there is none: a digest needs a total function.'')),
          (u ''items'', JObj [(u ''type'', JStr (u ''object'')),
            (u ''required'', JArr [JStr (u ''kb_id''), JStr (u ''excerpt'')]),
            (u ''additionalProperties'', JBool False),
            (u ''properties'', JObj [(u ''kb_id'', JObj [(u ''type'', JStr (u ''string'')),
                (u ''pattern'', JStr KB_ID_PATTERN)]),
              (u ''excerpt'', JObj [(u ''type'', JStr (u ''string'')),
                (u ''maxLength'', JNum (Fin (of_nat EXCERPT_MAX)))])])])]),
        (u ''locale'', JObj [(u ''type'', JStr (u ''string''))])])]"

definition agent_output_schema :: jsval where
  "agent_output_schema = JObj [(u ''type'', JStr (u ''object'')),
      (u ''description'', JStr (u ''What an agent answers. confidence is required at the ROOT, which is the one field the ledger has a column for and reads independently of any validator.'')),
      (u ''required'', JArr [JStr (u ''schema_version''), JStr (u ''agent''), JStr (u ''confidence'')]),
      (u ''additionalProperties'', JBool False),
      (u ''properties'', JObj [(u ''schema_version'', JObj [(u ''const'', JStr (u ''1.0''))]),
        (u ''agent'', JObj [(u ''enum'', JArr (map JStr AGENT_NAMES))]),
        (u ''confidence'', JObj [(u ''type'', JStr (u ''number'')),
          (u ''minimum'', JNum (Fin 0)),
          (u ''maximum'', JNum (Fin 1))]),
        (u ''triage'', JObj [(u ''$ref'', JStr (u ''#/$defs/triage_block''))]),
        (u ''draft'', JObj [(u ''$ref'', JStr (u ''#/$defs/draft_block''))]),
        (u ''validate'', JObj [(u ''$ref'', JStr (u ''#/$defs/validate_block''))])])]"

definition triage_block_schema :: jsval where
  "triage_block_schema = JObj [(u ''type'', JStr (u ''object'')),
      (u ''description'', JStr (u ''The triage verdict. Its three fields are the only source of the ticket columns of the same names.'')),
      (u ''required'', JArr [JStr (u ''category''), JStr (u ''severity''), JStr (u ''sentiment'')]),
      (u ''additionalProperties'', JBool False),
      (u ''properties'', JObj [(u ''category'', JObj [(u ''type'', JStr (u ''string'')),
          (u ''minLength'', JNum (Fin 1)),
          (u ''maxLength'', JNum (Fin 64))]),
        (u ''severity'', JObj [(u ''type'', JStr (u ''integer'')),
          (u ''minimum'', JNum (Fin 1)),
          (u ''maximum'', JNum (Fin 4))]),
        (u ''sentiment'', JObj [(u ''type'', JStr (u ''number'')),
          (u ''minimum'', JNum (Fin (- 1))),
          (u ''maximum'', JNum (Fin 1))])])]"

definition draft_block_schema :: jsval where
  "draft_block_schema = JObj [(u ''type'', JStr (u ''object'')),
      (u ''description'', JStr (u ''The drafted reply and the sources it stands on. kb_ids has minItems 1 because that is the only place \"never a draft without a source\" is expressible as a contract rather than as a check somebody remembers to write.'')),
      (u ''required'', JArr [JStr (u ''text''), JStr (u ''kb_ids'')]),
      (u ''additionalProperties'', JBool False),
      (u ''properties'', JObj [(u ''text'', JObj [(u ''type'', JStr (u ''string'')),
          (u ''maxLength'', JNum (Fin (of_nat DRAFT_TEXT_MAX)))]),
        (u ''kb_ids'', JObj [(u ''type'', JStr (u ''array'')),
          (u ''minItems'', JNum (Fin 1)),
          (u ''items'', JObj [(u ''type'', JStr (u ''string'')),
            (u ''pattern'', JStr KB_ID_PATTERN)])])])]"

definition validate_block_schema :: jsval where
  "validate_block_schema = JObj [(u ''type'', JStr (u ''object'')),
      (u ''description'', JStr (u ''The validator's verdict. grounded is a veto and never a signature: four arithmetic conditions are computed locally over the same sources the gateway digested, and this field can only withhold the fifth. policy_flags is deliberately absent '' @ [8212] @ u '' a policy judgement is the deterministic matcher's and never a model's.'')),
      (u ''required'', JArr [JStr (u ''grounded''), JStr (u ''unsupported_claims'')]),
      (u ''additionalProperties'', JBool False),
      (u ''properties'', JObj [(u ''grounded'', JObj [(u ''type'', JStr (u ''boolean''))]),
        (u ''unsupported_claims'', JObj [(u ''type'', JStr (u ''array'')),
          (u ''items'', JObj [(u ''type'', JStr (u ''string''))])])])]"

definition AGENT_IO_DEFS :: "(jstr \<times> jsval) list" where
  "AGENT_IO_DEFS =
     [(u ''agent_input'', agent_input_schema), (u ''agent_output'', agent_output_schema),
      (u ''triage_block'', triage_block_schema), (u ''draft_block'', draft_block_schema),
      (u ''validate_block'', validate_block_schema)]"

definition AGENT_IO_SCHEMA :: jsval where
  "AGENT_IO_SCHEMA = JObj [(u ''$schema'', JStr (u ''https://json-schema.org/draft/2020-12/schema'')),
     (u ''$id'', JStr (u ''ledgerdesk/agents/schemas/agent_io.schema.json'')),
     (u ''title'', JStr (u ''Agent input and output envelopes'')),
     (u ''description'', JStr (u ''The two envelopes that cross the model chokepoint. The input is what the gateway digests into input_hash; the output is what the agent-layer validator reads and the only place a triage verdict comes from.'')),
     (u ''$defs'', JObj AGENT_IO_DEFS)]"

subsection \<open>Refusals\<close>

datatype agent_error_code = E_SCHEMA | E_PROMPT_NOT_REGISTERED | E_NO_GROUNDING

datatype agent_error = Agent_Error agent_error_code jstr

definition require :: "bool \<Rightarrow> jstr \<Rightarrow> agent_error + unit" where
  "require ok message = (if ok then Inr () else Inl (Agent_Error E_SCHEMA message))"

definition require_grounding :: "bool \<Rightarrow> jstr \<Rightarrow> agent_error + unit" where
  "require_grounding ok message = (if ok then Inr () else Inl (Agent_Error E_NO_GROUNDING message))"

lemma require_Inr [simp]:
  "require ok m = Inr r \<longleftrightarrow> ok" "require_grounding ok m = Inr r \<longleftrightarrow> ok"
  by (simp_all add: require_def require_grounding_def)

subsection \<open>The envelope around every answer\<close>

definition SCHEMA_VERSION :: jstr where
  "SCHEMA_VERSION = u ''1.0''"

definition ROOT_KEYS :: "jstr list" where
  "ROOT_KEYS = map u [''schema_version'', ''agent'', ''confidence'', ''triage'', ''draft'', ''validate'']"

text \<open>What the agent of an envelope, its own block and its messages are.\<close>

record block_contract =
  bc_agent :: string
  bc_keys :: "string list"
  bc_foreign :: "string list"
  bc_not_agent :: string
  bc_missing :: string
  bc_not_object :: string
  bc_extra_key :: string
  bc_incomplete :: string

definition known_keys :: "jstr list \<Rightarrow> (jstr \<times> jsval) list \<Rightarrow> bool" where
  "known_keys ks fs = list_all (\<lambda>(k, _). k \<in> set ks) fs"

definition confidence_of_envelope :: "(jstr \<times> jsval) list \<Rightarrow> agent_error + jnum" where
  "confidence_of_envelope fs =
     (case get_prop fs ''confidence'' of
        JNum n \<Rightarrow>
          bind_err (require (is_finite n) (u ''the envelope declares no numeric confidence'')) (\<lambda>_.
          bind_err (require (\<not> (n < Fin 0 \<or> n > Fin 1)) (u ''the declared confidence is outside [0, 1]'')) (\<lambda>_. Inr n))
      | _ \<Rightarrow> Inl (Agent_Error E_SCHEMA (u ''the envelope declares no numeric confidence'')))"

definition object_of :: "jsval \<Rightarrow> jstr \<Rightarrow> agent_error + (jstr \<times> jsval) list" where
  "object_of v message = (case v of JObj fs \<Rightarrow> Inr fs | _ \<Rightarrow> Inl (Agent_Error E_SCHEMA message))"

definition open_envelope :: "block_contract \<Rightarrow> jstr \<Rightarrow> agent_error + jnum \<times> (jstr \<times> jsval) list" where
  "open_envelope bc t =
     bind_err (case json_parse t of Some v \<Rightarrow> Inr v
               | None \<Rightarrow> Inl (Agent_Error E_SCHEMA (u ''the response text is not JSON, and it is never parsed leniently''))) (\<lambda>parsed.
     bind_err (object_of parsed (u ''the response is not a JSON object'')) (\<lambda>envelope.
     bind_err (require (known_keys ROOT_KEYS envelope) (u ''the envelope carries a key the contract does not publish'')) (\<lambda>_.
     bind_err (require (get_prop envelope ''schema_version'' = JStr SCHEMA_VERSION)
                 (u ''the envelope does not declare schema_version '' @ SCHEMA_VERSION)) (\<lambda>_.
     bind_err (require (get_prop envelope ''agent'' = JStr (u (bc_agent bc))) (u (bc_not_agent bc))) (\<lambda>_.
     bind_err (require (\<not> list_ex (has_prop envelope) (bc_foreign bc)) (u ''the envelope carries a block belonging to another agent'')) (\<lambda>_.
     bind_err (confidence_of_envelope envelope) (\<lambda>confidence.
     bind_err (require (has_prop envelope (bc_agent bc)) (u (bc_missing bc))) (\<lambda>_.
     bind_err (object_of (get_prop envelope (bc_agent bc)) (u (bc_not_object bc))) (\<lambda>block.
     bind_err (require (known_keys (map u (bc_keys bc)) block) (u (bc_extra_key bc))) (\<lambda>_.
     bind_err (require (list_all (has_prop block) (bc_keys bc)) (u (bc_incomplete bc))) (\<lambda>_.
     Inr (confidence, block))))))))))))"

subsection \<open>The triage agent\<close>

record triage_envelope =
  te_confidence :: jnum
  te_category :: jstr
  te_severity :: jnum
  te_sentiment :: jnum

definition CATEGORY_MAX :: nat where
  "CATEGORY_MAX = 64"

definition triage_contract :: block_contract where
  "triage_contract =
     \<lparr>bc_agent = ''triage'', bc_keys = [''category'', ''severity'', ''sentiment''], bc_foreign = [''draft'', ''validate''],
      bc_not_agent = ''the envelope was not written by the triage agent'',
      bc_missing = ''the envelope carries no triage block, so it decides nothing about the ticket'',
      bc_not_object = ''the triage block is not an object'',
      bc_extra_key = ''the triage block carries a key the contract does not publish'',
      bc_incomplete = ''the triage block is incomplete''\<rparr>"

definition is_triage_severity :: "jsval \<Rightarrow> bool" where
  "is_triage_severity v = (v \<in> {JNum (Fin 1), JNum (Fin 2), JNum (Fin 3), JNum (Fin 4)})"

definition string_or :: "jsval \<Rightarrow> jstr \<Rightarrow> agent_error + jstr" where
  "string_or v message = (case v of JStr s \<Rightarrow> Inr s | _ \<Rightarrow> Inl (Agent_Error E_SCHEMA message))"

definition number_or :: "jsval \<Rightarrow> jstr \<Rightarrow> agent_error + jnum" where
  "number_or v message = (case v of JNum n \<Rightarrow> Inr n | _ \<Rightarrow> Inl (Agent_Error E_SCHEMA message))"

definition boolean_or :: "jsval \<Rightarrow> jstr \<Rightarrow> agent_error + bool" where
  "boolean_or v message = (case v of JBool b \<Rightarrow> Inr b | _ \<Rightarrow> Inl (Agent_Error E_SCHEMA message))"

definition array_or :: "jsval \<Rightarrow> jstr \<Rightarrow> agent_error + jsval list" where
  "array_or v message = (case v of JArr xs \<Rightarrow> Inr xs | _ \<Rightarrow> Inl (Agent_Error E_SCHEMA message))"

definition parseTriageEnvelope :: "jstr \<Rightarrow> agent_error + triage_envelope" where
  "parseTriageEnvelope t =
     bind_err (open_envelope triage_contract t) (\<lambda>(confidence, triage).
     bind_err (string_or (get_prop triage ''category'') (u ''the category is not a non-empty string within the published length'')) (\<lambda>category.
     bind_err (require (category \<noteq> [] \<and> length category \<le> CATEGORY_MAX)
                 (u ''the category is not a non-empty string within the published length'')) (\<lambda>_.
     bind_err (require (is_triage_severity (get_prop triage ''severity''))
                 (u ''the severity is not one of the four levels the record carries'')) (\<lambda>_.
     bind_err (number_or (get_prop triage ''severity'') []) (\<lambda>severity.
     bind_err (number_or (get_prop triage ''sentiment'') (u ''the sentiment is not a number'')) (\<lambda>sentiment.
     bind_err (require (is_finite sentiment) (u ''the sentiment is not a number'')) (\<lambda>_.
     bind_err (require (\<not> (sentiment < Fin (- 1) \<or> sentiment > Fin 1)) (u ''the sentiment is outside [-1, 1]'')) (\<lambda>_.
     Inr \<lparr>te_confidence = confidence, te_category = category, te_severity = severity, te_sentiment = sentiment\<rparr>))))))))"

subsection \<open>The drafting agent\<close>

record draft_source =
  src_kb_id :: jstr
  src_excerpt :: jstr

record draft_envelope =
  de_confidence :: jnum
  de_text :: jstr
  de_kb_ids :: "jstr list"

definition VERBATIM_RUN_MIN :: nat where
  "VERBATIM_RUN_MIN = 64"

definition kb_id_unit :: "nat \<Rightarrow> bool" where
  "kb_id_unit c = (65 \<le> c \<and> c \<le> 90 \<or> 97 \<le> c \<and> c \<le> 122 \<or> 48 \<le> c \<and> c \<le> 57 \<or> c \<in> {58, 95, 47, 45})"

definition KB_ID :: "jstr \<Rightarrow> bool" where
  "KB_ID s = (1 \<le> length s \<and> length s \<le> 128 \<and> list_all kb_id_unit s)"

definition normaliseRun :: "jstr \<Rightarrow> jstr" where
  "normaliseRun t = js_trim (collapse_spaces False t)"

definition sharesVerbatimRun :: "jstr \<Rightarrow> jstr \<Rightarrow> nat \<Rightarrow> bool" where
  "sharesVerbatimRun haystack needle minimum =
     (let needle' = normaliseRun needle; into = normaliseRun haystack
      in if length needle' < minimum \<or> length into < minimum then False
         else list_ex (\<lambda>start. js_includes into (take minimum (drop start needle'))) [0..<length needle' + 1 - minimum])"

definition draft_contract :: block_contract where
  "draft_contract =
     \<lparr>bc_agent = ''draft'', bc_keys = [''text'', ''kb_ids''], bc_foreign = [''triage'', ''validate''],
      bc_not_agent = ''the envelope was not written by the drafting agent'',
      bc_missing = ''the envelope carries no draft block, so it answers nothing'',
      bc_not_object = ''the draft block is not an object'',
      bc_extra_key = ''the draft block carries a key the contract does not publish'',
      bc_incomplete = ''the draft block is incomplete''\<rparr>"

fun cited_ids :: "jsval list \<Rightarrow> agent_error + jstr list" where
  "cited_ids [] = Inr []"
| "cited_ids (v # vs) =
     bind_err (string_or v (u ''a cited identifier is not of the published form'')) (\<lambda>s.
     bind_err (require (KB_ID s) (u ''a cited identifier is not of the published form'')) (\<lambda>_.
     bind_err (cited_ids vs) (\<lambda>ss. Inr (s # ss))))"

text \<open>\<open>[...new Set(xs)]\<close>: the first of each, in order.\<close>

definition unique_list :: "jstr list \<Rightarrow> jstr list" where
  "unique_list xs = rev (remdups (rev xs))"

definition cited_list :: "jsval \<Rightarrow> agent_error + jsval list" where
  "cited_list v = (case v of JArr (x # xs) \<Rightarrow> Inr (x # xs)
     | _ \<Rightarrow> Inl (Agent_Error E_SCHEMA (u ''the draft cites no source, and the contract requires at least one'')))"

definition parseDraftEnvelope :: "jstr \<Rightarrow> draft_source list \<Rightarrow> agent_error + draft_envelope" where
  "parseDraftEnvelope t sources =
     bind_err (open_envelope draft_contract t) (\<lambda>(confidence, draft).
     bind_err (string_or (get_prop draft ''text'') (u ''the reply is not a non-empty string within the published length'')) (\<lambda>reply.
     bind_err (require (js_trim reply \<noteq> [] \<and> length reply \<le> DRAFT_TEXT_MAX)
                 (u ''the reply is not a non-empty string within the published length'')) (\<lambda>_.
     bind_err (cited_list (get_prop draft ''kb_ids'')) (\<lambda>cited.
     bind_err (cited_ids cited) (\<lambda>ids.
       let kb_ids = unique_list ids; offered = map src_kb_id sources
       in bind_err (require_grounding (list_all (\<lambda>k. k \<in> set offered) kb_ids)
                      (u ''the draft cites a source this call was not given'')) (\<lambda>_.
          bind_err (require_grounding
                      (list_all (\<lambda>s. src_kb_id s \<in> set kb_ids \<or> \<not> sharesVerbatimRun reply (src_excerpt s) VERBATIM_RUN_MIN) sources)
                      (u ''the draft reproduces a source it does not cite'')) (\<lambda>_.
          Inr \<lparr>de_confidence = confidence, de_text = reply, de_kb_ids = kb_ids\<rparr>)))))))"

subsection \<open>The grounding validator\<close>

record validate_envelope =
  ve_confidence :: jnum
  ve_grounded :: bool
  ve_claims :: "jstr list"

definition validate_contract :: block_contract where
  "validate_contract =
     \<lparr>bc_agent = ''validate'', bc_keys = [''grounded'', ''unsupported_claims''], bc_foreign = [''triage'', ''draft''],
      bc_not_agent = ''the envelope was not written by the grounding validator'',
      bc_missing = ''the envelope carries no validate block, so it judges nothing'',
      bc_not_object = ''the validate block is not an object'',
      bc_extra_key = ''the validate block carries a key the contract does not publish'',
      bc_incomplete = ''the validate block is incomplete''\<rparr>"

fun claim_texts :: "jsval list \<Rightarrow> agent_error + jstr list" where
  "claim_texts [] = Inr []"
| "claim_texts (v # vs) =
     bind_err (string_or v (u ''an unsupported claim is not a string'')) (\<lambda>s.
     bind_err (claim_texts vs) (\<lambda>ss. Inr (s # ss)))"

definition parseValidateEnvelope :: "jstr \<Rightarrow> agent_error + validate_envelope" where
  "parseValidateEnvelope t =
     bind_err (open_envelope validate_contract t) (\<lambda>(confidence, validate).
     bind_err (boolean_or (get_prop validate ''grounded'') (u ''the grounding verdict is not a boolean'')) (\<lambda>grounded.
     bind_err (array_or (get_prop validate ''unsupported_claims'') (u ''the unsupported claims are not an array'')) (\<lambda>xs.
     bind_err (claim_texts xs) (\<lambda>claims.
     bind_err (require (\<not> (grounded \<and> claims \<noteq> []))
                 (u ''the verdict says grounded and lists claims that are not supported'')) (\<lambda>_.
     Inr \<lparr>ve_confidence = confidence, ve_grounded = grounded, ve_claims = claims\<rparr>)))))"

end
