(* ===== verification/Envelope_Safety.thy ===== *)
theory Envelope_Safety
  imports Envelope
begin

section \<open>What an accepted answer is\<close>

text \<open>
  An accepted answer conforms to the published contract; an accepted draft cites sources it was given,
  and copies from no other.  \<open>distinct_json\<close> is what \<open>JSON.parse\<close> guarantees of its result.
\<close>

subsection \<open>Members of a parsed value are distinct\<close>

fun distinct_json :: "jsval \<Rightarrow> bool" where
  "distinct_json (JObj fs) = (distinct (map fst fs) \<and> list_all (\<lambda>(_, v). distinct_json v) fs)"
| "distinct_json (JArr xs) = list_all distinct_json xs"
| "distinct_json _ = True"

lemma distinct_put_member:
  assumes "distinct_json (JObj fs)" "distinct_json v"
  shows "distinct_json (JObj (put_member k v fs))"
proof (cases "k \<in> fst ` set fs")
  case True
  have "map fst (map (\<lambda>(k', v'). if k' = k then (k, v) else (k', v')) fs) = map fst fs" by (induction fs) auto
  moreover have "list_all (\<lambda>(_, v). distinct_json v) (map (\<lambda>(k', v'). if k' = k then (k, v) else (k', v')) fs)"
    using assms by (induction fs) (auto split: if_splits)
  ultimately show ?thesis using True assms(1) unfolding put_member_def by (simp only: if_True distinct_json.simps)
next
  case False
  with assms show ?thesis by (simp add: put_member_def)
qed

lemma parse_distinct:
  "(\<forall>s v r. parse_value n s = Some (v, r) \<longrightarrow> distinct_json v)
   \<and> (\<forall>s acc v r. list_all distinct_json acc \<longrightarrow> parse_items n s acc = Some (v, r) \<longrightarrow> distinct_json v)
   \<and> (\<forall>s fs v r. distinct_json (JObj fs) \<longrightarrow> parse_members n s fs = Some (v, r) \<longrightarrow> distinct_json v)"
  (is "?V n \<and> ?I n \<and> ?M n")
proof (induction n)
  case (Suc n)
  then have V: "\<And>s v r. parse_value n s = Some (v, r) \<Longrightarrow> distinct_json v"
    and I: "\<And>s acc v r. parse_items n s acc = Some (v, r) \<Longrightarrow> list_all distinct_json acc \<Longrightarrow> distinct_json v"
    and M: "\<And>s fs v r. parse_members n s fs = Some (v, r) \<Longrightarrow> distinct_json (JObj fs) \<Longrightarrow> distinct_json v"
    by blast+
  have "?V (Suc n)"
    unfolding parse_value.simps Let_def
    by (auto split: if_splits dest: I [where acc = "[]"] M [where fs = "[]"])
  moreover have "?I (Suc n)"
  proof (intro allI impI)
    fix s acc v r assume acc: "list_all distinct_json acc" and p: "parse_items (Suc n) s acc = Some (v, r)"
    then obtain w q where w: "parse_value n s = Some (w, q)" by (auto split: option.splits)
    then have "distinct_json w" by (rule V)
    then have "list_all distinct_json (acc @ [w])" using acc by simp
    then show "distinct_json v"
      using p w I [of _ "acc @ [w]" v r] unfolding parse_items.simps Let_def by (auto split: if_splits)
  qed
  moreover have "?M (Suc n)"
  proof (intro allI impI)
    fix s fs v r assume fs: "distinct_json (JObj fs)" and p: "parse_members (Suc n) s fs = Some (v, r)"
    then obtain k q w q' where "parse_units (tl (dropWhile json_space s)) = Some (k, q)"
        "parse_value n (tl (dropWhile json_space q)) = Some (w, q')"
        "(let t3 = dropWhile json_space q' in if is_prefix (u '','') t3 then parse_members n (tl t3) (put_member k w fs)
          else if is_prefix (u ''}'') t3 then Some (JObj (put_member k w fs), tl t3) else None) = Some (v, r)"
      unfolding parse_members.simps Let_def by (auto split: option.splits if_splits)
    moreover from this(2) have "distinct_json (JObj (put_member k w fs))"
      using distinct_put_member [OF fs] V by blast
    ultimately show "distinct_json v"
      using M [of _ "put_member k w fs" v r] unfolding Let_def by (metis option.inject option.distinct(1) prod.inject)
  qed
  ultimately show ?case by blast
qed simp

lemma json_parse_distinct:
  assumes "json_parse t = Some v" shows "distinct_json v"
proof -
  obtain n r where "parse_value n t = Some (v, r)"
    using assms unfolding json_parse_def by (auto simp del: parse_value.simps split: option.splits prod.splits if_splits)
  then show ?thesis using parse_distinct by blast
qed

subsection \<open>The blocks conform\<close>

definition kb_id_patterns :: "jstr \<Rightarrow> jstr \<Rightarrow> bool" where
  "kb_id_patterns p s = (p = KB_ID_PATTERN \<and> KB_ID s)"

lemma within_bounds [simp]:
  "n \<noteq> 0 \<Longrightarrow> at_least (JNum (Fin 1)) (JNum (Fin (of_nat n)))"
  "n \<le> m \<Longrightarrow> at_most (JNum (Fin (of_nat m))) (JNum (Fin (of_nat n)))"
  "n \<le> numeral k \<Longrightarrow> at_most (JNum (Fin (numeral k))) (JNum (Fin (of_nat n)))"
proof -
  assume "n \<noteq> 0"
  then have "(of_nat 1 :: rat) \<le> of_nat n" by (simp only: of_nat_le_iff)
  then show "at_least (JNum (Fin 1)) (JNum (Fin (of_nat n)))" by simp
next
  assume "n \<le> numeral k"
  then have "(of_nat n :: rat) \<le> of_nat (numeral k)" by (simp only: of_nat_le_iff)
  then show "at_most (JNum (Fin (numeral k))) (JNum (Fin (of_nat n)))" by simp
qed simp

lemma list_all_True [simp]: "list_all (\<lambda>(k, x). True) xs"
  by (simp add: list_all_iff case_prod_beta)

declare at_least.simps [simp del] at_most.simps [simp del]

lemma conforms_objI:
  assumes "shallow_ok pat s (JObj fs)" "map_of s (u ''$ref'') = None" "map_of s (u ''items'') = None"
    and "\<And>k x. (k, x) \<in> set fs \<Longrightarrow> \<exists>t. property_schema s k = Some t \<and> conforms n pat defs t x"
  shows "conforms (Suc n) pat defs (JObj s) (JObj fs)"
  using assms by (auto simp: list_all_iff) fastforce

lemma conforms_blockI:
  assumes "sch = JObj (members sch)" "shallow_ok pat (members sch) (JObj fs)"
    "map_of (members sch) (u ''$ref'') = None" "map_of (members sch) (u ''items'') = None"
    and "\<And>k x. (k, x) \<in> set fs \<Longrightarrow> \<exists>t. property_schema (members sch) k = Some t \<and> conforms n pat defs t x"
  shows "conforms (Suc n) pat defs sch (JObj fs)"
  using conforms_objI [OF assms(2-5)] assms(1) by metis

lemmas leaf = property_schema_def shallow_ok_def keyword_cons has_type_def on_string_def on_array_def additional_ok_def

lemma triage_block_conforms:
  assumes "known_keys (map u (bc_keys triage_contract)) fs" "list_all (has_prop fs) (bc_keys triage_contract)"
    and "distinct (map fst fs)" "get_prop fs ''category'' = JStr category" "category \<noteq> []" "length category \<le> CATEGORY_MAX"
    and "is_triage_severity (get_prop fs ''severity'')"
    and "get_prop fs ''sentiment'' = JNum x" "\<not> (x < Fin (- 1) \<or> x > Fin 1)" "is_finite x"
  shows "conforms (Suc (Suc n)) kb_id_patterns defs triage_block_schema (JObj fs)"
proof (rule conforms_blockI)
  fix k y
  assume ky: "(k, y) \<in> set fs"
  then have k: "k = u ''category'' \<or> k = u ''severity'' \<or> k = u ''sentiment''"
    using assms(1) by (auto simp: known_keys_def triage_contract_def list_all_iff)
  have y: "k = u key \<Longrightarrow> get_prop fs key = y" for key using member_is_prop [OF assms(3)] ky by blast
  from k show "\<exists>t. property_schema (members triage_block_schema) k = Some t \<and> conforms (Suc n) kb_id_patterns defs t y"
  proof (elim disjE)
    assume k: "k = u ''category''"
    with y assms(4) have y: "y = JStr category" by simp
    show ?thesis
      using assms(5,6) code_points_le [of category] code_points_pos [of category]
      by (simp add: k y leaf triage_block_schema_def CATEGORY_MAX_def)
  next
    assume k: "k = u ''severity''"
    with y assms(7) have y: "\<exists>m. y = JNum m \<and> m \<in> {Fin 1, Fin 2, Fin 3, Fin 4}" by (auto simp: is_triage_severity_def)
    then show ?thesis
      by (auto simp add: k leaf triage_block_schema_def at_least.simps at_most.simps)
  next
    assume k: "k = u ''sentiment''"
    with y assms(8) have y: "y = JNum x" by simp
    show ?thesis
      using assms(9,10) by (cases x) (simp_all add: k y leaf triage_block_schema_def at_least.simps at_most.simps)
  qed
qed (use assms(2) in \<open>simp_all add: triage_block_schema_def shallow_ok_def keyword_cons has_type_def triage_contract_def has_prop_def\<close>)


lemma readers_Inr [simp]:
  "string_or v m = Inr s \<longleftrightarrow> v = JStr s" "number_or v m = Inr n \<longleftrightarrow> v = JNum n"
  "cited_list v = Inr xs \<longleftrightarrow> v = JArr xs \<and> xs \<noteq> []" "object_of v m = Inr fs \<longleftrightarrow> v = JObj fs"
  "boolean_or v m = Inr b \<longleftrightarrow> v = JBool b" "array_or v m = Inr xs \<longleftrightarrow> v = JArr xs"
  by (auto simp: boolean_or_def array_or_def string_or_def number_or_def cited_list_def object_of_def split: jsval.splits list.splits)

lemma cited_ids_Inr: "cited_ids xs = Inr ids \<Longrightarrow> xs = map JStr ids \<and> list_all KB_ID ids"
proof (induction xs arbitrary: ids)
  case (Cons v vs)
  from Cons.prems show ?case unfolding cited_ids.simps bind_err_Inr by (auto dest: Cons.IH)
qed simp

lemma claim_texts_Inr: "claim_texts xs = Inr cs \<Longrightarrow> xs = map JStr cs"
proof (induction xs arbitrary: cs)
  case (Cons v vs)
  from Cons.prems show ?case unfolding claim_texts.simps bind_err_Inr by (auto dest: Cons.IH)
qed simp

lemma draft_block_conforms:
  assumes "known_keys (map u (bc_keys draft_contract)) fs" "list_all (has_prop fs) (bc_keys draft_contract)"
    and "distinct (map fst fs)" "get_prop fs ''text'' = JStr reply" "length reply \<le> DRAFT_TEXT_MAX"
    and "get_prop fs ''kb_ids'' = JArr (map JStr ids)" "ids \<noteq> []" "list_all KB_ID ids"
  shows "conforms (Suc (Suc (Suc n))) kb_id_patterns defs draft_block_schema (JObj fs)"
proof (rule conforms_blockI)
  fix k y
  assume ky: "(k, y) \<in> set fs"
  then have k: "k = u ''text'' \<or> k = u ''kb_ids''"
    using assms(1) by (auto simp: known_keys_def draft_contract_def list_all_iff)
  have y: "k = u key \<Longrightarrow> get_prop fs key = y" for key using member_is_prop [OF assms(3)] ky by blast
  from k show "\<exists>t. property_schema (members draft_block_schema) k = Some t \<and> conforms (Suc (Suc n)) kb_id_patterns defs t y"
  proof (elim disjE)
    assume k: "k = u ''text''"
    with y assms(4) have y: "y = JStr reply" by simp
    have "code_points reply \<le> DRAFT_TEXT_MAX" using code_points_le [of reply] assms(5) by simp
    then show ?thesis by (simp add: k y leaf draft_block_schema_def)
  next
    assume k: "k = u ''kb_ids''"
    with y assms(6) have y: "y = JArr (map JStr ids)" by simp
    have "list_all (conforms (Suc n) kb_id_patterns defs (JObj [(u ''type'', JStr (u ''string'')), (u ''pattern'', JStr KB_ID_PATTERN)]))
        (map JStr ids)"
      using assms(8) by (induction ids) (simp_all add: leaf kb_id_patterns_def)
    then show ?thesis using assms(7) by (simp add: k y leaf draft_block_schema_def)
  qed
qed (use assms(2) in \<open>simp_all add: draft_block_schema_def shallow_ok_def keyword_cons has_type_def draft_contract_def has_prop_def\<close>)

lemma validate_block_conforms:
  assumes "known_keys (map u (bc_keys validate_contract)) fs" "list_all (has_prop fs) (bc_keys validate_contract)"
    and "distinct (map fst fs)" "get_prop fs ''grounded'' = JBool b"
    and "get_prop fs ''unsupported_claims'' = JArr (map JStr claims)"
  shows "conforms (Suc (Suc (Suc n))) kb_id_patterns defs validate_block_schema (JObj fs)"
proof (rule conforms_blockI)
  fix k y
  assume ky: "(k, y) \<in> set fs"
  then have k: "k = u ''grounded'' \<or> k = u ''unsupported_claims''"
    using assms(1) by (auto simp: known_keys_def validate_contract_def list_all_iff)
  have y: "k = u key \<Longrightarrow> get_prop fs key = y" for key using member_is_prop [OF assms(3)] ky by blast
  from k show "\<exists>t. property_schema (members validate_block_schema) k = Some t \<and> conforms (Suc (Suc n)) kb_id_patterns defs t y"
  proof (elim disjE)
    assume k: "k = u ''grounded''"
    with y assms(4) have y: "y = JBool b" by simp
    show ?thesis by (simp add: k y leaf validate_block_schema_def)
  next
    assume k: "k = u ''unsupported_claims''"
    with y assms(5) have y: "y = JArr (map JStr claims)" by simp
    have "list_all (conforms (Suc n) kb_id_patterns defs (JObj [(u ''type'', JStr (u ''string''))])) (map JStr claims)"
      by (induction claims) (simp_all add: leaf)
    then show ?thesis by (simp add: k y leaf validate_block_schema_def)
  qed
qed (use assms(2) in \<open>simp_all add: validate_block_schema_def shallow_ok_def keyword_cons has_type_def validate_contract_def has_prop_def\<close>)

subsection \<open>The envelope conforms\<close>

lemma open_envelope_cases:
  assumes "open_envelope bc t = Inr (confidence, block)"
  obtains env where "json_parse t = Some (JObj env)" "known_keys ROOT_KEYS env"
    "get_prop env ''schema_version'' = JStr SCHEMA_VERSION" "get_prop env ''agent'' = JStr (u (bc_agent bc))"
    "\<not> list_ex (has_prop env) (bc_foreign bc)" "get_prop env ''confidence'' = JNum confidence"
    "is_finite confidence" "\<not> (confidence < Fin 0 \<or> confidence > Fin 1)"
    "get_prop env (bc_agent bc) = JObj block" "known_keys (map u (bc_keys bc)) block"
    "list_all (has_prop block) (bc_keys bc)"
  using assms unfolding open_envelope_def bind_err_Inr require_Inr
  by (auto simp: object_of_def confidence_of_envelope_def require_def split: option.splits jsval.splits if_splits)

lemma envelope_conforms:
  assumes "known_keys ROOT_KEYS env" "distinct (map fst env)"
    and "get_prop env ''schema_version'' = JStr SCHEMA_VERSION" "get_prop env ''agent'' = JStr (u agent)"
    and "get_prop env ''confidence'' = JNum c" "is_finite c" "\<not> (c < Fin 0 \<or> c > Fin 1)"
    and "agent \<in> {''triage'', ''draft'', ''validate''}"
    and "\<not> list_ex (has_prop env) (filter (\<lambda>b. b \<noteq> agent) [''triage'', ''draft'', ''validate''])"
    and "get_prop env agent = JObj block"
    and "\<exists>sch. map_of AGENT_IO_DEFS (u (agent @ ''_block'')) = Some sch
           \<and> conforms (Suc (Suc (Suc n))) kb_id_patterns AGENT_IO_DEFS sch (JObj block)"
  shows "conforms (Suc (Suc (Suc (Suc (Suc n))))) kb_id_patterns AGENT_IO_DEFS agent_output_schema (JObj env)"
proof (rule conforms_blockI)
  have here: "u k \<in> fst ` set env" if "k \<in> {''schema_version'', ''agent'', ''confidence''}" for k
    using that assms(3-5) has_prop_get [of env k] by auto
  show "shallow_ok kb_id_patterns (members agent_output_schema) (JObj env)"
    using here by (simp add: agent_output_schema_def shallow_ok_def keyword_cons has_type_def)
  fix k y
  assume ky: "(k, y) \<in> set env"
  then have k: "k \<in> set ROOT_KEYS" using assms(1) by (auto simp: known_keys_def list_all_iff)
  have y: "k = u key \<Longrightarrow> get_prop env key = y" for key using member_is_prop [OF assms(2)] ky by blast
  let ?goal = "\<exists>t. property_schema (members agent_output_schema) k = Some t
      \<and> conforms (Suc (Suc (Suc (Suc n)))) kb_id_patterns AGENT_IO_DEFS t y"
  have block: ?goal if "k = u b" "b \<in> {''triage'', ''draft'', ''validate''}" for b
  proof -
    have "has_prop env b" using ky that(1) by (auto simp: has_prop_def) (metis fst_conv image_eqI)
    then have b: "b = agent" using assms(9) that(2) by (auto split: if_splits)
    then have "y = JObj block" using y [OF that(1)] assms(10) by simp
    with assms(8,11) b that(1) show ?goal
      by (auto simp add: leaf agent_output_schema_def u_def)
  qed
  from k consider "k = u ''schema_version''" | "k = u ''agent''" | "k = u ''confidence''"
    | "k = u ''triage''" | "k = u ''draft''" | "k = u ''validate''"
    by (auto simp: ROOT_KEYS_def)
  then show ?goal
  proof cases
    case 1
    with y assms(3) have "y = JStr SCHEMA_VERSION" by simp
    with 1 show ?thesis by (simp add: leaf agent_output_schema_def SCHEMA_VERSION_def)
  next
    case 2
    with y assms(4) have "y = JStr (u agent)" by simp
    with 2 assms(8) show ?thesis by (auto simp add: leaf agent_output_schema_def AGENT_NAMES_def)
  next
    case 3
    with y assms(5) have "y = JNum c" by simp
    with 3 assms(6,7) show ?thesis
      by (cases c) (simp_all add: leaf agent_output_schema_def at_least.simps at_most.simps)
  qed (use block in blast)+
qed (simp_all add: agent_output_schema_def)


lemma open_envelope_conforms:
  assumes "open_envelope bc t = Inr (confidence, block)"
    and "bc_agent bc \<in> {''triage'', ''draft'', ''validate''}"
    and "bc_foreign bc = filter (\<lambda>b. b \<noteq> bc_agent bc) [''triage'', ''draft'', ''validate'']"
    and "\<And>fs. distinct (map fst block) \<Longrightarrow> \<exists>sch. map_of AGENT_IO_DEFS (u (bc_agent bc @ ''_block'')) = Some sch
           \<and> conforms (Suc (Suc (Suc n))) kb_id_patterns AGENT_IO_DEFS sch (JObj block)"
  shows "\<exists>v. json_parse t = Some v
    \<and> conforms (Suc (Suc (Suc (Suc (Suc n))))) kb_id_patterns AGENT_IO_DEFS agent_output_schema v"
proof -
  from assms(1) obtain env where env: "json_parse t = Some (JObj env)" "known_keys ROOT_KEYS env"
    "get_prop env ''schema_version'' = JStr SCHEMA_VERSION" "get_prop env ''agent'' = JStr (u (bc_agent bc))"
    "\<not> list_ex (has_prop env) (bc_foreign bc)" "get_prop env ''confidence'' = JNum confidence"
    "is_finite confidence" "\<not> (confidence < Fin 0 \<or> confidence > Fin 1)"
    "get_prop env (bc_agent bc) = JObj block"
    by (rule open_envelope_cases)
  have d: "distinct_json (JObj env)" using env(1) by (rule json_parse_distinct)
  then have "distinct_json (get_prop env (bc_agent bc))"
    by (auto simp: get_prop_def list_all_iff split: option.split dest: map_of_SomeD)
  then have "distinct (map fst block)" by (simp add: env(9))
  from assms(4) [OF this] d show ?thesis
    using envelope_conforms [OF env(2) _ env(3,4,6,7,8) assms(2) _ env(9)] env(1,5) assms(3) by auto
qed

lemma block_schemas [simp]:
  "map_of AGENT_IO_DEFS (u ''triage_block'') = Some triage_block_schema"
  "map_of AGENT_IO_DEFS (u ''draft_block'') = Some draft_block_schema"
  "map_of AGENT_IO_DEFS (u ''validate_block'') = Some validate_block_schema"
  by (simp_all add: AGENT_IO_DEFS_def)

lemma block_of_open:
  "open_envelope bc t = Inr (confidence, block) \<Longrightarrow>
    known_keys (map u (bc_keys bc)) block \<and> list_all (has_prop block) (bc_keys bc)"
  by (erule open_envelope_cases) simp

lemma triage_conforms:
  assumes "parseTriageEnvelope t = Inr e"
  shows "\<exists>v. json_parse t = Some v
    \<and> conforms (Suc (Suc (Suc (Suc (Suc 0))))) kb_id_patterns AGENT_IO_DEFS agent_output_schema v"
proof -
  from assms obtain c fs category x where o: "open_envelope triage_contract t = Inr (c, fs)"
    and f: "get_prop fs ''category'' = JStr category" "category \<noteq> []" "length category \<le> CATEGORY_MAX"
      "is_triage_severity (get_prop fs ''severity'')" "get_prop fs ''sentiment'' = JNum x"
      "\<not> (x < Fin (- 1) \<or> x > Fin 1)" "is_finite x"
    unfolding parseTriageEnvelope_def by (auto simp: bind_err_Inr)
  show ?thesis
    by (rule open_envelope_conforms [OF o])
      (use triage_block_conforms [OF conjunct1 [OF block_of_open [OF o]] conjunct2 [OF block_of_open [OF o]] _ f]
        in \<open>simp_all add: triage_contract_def\<close>)
qed

lemma draft_cases:
  assumes "parseDraftEnvelope t sources = Inr e"
  obtains fs ids where "open_envelope draft_contract t = Inr (de_confidence e, fs)"
    "get_prop fs ''text'' = JStr (de_text e)" "js_trim (de_text e) \<noteq> []" "length (de_text e) \<le> DRAFT_TEXT_MAX"
    "get_prop fs ''kb_ids'' = JArr (map JStr ids)" "ids \<noteq> []" "list_all KB_ID ids" "de_kb_ids e = unique_list ids"
    "\<forall>k \<in> set (de_kb_ids e). k \<in> src_kb_id ` set sources"
    "\<forall>s \<in> set sources. src_kb_id s \<notin> set (de_kb_ids e) \<longrightarrow> \<not> sharesVerbatimRun (de_text e) (src_excerpt s) VERBATIM_RUN_MIN"
proof -
  from assms obtain c fs reply cited ids where p: "open_envelope draft_contract t = Inr (c, fs)"
    "get_prop fs ''text'' = JStr reply" "js_trim reply \<noteq> []" "length reply \<le> DRAFT_TEXT_MAX"
    "get_prop fs ''kb_ids'' = JArr cited" "cited \<noteq> []" "cited_ids cited = Inr ids"
    "list_all (\<lambda>k. k \<in> set (map src_kb_id sources)) (unique_list ids)"
    "list_all (\<lambda>s. src_kb_id s \<in> set (unique_list ids) \<or> \<not> sharesVerbatimRun reply (src_excerpt s) VERBATIM_RUN_MIN) sources"
    "e = \<lparr>de_confidence = c, de_text = reply, de_kb_ids = unique_list ids\<rparr>"
    unfolding parseDraftEnvelope_def Let_def by (auto simp: bind_err_Inr)
  from cited_ids_Inr [OF p(7)] p show thesis
    by (intro that [of fs ids]) (auto simp: list_all_iff)
qed

lemma draft_conforms:
  assumes "parseDraftEnvelope t sources = Inr e"
  shows "\<exists>v. json_parse t = Some v
    \<and> conforms (Suc (Suc (Suc (Suc (Suc 0))))) kb_id_patterns AGENT_IO_DEFS agent_output_schema v"
  using assms
proof (rule draft_cases)
  fix fs ids
  assume o: "open_envelope draft_contract t = Inr (de_confidence e, fs)"
    and f: "get_prop fs ''text'' = JStr (de_text e)" "length (de_text e) \<le> DRAFT_TEXT_MAX"
      "get_prop fs ''kb_ids'' = JArr (map JStr ids)" "ids \<noteq> []" "list_all KB_ID ids"
  show ?thesis
    by (rule open_envelope_conforms [OF o])
      (use draft_block_conforms [OF conjunct1 [OF block_of_open [OF o]] conjunct2 [OF block_of_open [OF o]] _ f]
        in \<open>simp_all add: draft_contract_def\<close>)
qed

lemma validate_conforms:
  assumes "parseValidateEnvelope t = Inr e"
  shows "\<exists>v. json_parse t = Some v
    \<and> conforms (Suc (Suc (Suc (Suc (Suc 0))))) kb_id_patterns AGENT_IO_DEFS agent_output_schema v"
proof -
  from assms obtain c fs b xs cs where o: "open_envelope validate_contract t = Inr (c, fs)"
    and f: "get_prop fs ''grounded'' = JBool b" "get_prop fs ''unsupported_claims'' = JArr xs" "claim_texts xs = Inr cs"
    unfolding parseValidateEnvelope_def by (auto simp: bind_err_Inr)
  have x: "get_prop fs ''unsupported_claims'' = JArr (map JStr cs)" using f(2) claim_texts_Inr [OF f(3)] by simp
  show ?thesis
    by (rule open_envelope_conforms [OF o])
      (use validate_block_conforms [OF conjunct1 [OF block_of_open [OF o]] conjunct2 [OF block_of_open [OF o]] _ f(1) x]
        in \<open>simp_all add: validate_contract_def\<close>)
qed

text \<open>
  C24: Whatever text a model answers with, what one of the three readers accepts is a JSON value that
  conforms to the published contract \<open>AGENT_IO_SCHEMA\<close>: every required field present and of its type,
  no field beyond the published ones at either level, every number in its range, every text within its
  length and every cited identifier of the published form.
\<close>

theorem accepted_answers_conform_to_the_contract:
  assumes "(\<exists>e. parseTriageEnvelope t = Inr e) \<or> (\<exists>sources e. parseDraftEnvelope t sources = Inr e)
    \<or> (\<exists>e. parseValidateEnvelope t = Inr e)"
  shows "\<exists>v. json_parse t = Some v \<and> conforms 5 kb_id_patterns AGENT_IO_DEFS agent_output_schema v"
proof -
  have five: "(5::nat) = Suc (Suc (Suc (Suc (Suc 0))))" by simp
  from assms show ?thesis
    unfolding five using triage_conforms [of t] draft_conforms [of t] validate_conforms [of t] by blast
qed


subsection \<open>What a draft may copy\<close>

definition infix_of :: "jstr \<Rightarrow> jstr \<Rightarrow> bool" where
  "infix_of run s = (\<exists>a b. s = a @ run @ b)"

lemma window_iff:
  "(\<exists>i. i + m \<le> length s \<and> run = take m (drop i s)) \<longleftrightarrow> length run = m \<and> infix_of run s"
proof
  assume "\<exists>i. i + m \<le> length s \<and> run = take m (drop i s)"
  then obtain i where i: "i + m \<le> length s" "run = take m (drop i s)" by blast
  have "s = take i s @ take m (drop i s) @ drop m (drop i s)" by (metis append_take_drop_id)
  with i show "length run = m \<and> infix_of run s" by (auto simp: infix_of_def)
next
  assume "length run = m \<and> infix_of run s"
  then obtain a b where "s = a @ run @ b" "length run = m" by (auto simp: infix_of_def)
  then show "\<exists>i. i + m \<le> length s \<and> run = take m (drop i s)"
    by (intro exI [of _ "length a"]) simp
qed

lemma shares_verbatim_iff:
  "sharesVerbatimRun haystack needle m \<longleftrightarrow>
    (\<exists>run. length run = m \<and> infix_of run (normaliseRun needle) \<and> infix_of run (normaliseRun haystack))"
proof -
  let ?n = "normaliseRun needle" and ?h = "normaliseRun haystack"
  have starts: "m \<le> length ?n \<Longrightarrow> (\<exists>i \<in> set [0..<length ?n + 1 - m]. Q i) \<longleftrightarrow> (\<exists>i. i + m \<le> length ?n \<and> Q i)" for Q
    unfolding set_upt Bex_def atLeastLessThan_iff by (intro ex_cong1) auto
  have "sharesVerbatimRun haystack needle m \<longleftrightarrow>
      (m \<le> length ?n \<and> m \<le> length ?h \<and> (\<exists>i. i + m \<le> length ?n \<and> infix_of (take m (drop i ?n)) ?h))"
    unfolding sharesVerbatimRun_def Let_def list_ex_iff js_includes_iff infix_of_def [symmetric]
    using starts by (auto simp: not_less)
  also have "\<dots> \<longleftrightarrow> (\<exists>i. i + m \<le> length ?n \<and> infix_of (take m (drop i ?n)) ?h)"
  proof -
    have "m \<le> length ?h" if "i + m \<le> length ?n" "infix_of (take m (drop i ?n)) ?h" for i
    proof -
      from that(2) obtain a b where "?h = a @ take m (drop i ?n) @ b" by (auto simp: infix_of_def)
      then have "length ?h = length a + length (take m (drop i ?n)) + length b" by simp
      with that(1) show ?thesis by simp
    qed
    then show ?thesis by (meson add_leD2)
  qed
  also have "\<dots> \<longleftrightarrow> (\<exists>run. (\<exists>i. i + m \<le> length ?n \<and> run = take m (drop i ?n)) \<and> infix_of run ?h)" by blast
  finally show ?thesis unfolding window_iff by blast
qed

lemma unique_list_props [simp]: "set (unique_list xs) = set xs" "distinct (unique_list xs)" "unique_list xs = [] \<longleftrightarrow> xs = []"
proof -
  show s: "set (unique_list xs) = set xs" by (simp add: unique_list_def)
  show "distinct (unique_list xs)" by (simp add: unique_list_def)
  show "unique_list xs = [] \<longleftrightarrow> xs = []" using s by (metis set_empty)
qed

lemma draft_copies_only_what_it_cites:
  assumes "parseDraftEnvelope t sources = Inr e"
  shows "de_kb_ids e \<noteq> [] \<and> distinct (de_kb_ids e) \<and> set (de_kb_ids e) \<subseteq> src_kb_id ` set sources
    \<and> js_trim (de_text e) \<noteq> [] \<and> length (de_text e) \<le> 4096
    \<and> (\<forall>s \<in> set sources. src_kb_id s \<notin> set (de_kb_ids e) \<longrightarrow>
         \<not> (\<exists>run. length run = 64 \<and> infix_of run (normaliseRun (src_excerpt s)) \<and> infix_of run (normaliseRun (de_text e))))"
  using assms
proof (rule draft_cases)
  fix fs ids
  assume "js_trim (de_text e) \<noteq> []" "length (de_text e) \<le> DRAFT_TEXT_MAX" "ids \<noteq> []" "de_kb_ids e = unique_list ids"
    "\<forall>k \<in> set (de_kb_ids e). k \<in> src_kb_id ` set sources"
    "\<forall>s \<in> set sources. src_kb_id s \<notin> set (de_kb_ids e) \<longrightarrow> \<not> sharesVerbatimRun (de_text e) (src_excerpt s) VERBATIM_RUN_MIN"
  then show ?thesis
    unfolding shares_verbatim_iff VERBATIM_RUN_MIN_def DRAFT_TEXT_MAX_def by auto
qed

definition sample_source :: draft_source where
  "sample_source = \<lparr>src_kb_id = u ''refunds:1'', src_excerpt = u ''Duplicate charges are refunded to the card within five working days.''\<rparr>"

definition sample_answer :: jstr where
  "sample_answer = u ''{\"schema_version\":\"1.0\",\"agent\":\"draft\",\"confidence\":1,\"draft\":{\"text\":\"Duplicate charges are refunded to the card within five days.\",\"kb_ids\":[\"refunds:1\"]}}''"

lemma sample_answer_parses: "\<exists>e. parseDraftEnvelope sample_answer [sample_source] = Inr e"
proof -
  have "(case parseDraftEnvelope sample_answer [sample_source] of Inr _ \<Rightarrow> True | Inl _ \<Rightarrow> False)" by code_simp
  then show ?thesis by (auto split: sum.splits)
qed

theorem accepted_answers_conform_to_the_contract_witness:
  "\<exists>v. json_parse sample_answer = Some v \<and> conforms 5 kb_id_patterns AGENT_IO_DEFS agent_output_schema v"
  by (rule accepted_answers_conform_to_the_contract) (use sample_answer_parses in blast)

end
