(* ===== verification/Grounding.thy ===== *)
theory Grounding
  imports Envelope_Safety
begin

section \<open>When a draft is grounded\<close>

text \<open>
  \<open>agents/grounding.ts\<close>: the conjunction that writes \<open>response.grounded\<close>.  Lower-casing by
  Unicode data is the parameter \<open>lower\<close>.
\<close>

definition OVERLAP_WORDS :: nat where
  "OVERLAP_WORDS = 6"

definition word_unit :: "nat \<Rightarrow> bool" where
  "word_unit c = (97 \<le> c \<and> c \<le> 122 \<or> 48 \<le> c \<and> c \<le> 57)"

text \<open>\<open>s.match(/[a-z0-9]+/g)\<close>: the maximal runs, left to right.\<close>

fun word_runs :: "jstr \<Rightarrow> jstr \<Rightarrow> jstr list" where
  "word_runs run [] = (if run = [] then [] else [run])"
| "word_runs run (c # s) =
     (if word_unit c then word_runs (run @ [c]) s
      else if run = [] then word_runs [] s else run # word_runs [] s)"

definition words_of :: "(jstr \<Rightarrow> jstr) \<Rightarrow> jstr \<Rightarrow> jstr list" where
  "words_of lower t = word_runs [] (lower (normaliseRun t))"

definition join_words :: "jstr list \<Rightarrow> jstr" where
  "join_words ws = join_with [32] ws"

definition windows :: "(jstr \<Rightarrow> jstr) \<Rightarrow> jstr \<Rightarrow> nat \<Rightarrow> jstr list" where
  "windows lower t n =
     (let tokens = words_of lower t
      in if tokens = [] then []
         else if length tokens < n then [join_words tokens]
         else map (\<lambda>start. join_words (take n (drop start tokens))) [0..<length tokens + 1 - n])"

definition overlapsExcerpt :: "(jstr \<Rightarrow> jstr) \<Rightarrow> jstr \<Rightarrow> jstr \<Rightarrow> nat \<Rightarrow> bool" where
  "overlapsExcerpt lower draft excerpt n =
     (let haystack = join_words (words_of lower draft)
      in if haystack = [] then False
         else list_ex (\<lambda>w. w \<noteq> [] \<and> js_includes haystack w) (windows lower excerpt n))"

text \<open>Everything before the last colon, and the whole identifier when there is none.\<close>

definition canonicalKeyOf :: "jstr \<Rightarrow> jstr" where
  "canonicalKeyOf kb_id =
     (if 58 \<notin> set kb_id then kb_id else rev (tl (dropWhile (\<lambda>c. c \<noteq> 58) (rev kb_id))))"

definition add_body :: "(jstr \<times> jstr list) list \<Rightarrow> draft_source \<Rightarrow> (jstr \<times> jstr list) list" where
  "add_body byKey s =
     (let key = canonicalKeyOf (src_kb_id s); body = normaliseRun (src_excerpt s)
      in case map_of byKey key of
           None \<Rightarrow> byKey @ [(key, [body])]
         | Some bodies \<Rightarrow> map (\<lambda>(k, bs). (k, if k = key then List.insert body bs else bs)) byKey)"

definition conflictingKeys :: "draft_source list \<Rightarrow> jstr list" where
  "conflictingKeys sources =
     sort (map fst (filter (\<lambda>(_, bodies). length bodies > 1) (foldl add_body [] sources)))"

record grounding_conjuncts =
  sources_present :: bool
  citations_present :: bool
  citations_offered :: bool
  citations_overlap :: bool
  model_agrees :: bool

record grounding_verdict =
  gv_grounded :: bool
  gv_conjuncts :: grounding_conjuncts
  unsupported_citations :: "jstr list"
  conflicting_keys :: "jstr list"

definition offered_excerpts :: "draft_source list \<Rightarrow> jstr \<rightharpoonup> jstr" where
  "offered_excerpts sources = map_of (rev (map (\<lambda>s. (src_kb_id s, src_excerpt s)) sources))"

definition evaluateGrounding ::
    "(jstr \<Rightarrow> jstr) \<Rightarrow> draft_source list \<Rightarrow> jstr list \<Rightarrow> jstr \<Rightarrow> bool \<Rightarrow> grounding_verdict" where
  "evaluateGrounding lower sources citations draftText modelSaysGrounded =
     (let offered = offered_excerpts sources;
          cited = unique_list citations;
          present = (cited \<noteq> []);
          all_offered = (present \<and> list_all (\<lambda>k. offered k \<noteq> None) cited);
          unsupported = filter (\<lambda>k. case offered k of
              Some excerpt \<Rightarrow> \<not> overlapsExcerpt lower draftText excerpt OVERLAP_WORDS | None \<Rightarrow> False) cited;
          c = \<lparr>sources_present = (sources \<noteq> []), citations_present = present, citations_offered = all_offered,
               citations_overlap = (all_offered \<and> unsupported = []), model_agrees = modelSaysGrounded\<rparr>
      in \<lparr>gv_grounded = (sources_present c \<and> citations_present c \<and> citations_offered c \<and> citations_overlap c
                         \<and> model_agrees c),
          gv_conjuncts = c, unsupported_citations = unsupported, conflicting_keys = conflictingKeys sources\<rparr>)"

subsection \<open>Shared words are found\<close>

lemma join_words_append:
  "xs \<noteq> [] \<Longrightarrow> ys \<noteq> [] \<Longrightarrow> join_words (xs @ ys) = join_words xs @ [32] @ join_words ys"
  unfolding join_words_def
proof (induction xs)
  case (Cons x xs)
  then show ?case by (cases xs; cases ys) (auto simp: join_with_def)
qed simp

lemma join_words_infix: "infix_of (join_words ys) (join_words (xs @ ys @ zs))"
proof (cases "ys = []")
  case True
  then have "join_words ys = []" by (simp add: join_words_def join_with_def)
  then show ?thesis unfolding infix_of_def by simp (metis append_Nil)
next
  case False
  have "infix_of (join_words ys) (join_words (xs @ ys))"
  proof (cases "xs = []")
    case True
    then show ?thesis unfolding infix_of_def by (metis append_Nil append_Nil2)
  next
    case x: False
    show ?thesis unfolding join_words_append [OF x False] infix_of_def by (metis append.assoc append_Nil2)
  qed
  moreover have "infix_of (join_words (xs @ ys)) (join_words ((xs @ ys) @ zs))"
  proof (cases "zs = []")
    case z: False
    have "xs @ ys \<noteq> []" using False by simp
    from join_words_append [OF this z] show ?thesis unfolding infix_of_def by (metis append_Nil)
  qed (auto simp: infix_of_def intro: exI [of _ "[]"])
  ultimately show ?thesis
    unfolding infix_of_def by (metis append.assoc)
qed

lemma word_runs_words: "w \<in> set (word_runs run s) \<Longrightarrow> list_all word_unit run \<Longrightarrow> w \<noteq> [] \<and> list_all word_unit w"
  by (induction run s rule: word_runs.induct) (auto split: if_splits)

lemma words_of_words: "w \<in> set (words_of lower t) \<Longrightarrow> w \<noteq> [] \<and> list_all word_unit w"
  unfolding words_of_def by (erule word_runs_words) simp

lemma join_words_nonempty: "ws \<noteq> [] \<Longrightarrow> [] \<notin> set ws \<Longrightarrow> join_words ws \<noteq> []"
  unfolding join_words_def by (cases ws) (auto simp: join_with_def)

lemma shared_words_overlap:
  assumes "words_of lower draft = xs @ ws @ ys" "words_of lower excerpt = as @ ws @ bs"
    and "length ws = n" "0 < n"
  shows "overlapsExcerpt lower draft excerpt n"
proof -
  have ws: "ws \<noteq> []" "[] \<notin> set ws" using assms words_of_words [of _ lower draft] by force+
  have hay: "infix_of (join_words ws) (join_words (words_of lower draft))" unfolding assms(1) by (rule join_words_infix)
  have ne: "join_words ws \<noteq> []" by (rule join_words_nonempty [OF ws])
  have long: "\<not> length (words_of lower excerpt) < n" using assms(2,3) by simp
  have window: "join_words ws \<in> set (windows lower excerpt n)"
  proof -
    have "take n (drop (length as) (words_of lower excerpt)) = ws" by (simp add: assms(2,3))
    moreover have "length as \<in> set [0..<length (words_of lower excerpt) + 1 - n]" using assms(2,3) by simp
    ultimately have "join_words ws \<in> (\<lambda>start. join_words (take n (drop start (words_of lower excerpt))))
        ` set [0..<length (words_of lower excerpt) + 1 - n]" by (metis image_eqI)
    moreover have "words_of lower excerpt \<noteq> []" using assms(2) ws(1) by simp
    ultimately show ?thesis unfolding windows_def Let_def using long by simp
  qed
  have "join_words (words_of lower draft) \<noteq> []" using hay ne by (auto simp: infix_of_def)
  then show ?thesis
    unfolding overlapsExcerpt_def Let_def list_ex_iff using window ne hay
    by (auto simp: js_includes_iff infix_of_def)
qed

text \<open>
  Any run of six consecutive words that the draft shares with a cited excerpt counts: the check
  can only fail a draft that carries no such run.
\<close>

theorem shared_run_counts_as_overlap:
  assumes "words_of lower draft = xs @ ws @ ys" "words_of lower excerpt = as @ ws @ bs" "length ws = 6"
  shows "overlapsExcerpt lower draft excerpt OVERLAP_WORDS"
  using shared_words_overlap [OF assms(1,2)] assms(3) by (simp add: OVERLAP_WORDS_def)


definition ascii_small :: "jstr \<Rightarrow> jstr" where
  "ascii_small = map (\<lambda>c. if 65 \<le> c \<and> c \<le> 90 then c + 32 else c)"

theorem shared_run_counts_as_overlap_witness:
  "overlapsExcerpt ascii_small (u ''Charges are refunded within five days.'') (u ''All charges are refunded within five days'') OVERLAP_WORDS"
proof -
  let ?ws = "map u [''charges'', ''are'', ''refunded'', ''within'', ''five'', ''days'']"
  have "words_of ascii_small (u ''Charges are refunded within five days.'') = [] @ ?ws @ []" by code_simp
  moreover have "words_of ascii_small (u ''All charges are refunded within five days'') = [u ''all''] @ ?ws @ []" by code_simp
  ultimately show ?thesis by (rule shared_run_counts_as_overlap) simp
qed


text \<open>
  The overlap is looked for in the text of the words and not among the words: an excerpt is taken
  for used although the draft shares no run of six of its words, when the first and the last word of
  the window are the end and the start of longer words of the draft.
\<close>

theorem overlap_is_not_word_aligned:
  "let draft = u ''This is unlike the refund we made before.''; excerpt = u ''Like the refund we made be.'';
       lower = ascii_small
   in overlapsExcerpt lower draft excerpt OVERLAP_WORDS
      \<and> \<not> (\<exists>xs ws ys as bs. words_of lower draft = xs @ ws @ ys \<and> words_of lower excerpt = as @ ws @ bs \<and> length ws = 6)"
proof -
  let ?lower = ascii_small
  let ?draft = "u ''This is unlike the refund we made before.''" and ?excerpt = "u ''Like the refund we made be.''"
  have d: "words_of ?lower ?draft = map u [''this'', ''is'', ''unlike'', ''the'', ''refund'', ''we'', ''made'', ''before'']"
    by code_simp
  have x: "words_of ?lower ?excerpt = map u [''like'', ''the'', ''refund'', ''we'', ''made'', ''be'']" by code_simp
  have "overlapsExcerpt ?lower ?draft ?excerpt OVERLAP_WORDS" by code_simp
  moreover have False if "words_of ?lower ?draft = xs @ ws @ ys" "words_of ?lower ?excerpt = as @ ws @ bs" "length ws = 6"
    for xs ws ys as bs
  proof -
    have "length (as @ ws @ bs) = 6" unfolding that(2) [symmetric] x by simp
    then have "as = []" "bs = []" using that(3) by auto
    then have "ws = map u [''like'', ''the'', ''refund'', ''we'', ''made'', ''be'']" using that(2) x by simp
    then have "u ''like'' \<in> set (words_of ?lower ?draft)" unfolding that(1) by simp
    then show False unfolding d by simp
  qed
  ultimately show ?thesis unfolding Let_def by blast
qed

end
