(* ===== verification/Gap_Channel.thy ===== *)
theory Gap_Channel
  imports Json_Schema Escalation "HOL-Library.Code_Target_Nat"
begin

section \<open>The knowledge-gap channel\<close>

text \<open>
  \<open>src/alg/gap_channel.ts\<close> and \<open>src/alg/channels.ts\<close>: the record of the fourth declared channel,
  its published schema, the receiver's check of a record of unknown shape, the bytes of a record, and
  the table of the channels with their caps.  Of a violation the model keeps the field and which of the
  checks it failed; the Unicode normalisation and lower-casing of \<open>canonicalQueryForm\<close> are parameters.
\<close>

subsection \<open>The contract\<close>

definition GAP_CHANNEL_STATES :: "jstr list" where
  "GAP_CHANNEL_STATES = map u [''OPEN'', ''NOT_DOCUMENTABLE'', ''CLOSED'']"

definition GAP_CHANNEL_EMISSION_STATE :: jstr where
  "GAP_CHANNEL_EMISSION_STATE = u ''OPEN''"

definition GAP_CHANNEL_MAX_DIVERGENT :: nat where
  "GAP_CHANNEL_MAX_DIVERGENT = 4"

definition GAP_CHANNEL_FIELDS :: "jstr list" where
  "GAP_CHANNEL_FIELDS = map u
     [''gap_id'', ''canonical_key_sha256'', ''query_sha256'', ''kb_snapshot'', ''owner_id'',
      ''committed_date'', ''state'', ''divergent_kb_ids'', ''note'']"

definition GAP_CHANNEL_BYTES :: "jstr \<Rightarrow> nat" where
  "GAP_CHANNEL_BYTES f =
     (case map_of (zip GAP_CHANNEL_FIELDS [36, 64, 64, 64, 36, 10, 16, GAP_CHANNEL_MAX_DIVERGENT * 36, 512]) f of
        Some n \<Rightarrow> n | None \<Rightarrow> 0)"

definition GAP_CHANNEL_RECORD_MAX_BYTES :: nat where
  "GAP_CHANNEL_RECORD_MAX_BYTES = 1024"

definition GAP_CHANNEL_OPEN_CONTENT_MAX_BYTES :: nat where
  "GAP_CHANNEL_OPEN_CONTENT_MAX_BYTES = GAP_CHANNEL_BYTES (u ''note'')"

definition GAP_CHANNEL_TOTAL_BYTES :: nat where
  "GAP_CHANNEL_TOTAL_BYTES = foldl (\<lambda>total field. total + GAP_CHANNEL_BYTES field) 0 GAP_CHANNEL_FIELDS"

definition UUID_PATTERN :: jstr where
  "UUID_PATTERN = u ''^[0-9a-f]{8}-[0-9a-f]{4}-[0-9a-f]{4}-[0-9a-f]{4}-[0-9a-f]{12}$''"

definition SHA256_PATTERN :: jstr where
  "SHA256_PATTERN = u ''^[a-f0-9]{64}$''"

definition ISO_DATE_PATTERN :: jstr where
  "ISO_DATE_PATTERN = u ''^[0-9]{4}-[0-9]{2}-[0-9]{2}$''"

definition SNAPSHOT_PATTERN :: jstr where
  "SNAPSHOT_PATTERN = u ''^[A-Za-z0-9:._-]{1,64}$''"

definition GAP_CHANNEL_SCHEMA :: jsval where
  "GAP_CHANNEL_SCHEMA = JObj [(u ''$schema'', JStr (u ''https://json-schema.org/draft/2020-12/schema'')),
      (u ''$id'', JStr (u ''ledgerdesk/quality/schemas/gap_channel.schema.json'')),
      (u ''title'', JStr (u ''Knowledge-gap channel record'')),
      (u ''description'', JStr (u ''The fourth declared channel. It carries the commitment a human made in advance, two digests that only tie, and the sources that diverged. It never carries a term of the enquiry in clear: the receiver mediated the query and supplies those fields itself.'')),
      (u ''type'', JStr (u ''object'')),
      (u ''required'', JArr (map JStr GAP_CHANNEL_FIELDS)),
      (u ''additionalProperties'', JBool False),
      (u ''properties'', JObj [(u ''gap_id'', JObj [(u ''type'', JStr (u ''string'')),
          (u ''format'', JStr (u ''uuid'')),
          (u ''pattern'', JStr UUID_PATTERN),
          (u ''maxLength'', JNum (Fin (of_nat (GAP_CHANNEL_BYTES (u ''gap_id''))))),
          (u ''description'', JStr (u ''The identity the record is minted under, so a retry names the same gap.''))]),
        (u ''canonical_key_sha256'', JObj [(u ''type'', JStr (u ''string'')),
          (u ''pattern'', JStr SHA256_PATTERN),
          (u ''maxLength'', JNum (Fin (of_nat (GAP_CHANNEL_BYTES (u ''canonical_key_sha256''))))),
          (u ''description'', JStr (u ''The canonical key of the question, hashed. It ties: the receiver recomputes it from the terms it searched with and compares.''))]),
        (u ''query_sha256'', JObj [(u ''type'', JStr (u ''string'')),
          (u ''pattern'', JStr SHA256_PATTERN),
          (u ''maxLength'', JNum (Fin (of_nat (GAP_CHANNEL_BYTES (u ''query_sha256''))))),
          (u ''description'', JStr (u ''sha256(query_terms || kb_snapshot). It ties, and it is what makes the re-run identical by construction.''))]),
        (u ''kb_snapshot'', JObj [(u ''type'', JStr (u ''string'')),
          (u ''pattern'', JStr SNAPSHOT_PATTERN),
          (u ''maxLength'', JNum (Fin (of_nat (GAP_CHANNEL_BYTES (u ''kb_snapshot''))))),
          (u ''description'', JStr (u ''Repeated by the channel only so that the digest above can be tied to it.''))]),
        (u ''owner_id'', JObj [(u ''type'', JStr (u ''string'')),
          (u ''format'', JStr (u ''uuid'')),
          (u ''pattern'', JStr UUID_PATTERN),
          (u ''maxLength'', JNum (Fin (of_nat (GAP_CHANNEL_BYTES (u ''owner_id''))))),
          (u ''description'', JStr (u ''Carried by the channel. The receiver validates that it resolves to a live user of the same organisation, and never invents one.''))]),
        (u ''committed_date'', JObj [(u ''type'', JStr (u ''string'')),
          (u ''format'', JStr (u ''date'')),
          (u ''pattern'', JStr ISO_DATE_PATTERN),
          (u ''maxLength'', JNum (Fin (of_nat (GAP_CHANNEL_BYTES (u ''committed_date''))))),
          (u ''description'', JStr (u ''The commitment half: by when. Carried, validated, never supplied.''))]),
        (u ''state'', JObj [(u ''enum'', JArr (map JStr GAP_CHANNEL_STATES)),
          (u ''maxLength'', JNum (Fin (of_nat (GAP_CHANNEL_BYTES (u ''state''))))),
          (u ''description'', JStr (u ''On emission the receiver accepts only OPEN. The other two exist because the field mirrors the record column.''))]),
        (u ''divergent_kb_ids'', JObj [(u ''type'', JStr (u ''array'')),
          (u ''maxItems'', JNum (Fin (of_nat GAP_CHANNEL_MAX_DIVERGENT))),
          (u ''items'', JObj [(u ''type'', JStr (u ''string'')),
            (u ''format'', JStr (u ''uuid'')),
            (u ''pattern'', JStr UUID_PATTERN)]),
          (u ''description'', JStr (u ''Empty unless the gap was born of two sources that disagree.''))]),
        (u ''note'', JObj [(u ''type'', JStr (u ''string'')),
          (u ''maxLength'', JNum (Fin (of_nat (GAP_CHANNEL_BYTES (u ''note''))))),
          (u ''description'', JStr (u ''The only open content of the record. Its cap is what separates a typed channel with bounded open content from a text channel.''))])])]"

subsection \<open>The patterns as tests\<close>

definition low_hex :: "nat \<Rightarrow> bool" where
  "low_hex c = (48 \<le> c \<and> c \<le> 57 \<or> 97 \<le> c \<and> c \<le> 102)"

definition is_digit_unit :: "nat \<Rightarrow> bool" where
  "is_digit_unit c = (48 \<le> c \<and> c \<le> 57)"

definition snapshot_unit :: "nat \<Rightarrow> bool" where
  "snapshot_unit c = (65 \<le> c \<and> c \<le> 90 \<or> 97 \<le> c \<and> c \<le> 122 \<or> is_digit_unit c \<or> c \<in> {58, 46, 95, 45})"

definition dash :: "nat \<Rightarrow> bool" where
  "dash c = (c = 45)"

definition shape :: "(nat \<Rightarrow> bool) list \<Rightarrow> jstr \<Rightarrow> bool" where
  "shape ps s = list_all2 (\<lambda>p c. p c) ps s"

definition uuid_shape :: "(nat \<Rightarrow> bool) list" where
  "uuid_shape = replicate 8 low_hex @ dash # replicate 4 low_hex @ dash # replicate 4 low_hex @ dash #
     replicate 4 low_hex @ dash # replicate 12 low_hex"

definition iso_shape :: "(nat \<Rightarrow> bool) list" where
  "iso_shape = replicate 4 is_digit_unit @ dash # replicate 2 is_digit_unit @ dash # replicate 2 is_digit_unit"

text \<open>\<open>new RegExp(pattern).test(value)\<close> for the four patterns.\<close>

definition matches_pattern :: "jstr \<Rightarrow> jstr \<Rightarrow> bool" where
  "matches_pattern p s =
     (if p = UUID_PATTERN then shape uuid_shape s
      else if p = SHA256_PATTERN then shape (replicate 64 low_hex) s
      else if p = ISO_DATE_PATTERN then shape iso_shape s
      else if p = SNAPSHOT_PATTERN then 1 \<le> length s \<and> length s \<le> 64 \<and> list_all snapshot_unit s
      else False)"

subsection \<open>The receiver\<close>

datatype gap_fault =
    Not_An_Object | Unknown_Field | Not_A_String | Too_Many_Bytes nat | No_Match jstr | Outside_Set
  | Not_A_List | Too_Many_Sources nat | Not_An_Identity

record gap_violation =
  gap_field :: jstr
  gap_fault :: gap_fault

text \<open>\<open>Buffer.byteLength(value, 'utf8')\<close>: a surrogate on its own is written as U+FFFD.\<close>

fun byteLength :: "jstr \<Rightarrow> nat" where
  "byteLength (c # d # s) =
     (if is_high c \<and> is_low d then 4 + byteLength s
      else (if c < 128 then 1 else if c < 2048 then 2 else 3) + byteLength (d # s))"
| "byteLength [c] = (if c < 128 then 1 else if c < 2048 then 2 else 3)"
| "byteLength [] = 0"

definition canonicalQueryForm :: "(jstr \<Rightarrow> jstr) \<Rightarrow> (jstr \<Rightarrow> jstr) \<Rightarrow> jstr \<Rightarrow> jstr" where
  "canonicalQueryForm nfkc lower terms = js_trim (collapse_spaces False (lower (nfkc terms)))"

text \<open>The string the field holds, or the violation that was pushed.\<close>

definition checkString :: "jsval \<Rightarrow> jstr \<Rightarrow> jstr \<Rightarrow> gap_violation + jstr" where
  "checkString v field pat =
     (case v of
        JStr s \<Rightarrow>
          if byteLength s > GAP_CHANNEL_BYTES field
          then Inl \<lparr>gap_field = field, gap_fault = Too_Many_Bytes (byteLength s)\<rparr>
          else if pat \<noteq> [] \<and> \<not> matches_pattern pat s
          then Inl \<lparr>gap_field = field, gap_fault = No_Match pat\<rparr>
          else Inr s
      | _ \<Rightarrow> Inl \<lparr>gap_field = field, gap_fault = Not_A_String\<rparr>)"

definition faults_of :: "gap_violation + 'a \<Rightarrow> gap_violation list" where
  "faults_of r = (case r of Inl x \<Rightarrow> [x] | Inr _ \<Rightarrow> [])"

definition checked_fields :: "(string \<times> jstr) list" where
  "checked_fields =
     [(''gap_id'', UUID_PATTERN), (''canonical_key_sha256'', SHA256_PATTERN), (''query_sha256'', SHA256_PATTERN),
      (''kb_snapshot'', SNAPSHOT_PATTERN), (''owner_id'', UUID_PATTERN), (''committed_date'', ISO_DATE_PATTERN),
      (''note'', [])]"

definition state_faults :: "jsval \<Rightarrow> gap_violation list" where
  "state_faults v =
     (case checkString v (u ''state'') [] of
        Inl x \<Rightarrow> [x]
      | Inr s \<Rightarrow> if s \<in> set GAP_CHANNEL_STATES then [] else [\<lparr>gap_field = u ''state'', gap_fault = Outside_Set\<rparr>])"

definition identity_ok :: "jsval \<Rightarrow> bool" where
  "identity_ok v = (case v of JStr s \<Rightarrow> matches_pattern UUID_PATTERN s | _ \<Rightarrow> False)"

definition divergent_faults :: "jsval \<Rightarrow> gap_violation list" where
  "divergent_faults v =
     (case v of
        JArr xs \<Rightarrow>
          (if length xs > GAP_CHANNEL_MAX_DIVERGENT
           then [\<lparr>gap_field = u ''divergent_kb_ids'', gap_fault = Too_Many_Sources (length xs)\<rparr>] else [])
          @ map (\<lambda>(i, _). \<lparr>gap_field = u ''divergent_kb_ids['' @ nat_digits i @ u '']'', gap_fault = Not_An_Identity\<rparr>)
              (filter (\<lambda>(_, x). \<not> identity_ok x) (zip [0..<length xs] xs))
      | _ \<Rightarrow> [\<lparr>gap_field = u ''divergent_kb_ids'', gap_fault = Not_A_List\<rparr>])"

definition validateGapChannelRecord :: "jsval \<Rightarrow> gap_violation list" where
  "validateGapChannelRecord v =
     (case v of
        JObj fs \<Rightarrow>
          map (\<lambda>(k, _). \<lparr>gap_field = k, gap_fault = Unknown_Field\<rparr>) (filter (\<lambda>(k, _). k \<notin> set GAP_CHANNEL_FIELDS) fs)
          @ concat (map (\<lambda>(f, pat). faults_of (checkString (get_prop fs f) (u f) pat)) checked_fields)
          @ state_faults (get_prop fs ''state'')
          @ divergent_faults (get_prop fs ''divergent_kb_ids'')
      | _ \<Rightarrow> [\<lparr>gap_field = u ''$'', gap_fault = Not_An_Object\<rparr>])"

record gap_record =
  gr_gap_id :: jstr
  gr_canonical_key_sha256 :: jstr
  gr_query_sha256 :: jstr
  gr_kb_snapshot :: jstr
  gr_owner_id :: jstr
  gr_committed_date :: jstr
  gr_state :: jstr
  gr_divergent_kb_ids :: "jstr list"
  gr_note :: jstr

definition gapChannelRecordBytes :: "gap_record \<Rightarrow> nat" where
  "gapChannelRecordBytes r =
     byteLength (gr_gap_id r) + byteLength (gr_canonical_key_sha256 r) + byteLength (gr_query_sha256 r)
     + byteLength (gr_kb_snapshot r) + byteLength (gr_owner_id r) + byteLength (gr_committed_date r)
     + byteLength (gr_state r) + foldl (\<lambda>total i. total + byteLength i) 0 (gr_divergent_kb_ids r)
     + byteLength (gr_note r)"

subsection \<open>The declared channels\<close>

datatype channel_unit = Bytes | Bits

record declared_channel =
  ch_slug :: jstr
  ch_instantiation :: jstr
  ch_cap :: nat
  ch_unit :: channel_unit
  ch_per :: jstr
  ch_enforced_in :: jstr

definition DENIAL_ALPHABET_SIZE :: nat where
  "DENIAL_ALPHABET_SIZE = length ESCALATION_REASONS"

text \<open>\<open>Math.ceil(Math.log2(n))\<close> of a size that is not zero: the least number of bits that reach it.\<close>

fun bits_for :: "nat \<Rightarrow> nat" where
  "bits_for n = (if n \<le> 1 then 0 else Suc (bits_for ((n + 1) div 2)))"

declare bits_for.simps [simp del]

definition DENIAL_CHANNEL_BITS :: nat where
  "DENIAL_CHANNEL_BITS = bits_for DENIAL_ALPHABET_SIZE"

definition RESULT_CHANNEL_MAX_BYTES :: nat where
  "RESULT_CHANNEL_MAX_BYTES = 4096"

definition PROMOTION_GATE_BITS :: nat where
  "PROMOTION_GATE_BITS = 1"

definition DECLARED_CHANNELS :: "declared_channel list" where
  "DECLARED_CHANNELS =
     [\<lparr>ch_slug = u ''result'',
       ch_instantiation = u ''the drafted answer, validated by the caller; out of contract is refused and never truncated'',
       ch_cap = RESULT_CHANNEL_MAX_BYTES, ch_unit = Bytes, ch_per = u ''ticket'', ch_enforced_in = u ''agents/triage/schema.ts''\<rparr>,
      \<lparr>ch_slug = u ''denial-telemetry'',
       ch_instantiation = u ''a closed alphabet of '' @ nat_digits DENIAL_ALPHABET_SIZE
         @ u '' enumeration indices '' @ [8212] @ u '' zero bytes chosen by the producer'',
       ch_cap = DENIAL_CHANNEL_BITS, ch_unit = Bits, ch_per = u ''ticket'', ch_enforced_in = u ''src/alg/escalation.ts''\<rparr>,
      \<lparr>ch_slug = u ''promotion-gate'',
       ch_instantiation = u ''one bit: does the candidate beat the incumbent by more than the declared margin'',
       ch_cap = PROMOTION_GATE_BITS, ch_unit = Bits, ch_per = u ''query'',
       ch_enforced_in = u ''declared, and instantiated by the increment that runs promotions''\<rparr>,
      \<lparr>ch_slug = u ''gap-record'',
       ch_instantiation = u ''the typed knowledge-gap record: a commitment, two digests that only tie, and one bounded note'',
       ch_cap = GAP_CHANNEL_RECORD_MAX_BYTES, ch_unit = Bytes, ch_per = u ''record'', ch_enforced_in = u ''src/alg/gap_channel.ts''\<rparr>]"

definition DECLARED_CHANNEL_SLUGS :: "jstr list" where
  "DECLARED_CHANNEL_SLUGS = map ch_slug DECLARED_CHANNELS"


subsection \<open>An accepted record fits the channel\<close>

lemma code_points_bytes: "code_points s \<le> byteLength s"
  by (induction s rule: byteLength.induct) auto

lemma ascii_bytes: "list_all (\<lambda>c. c < 128) s \<Longrightarrow> byteLength s = length s"
  by (induction s rule: byteLength.induct) (auto simp: is_high_def)

lemma shape_ascii: "shape ps s \<Longrightarrow> \<forall>p \<in> set ps. \<forall>c. p c \<longrightarrow> c < 128 \<Longrightarrow> list_all (\<lambda>c. c < 128) s \<and> length s = length ps"
  unfolding shape_def by (induction ps s rule: list_all2_induct) auto

lemma uuid_bytes: "matches_pattern UUID_PATTERN s \<Longrightarrow> byteLength s = 36"
proof -
  assume "matches_pattern UUID_PATTERN s"
  then have "shape uuid_shape s" by (simp add: matches_pattern_def)
  from shape_ascii [OF this] ascii_bytes [of s] show ?thesis
    by (auto simp: uuid_shape_def low_hex_def dash_def)
qed

lemma identity_ok_iff: "identity_ok v \<longleftrightarrow> (\<exists>s. v = JStr s \<and> matches_pattern UUID_PATTERN s)"
  by (cases v) (simp_all add: identity_ok_def)

lemma patterns_nonempty [simp]:
  "UUID_PATTERN \<noteq> []" "SHA256_PATTERN \<noteq> []" "ISO_DATE_PATTERN \<noteq> []" "SNAPSHOT_PATTERN \<noteq> []"
  by (simp_all add: UUID_PATTERN_def SHA256_PATTERN_def ISO_DATE_PATTERN_def SNAPSHOT_PATTERN_def)

lemma checked_string: "faults_of (checkString v f pat) = [] \<longleftrightarrow>
    (\<exists>s. v = JStr s \<and> byteLength s \<le> GAP_CHANNEL_BYTES f \<and> (pat \<noteq> [] \<longrightarrow> matches_pattern pat s))"
  by (auto simp: faults_of_def checkString_def not_less split: jsval.split)

text \<open>\<open>value as GapChannelRecord\<close>, after the check.\<close>

fun string_in :: "jsval \<Rightarrow> jstr" where
  "string_in (JStr s) = s"
| "string_in _ = []"

definition as_gap_record :: "(jstr \<times> jsval) list \<Rightarrow> gap_record" where
  "as_gap_record fs =
     \<lparr>gr_gap_id = string_in (get_prop fs ''gap_id''), gr_canonical_key_sha256 = string_in (get_prop fs ''canonical_key_sha256''),
      gr_query_sha256 = string_in (get_prop fs ''query_sha256''), gr_kb_snapshot = string_in (get_prop fs ''kb_snapshot''),
      gr_owner_id = string_in (get_prop fs ''owner_id''), gr_committed_date = string_in (get_prop fs ''committed_date''),
      gr_state = string_in (get_prop fs ''state''),
      gr_divergent_kb_ids = map string_in (elements (get_prop fs ''divergent_kb_ids'')), gr_note = string_in (get_prop fs ''note'')\<rparr>"

lemma gap_bytes [simp]:
  "GAP_CHANNEL_BYTES (u ''gap_id'') = 36" "GAP_CHANNEL_BYTES (u ''canonical_key_sha256'') = 64"
  "GAP_CHANNEL_BYTES (u ''query_sha256'') = 64" "GAP_CHANNEL_BYTES (u ''kb_snapshot'') = 64"
  "GAP_CHANNEL_BYTES (u ''owner_id'') = 36" "GAP_CHANNEL_BYTES (u ''committed_date'') = 10"
  "GAP_CHANNEL_BYTES (u ''state'') = 16" "GAP_CHANNEL_BYTES (u ''divergent_kb_ids'') = 144"
  "GAP_CHANNEL_BYTES (u ''note'') = 512"
  by (simp_all add: GAP_CHANNEL_BYTES_def GAP_CHANNEL_FIELDS_def GAP_CHANNEL_MAX_DIVERGENT_def)

lemma total_bytes: "GAP_CHANNEL_TOTAL_BYTES = 946"
  unfolding GAP_CHANNEL_TOTAL_BYTES_def by (simp add: GAP_CHANNEL_FIELDS_def)

lemma sum_of_ids: "\<forall>i \<in> set ids. byteLength i = 36 \<Longrightarrow> foldl (\<lambda>total i. total + byteLength i) n ids = n + 36 * length ids"
  by (induction ids arbitrary: n) auto

lemma divergent_accepted:
  assumes "divergent_faults v = []"
  shows "\<exists>ids. v = JArr (map JStr ids) \<and> length ids \<le> 4 \<and> (\<forall>i \<in> set ids. matches_pattern UUID_PATTERN i)"
proof -
  from assms obtain xs where xs: "v = JArr xs" "length xs \<le> 4" "filter (\<lambda>(_, x). \<not> identity_ok x) (zip [0..<length xs] xs) = []"
    by (cases v) (auto simp: divergent_faults_def GAP_CHANNEL_MAX_DIVERGENT_def split: if_splits)
  have "identity_ok x" if "x \<in> set xs" for x
  proof -
    from that obtain i where "i < length xs" "xs ! i = x" by (auto simp: in_set_conv_nth)
    then have "(i, x) \<in> set (zip [0..<length xs] xs)" by (auto simp: in_set_zip intro: exI [of _ i])
    then show ?thesis using xs(3) by (auto simp: filter_empty_conv)
  qed
  then have "\<forall>x \<in> set xs. \<exists>s. x = JStr s \<and> matches_pattern UUID_PATTERN s"
    by (simp add: identity_ok_iff)
  then have "xs = map JStr (map string_in xs) \<and> (\<forall>i \<in> set (map string_in xs). matches_pattern UUID_PATTERN i)"
    by (induction xs) auto
  with xs(1,2) show ?thesis by (intro exI [of _ "map string_in xs"]) simp
qed

lemma accepted_record:
  assumes "validateGapChannelRecord v = []"
  obtains fs ids where "v = JObj fs" "\<forall>k \<in> fst ` set fs. k \<in> set GAP_CHANNEL_FIELDS"
    "\<And>f pat. (f, pat) \<in> set checked_fields \<Longrightarrow>
       \<exists>s. get_prop fs f = JStr s \<and> byteLength s \<le> GAP_CHANNEL_BYTES (u f) \<and> (pat \<noteq> [] \<longrightarrow> matches_pattern pat s)"
    "\<exists>s. get_prop fs ''state'' = JStr s \<and> byteLength s \<le> 16 \<and> s \<in> set GAP_CHANNEL_STATES"
    "get_prop fs ''divergent_kb_ids'' = JArr (map JStr ids)" "length ids \<le> 4" "\<forall>i \<in> set ids. matches_pattern UUID_PATTERN i"
proof -
  from assms obtain fs where fs: "v = JObj fs" "filter (\<lambda>(k, _). k \<notin> set GAP_CHANNEL_FIELDS) fs = []"
    "\<forall>x \<in> set checked_fields. faults_of (checkString (get_prop fs (fst x)) (u (fst x)) (snd x)) = []"
    "state_faults (get_prop fs ''state'') = []" "divergent_faults (get_prop fs ''divergent_kb_ids'') = []"
    by (cases v) (simp_all add: validateGapChannelRecord_def case_prod_beta)
  obtain ids where ids: "get_prop fs ''divergent_kb_ids'' = JArr (map JStr ids)" "length ids \<le> 4"
    "\<forall>i \<in> set ids. matches_pattern UUID_PATTERN i"
    using divergent_accepted [OF fs(5)] by blast
  have keys: "\<forall>k \<in> fst ` set fs. k \<in> set GAP_CHANNEL_FIELDS" using fs(2) by (auto simp: filter_empty_conv)
  have st: "\<exists>s. get_prop fs ''state'' = JStr s \<and> byteLength s \<le> 16 \<and> s \<in> set GAP_CHANNEL_STATES"
  proof -
    from fs(4) obtain s where s: "checkString (get_prop fs ''state'') (u ''state'') [] = Inr s" "s \<in> set GAP_CHANNEL_STATES"
      by (auto simp: state_faults_def split: sum.splits if_splits)
    then show ?thesis by (auto simp: checkString_def split: jsval.splits if_splits)
  qed
  show thesis
    using that [OF fs(1) keys _ st ids] fs(3) unfolding checked_string by fastforce
qed

text \<open>
  C26: Every record the receiver accepts fits its channel: it is an object of the nine published fields
  and no other, its bytes are at most the sum of the caps (946) and so under the cap declared for the
  channel, its one free field holds at most 512 of them, and its state and its identities are of closed
  form.  The denial channel's declared bits suffice for its alphabet.
\<close>

theorem accepted_gap_record_fits_its_channel:
  assumes "validateGapChannelRecord v = []"
  shows "\<exists>fs. v = JObj fs \<and> fst ` set fs = set GAP_CHANNEL_FIELDS
    \<and> gapChannelRecordBytes (as_gap_record fs) \<le> GAP_CHANNEL_TOTAL_BYTES
    \<and> byteLength (gr_note (as_gap_record fs)) \<le> GAP_CHANNEL_OPEN_CONTENT_MAX_BYTES
    \<and> gr_state (as_gap_record fs) \<in> set GAP_CHANNEL_STATES
    \<and> list_all (matches_pattern UUID_PATTERN)
        ([gr_gap_id (as_gap_record fs), gr_owner_id (as_gap_record fs)] @ gr_divergent_kb_ids (as_gap_record fs))
    \<and> (\<exists>ch \<in> set DECLARED_CHANNELS. ch_slug ch = u ''gap-record'' \<and> ch_unit ch = Bytes \<and> GAP_CHANNEL_TOTAL_BYTES \<le> ch_cap ch)
    \<and> DENIAL_ALPHABET_SIZE \<le> 2 ^ DENIAL_CHANNEL_BITS"
  using assms
proof (rule accepted_record)
  fix fs ids
  assume fs: "v = JObj fs" "\<forall>k \<in> fst ` set fs. k \<in> set GAP_CHANNEL_FIELDS"
    and chk: "\<And>f pat. (f, pat) \<in> set checked_fields \<Longrightarrow>
       \<exists>s. get_prop fs f = JStr s \<and> byteLength s \<le> GAP_CHANNEL_BYTES (u f) \<and> (pat \<noteq> [] \<longrightarrow> matches_pattern pat s)"
    and st: "\<exists>s. get_prop fs ''state'' = JStr s \<and> byteLength s \<le> 16 \<and> s \<in> set GAP_CHANNEL_STATES"
    and ids: "get_prop fs ''divergent_kb_ids'' = JArr (map JStr ids)" "length ids \<le> 4" "\<forall>i \<in> set ids. matches_pattern UUID_PATTERN i"
  have f: "\<exists>s. get_prop fs x = JStr s \<and> byteLength s \<le> GAP_CHANNEL_BYTES (u x) \<and> (p \<noteq> [] \<longrightarrow> matches_pattern p s)"
    if "(x, p) \<in> set checked_fields" for x p using chk that .
  obtain a b c d e g n where s: "get_prop fs ''gap_id'' = JStr a" "get_prop fs ''canonical_key_sha256'' = JStr b"
    "get_prop fs ''query_sha256'' = JStr c" "get_prop fs ''kb_snapshot'' = JStr d" "get_prop fs ''owner_id'' = JStr e"
    "get_prop fs ''committed_date'' = JStr g" "get_prop fs ''note'' = JStr n"
    and len: "byteLength a \<le> 36" "byteLength b \<le> 64" "byteLength c \<le> 64" "byteLength d \<le> 64" "byteLength e \<le> 36"
    "byteLength g \<le> 10" "byteLength n \<le> 512"
    and uuid: "matches_pattern UUID_PATTERN a" "matches_pattern UUID_PATTERN e"
    using f [of "''gap_id''" UUID_PATTERN] f [of "''canonical_key_sha256''" SHA256_PATTERN] f [of "''query_sha256''" SHA256_PATTERN]
      f [of "''kb_snapshot''" SNAPSHOT_PATTERN] f [of "''owner_id''" UUID_PATTERN] f [of "''committed_date''" ISO_DATE_PATTERN]
      f [of "''note''" "[]"]
    by (auto simp: checked_fields_def)
  obtain x where x: "get_prop fs ''state'' = JStr x" "byteLength x \<le> 16" "x \<in> set GAP_CHANNEL_STATES" using st by blast
  have r: "as_gap_record fs = \<lparr>gr_gap_id = a, gr_canonical_key_sha256 = b, gr_query_sha256 = c, gr_kb_snapshot = d,
      gr_owner_id = e, gr_committed_date = g, gr_state = x, gr_divergent_kb_ids = ids, gr_note = n\<rparr>"
    by (simp add: as_gap_record_def s x(1) ids(1) comp_def)
  have "foldl (\<lambda>total i. total + byteLength i) 0 ids \<le> 144"
    using sum_of_ids [of ids 0] uuid_bytes ids(2,3) by simp
  then have bytes: "gapChannelRecordBytes (as_gap_record fs) \<le> GAP_CHANNEL_TOTAL_BYTES"
    using len x(2) by (simp add: gapChannelRecordBytes_def r total_bytes)
  have "k \<in> fst ` set fs" if "k \<in> set GAP_CHANNEL_FIELDS" for k
  proof -
    note present = has_prop_get [of fs]
    show ?thesis
      using that present [of "''gap_id''"] present [of "''canonical_key_sha256''"] present [of "''query_sha256''"]
        present [of "''kb_snapshot''"] present [of "''owner_id''"] present [of "''committed_date''"] present [of "''note''"]
        present [of "''state''"] present [of "''divergent_kb_ids''"]
      by (auto simp: GAP_CHANNEL_FIELDS_def s x(1) ids(1))
  qed
  then have keys: "fst ` set fs = set GAP_CHANNEL_FIELDS" using fs(2) by blast
  have chan: "\<exists>ch \<in> set DECLARED_CHANNELS. ch_slug ch = u ''gap-record'' \<and> ch_unit ch = Bytes \<and> GAP_CHANNEL_TOTAL_BYTES \<le> ch_cap ch"
    by (simp add: DECLARED_CHANNELS_def total_bytes GAP_CHANNEL_RECORD_MAX_BYTES_def)
  have bits: "DENIAL_ALPHABET_SIZE \<le> 2 ^ DENIAL_CHANNEL_BITS"
    by (simp add: DENIAL_CHANNEL_BITS_def DENIAL_ALPHABET_SIZE_def ESCALATION_REASONS_def bits_for.simps)
  show ?thesis
    using fs(1) keys bytes chan bits len(7) x(3) uuid ids(3)
    by (simp add: r GAP_CHANNEL_OPEN_CONTENT_MAX_BYTES_def list_all_iff)
qed


definition sample_hex :: "nat \<Rightarrow> jstr" where
  "sample_hex n = replicate n 97"

definition sample_identity :: jstr where
  "sample_identity = sample_hex 8 @ u ''-'' @ sample_hex 4 @ u ''-'' @ sample_hex 4 @ u ''-'' @ sample_hex 4 @ u ''-'' @ sample_hex 12"

definition sample_gap :: jsval where
  "sample_gap = JObj
     [(u ''gap_id'', JStr sample_identity), (u ''canonical_key_sha256'', JStr (sample_hex 64)),
      (u ''query_sha256'', JStr (sample_hex 64)), (u ''kb_snapshot'', JStr (u ''snap-1'')), (u ''owner_id'', JStr sample_identity),
      (u ''committed_date'', JStr (u ''2026-10-04'')), (u ''state'', JStr (u ''OPEN'')),
      (u ''divergent_kb_ids'', JArr [JStr sample_identity]), (u ''note'', JStr (u ''two answers''))]"

theorem accepted_gap_record_fits_its_channel_witness:
  "\<exists>fs. sample_gap = JObj fs \<and> gapChannelRecordBytes (as_gap_record fs) \<le> 946"
proof -
  have "validateGapChannelRecord sample_gap = []" by code_simp
  from accepted_gap_record_fits_its_channel [OF this] show ?thesis unfolding total_bytes by blast
qed

end
