(* ===== verification/Promotion_Row.thy ===== *)
theory Promotion_Row
  imports Ledger_System Gap_Channel
begin

section \<open>The rows of a promotion attempt\<close>

text \<open>
  \<open>src/agents/ledger/promotion_row.ts\<close>: the closed alphabets, the validation of the two payloads of
  an attempt, the writer of the resumable pair and the capsule it files.  Every refusal of the source is
  a \<open>GatewayError('E_CONFIG_INVALID')\<close>; the model keeps the \<open>key\<close> of its detail.  A validation is the
  list of its checks in the order of the source, and answers with the first that refuses.
\<close>

subsection \<open>Keys and alphabets\<close>

definition PROMOTION_ATTEMPT_REQUIRED_KEYS :: "string list" where
  "PROMOTION_ATTEMPT_REQUIRED_KEYS =
     [''attempt_id'', ''candidate_prompt_version_id'', ''incumbent_prompt_version_id'', ''conjuncts'',
      ''failing_conjunct'', ''power'', ''outcome'', ''interpretation'']"

definition START_REQUIRED_KEYS :: "string list" where
  "START_REQUIRED_KEYS = the (CLASS_REQUIRED_KEYS Start)"

definition CONJUNCT_NAMES :: "string list" where
  "CONJUNCT_NAMES =
     [''paired_significant_at_alpha'', ''delta_positive'', ''battery_in_force_green'', ''query_index_within_cmax'']"

definition CONJUNCT_VERDICTS :: "string list" where
  "CONJUNCT_VERDICTS = [''PASS'', ''FAIL'', ''UNEVALUABLE'']"

definition FAILING_CONJUNCTS :: "string list" where
  "FAILING_CONJUNCTS = CONJUNCT_NAMES @ [''precondition_underpowered'', ''aborted_before_evaluation'']"

definition OUTCOMES :: "string list" where
  "OUTCOMES = [''PROMOTED'', ''REJECTED'', ''ABORTED'']"

definition INTERPRETATIONS :: "string list" where
  "INTERPRETATIONS = [''UNDERPOWERED'', ''INFORMATIVE-NULL'', ''POWERED-CONCLUSIVE'']"

definition POWER_KEYS :: "string list" where
  "POWER_KEYS = [''delta'', ''ci_low'', ''ci_high'', ''ci_unit'', ''mde_n'', ''mdi'']"

definition CI_UNITS :: "string list" where
  "CI_UNITS = [''clan'', ''item'']"

definition POWER_QUANTITIES :: "string list" where
  "POWER_QUANTITIES = [''delta'', ''ci_low'', ''ci_high'', ''mde_n'', ''mdi'']"

definition CONJUNCT_REASON_MAX_BYTES :: nat where
  "CONJUNCT_REASON_MAX_BYTES = 240"

datatype evidence_kind = Split_Kind | Prompt_Version_Kind | Battery_Kind

datatype conjunct_evidence =
    Split (split_of: jstr)
  | Prompt_Version (version_of: jstr)
  | Battery (round_of: jstr) (date_of: jstr)

fun kind_of_evidence :: "conjunct_evidence \<Rightarrow> evidence_kind" where
  "kind_of_evidence (Split s) = Split_Kind"
| "kind_of_evidence (Prompt_Version v) = Prompt_Version_Kind"
| "kind_of_evidence (Battery r d) = Battery_Kind"

definition CONJUNCT_EVIDENCE_KIND :: "string \<Rightarrow> evidence_kind option" where
  "CONJUNCT_EVIDENCE_KIND =
     map_of (zip CONJUNCT_NAMES [Split_Kind, Prompt_Version_Kind, Battery_Kind, Split_Kind])"

subsection \<open>Derived identities\<close>

definition attemptIdFor :: "(jstr \<Rightarrow> jstr) \<Rightarrow> jstr \<Rightarrow> jstr" where
  "attemptIdFor sha orgId = derivedUuid sha (u ''ledgerdesk:promotion-attempt:capsule:'' @ orgId)"

definition capsuleRunIdFor :: "(jstr \<Rightarrow> jstr) \<Rightarrow> jstr \<Rightarrow> jstr" where
  "capsuleRunIdFor sha orgId = derivedUuid sha (u ''ledgerdesk:run:promotion-capsule:'' @ orgId)"

subsection \<open>The combination the capsule files\<close>

definition NO_CANDIDATE_PROPOSED_reason :: string where
  "NO_CANDIDATE_PROPOSED_reason =
     ''no candidate generation has been proposed; the attempt names the incumbent on both sides''"

definition NO_CANDIDATE_PROPOSED_marker :: string where
  "NO_CANDIDATE_PROPOSED_marker = ''no candidate generation has been proposed''"

definition candidateFrom :: "jstr \<Rightarrow> jstr" where
  "candidateFrom incumbent = incumbent"

definition CAPSULE_CONJUNCTS :: "(string \<times> string \<times> string) list" where
  "CAPSULE_CONJUNCTS =
     [(''paired_significant_at_alpha'', ''UNEVALUABLE'',
        ''no scored run has been recorded, so the paired test has nothing to run on''),
      (''delta_positive'', ''UNEVALUABLE'', NO_CANDIDATE_PROPOSED_reason),
      (''battery_in_force_green'', ''UNEVALUABLE'',
        ''the negative battery has not been built, so no round and date can be in force''),
      (''query_index_within_cmax'', ''UNEVALUABLE'',
        ''no report split has been sealed, so the query index has nothing to be counted against'')]"

definition CAPSULE_FAILING_CONJUNCT :: string where
  "CAPSULE_FAILING_CONJUNCT = ''precondition_underpowered''"

definition CAPSULE_OUTCOME :: string where
  "CAPSULE_OUTCOME = ''REJECTED''"

definition CAPSULE_INTERPRETATION :: string where
  "CAPSULE_INTERPRETATION = ''UNDERPOWERED''"

definition CAPSULE_CI_UNIT :: string where
  "CAPSULE_CI_UNIT = ''clan''"

definition CAPSULE_POWER :: jsval where
  "CAPSULE_POWER = JObj
     [(u ''delta'', JNull), (u ''ci_low'', JNull), (u ''ci_high'', JNull), (u ''ci_unit'', JStr (u CAPSULE_CI_UNIT)),
      (u ''mde_n'', JNull), (u ''mdi'', JNull)]"

subsection \<open>The contracts as data\<close>

record payload_contract =
  pc_ledger_class :: string
  pc_title :: string
  pc_required_keys :: "string list"
  pc_nullable_keys :: "(string \<times> string) list"
  pc_alphabets :: "(string \<times> string list) list"
  pc_caps :: "(string \<times> nat) list"

definition PROMOTION_ATTEMPT_PAYLOAD_CONTRACT :: payload_contract where
  "PROMOTION_ATTEMPT_PAYLOAD_CONTRACT =
     \<lparr>pc_ledger_class = ''promotion_attempt'',
      pc_title = ''The terminal of a promotion attempt: promoted, rejected or aborted'',
      pc_required_keys = PROMOTION_ATTEMPT_REQUIRED_KEYS,
      pc_nullable_keys = [(''failing_conjunct'', ''outcome = '' @ [CHR 0x27] @ ''PROMOTED'' @ [CHR 0x27])],
      pc_alphabets =
        [(''conjuncts'', CONJUNCT_NAMES), (''conjuncts.*.verdict'', CONJUNCT_VERDICTS),
         (''failing_conjunct'', FAILING_CONJUNCTS), (''outcome'', OUTCOMES), (''interpretation'', INTERPRETATIONS),
         (''power'', POWER_KEYS), (''power.ci_unit'', CI_UNITS)],
      pc_caps = [(''conjuncts.*.reason'', CONJUNCT_REASON_MAX_BYTES)]\<rparr>"

definition START_PAYLOAD_CONTRACT :: payload_contract where
  "START_PAYLOAD_CONTRACT =
     \<lparr>pc_ledger_class = ''start'', pc_title = ''The opening of a promotion attempt, written before its first generation'',
      pc_required_keys = START_REQUIRED_KEYS, pc_nullable_keys = [], pc_alphabets = [], pc_caps = []\<rparr>"

definition str :: "string \<Rightarrow> jsval" where
  "str s = JStr (u s)"

definition strs :: "string list \<Rightarrow> jsval" where
  "strs xs = JArr (map str xs)"

definition LEDGER_CLASS_SCHEMA_DIR :: string where
  "LEDGER_CLASS_SCHEMA_DIR = ''quality/schemas/ledger_class''"

definition schemaPathFor :: "payload_contract \<Rightarrow> string" where
  "schemaPathFor contract = LEDGER_CLASS_SCHEMA_DIR @ ''/'' @ pc_ledger_class contract @ ''.schema.json''"

definition key_schema :: "payload_contract \<Rightarrow> string \<Rightarrow> jsval" where
  "key_schema contract key =
     JObj ((case map_of (pc_alphabets contract) key of Some xs \<Rightarrow> [(u ''enum'', strs xs)] | None \<Rightarrow> [])
           @ (case map_of (pc_nullable_keys contract) key of
                Some w \<Rightarrow> [(u ''description'', str (''null only when '' @ w))] | None \<Rightarrow> []))"

definition contract_document :: "payload_contract \<Rightarrow> jsval" where
  "contract_document c = JObj
     [(u ''$schema'', str ''https://json-schema.org/draft/2020-12/schema''),
      (u ''$id'', str (''ledgerdesk/'' @ pc_ledger_class c @ ''.schema.json'')),
      (u ''title'', str (pc_title c)), (u ''type'', str ''object''),
      (u ''required'', strs (pc_required_keys c)),
      (u ''properties'', JObj (map (\<lambda>k. (u k, key_schema c k)) (pc_required_keys c))),
      (u ''x-alphabets'', JObj (map (\<lambda>(f, xs). (u f, strs xs)) (pc_alphabets c))),
      (u ''x-caps-utf8-bytes'', JObj (map (\<lambda>(f, n). (u f, JNum (Fin (of_nat n)))) (pc_caps c)))]"

text \<open>\<open>JSON.stringify(value, null, 2)\<close> of a value without undefined members.\<close>

definition indent :: "nat \<Rightarrow> jstr" where
  "indent n = 10 # replicate (2 * n) 32"

fun stringify :: "nat \<Rightarrow> jsval \<Rightarrow> jstr" where
  "stringify n (JStr s) = json_quote s"
| "stringify n (JNum x) = (if is_finite x then num_string x else u ''null'')"
| "stringify n (JBool b) = (if b then u ''true'' else u ''false'')"
| "stringify n (JArr xs) =
     (if xs = [] then u ''[]''
      else u ''['' @ join_with (u '','') (map (\<lambda>x. indent (n + 1) @ stringify (n + 1) x) xs) @ indent n @ u '']'')"
| "stringify n (JObj fs) =
     (if fs = [] then u ''{}''
      else u ''{'' @ join_with (u '','')
             (map (\<lambda>(k, x). indent (n + 1) @ json_quote k @ u '': '' @ stringify (n + 1) x) fs) @ indent n @ u ''}'')"
| "stringify n v = u ''null''"

definition contractAsJsonSchemaText :: "payload_contract \<Rightarrow> jstr" where
  "contractAsJsonSchemaText contract = stringify 0 (contract_document contract) @ [10]"

definition contract_json :: "payload_contract \<Rightarrow> jsval" where
  "contract_json c = JObj
     [(u ''ledger_class'', str (pc_ledger_class c)), (u ''title'', str (pc_title c)),
      (u ''required_keys'', strs (pc_required_keys c)),
      (u ''nullable_keys'', JArr (map (\<lambda>(k, w). JObj [(u ''key'', str k), (u ''only_when'', str w)]) (pc_nullable_keys c))),
      (u ''alphabets'', JObj (map (\<lambda>(f, xs). (u f, strs xs)) (pc_alphabets c))),
      (u ''caps'', JObj (map (\<lambda>(f, n). (u f, JNum (Fin (of_nat n)))) (pc_caps c)))]"

definition promotionRulesetHash :: "(jstr \<Rightarrow> jstr) \<Rightarrow> js_error + jstr" where
  "promotionRulesetHash sha = digestOf sha (contract_json PROMOTION_ATTEMPT_PAYLOAD_CONTRACT)"


subsection \<open>The refusals\<close>

text \<open>The \<open>key\<close> of the detail of a refusal; a check that does not refuse is \<open>Inr ()\<close>.\<close>

type_synonym checked = "jstr + unit"

definition unless :: "bool \<Rightarrow> jstr \<Rightarrow> checked" where
  "unless ok key = (if ok then Inr () else Inl key)"

fun in_order :: "checked list \<Rightarrow> checked" where
  "in_order [] = Inr ()"
| "in_order (c # cs) = (case c of Inl key \<Rightarrow> Inl key | Inr _ \<Rightarrow> in_order cs)"

definition utf8Bytes :: "jstr \<Rightarrow> nat" where
  "utf8Bytes s = byteLength s"

text \<open>\<open>HEX40\<close>, and \<open>UUID\<close> with its flag \<open>i\<close>.\<close>

definition HEX40 :: "jstr \<Rightarrow> bool" where
  "HEX40 s = shape (replicate 40 low_hex) s"

definition any_hex :: "nat \<Rightarrow> bool" where
  "any_hex c = (low_hex c \<or> 65 \<le> c \<and> c \<le> 70)"

definition UUID :: "jstr \<Rightarrow> bool" where
  "UUID s = shape (replicate 8 any_hex @ dash # replicate 4 any_hex @ dash # replicate 4 any_hex @ dash #
     replicate 4 any_hex @ dash # replicate 12 any_hex) s"

definition requireObject :: "jsval \<Rightarrow> jstr \<Rightarrow> checked" where
  "requireObject v key = unless (is_plain_object v) key"

definition string_val :: "jsval \<Rightarrow> jstr" where
  "string_val v = (case v of JStr s \<Rightarrow> s | _ \<Rightarrow> [])"

definition requireNamedString :: "jsval \<Rightarrow> string \<Rightarrow> checked" where
  "requireNamedString payload key =
     (case obj_get payload key of JStr s \<Rightarrow> unless (js_trim s \<noteq> []) (u key) | _ \<Rightarrow> Inl (u key))"

definition member_of :: "jsval \<Rightarrow> string list \<Rightarrow> bool" where
  "member_of v alphabet = (case v of JStr s \<Rightarrow> s \<in> set (map u alphabet) | _ \<Rightarrow> False)"

definition requireMember :: "jsval \<Rightarrow> string \<Rightarrow> string list \<Rightarrow> checked" where
  "requireMember payload key alphabet = unless (member_of (obj_get payload key) alphabet) (u key)"

definition validateStartPayload :: "jsval \<Rightarrow> jstr \<Rightarrow> checked" where
  "validateStartPayload payload instant =
     in_order
       (map (\<lambda>key. unless (names payload key) (u key)) START_REQUIRED_KEYS
        @ [requireNamedString payload ''attempt_id'',
           unless (UUID (string_val (obj_get payload ''attempt_id''))) (u ''attempt_id''),
           requireNamedString payload ''started_at'',
           unless (string_val (obj_get payload ''started_at'') = instant) (u ''started_at''),
           requireNamedString payload ''code_sha'',
           unless (HEX40 (string_val (obj_get payload ''code_sha''))) (u ''code_sha''),
           unless (case obj_get payload ''budget_reserved'' of JNum n \<Rightarrow> is_finite n \<and> \<not> n < Fin 0 | _ \<Rightarrow> False)
             (u ''budget_reserved'')])"

definition presence_checks :: "jsval \<Rightarrow> checked list" where
  "presence_checks payload =
     map (\<lambda>key. unless (obj_get payload key \<noteq> JUndef
                        \<and> (obj_get payload key = JNull \<longrightarrow> key = ''failing_conjunct'')) (u key))
       PROMOTION_ATTEMPT_REQUIRED_KEYS"

definition object_keys :: "jsval \<Rightarrow> jstr list" where
  "object_keys v = (case v of JObj fs \<Rightarrow> map fst fs | _ \<Rightarrow> [])"

text \<open>The checks of one conjunct: its verdict, the reason of one that is not a \<open>PASS\<close>, the evidence of one that is.\<close>

definition conjunct_checks :: "(string \<Rightarrow> conjunct_evidence option) \<Rightarrow> jsval \<Rightarrow> string \<Rightarrow> checked list" where
  "conjunct_checks evidence conjuncts name =
     (let entry = obj_get conjuncts name; verdict = obj_get entry ''verdict''; place = u ''conjuncts.'' @ u name
      in [requireObject entry place, requireMember entry ''verdict'' CONJUNCT_VERDICTS]
         @ (if verdict \<noteq> str ''PASS''
            then [unless (case obj_get entry ''reason'' of JStr s \<Rightarrow> js_trim s \<noteq> [] | _ \<Rightarrow> False) (place @ u ''.reason''),
                  unless (utf8Bytes (string_val (obj_get entry ''reason'')) \<le> CONJUNCT_REASON_MAX_BYTES)
                    (place @ u ''.reason'')]
            else [unless (case evidence name of None \<Rightarrow> False
                          | Some e \<Rightarrow> CONJUNCT_EVIDENCE_KIND name = Some (kind_of_evidence e)) place]))"

definition power_checks :: "jstr option \<Rightarrow> jsval \<Rightarrow> checked list" where
  "power_checks scored_run pw =
     [requireObject pw (u ''power''),
      unless (length (object_keys pw) = length POWER_KEYS \<and> (\<forall>k \<in> set POWER_KEYS. u k \<in> set (object_keys pw)))
        (u ''power''),
      requireMember pw ''ci_unit'' CI_UNITS]
     @ map (\<lambda>key. unless
              (case scored_run of
                 None \<Rightarrow> obj_get pw key = JNull
               | Some _ \<Rightarrow> (case obj_get pw key of JNum n \<Rightarrow> is_finite n | _ \<Rightarrow> False))
              (u ''power.'' @ u key)) POWER_QUANTITIES"

definition verdictOf :: "jsval \<Rightarrow> string \<Rightarrow> jsval" where
  "verdictOf conjuncts name = obj_get (obj_get conjuncts name) ''verdict''"

definition declaresNoCandidate :: "jsval \<Rightarrow> bool" where
  "declaresNoCandidate conjuncts =
     (case obj_get (obj_get conjuncts ''delta_positive'') ''reason'' of
        JStr s \<Rightarrow> js_includes s (u NO_CANDIDATE_PROPOSED_marker) | _ \<Rightarrow> False)"

text \<open>The row against itself: rules (a) to (f).\<close>

definition coherence_checks :: "jsval \<Rightarrow> checked list" where
  "coherence_checks payload =
     (let conjuncts = obj_get payload ''conjuncts'';
          outcome = obj_get payload ''outcome'';
          interpretation = obj_get payload ''interpretation'';
          failing = obj_get payload ''failing_conjunct'';
          named_abort = names payload ''abort_reason'';
          allPass = list_all (\<lambda>n. verdictOf conjuncts n = str ''PASS'') CONJUNCT_NAMES;
          allUnevaluable = list_all (\<lambda>n. verdictOf conjuncts n = str ''UNEVALUABLE'') CONJUNCT_NAMES;
          candidate = obj_get payload ''candidate_prompt_version_id'';
          incumbent = obj_get payload ''incumbent_prompt_version_id''
      in [unless (outcome = str ''PROMOTED'' \<longrightarrow> allPass) (u ''outcome''),
          unless (failing = JNull \<longrightarrow> outcome = str ''PROMOTED'') (u ''failing_conjunct''),
          unless (failing \<noteq> JNull \<longrightarrow> outcome \<noteq> str ''PROMOTED'') (u ''failing_conjunct''),
          unless (\<forall>n \<in> set CONJUNCT_NAMES. failing = str n \<longrightarrow> verdictOf conjuncts n \<noteq> str ''PASS'') (u ''failing_conjunct''),
          unless (failing = str ''precondition_underpowered'' \<longrightarrow> interpretation = str ''UNDERPOWERED'') (u ''interpretation''),
          unless (failing = str ''aborted_before_evaluation'' \<longrightarrow> outcome = str ''ABORTED'') (u ''outcome''),
          unless (failing = str ''aborted_before_evaluation'' \<longrightarrow> named_abort) (u ''abort_reason''),
          unless (outcome = str ''ABORTED'' \<longrightarrow> named_abort) (u ''abort_reason''),
          unless (allUnevaluable \<longrightarrow> failing = str ''precondition_underpowered'' \<or> failing = str ''aborted_before_evaluation'')
            (u ''failing_conjunct''),
          unless (if candidate = incumbent
                  then verdictOf conjuncts ''delta_positive'' = str ''UNEVALUABLE'' \<and> declaresNoCandidate conjuncts
                  else \<not> declaresNoCandidate conjuncts) (u ''candidate_prompt_version_id'')])"

definition validatePromotionAttemptPayload ::
    "jsval \<Rightarrow> jstr option \<Rightarrow> (string \<Rightarrow> conjunct_evidence option) \<Rightarrow> checked" where
  "validatePromotionAttemptPayload payload scored_run evidence =
     (let conjuncts = obj_get payload ''conjuncts''
      in in_order
       (presence_checks payload
        @ [requireNamedString payload ''attempt_id'',
           unless (UUID (string_val (obj_get payload ''attempt_id''))) (u ''attempt_id''),
           requireNamedString payload ''candidate_prompt_version_id'',
           requireNamedString payload ''incumbent_prompt_version_id'',
           requireObject conjuncts (u ''conjuncts''),
           unless (object_keys conjuncts = map u CONJUNCT_NAMES) (u ''conjuncts'')]
        @ concat (map (conjunct_checks evidence conjuncts) CONJUNCT_NAMES)
        @ power_checks scored_run (obj_get payload ''power'')
        @ [requireMember payload ''outcome'' OUTCOMES, requireMember payload ''interpretation'' INTERPRETATIONS,
           if obj_get payload ''failing_conjunct'' \<noteq> JNull
           then requireMember payload ''failing_conjunct'' FAILING_CONJUNCTS else Inr ()]
        @ coherence_checks payload))"

subsection \<open>The writer\<close>

record promotion_pair =
  pp_org_id :: jstr
  pp_run_id :: jstr
  pp_start :: jsval
  pp_terminal :: jsval
  pp_scored_run :: "jstr option"
  pp_evidence :: "string \<Rightarrow> conjunct_evidence option"
  pp_state :: state_parts
  pp_toolchain :: jsval
  pp_ts :: jstr

datatype pair_row = Appended appended_row | Standing filed_row

datatype pair_action = Filed | Resumed | Already_Filed

record filed_pair =
  fp_attempt_id :: jstr
  fp_run_id :: jstr
  fp_start :: pair_row
  fp_terminal :: pair_row
  fp_action :: pair_action

definition terminalRowContent :: "promotion_pair \<Rightarrow> jstr \<Rightarrow> ledger_head option \<Rightarrow> ledger_row" where
  "terminalRowContent pair stateDigest head =
     \<lparr>run_id = pp_run_id pair, seq = (case head of Some h \<Rightarrow> h_seq h | None \<Rightarrow> 0) + 1, org_id = pp_org_id pair,
      ticket_id = None, agent = Evolve, prompt_version_id = None, model_requested = None,
      model_returned = None, sampling = None, seed = None, input_hash = None, input_path = None,
      prompt_hash = None, response_hash = None, state_hash = stateDigest, split_id = None,
      toolchain = pp_toolchain pair, restarts = 0, tokens_in = 0, tokens_out = 0, cost_aud = u ''0.000000'',
      latency_ms = 0, cum_tokens = (case head of Some h \<Rightarrow> h_cum_tokens h | None \<Rightarrow> 0),
      class_of = PromotionAttempt, row_output = pp_terminal pair, confidence = None, ts = pp_ts pair\<rparr>"

definition start_row_of :: "promotion_pair \<Rightarrow> system_row" where
  "start_row_of pair =
     \<lparr>sr_run_id = pp_run_id pair, sr_org_id = pp_org_id pair, sr_ticket_id = None, sr_class = Start,
      sr_output = pp_start pair, sr_state = pp_state pair, sr_toolchain = pp_toolchain pair, sr_split_id = None,
      sr_ts = pp_ts pair\<rparr>"

text \<open>Everything that is checked before the reader is consulted.\<close>

definition pair_checks :: "promotion_pair \<Rightarrow> checked" where
  "pair_checks pair =
     in_order
       [unless (js_trim (pp_org_id pair) \<noteq> []) (u ''claims.org_id''),
        unless (js_trim (pp_run_id pair) \<noteq> []) (u ''run_id''),
        unless (js_trim (pp_ts pair) \<noteq> []) (u ''ts''),
        requireObject (pp_start pair) (u ''start''), requireObject (pp_terminal pair) (u ''terminal''),
        validateStartPayload (pp_start pair) (pp_ts pair),
        validatePromotionAttemptPayload (pp_terminal pair) (pp_scored_run pair) (pp_evidence pair),
        unless (obj_get (pp_terminal pair) ''attempt_id'' = obj_get (pp_start pair) ''attempt_id'') (u ''attempt_id'')]"

definition standing_pair :: "jstr \<Rightarrow> filed_attempt \<Rightarrow> filed_pair option" where
  "standing_pair attempt found =
     (case (fa_start found, fa_terminal found) of
        (Some s, Some t) \<Rightarrow>
          Some \<lparr>fp_attempt_id = attempt, fp_run_id = fr_run_id s, fp_start = Standing s, fp_terminal = Standing t,
                fp_action = Already_Filed\<rparr>
      | _ \<Rightarrow> None)"

text \<open>
  The terminal row of an attempt whose start stands, and the second look when the append fails.
  \<open>late\<close> is what other writers commit between the failed append and that second look.
\<close>

definition append_terminal ::
    "(jstr \<Rightarrow> jstr) \<Rightarrow> (nat \<Rightarrow> ledger_table \<Rightarrow> ledger_table) \<Rightarrow> (nat \<Rightarrow> ledger_table \<Rightarrow> ledger_table)
       \<Rightarrow> (ledger_table \<Rightarrow> ledger_table) \<Rightarrow> promotion_pair \<Rightarrow> jstr \<Rightarrow> jstr \<Rightarrow> pair_row \<Rightarrow> pair_action
       \<Rightarrow> ledger_table \<Rightarrow> ledger_table \<times> (store_error + filed_pair)" where
  "append_terminal sha gap env late pair attempt stateDigest startRow act table =
     (case ledger_append sha gap env (pp_run_id pair) (pp_org_id pair) (terminalRowContent pair stateDigest) table of
        (table', Inr row) \<Rightarrow>
          (table', Inr \<lparr>fp_attempt_id = attempt, fp_run_id = pp_run_id pair, fp_start = startRow,
                        fp_terminal = Appended row, fp_action = act\<rparr>)
      | (table', Inl e) \<Rightarrow>
          (let again = late table'
           in (again, case standing_pair attempt (findAttempt (pp_org_id pair) attempt again) of
                        Some found \<Rightarrow> Inr found | None \<Rightarrow> Inl e)))"

definition appendPromotionPair ::
    "(jstr \<Rightarrow> jstr) \<Rightarrow> (nat \<Rightarrow> ledger_table \<Rightarrow> ledger_table) \<Rightarrow> (nat \<Rightarrow> ledger_table \<Rightarrow> ledger_table)
       \<Rightarrow> (nat \<Rightarrow> ledger_table \<Rightarrow> ledger_table) \<Rightarrow> (nat \<Rightarrow> ledger_table \<Rightarrow> ledger_table)
       \<Rightarrow> (ledger_table \<Rightarrow> ledger_table) \<Rightarrow> promotion_pair
       \<Rightarrow> ledger_table \<Rightarrow> ledger_table \<times> (store_error + filed_pair)" where
  "appendPromotionPair sha gap env gap' env' late pair table =
     (case pair_checks pair of
        Inl key \<Rightarrow> (table, Inl (Refusal E_CONFIG_INVALID))
      | Inr _ \<Rightarrow>
          (case stateHash sha (pp_state pair) of
             Inl e \<Rightarrow> (table, Inl (Thrown e))
           | Inr stateDigest \<Rightarrow>
               (let attempt = string_val (obj_get (pp_start pair) ''attempt_id'');
                    standing = findAttempt (pp_org_id pair) attempt table
                in case standing_pair attempt standing of
                     Some found \<Rightarrow> (table, Inr found)
                   | None \<Rightarrow>
                       (case fa_start standing of
                          Some s \<Rightarrow>
                            append_terminal sha gap' env' late pair attempt stateDigest (Standing s) Resumed table
                        | None \<Rightarrow>
                            (case appendSystemRow sha gap env (start_row_of pair) table of
                               (table', Inl e) \<Rightarrow> (table', Inl e)
                             | (table', Inr row) \<Rightarrow>
                                 append_terminal sha gap' env' late pair attempt stateDigest (Appended row) Filed table')))))"

subsection \<open>The capsule\<close>

record capsule_input =
  ci_org_id :: jstr
  ci_incumbent :: jstr
  ci_code_sha :: jstr
  ci_ts :: jstr
  ci_state :: state_parts
  ci_toolchain :: jsval

definition capsulePair :: "(jstr \<Rightarrow> jstr) \<Rightarrow> capsule_input \<Rightarrow> promotion_pair" where
  "capsulePair sha inp =
     (let orgId = ci_org_id inp; attempt = attemptIdFor sha orgId
      in \<lparr>pp_org_id = orgId, pp_run_id = capsuleRunIdFor sha orgId,
          pp_start = JObj
            [(u ''attempt_id'', JStr attempt), (u ''started_at'', JStr (ci_ts inp)),
             (u ''budget_reserved'', JNum (Fin 0)), (u ''code_sha'', JStr (ci_code_sha inp))],
          pp_terminal = JObj
            [(u ''attempt_id'', JStr attempt),
             (u ''candidate_prompt_version_id'', JStr (candidateFrom (ci_incumbent inp))),
             (u ''incumbent_prompt_version_id'', JStr (ci_incumbent inp)),
             (u ''conjuncts'', JObj (map (\<lambda>(name, verdict, reason).
                (u name, JObj [(u ''verdict'', str verdict), (u ''reason'', str reason)])) CAPSULE_CONJUNCTS)),
             (u ''failing_conjunct'', str CAPSULE_FAILING_CONJUNCT), (u ''power'', CAPSULE_POWER),
             (u ''outcome'', str CAPSULE_OUTCOME), (u ''interpretation'', str CAPSULE_INTERPRETATION)],
          pp_scored_run = None, pp_evidence = (\<lambda>_. None), pp_state = ci_state inp,
          pp_toolchain = ci_toolchain inp, pp_ts = ci_ts inp\<rparr>)"

definition filePromotionCapsule ::
    "(jstr \<Rightarrow> jstr) \<Rightarrow> (nat \<Rightarrow> ledger_table \<Rightarrow> ledger_table) \<Rightarrow> (nat \<Rightarrow> ledger_table \<Rightarrow> ledger_table)
       \<Rightarrow> (nat \<Rightarrow> ledger_table \<Rightarrow> ledger_table) \<Rightarrow> (nat \<Rightarrow> ledger_table \<Rightarrow> ledger_table)
       \<Rightarrow> (ledger_table \<Rightarrow> ledger_table) \<Rightarrow> capsule_input
       \<Rightarrow> ledger_table \<Rightarrow> ledger_table \<times> (store_error + filed_pair)" where
  "filePromotionCapsule sha gap env gap' env' late inp table =
     appendPromotionPair sha gap env gap' env' late (capsulePair sha inp) table"

definition payloadText :: "jsval \<Rightarrow> js_error + jstr" where
  "payloadText payload = canonicalJson payload"

subsection \<open>What an accepted payload is\<close>

lemma unless_ok [simp]: "unless ok key = Inr x \<longleftrightarrow> ok"
  by (simp add: unless_def)

lemma in_order_ok: "in_order cs = Inr x \<longleftrightarrow> (\<forall>c \<in> set cs. c = Inr ())"
  by (induction cs) (auto split: sum.splits)

lemma in_order_append [simp]: "in_order (as @ bs) = Inr x \<longleftrightarrow> in_order as = Inr () \<and> in_order bs = Inr ()"
  by (auto simp: in_order_ok)

lemma in_order_Cons [simp]: "in_order (c # cs) = Inr x \<longleftrightarrow> c = Inr () \<and> in_order cs = Inr ()"
  by (cases c) (auto simp: in_order_ok)

lemma in_order_each: "in_order (map f xs) = Inr () \<longleftrightarrow> (\<forall>x \<in> set xs. f x = Inr ())"
  by (auto simp: in_order_ok)

lemma in_order_concat: "in_order (concat (map f xs)) = Inr () \<longleftrightarrow> (\<forall>x \<in> set xs. in_order (f x) = Inr ())"
  by (auto simp: in_order_ok)

declare in_order.simps(2) [simp del]

lemma requireNamedString_ok: "requireNamedString v k = Inr x \<longleftrightarrow> (\<exists>s. obj_get v k = JStr s \<and> js_trim s \<noteq> [])"
  by (auto simp: requireNamedString_def split: jsval.split)

lemma requireMember_ok: "requireMember v k alphabet = Inr x \<longleftrightarrow> (\<exists>n \<in> set alphabet. obj_get v k = str n)"
  by (auto simp: requireMember_def member_of_def str_def split: jsval.split)

lemma str_inject [simp]: "str a = str b \<longleftrightarrow> a = b"
  by (simp add: str_def)

lemma str_shape [simp]: "str a \<noteq> JNull" "str a \<noteq> JUndef" "JNull \<noteq> str a"
  by (simp_all add: str_def)

definition shaped_attempt :: "jsval \<Rightarrow> jstr option \<Rightarrow> (string \<Rightarrow> conjunct_evidence option) \<Rightarrow> bool" where
  "shaped_attempt payload scored_run evidence =
     (in_order (presence_checks payload) = Inr ()
      \<and> (\<exists>a. obj_get payload ''attempt_id'' = JStr a \<and> UUID a)
      \<and> object_keys (obj_get payload ''conjuncts'') = map u CONJUNCT_NAMES
      \<and> (\<forall>n \<in> set CONJUNCT_NAMES. in_order (conjunct_checks evidence (obj_get payload ''conjuncts'') n) = Inr ())
      \<and> in_order (power_checks scored_run (obj_get payload ''power'')) = Inr ()
      \<and> (\<exists>n \<in> set OUTCOMES. obj_get payload ''outcome'' = str n)
      \<and> (\<exists>n \<in> set INTERPRETATIONS. obj_get payload ''interpretation'' = str n)
      \<and> (\<exists>c. obj_get payload ''candidate_prompt_version_id'' = JStr c)
      \<and> (\<exists>i. obj_get payload ''incumbent_prompt_version_id'' = JStr i)
      \<and> (obj_get payload ''failing_conjunct'' = JNull
          \<or> (\<exists>n \<in> set FAILING_CONJUNCTS. obj_get payload ''failing_conjunct'' = str n))
      \<and> in_order (coherence_checks payload) = Inr ())"

lemma accepted_is_shaped:
  assumes "validatePromotionAttemptPayload payload scored_run evidence = Inr x"
  shows "shaped_attempt payload scored_run evidence"
  using assms unfolding validatePromotionAttemptPayload_def shaped_attempt_def Let_def in_order_append in_order_Cons
    in_order_concat requireNamedString_ok requireMember_ok unless_ok
  by (auto simp: string_val_def requireMember_ok split: if_splits)

lemma shaped_verdict:
  assumes "shaped_attempt payload scored_run evidence" "n \<in> set CONJUNCT_NAMES"
  shows "verdictOf (obj_get payload ''conjuncts'') n \<in> str ` set CONJUNCT_VERDICTS"
    and "verdictOf (obj_get payload ''conjuncts'') n = str ''PASS'' \<Longrightarrow>
           \<exists>e. evidence n = Some e \<and> CONJUNCT_EVIDENCE_KIND n = Some (kind_of_evidence e)"
proof -
  have c: "in_order (conjunct_checks evidence (obj_get payload ''conjuncts'') n) = Inr ()"
    using assms by (simp add: shaped_attempt_def)
  then show "verdictOf (obj_get payload ''conjuncts'') n \<in> str ` set CONJUNCT_VERDICTS"
    by (auto simp: conjunct_checks_def verdictOf_def Let_def requireMember_ok)
  assume "verdictOf (obj_get payload ''conjuncts'') n = str ''PASS''"
  with c show "\<exists>e. evidence n = Some e \<and> CONJUNCT_EVIDENCE_KIND n = Some (kind_of_evidence e)"
    by (auto simp: conjunct_checks_def verdictOf_def Let_def split: option.splits)
qed

text \<open>
  C27: the gate fails closed.  A terminal payload the writer accepts is \<open>PROMOTED\<close> exactly when no failing
  conjunct is named, and then every one of the four conjuncts passed with evidence of its declared kind; a
  conjunct named as the failing one did not pass; four unevaluable conjuncts leave only the two names of an
  attempt that evaluated nothing; and without a scored run every quantity of \<open>power\<close> is null.
\<close>

theorem accepted_attempt_fails_closed:
  assumes "validatePromotionAttemptPayload payload scored_run evidence = Inr ()"
  shows "(obj_get payload ''outcome'' = str ''PROMOTED'' \<longleftrightarrow> obj_get payload ''failing_conjunct'' = JNull)
    \<and> (obj_get payload ''outcome'' = str ''PROMOTED'' \<longrightarrow>
         (\<forall>n \<in> set CONJUNCT_NAMES. verdictOf (obj_get payload ''conjuncts'') n = str ''PASS''
            \<and> (\<exists>e. evidence n = Some e \<and> CONJUNCT_EVIDENCE_KIND n = Some (kind_of_evidence e))))
    \<and> (\<forall>n \<in> set CONJUNCT_NAMES. obj_get payload ''failing_conjunct'' = str n \<longrightarrow>
         verdictOf (obj_get payload ''conjuncts'') n \<in> {str ''FAIL'', str ''UNEVALUABLE''})
    \<and> ((\<forall>n \<in> set CONJUNCT_NAMES. verdictOf (obj_get payload ''conjuncts'') n = str ''UNEVALUABLE'') \<longrightarrow>
         obj_get payload ''failing_conjunct'' \<in> {str ''precondition_underpowered'', str ''aborted_before_evaluation''})
    \<and> (scored_run = None \<longrightarrow> (\<forall>k \<in> set POWER_QUANTITIES. obj_get (obj_get payload ''power'') k = JNull))"
    (is "?promoted \<and> ?passed \<and> ?named \<and> ?nothing \<and> ?null")
proof -
  note sh = accepted_is_shaped [OF assms]
  have c: "in_order (coherence_checks payload) = Inr ()" using sh by (simp add: shaped_attempt_def)
  note rules = c [unfolded coherence_checks_def Let_def in_order_Cons unless_ok list_all_iff]
  have ?promoted using rules by blast
  moreover have ?passed using rules shaped_verdict(2) [OF sh] by blast
  moreover have ?named
  proof (intro ballI impI)
    fix n assume n: "n \<in> set CONJUNCT_NAMES" "obj_get payload ''failing_conjunct'' = str n"
    then have "verdictOf (obj_get payload ''conjuncts'') n \<noteq> str ''PASS''" using rules by blast
    then show "verdictOf (obj_get payload ''conjuncts'') n \<in> {str ''FAIL'', str ''UNEVALUABLE''}"
      using shaped_verdict(1) [OF sh n(1)] by (auto simp: CONJUNCT_VERDICTS_def)
  qed
  moreover have ?nothing using rules by blast
  moreover have ?null using sh by (auto simp: shaped_attempt_def power_checks_def in_order_each)
  ultimately show ?thesis by blast
qed

subsection \<open>Filing a pair\<close>

text \<open>The texts of a pair that the canonical form can write.\<close>

definition storable_pair :: "promotion_pair \<Rightarrow> bool" where
  "storable_pair pair =
     (list_all code_units [pp_org_id pair, pp_run_id pair, pp_ts pair, schema_version (pp_state pair),
        ruleset_hash (pp_state pair), kb_snapshot (pp_state pair)]
      \<and> list_all plain_json [pp_start pair, pp_terminal pair, pp_toolchain pair])"

lemma accepted_pair:
  assumes "pair_checks pair = Inr x"
  obtains a where "obj_get (pp_start pair) ''attempt_id'' = JStr a" "obj_get (pp_terminal pair) ''attempt_id'' = JStr a"
    and "list_all (names (pp_start pair)) START_REQUIRED_KEYS" "is_plain_object (pp_start pair)"
    and "shaped_attempt (pp_terminal pair) (pp_scored_run pair) (pp_evidence pair)"
proof -
  have s: "validateStartPayload (pp_start pair) (pp_ts pair) = Inr ()"
    and t: "validatePromotionAttemptPayload (pp_terminal pair) (pp_scored_run pair) (pp_evidence pair) = Inr ()"
    and same: "obj_get (pp_terminal pair) ''attempt_id'' = obj_get (pp_start pair) ''attempt_id''"
    and obj: "is_plain_object (pp_start pair)"
    using assms by (simp_all add: pair_checks_def requireObject_def)
  have "list_all (names (pp_start pair)) START_REQUIRED_KEYS"
    "\<exists>a. obj_get (pp_start pair) ''attempt_id'' = JStr a"
    using s by (auto simp: validateStartPayload_def in_order_each requireNamedString_ok list_all_iff)
  with accepted_is_shaped [OF t] same obj show ?thesis by (auto intro: that)
qed

lemma start_is_storable:
  assumes "pair_checks pair = Inr x" "storable_pair pair"
  shows "storable_system (start_row_of pair)"
  using assms(2) by (rule_tac accepted_pair [OF assms(1)])
    (simp add: storable_system_def start_row_of_def storable_pair_def START_REQUIRED_KEYS_def CLASS_REQUIRED_KEYS_def)

lemma terminal_row_checks:
  assumes "pair_checks pair = Inr x" "ledger_row.truncate r = terminalRowContent pair digest head"
    and "isHex64 (row_hash r)" "is_parent_text (prev_hash r)" "row_hash r \<noteq> prev_hash r"
  shows "row_checks r"
proof -
  let ?p = "pp_terminal pair"
  have sh: "shaped_attempt ?p (pp_scored_run pair) (pp_evidence pair)" by (rule accepted_pair [OF assms(1)])
  have f: "class_of r = PromotionAttempt" "row_output r = ?p" "agent r = Evolve" "split_id r = None"
    "tokens_in r = 0" "tokens_out r = 0" "cost_aud r = u ''0.000000''" "latency_ms r = 0" "restarts r = 0"
    using assms(2) by (simp_all add: ledger_row.truncate_def terminalRowContent_def)
  have pre: "obj_get ?p k \<noteq> JUndef \<and> (k \<noteq> ''failing_conjunct'' \<longrightarrow> names ?p k)"
    if "k \<in> set PROMOTION_ATTEMPT_REQUIRED_KEYS" for k
    using sh that by (auto simp: shaped_attempt_def presence_checks_def in_order_each names_def)
  have c: "in_order (coherence_checks ?p) = Inr ()" using sh by (simp add: shaped_attempt_def)
  note rules = c [unfolded coherence_checks_def Let_def in_order_Cons unless_ok]
  have "attempt_complete r"
    using rules pre [of "''failing_conjunct''"]
    by (auto simp: attempt_complete_def f str_def names_def PROMOTION_ATTEMPT_REQUIRED_KEYS_def)
  moreover have "list_all (names ?p) (trigger_keys PromotionAttempt)"
    using pre by (simp add: PROMOTION_ATTEMPT_REQUIRED_KEYS_def)
  ultimately show ?thesis using f assms(3-5) by (simp add: row_checks_def call_complete_def)
qed

lemma head_of_fresh_run:
  assumes "run_rows run table = []"
  shows "head_of_run run table = None" "read_head org run table = None" "open_head run table"
proof -
  have "run_rows run (visible org table) = []" unfolding run_rows_visible assms by (simp add: visible_def)
  then show "head_of_run run table = None" "read_head org run table = None" "open_head run table"
    using assms by (simp_all add: head_of_run_def read_head_def open_head_def last_by_seq_def)
qed

lemma head_of_first_row:
  assumes "run_rows run table = []" "run_id r = run" "org_id r = org" "row_hash r \<noteq> prev_hash r" "prev_hash r = GENESIS"
  shows "head_of_run run (table @ [r]) = Some (head_of_row r)"
    "read_head org run (table @ [r]) = Some (head_of_row r)" "open_head run (table @ [r])"
proof -
  have rr: "run_rows run (table @ [r]) = [r]" using assms(1,2) by (simp add: run_rows_def)
  then show h: "head_of_run run (table @ [r]) = Some (head_of_row r)" by (simp add: head_of_run_def last_by_seq_def)
  show "read_head org run (table @ [r]) = Some (head_of_row r)"
    unfolding read_head_def run_rows_visible rr using assms(3) by (simp add: visible_def last_by_seq_def)
  show "open_head run (table @ [r])" unfolding open_head_def h rr using assms(4,5) by (simp add: head_of_row_def)
qed

lemma linkRow_plain:
  assumes "plain_row content" "\<forall>h t. isHex64 h \<longrightarrow> sha (h @ t) \<noteq> h" "\<forall>t. isHex64 (sha t)"
    and "\<And>h. parent = Some h \<Longrightarrow> isHex64 h"
  shows "\<exists>r. linkRow sha content parent = Inr r"
proof -
  obtain t where t: "canonicalRow content = Inr t" using canonicalRow_total [OF assms(1)] by blast
  have "\<not> isHex64 GENESIS" by (simp add: isHex64_def GENESIS_def u_def)
  then have "sha (GENESIS @ t) \<noteq> GENESIS" using assms(3) by metis
  then show ?thesis using t assms(2,4) by (cases parent) (auto simp: linkRow_def rowHash_def Let_def)
qed

lemma content_plain:
  assumes "storable_pair pair" "isHex64 digest" "\<bar>case head of Some h \<Rightarrow> h_seq h | None \<Rightarrow> 0\<bar> < 2 ^ 52"
    "\<bar>case head of Some h \<Rightarrow> h_cum_tokens h | None \<Rightarrow> 0\<bar> < 2 ^ 53"
  shows "plain_row (system_content (start_row_of pair) digest head)" "plain_row (terminalRowContent pair digest head)"
proof -
  have "code_units digest" using assms(2) by (auto simp: isHex64_def code_units_def)
  moreover have "plain_json (j_int ((case head of Some h \<Rightarrow> h_seq h | None \<Rightarrow> 0) + 1))"
    by (rule plain_j_int) (use assms(3) in \<open>simp add: abs_less_iff split: option.splits\<close>)
  moreover have "plain_json (j_int (case head of Some h \<Rightarrow> h_cum_tokens h | None \<Rightarrow> 0))"
    by (rule plain_j_int) (rule assms(4))
  ultimately show "plain_row (system_content (start_row_of pair) digest head)" "plain_row (terminalRowContent pair digest head)"
    using assms(1) plain_j_int [of 0]
    by (simp_all add: plain_row_def covered_def system_content_def terminalRowContent_def start_row_of_def
        storable_pair_def j_opt_def) (simp_all add: code_units_def u_def)
qed

lemma attempt_rows_append: "attempt_rows org a (t @ t') =
   stable_sort (\<lambda>a b. seq b < seq a) (filter (\<lambda>r. class_of r \<in> {Start, PromotionAttempt}
      \<and> obj_get (row_output r) ''attempt_id'' = JStr a) (visible org t) @ filter (\<lambda>r. class_of r \<in> {Start, PromotionAttempt}
      \<and> obj_get (row_output r) ''attempt_id'' = JStr a) (visible org t'))"
  by (simp add: attempt_rows_def)

text \<open>The attempt has no row of its two classes anywhere in the ledger.\<close>

definition unfiled :: "jstr \<Rightarrow> ledger_table \<Rightarrow> bool" where
  "unfiled a table = (\<forall>x \<in> set table. class_of x \<in> {Start, PromotionAttempt} \<longrightarrow>
     obj_get (row_output x) ''attempt_id'' \<noteq> JStr a)"

lemma unfiled_rows: "unfiled a table \<Longrightarrow> filter (\<lambda>r. class_of r \<in> {Start, PromotionAttempt}
    \<and> obj_get (row_output r) ''attempt_id'' = JStr a) (visible org table) = []"
  by (auto simp: unfiled_def visible_def filter_empty_conv)

lemma findAttempt_unfiled: "unfiled a table \<Longrightarrow> findAttempt org a table = \<lparr>fa_start = None, fa_terminal = None\<rparr>"
  using attempt_rows_append [of org a table "[]"]
  by (simp add: findAttempt_def unfiled_rows del: insert_iff) (simp add: visible_def stable_sort_def)

lemma findAttempt_pair:
  assumes "unfiled a table" "class_of s = Start" "class_of t = PromotionAttempt" "org_id s = org" "org_id t = org"
    and "obj_get (row_output s) ''attempt_id'' = JStr a" "obj_get (row_output t) ''attempt_id'' = JStr a" "seq s < seq t"
  shows "findAttempt org a (table @ [s, t]) = \<lparr>fa_start = Some (filed s), fa_terminal = Some (filed t)\<rparr>"
  using assms attempt_rows_append [of org a table "[s, t]"]
  by (simp add: findAttempt_def unfiled_rows del: insert_iff) (simp add: visible_def stable_sort_def)

lemma start_is_filed:
  assumes sha: "\<forall>t. isHex64 (sha t)" "\<forall>h t. isHex64 h \<longrightarrow> sha (h @ t) \<noteq> h"
    and ok: "ledger_ok sha table" and pair: "pair_checks pair = Inr ()" "storable_pair pair"
    and fresh: "run_rows (pp_run_id pair) table = []"
    and unfiled: "unfiled (string_val (obj_get (pp_start pair) ''attempt_id'')) table"
    and digest: "stateHash sha (pp_state pair) = Inr digest"
  obtains s a where
    "appendSystemRow sha undisturbed undisturbed (start_row_of pair) table = (table @ [s], Inr a)"
    and "ledger_row.truncate s = system_content (start_row_of pair) digest None" "prev_hash s = GENESIS"
    and "isHex64 (row_hash s)" "row_hash s \<noteq> prev_hash s" "row_checks s" "ledger_ok sha (table @ [s])"
proof -
  let ?row = "start_row_of pair" and ?c = "system_content (start_row_of pair) digest"
  note head = head_of_fresh_run [OF fresh]
  have hex: "isHex64 digest" using digest sha(1) by (auto simp: stateHash_def digestOf_def split: sum.splits)
  obtain s where s: "linkRow sha (?c None) None = Inr s"
    using linkRow_plain [OF content_plain(1) [OF pair(2) hex] sha(2,1), of None None] by auto
  note l = linkRow_Inr [OF s sha(1)]
  have tr: "ledger_row.truncate s = ?c None" using l by blast
  have f: "run_id s = pp_run_id pair" "org_id s = pp_org_id pair" "class_of s = Start" "row_output s = pp_start pair" "seq s = 1"
    using tr by (simp_all add: ledger_row.truncate_def system_content_def start_row_of_def)
  have st: "storable_system ?row" by (rule start_is_storable [OF pair])
  have "ledger_append sha undisturbed undisturbed (pp_run_id pair) (pp_org_id pair) ?c table =
      (table @ [s], Inr \<lparr>ap_seq = seq s, ap_prev_hash = prev_hash s, ap_row_hash = row_hash s, ap_ts = ts s\<rparr>)
      \<and> row_checks s \<and> ledger_ok sha (table @ [s])"
  proof (rule append_open [OF sha(1) ok])
    show "row_checks s" if "isHex64 (row_hash s)" "is_parent_text (prev_hash s)" "row_hash s \<noteq> prev_hash s"
      by (rule system_row_checks [OF st tr that])
    show "\<forall>x \<in> set table. class_of x = class_of s \<longrightarrow>
        obj_get (row_output x) ''attempt_id'' \<noteq> obj_get (row_output s) ''attempt_id''"
      by (rule accepted_pair [OF pair(1)]) (use unfiled f(3,4) in \<open>auto simp: unfiled_def string_val_def\<close>)
  qed (use head s f in simp_all)
  moreover have "appendSystemRow sha undisturbed undisturbed ?row table =
      ledger_append sha undisturbed undisturbed (pp_run_id pair) (pp_org_id pair) ?c table"
    using st digest by (auto simp: appendSystemRow_def storable_system_def start_row_of_def list_all_iff)
  ultimately show ?thesis using that tr l by (auto simp: verifyRowHash_def split: if_splits)
qed

lemma terminal_is_filed:
  assumes sha: "\<forall>t. isHex64 (sha t)" "\<forall>h t. isHex64 h \<longrightarrow> sha (h @ t) \<noteq> h"
    and pair: "pair_checks pair = Inr ()" "storable_pair pair"
    and fresh: "run_rows (pp_run_id pair) table = []"
    and unfiled: "unfiled (string_val (obj_get (pp_start pair) ''attempt_id'')) table"
    and digest: "isHex64 digest"
    and start: "ledger_row.truncate s = system_content (start_row_of pair) digest None" "prev_hash s = GENESIS"
      "isHex64 (row_hash s)" "row_hash s \<noteq> prev_hash s" "ledger_ok sha (table @ [s])"
  obtains t a where
    "ledger_append sha undisturbed undisturbed (pp_run_id pair) (pp_org_id pair) (terminalRowContent pair digest)
       (table @ [s]) = (table @ [s, t], Inr a)"
    and "ledger_row.truncate t = terminalRowContent pair digest (Some (head_of_row s))" "prev_hash t = row_hash s"
    and "row_checks t" "ledger_ok sha (table @ [s, t])"
proof -
  let ?c = "terminalRowContent pair digest" and ?h = "head_of_row s"
  have fs: "run_id s = pp_run_id pair" "org_id s = pp_org_id pair" "class_of s = Start" "seq s = 1" "cum_tokens s = 0"
    using start(1) by (simp_all add: ledger_row.truncate_def system_content_def start_row_of_def)
  note head = head_of_first_row [OF fresh fs(1,2) start(4,2)]
  have "plain_row (?c (Some ?h))"
    by (rule content_plain(2) [OF pair(2) digest]) (simp_all add: head_of_row_def fs)
  then obtain t where t: "linkRow sha (?c (Some ?h)) (Some (row_hash s)) = Inr t"
    using linkRow_plain [OF _ sha(2,1)] start(3) by blast
  note l = linkRow_Inr [OF t sha(1)]
  have tr: "ledger_row.truncate t = ?c (Some ?h)" using l by blast
  have f: "run_id t = pp_run_id pair" "org_id t = pp_org_id pair" "class_of t = PromotionAttempt"
    "row_output t = pp_terminal pair" "seq t = seq s + 1"
    using tr by (simp_all add: ledger_row.truncate_def terminalRowContent_def head_of_row_def)
  have "ledger_append sha undisturbed undisturbed (pp_run_id pair) (pp_org_id pair) ?c (table @ [s]) =
      ((table @ [s]) @ [t], Inr \<lparr>ap_seq = seq t, ap_prev_hash = prev_hash t, ap_row_hash = row_hash t, ap_ts = ts t\<rparr>)
      \<and> row_checks t \<and> ledger_ok sha ((table @ [s]) @ [t])"
  proof (rule append_open [OF sha(1) start(5)])
    show "row_checks t" if "isHex64 (row_hash t)" "is_parent_text (prev_hash t)" "row_hash t \<noteq> prev_hash t"
      by (rule terminal_row_checks [OF pair(1) tr that])
    show "\<forall>x \<in> set (table @ [s]). class_of x = class_of t \<longrightarrow>
        obj_get (row_output x) ''attempt_id'' \<noteq> obj_get (row_output t) ''attempt_id''"
      by (rule accepted_pair [OF pair(1)]) (use unfiled f(3,4) fs(3) in \<open>auto simp: unfiled_def string_val_def\<close>)
  qed (use head t f in \<open>simp_all add: head_of_row_def\<close>)
  then show ?thesis using that tr l by auto
qed


subsection \<open>The capsule is accepted\<close>

lemma shape_append: "shape ps s \<Longrightarrow> shape qs t \<Longrightarrow> shape (ps @ qs) (s @ t)"
  by (simp add: shape_def list_all2_appendI)

lemma shape_Cons: "p c \<Longrightarrow> shape qs t \<Longrightarrow> shape (p # qs) (c # t)"
  by (simp add: shape_def)

lemma shape_units: "shape ps s \<Longrightarrow> (\<forall>c \<in> set s. \<exists>p \<in> set ps. p c) \<and> length s = length ps"
  unfolding shape_def by (induction rule: list_all2_induct) auto

lemma shape_hex: "\<forall>c \<in> set s. any_hex c \<Longrightarrow> length s = n \<Longrightarrow> shape (replicate n any_hex) s"
  by (auto simp: shape_def list_all2_conv_all_nth)

lemma hex64_any: "isHex64 s \<Longrightarrow> c \<in> set s \<Longrightarrow> any_hex c"
  by (auto simp: isHex64_def any_hex_def low_hex_def)

lemma uuid_parts:
  assumes "length a = 8" "length b = 4" "length c = 4" "length d = 4" "length e = 12"
    and "\<forall>x \<in> set a. any_hex x" "\<forall>x \<in> set b. any_hex x" "\<forall>x \<in> set c. any_hex x"
      "\<forall>x \<in> set d. any_hex x" "\<forall>x \<in> set e. any_hex x"
  shows "UUID (a @ 45 # b @ 45 # c @ 45 # d @ 45 # e)"
  unfolding UUID_def by (intro shape_append shape_Cons shape_hex assms) (simp_all add: dash_def)

lemma derivedUuid_shape:
  assumes "isHex64 (sha s)"
  shows "UUID (derivedUuid sha s)"
proof -
  let ?d = "sha s" and ?v = "hex_digit (hex_value (sha s ! 16) mod 4 + 8)"
  have l: "length ?d = 64" using assms by (simp add: isHex64_def)
  have "any_hex ?v" by (simp add: any_hex_def low_hex_def hex_digit_def) presburger
  moreover have "any_hex 52" by (simp add: any_hex_def low_hex_def)
  moreover have "\<forall>x \<in> set (take n (drop m ?d)). any_hex x" for n m
    using hex64_any [OF assms] by (meson in_set_dropD in_set_takeD)
  moreover from this [of 8 0] have "\<forall>x \<in> set (take 8 ?d). any_hex x" by simp
  ultimately have "UUID (take 8 (drop 0 ?d) @ 45 # take 4 (drop 8 ?d) @ 45 # (52 # take 3 (drop 13 ?d)) @ 45 #
      (?v # take 3 (drop 17 ?d)) @ 45 # take 12 (drop 20 ?d))"
    by (intro uuid_parts) (simp_all only: length_take length_drop l list.size list.set ball_simps, simp_all)
  then show ?thesis by (simp add: derivedUuid_def Let_def join_Cons u_def)
qed

lemma hex_solid:
  assumes "s \<noteq> []" "\<forall>c \<in> set s. any_hex c \<or> dash c"
  shows "js_trim s \<noteq> [] \<and> code_units s"
proof -
  have ok: "\<forall>c \<in> set s. \<not> is_space c \<and> c < 65536"
    using assms(2) by (auto simp: any_hex_def low_hex_def dash_def is_space_def)
  then have "js_trim s = s" using assms(1) by (intro js_trim_id) auto
  with ok assms(1) show ?thesis by (auto simp: code_units_def)
qed

lemma uuid_solid: "UUID s \<Longrightarrow> js_trim s \<noteq> [] \<and> code_units s"
  by (rule hex_solid) (auto simp: UUID_def dest!: shape_units)

lemma hex40_solid: "HEX40 s \<Longrightarrow> js_trim s \<noteq> [] \<and> code_units s"
  by (rule hex_solid) (auto simp: HEX40_def any_hex_def dest!: shape_units)

lemma code_units_u [simp]: "code_units (u s)"
proof -
  have "(of_char c :: nat) < 65536" for c
    by (cases c) (simp add: of_char_def)
  then show ?thesis by (simp add: code_units_def u_def)
qed

definition capsule_ready :: "capsule_input \<Rightarrow> bool" where
  "capsule_ready inp =
     (list_all (\<lambda>s. js_trim s \<noteq> []) [ci_org_id inp, ci_incumbent inp, ci_ts inp] \<and> HEX40 (ci_code_sha inp)
      \<and> list_all code_units [ci_org_id inp, ci_incumbent inp, ci_ts inp, schema_version (ci_state inp),
           ruleset_hash (ci_state inp), kb_snapshot (ci_state inp)]
      \<and> plain_json (ci_toolchain inp))"

lemma get_capsule_prop [simp]: "get_prop ((u a, v) # fs) b = (if a = b then v else get_prop fs b)"
  by (auto simp: get_prop_def)

lemma get_prop_Nil [simp]: "get_prop [] k = JUndef"
  by (simp add: get_prop_def)

lemma capsule_ids:
  assumes "\<forall>t. isHex64 (sha t)"
  shows "UUID (attemptIdFor sha org)" "js_trim (attemptIdFor sha org) \<noteq> []" "js_trim (capsuleRunIdFor sha org) \<noteq> []"
    "code_units (attemptIdFor sha org)" "code_units (capsuleRunIdFor sha org)"
proof -
  have "UUID (derivedUuid sha t)" for t by (rule derivedUuid_shape) (use assms in blast)
  then show "UUID (attemptIdFor sha org)" "js_trim (attemptIdFor sha org) \<noteq> []" "js_trim (capsuleRunIdFor sha org) \<noteq> []"
    "code_units (attemptIdFor sha org)" "code_units (capsuleRunIdFor sha org)"
    using uuid_solid by (auto simp: attemptIdFor_def capsuleRunIdFor_def)
qed

lemma capsule_start_accepted:
  assumes "\<forall>t. isHex64 (sha t)" "capsule_ready inp"
  shows "validateStartPayload (pp_start (capsulePair sha inp)) (pp_ts (capsulePair sha inp)) = Inr ()"
  using assms(2) capsule_ids [OF assms(1), of "ci_org_id inp"] hex40_solid [of "ci_code_sha inp"]
  by (simp add: validateStartPayload_def capsulePair_def Let_def START_REQUIRED_KEYS_def CLASS_REQUIRED_KEYS_def names_def
      requireNamedString_def string_val_def capsule_ready_def in_order.simps(1))

text \<open>The four reasons are short enough and not blank, and the second declares that there is no candidate.\<close>

lemma capsule_reasons:
  "list_all (\<lambda>(n, v, r). js_trim (u r) \<noteq> [] \<and> utf8Bytes (u r) \<le> CONJUNCT_REASON_MAX_BYTES) CAPSULE_CONJUNCTS"
  "js_includes (u NO_CANDIDATE_PROPOSED_reason) (u NO_CANDIDATE_PROPOSED_marker)"
  by code_simp+

lemma capsule_terminal_accepted:
  assumes "\<forall>t. isHex64 (sha t)" "capsule_ready inp"
  shows "validatePromotionAttemptPayload (pp_terminal (capsulePair sha inp)) None ev = Inr ()"
  using assms(2) capsule_ids [OF assms(1), of "ci_org_id inp"] capsule_reasons
  by (simp add: validatePromotionAttemptPayload_def capsulePair_def Let_def presence_checks_def
      PROMOTION_ATTEMPT_REQUIRED_KEYS_def requireNamedString_def requireObject_def is_plain_object_def object_keys_def
      string_val_def capsule_ready_def in_order.simps(1) candidateFrom_def CONJUNCT_NAMES_def CAPSULE_CONJUNCTS_def
      conjunct_checks_def requireMember_ok CONJUNCT_VERDICTS_def str_def power_checks_def CAPSULE_POWER_def POWER_KEYS_def
      CI_UNITS_def CAPSULE_CI_UNIT_def POWER_QUANTITIES_def OUTCOMES_def INTERPRETATIONS_def FAILING_CONJUNCTS_def
      CAPSULE_OUTCOME_def CAPSULE_INTERPRETATION_def CAPSULE_FAILING_CONJUNCT_def coherence_checks_def verdictOf_def
      declaresNoCandidate_def)

lemma capsule_accepted:
  assumes "\<forall>t. isHex64 (sha t)" "capsule_ready inp"
  shows "pair_checks (capsulePair sha inp) = Inr ()" "storable_pair (capsulePair sha inp)"
proof -
  let ?p = "capsulePair sha inp"
  have f: "pp_org_id ?p = ci_org_id inp" "pp_run_id ?p = capsuleRunIdFor sha (ci_org_id inp)" "pp_ts ?p = ci_ts inp"
    "pp_scored_run ?p = None" "obj_get (pp_terminal ?p) ''attempt_id'' = obj_get (pp_start ?p) ''attempt_id''"
    "is_plain_object (pp_start ?p)" "is_plain_object (pp_terminal ?p)"
    by (simp_all add: capsulePair_def Let_def is_plain_object_def)
  show "pair_checks ?p = Inr ()"
    using capsule_start_accepted [OF assms] capsule_terminal_accepted [OF assms] capsule_ids [OF assms(1)] assms(2) f
    by (simp add: pair_checks_def requireObject_def in_order.simps(1) capsule_ready_def)
  have zero: "plain_json (JNum (Fin 0))" using plain_j_int [of 0] by (simp add: j_int_def)
  show "storable_pair ?p"
    using assms(2) capsule_ids [OF assms(1), of "ci_org_id inp"] hex40_solid [of "ci_code_sha inp"] zero
    by (simp add: storable_pair_def capsulePair_def Let_def capsule_ready_def candidateFrom_def CAPSULE_CONJUNCTS_def
        CAPSULE_POWER_def str_def del: plain_json.simps(2))
qed

definition moving_sha :: "jstr \<Rightarrow> jstr" where
  "moving_sha t = (if take 1 t = [48] then replicate 64 49 else replicate 64 48)"

lemma moving_sha: "isHex64 (moving_sha t)" "isHex64 h \<Longrightarrow> moving_sha (h @ t) \<noteq> h"
  by (auto simp: moving_sha_def isHex64_def split: if_splits)

definition sample_capsule :: capsule_input where
  "sample_capsule =
     \<lparr>ci_org_id = u ''o'', ci_incumbent = u ''v1'', ci_code_sha = replicate 40 97, ci_ts = u ''2026-08-26T00:00:00.000Z'',
      ci_state = \<lparr>schema_version = u ''1'', ruleset_hash = u ''a'', kb_snapshot = u ''b''\<rparr>, ci_toolchain = JObj []\<rparr>"

lemma sample_capsule_ready: "capsule_ready sample_capsule"
  by (simp add: capsule_ready_def sample_capsule_def) (simp add: HEX40_def shape_def low_hex_def js_trim_def is_space_def u_def list_all2_conv_all_nth)

theorem accepted_attempt_fails_closed_witness:
  "obj_get (pp_terminal (capsulePair moving_sha sample_capsule)) ''outcome'' \<noteq> str ''PROMOTED''
   \<and> obj_get (obj_get (pp_terminal (capsulePair moving_sha sample_capsule)) ''power'') ''delta'' = JNull"
proof -
  have "validatePromotionAttemptPayload (pp_terminal (capsulePair moving_sha sample_capsule)) None (\<lambda>_. None) = Inr ()"
    by (rule capsule_terminal_accepted) (use moving_sha(1) sample_capsule_ready in blast)+
  from accepted_attempt_fails_closed [OF this] show ?thesis by (auto simp: POWER_QUANTITIES_def CONJUNCT_NAMES_def)
qed


end
