(* ===== verification/Promotion_Panel.thy ===== *)
theory Promotion_Panel
  imports Promotion_Row Js_Date
begin

section \<open>The panel of the promotion gate\<close>

text \<open>
  \<open>src/src/alg/promotion_panel.ts\<close> and the read behind it, \<open>src/src/server/promotion.ts\<close>: the
  reconciliation of the attempts against their openings and the view model of the panel.  The module
  imports nothing of the writer, so its alphabets are written out a second time, as in the source.  A
  refusal of the view model is an exception; the model keeps which one.
\<close>

subsection \<open>Alphabets and milestones\<close>

definition panel_CONJUNCT_NAMES :: "string list" where
  "panel_CONJUNCT_NAMES =
     [''paired_significant_at_alpha'', ''delta_positive'', ''battery_in_force_green'', ''query_index_within_cmax'']"

definition panel_CONJUNCT_VERDICTS :: "string list" where
  "panel_CONJUNCT_VERDICTS = [''PASS'', ''FAIL'', ''UNEVALUABLE'']"

definition panel_FAILING_CONJUNCTS :: "string list" where
  "panel_FAILING_CONJUNCTS = panel_CONJUNCT_NAMES @ [''precondition_underpowered'', ''aborted_before_evaluation'']"

definition panel_OUTCOMES :: "string list" where
  "panel_OUTCOMES = [''PROMOTED'', ''REJECTED'', ''ABORTED'']"

definition panel_INTERPRETATIONS :: "string list" where
  "panel_INTERPRETATIONS = [''UNDERPOWERED'', ''INFORMATIVE-NULL'', ''POWERED-CONCLUSIVE'']"

record milestone =
  ms_id :: string
  ms_title :: string
  ms_date :: string
  ms_published_date :: string

definition PENDING_MILESTONES :: "milestone list" where
  "PENDING_MILESTONES =
     [\<lparr>ms_id = ''D-9'', ms_title = ''Sealed splits, firewall and Model Quality surface'',
       ms_date = ''2026-09-14'', ms_published_date = ''14 Sep 2026''\<rparr>,
      \<lparr>ms_id = ''D-11'', ms_title = ''Improvement engine, promotion gate and negative battery'',
       ms_date = ''2026-10-04'', ms_published_date = ''4 Oct 2026''\<rparr>]"

datatype milestone_state = Ahead | Due

definition milestoneState :: "milestone \<Rightarrow> int \<Rightarrow> milestone_state" where
  "milestoneState entry now = (if take 10 (toISOString now) \<le> u (ms_date entry) then Ahead else Due)"

definition CONJUNCT_MILESTONE :: "string \<Rightarrow> string" where
  "CONJUNCT_MILESTONE name =
     the (map_of [(''paired_significant_at_alpha'', ''D-9''), (''delta_positive'', ''D-11''),
                  (''battery_in_force_green'', ''D-11''), (''query_index_within_cmax'', ''D-9'')] name)"

subsection \<open>Sentences\<close>

definition NO_ATTEMPT_FILED :: jstr where
  "NO_ATTEMPT_FILED =
     u ''No promotion attempt has been filed yet. The gate exists as a signed contract in the schema: a rejection that does not name its failing conjunct cannot be written at all '' @ [8212] @ u '' the database refuses it. What I can show today is that contract, and the count of attempts, which is zero and honest.''"

definition FAIL_CLOSED_STATEMENT :: jstr where
  "FAIL_CLOSED_STATEMENT =
     u ''An unevaluable conjunct produces a typed no-promotion: never a default promotion, never a silent skip, never an operator judgement. The precondition of the gate is MDE_clan-aware '' @ [8804] @ u '' MDI, and it could not be evaluated here because neither quantity is derived '' @ [8212] @ u '' the minimum detectable effect needs a sealed report split and a scored run, and the minimum difference of interest is a pre-registered convention that has not been declared yet. UNDERPOWERED therefore says that nothing was measured, not that a measurement came out small.''"

definition SURFACE_SCOPE :: jstr where
  "SURFACE_SCOPE =
     u ''This screen brings forward the floor of the second act: the promotion gate in its filed state. It does not stand in for the Model Quality surface of D-9, which is where accuracy and its interval are published, nor for the reconciliation line inside the Decision Audit Log. Both are dated deliverables and both are listed below.''"

definition RECONCILIATION_SCOPE :: jstr where
  "RECONCILIATION_SCOPE =
     u ''Counted over exactly the rows this session may see, so the total is a tenant total and not a system total.''"

definition OWN_RUN_STATEMENT :: jstr where
  "OWN_RUN_STATEMENT =
     u ''The attempt opens a run of its own: not the ticket'' @ [8217] @ u ''s run, not the run of the first act. A promotion attempt is not a customer'' @ [8217] @ u ''s run, so it does not extend that chain, and neither row carries a ticket.''"

definition READ_ONLY_STATEMENT :: jstr where
  "READ_ONLY_STATEMENT =
     u ''This screen is read-only and files nothing. The evolution loop running live is a declared omission of this demonstration; its payer is the improvement-engine card of D-11.''"

definition NOT_DERIVED :: jstr where
  "NOT_DERIVED = u ''not derived''"

subsection \<open>Reconciliation\<close>

datatype attempt_kind = Start_Row | Terminal_Row

record attempt_ledger_row =
  ar_kind :: attempt_kind
  ar_attempt_id :: jstr
  ar_run_id :: jstr
  ar_seq :: int
  ar_ticket_id :: "jstr option"
  ar_output :: jsval
  ar_verified :: bool

datatype reconciliation_verdict = Reconciled | Not_Reconciled | Nothing_Filed

record reconciliation =
  rc_verdict :: reconciliation_verdict
  rc_starts :: nat
  rc_terminals :: nat
  rc_dangling :: "jstr list"
  rc_orphan :: "jstr list"
  rc_invalid :: "jstr list"

text \<open>A \<open>Set\<close> of strings, in insertion order; \<open>sort()\<close> orders by code units.\<close>

definition set_add :: "'a \<Rightarrow> 'a list \<Rightarrow> 'a list" where
  "set_add x xs = (if x \<in> set xs then xs else xs @ [x])"

definition sort_texts :: "jstr list \<Rightarrow> jstr list" where
  "sort_texts xs = stable_sort (\<lambda>a b. b < a) xs"

definition reconcile_row ::
    "attempt_ledger_row \<Rightarrow> jstr list \<times> jstr list \<times> jstr list \<Rightarrow> jstr list \<times> jstr list \<times> jstr list" where
  "reconcile_row row = (\<lambda>(starts, terminals, invalid).
     (case ar_kind row of
        Start_Row \<Rightarrow> (set_add (ar_attempt_id row) starts, terminals, invalid)
      | Terminal_Row \<Rightarrow>
          if \<not> member_of (obj_get (ar_output row) ''outcome'') panel_OUTCOMES
          then (starts, terminals, set_add (ar_attempt_id row) invalid)
          else (starts, set_add (ar_attempt_id row) terminals, invalid)))"

definition reconcileAttempts :: "attempt_ledger_row list \<Rightarrow> reconciliation" where
  "reconcileAttempts rows =
     (let (starts, terminals, invalid) = foldl (\<lambda>sets row. reconcile_row row sets) ([], [], []) rows;
          dangling = sort_texts (filter (\<lambda>i. i \<notin> set terminals) starts);
          orphan = sort_texts (filter (\<lambda>i. i \<notin> set starts) terminals);
          invalidIds = sort_texts invalid
      in \<lparr>rc_verdict =
            (if length starts = 0 \<and> length terminals = 0 \<and> length invalidIds = 0 then Nothing_Filed
             else if length dangling = 0 \<and> length orphan = 0 \<and> length invalidIds = 0 then Reconciled
             else Not_Reconciled),
          rc_starts = length starts, rc_terminals = length terminals, rc_dangling = dangling,
          rc_orphan = orphan, rc_invalid = invalidIds\<rparr>)"

subsection \<open>The view\<close>

record power_cell =
  pl_label :: jstr
  pl_value :: jstr
  pl_reason :: jstr

datatype power_view =
    Not_Derived (nd_unit: jstr) (nd_cells: "power_cell list") (nd_question: string)
  | Derived (dv_delta: jnum) (dv_low: jnum) (dv_high: jnum) (dv_unit: jstr) (dv_mde: jnum) (dv_mdi: jnum)

record conjunct_view =
  cv_name :: string
  cv_verdict :: jstr
  cv_reason :: jstr
  cv_milestone :: "milestone option"

record filed_view =
  fv_attempts :: nat
  fv_attempt_id :: jstr
  fv_run_id :: jstr
  fv_start_seq :: int
  fv_terminal_seq :: int
  fv_ticket_id :: "jstr option"
  fv_candidate :: jstr
  fv_incumbent :: jstr
  fv_conjuncts :: "conjunct_view list"
  fv_failing :: "jstr option"
  fv_alphabet :: "string list"
  fv_outcome :: jstr
  fv_interpretation :: jstr
  fv_power :: power_view
  fv_fail_closed :: "jstr option"
  fv_reconciliation :: reconciliation
  fv_milestones :: "milestone list"
  fv_scope :: jstr
  fv_own_run :: jstr
  fv_read_only :: jstr

datatype panel_view =
    Not_Filed (nf_statement: jstr) (nf_reconciliation: reconciliation) (nf_milestones: "milestone list") (nf_scope: jstr)
  | Not_Verifiable (nv_attempts: nat) (nv_failure: jstr) (nv_reconciliation: reconciliation) (nv_scope: jstr)
  | Filed_View filed_view

datatype panel_refusal =
    No_Milestone string | No_Conjuncts | Wrong_Names "jstr list" | No_Entry string | Outside_Verdicts string
  | No_Reason string | No_Power | No_Unit | Partly_Derived "string list" | Outside_Outcomes
  | Outside_Interpretations | Outside_Failing | Unnamed_Sides | Contradicted_Candidate

definition panel_milestone :: "string \<Rightarrow> panel_refusal + milestone" where
  "panel_milestone i =
     (case List.find (\<lambda>e. ms_id e = i) PENDING_MILESTONES of Some e \<Rightarrow> Inr e | None \<Rightarrow> Inl (No_Milestone i))"

definition refuse_if :: "bool \<Rightarrow> 'e \<Rightarrow> 'e + 'a \<Rightarrow> 'e + 'a" where
  "refuse_if bad e r = (if bad then Inl e else r)"

definition conjunct_view_of :: "jsval \<Rightarrow> string \<Rightarrow> panel_refusal + conjunct_view" where
  "conjunct_view_of entries name =
     (let entry = obj_get entries name; verdict = obj_get entry ''verdict''; reason = obj_get entry ''reason''
      in refuse_if (\<not> is_plain_object entry) (No_Entry name)
        (refuse_if (\<not> member_of verdict panel_CONJUNCT_VERDICTS) (Outside_Verdicts name)
          (refuse_if (verdict \<noteq> str ''PASS'' \<and> (case reason of JStr s \<Rightarrow> js_trim s = [] | _ \<Rightarrow> True)) (No_Reason name)
            (bind_err (if verdict = str ''UNEVALUABLE''
                       then map_sum id Some (panel_milestone (CONJUNCT_MILESTONE name)) else Inr None) (\<lambda>m.
              Inr \<lparr>cv_name = name, cv_verdict = string_val verdict, cv_reason = string_val reason, cv_milestone = m\<rparr>)))))"

definition conjunctsOf :: "jsval \<Rightarrow> panel_refusal + conjunct_view list" where
  "conjunctsOf out =
     (let raw = obj_get out ''conjuncts'' in
      refuse_if (\<not> is_plain_object raw) No_Conjuncts
        (refuse_if (length (object_keys raw) \<noteq> length panel_CONJUNCT_NAMES
                    \<or> \<not> list_all (\<lambda>n. u n \<in> set (object_keys raw)) panel_CONJUNCT_NAMES) (Wrong_Names (object_keys raw))
          (map_err (conjunct_view_of raw) panel_CONJUNCT_NAMES)))"

definition OPEN_PARAMETERS :: "(string \<times> string) list" where
  "OPEN_PARAMETERS =
     [(''alpha'', ''still open under OPEN-7, and not invented here''),
      (''C_max'', ''still open under OPEN-7, and not invented here'')]"

definition not_derived_cells :: "power_cell list" where
  "not_derived_cells =
     map (\<lambda>(l, r). \<lparr>pl_label = u l, pl_value = NOT_DERIVED, pl_reason = u r\<rparr>)
       ([(''delta'', ''no scored run has been recorded''), (''ci_low'', ''no scored run has been recorded''),
         (''ci_high'', ''no scored run has been recorded''), (''MDE_n'', ''no report split has been sealed''),
         (''MDI'', ''a pre-registered convention, and the pre-registration document is not written'')]
        @ OPEN_PARAMETERS)"

definition num_val :: "jsval \<Rightarrow> jnum" where
  "num_val v = (case v of JNum n \<Rightarrow> n | _ \<Rightarrow> NaN)"

definition is_num :: "jsval \<Rightarrow> bool" where
  "is_num v = (case v of JNum _ \<Rightarrow> True | _ \<Rightarrow> False)"

definition is_text :: "jsval \<Rightarrow> bool" where
  "is_text v = (case v of JStr _ \<Rightarrow> True | _ \<Rightarrow> False)"

definition powerOf :: "jsval \<Rightarrow> panel_refusal + power_view" where
  "powerOf out =
     (let raw = obj_get out ''power''; ciUnit = obj_get raw ''ci_unit'';
          quantities = [''delta'', ''ci_low'', ''ci_high'', ''mde_n'', ''mdi''];
          derived = filter (\<lambda>k. is_num (obj_get raw k)) quantities
      in refuse_if (\<not> is_plain_object raw) No_Power
        (refuse_if (case ciUnit of JStr s \<Rightarrow> js_trim s = [] | _ \<Rightarrow> True) No_Unit
          (if length derived = length quantities
           then Inr (Derived (num_val (obj_get raw ''delta'')) (num_val (obj_get raw ''ci_low''))
                       (num_val (obj_get raw ''ci_high'')) (string_val ciUnit) (num_val (obj_get raw ''mde_n''))
                       (num_val (obj_get raw ''mdi'')))
           else if length derived \<noteq> 0 then Inl (Partly_Derived derived)
           else Inr (Not_Derived (string_val ciUnit) not_derived_cells ''OPEN-7''))))"

definition kind_text :: "attempt_kind \<Rightarrow> jstr" where
  "kind_text k = (case k of Start_Row \<Rightarrow> u ''start'' | Terminal_Row \<Rightarrow> u ''terminal'')"

text \<open>Everything after the start and the terminal have been found and verified.\<close>

definition filed_view_of ::
    "reconciliation \<Rightarrow> attempt_ledger_row \<Rightarrow> attempt_ledger_row \<Rightarrow> panel_refusal + filed_view" where
  "filed_view_of rec newest terminal =
     (let out = ar_output terminal; outcome = obj_get out ''outcome''; interpretation = obj_get out ''interpretation'';
          failing = (case obj_get out ''failing_conjunct'' of JUndef \<Rightarrow> JNull | v \<Rightarrow> v);
          candidate = obj_get out ''candidate_prompt_version_id''; incumbent = obj_get out ''incumbent_prompt_version_id''
      in bind_err (conjunctsOf out) (\<lambda>conjuncts.
         bind_err (powerOf out) (\<lambda>pw.
         refuse_if (\<not> member_of outcome panel_OUTCOMES) Outside_Outcomes
        (refuse_if (\<not> member_of interpretation panel_INTERPRETATIONS) Outside_Interpretations
        (refuse_if (failing \<noteq> JNull \<and> \<not> member_of failing panel_FAILING_CONJUNCTS) Outside_Failing
        (refuse_if (\<not> is_text candidate \<or> \<not> is_text incumbent) Unnamed_Sides
        (let declares = (case List.find (\<lambda>c. cv_name c = ''delta_positive'') conjuncts of
               Some c2 \<Rightarrow> js_includes (cv_reason c2) (u ''no candidate generation has been proposed'') | None \<Rightarrow> False)
         in refuse_if (declares \<and> candidate \<noteq> incumbent) Contradicted_Candidate
        (Inr \<lparr>fv_attempts = rc_starts rec, fv_attempt_id = ar_attempt_id newest, fv_run_id = ar_run_id newest,
              fv_start_seq = ar_seq newest, fv_terminal_seq = ar_seq terminal, fv_ticket_id = ar_ticket_id terminal,
              fv_candidate = string_val candidate, fv_incumbent = string_val incumbent, fv_conjuncts = conjuncts,
              fv_failing = (if failing = JNull then None else Some (string_val failing)),
              fv_alphabet = panel_FAILING_CONJUNCTS, fv_outcome = string_val outcome,
              fv_interpretation = string_val interpretation, fv_power = pw,
              fv_fail_closed = (if failing = str ''precondition_underpowered'' then Some FAIL_CLOSED_STATEMENT else None),
              fv_reconciliation = rec, fv_milestones = PENDING_MILESTONES, fv_scope = SURFACE_SCOPE,
              fv_own_run = OWN_RUN_STATEMENT, fv_read_only = READ_ONLY_STATEMENT\<rparr>))))))))"

definition promotionPanelView :: "attempt_ledger_row list \<Rightarrow> panel_refusal + panel_view" where
  "promotionPanelView rows =
     (let rec = reconcileAttempts rows in
      if rows = [] then Inr (Not_Filed NO_ATTEMPT_FILED rec PENDING_MILESTONES SURFACE_SCOPE)
      else (case List.find (\<lambda>r. \<not> ar_verified r) rows of
        Some bad \<Rightarrow>
          Inr (Not_Verifiable (rc_starts rec)
            (u ''The '' @ kind_text (ar_kind bad) @ u '' row of attempt '' @ ar_attempt_id bad @ u '' at seq ''
             @ int_string (ar_seq bad) @ u '' does not hash to what it says it does. Nothing about this attempt is rendered: a panel that printed the payload anyway would paint a tampered row exactly as it paints a sound one.'')
            rec SURFACE_SCOPE)
      | None \<Rightarrow>
          (case stable_sort (\<lambda>a b. ar_seq a < ar_seq b) (filter (\<lambda>r. ar_kind r = Start_Row) rows) of
             [] \<Rightarrow>
               Inr (Not_Verifiable 0
                 (u ''A terminal is present and its start row is not. An attempt that terminated without ever having opened is not an attempt this panel can describe.'')
                 rec SURFACE_SCOPE)
           | newest # _ \<Rightarrow>
               (case List.find (\<lambda>r. ar_kind r = Terminal_Row \<and> ar_attempt_id r = ar_attempt_id newest) rows of
                  None \<Rightarrow>
                    Inr (Not_Verifiable (rc_starts rec)
                      (u ''Attempt '' @ ar_attempt_id newest @ u '' opened at seq '' @ int_string (ar_seq newest)
                       @ u '' and has no terminal. A start without a terminal is the signature the conservation invariant exists to catch; it is named here rather than rendered as a gate that never ran.'')
                      rec SURFACE_SCOPE)
                | Some terminal \<Rightarrow> map_sum id Filed_View (filed_view_of rec newest terminal)))))"

subsection \<open>The read behind the panel\<close>

definition attempt_row_of :: "(jstr \<Rightarrow> jstr) \<Rightarrow> chained_row \<Rightarrow> js_error + attempt_ledger_row" where
  "attempt_row_of sha row =
     (let out = (case row_output row of JNull \<Rightarrow> JObj [] | v \<Rightarrow> v)
      in bind_err (verifyRowHash sha row) (\<lambda>ok.
           Inr \<lparr>ar_kind = (if class_of row = Start then Start_Row else Terminal_Row),
                ar_attempt_id = string_val (obj_get out ''attempt_id''), ar_run_id = run_id row, ar_seq = seq row,
                ar_ticket_id = ticket_id row, ar_output = out, ar_verified = ok\<rparr>))"

definition panel_rows :: "jstr \<Rightarrow> ledger_table \<Rightarrow> ledger_table" where
  "panel_rows org table =
     stable_sort (\<lambda>a b. run_id b < run_id a \<or> run_id a = run_id b \<and> seq b < seq a)
       (filter (\<lambda>r. class_of r \<in> {Start, PromotionAttempt}) (visible org table))"

definition attemptRowsFor :: "(jstr \<Rightarrow> jstr) \<Rightarrow> jstr \<Rightarrow> ledger_table \<Rightarrow> js_error + attempt_ledger_row list" where
  "attemptRowsFor sha org table = map_err (attempt_row_of sha) (panel_rows org table)"

subsection \<open>The reconciliation counts what it says\<close>

definition opened :: "attempt_ledger_row list \<Rightarrow> jstr set" where
  "opened rows = {ar_attempt_id r | r. r \<in> set rows \<and> ar_kind r = Start_Row}"

definition ended :: "bool \<Rightarrow> attempt_ledger_row list \<Rightarrow> jstr set" where
  "ended ok rows = {ar_attempt_id r | r. r \<in> set rows \<and> ar_kind r = Terminal_Row
     \<and> member_of (obj_get (ar_output r) ''outcome'') panel_OUTCOMES = ok}"

lemma set_add [simp]: "set (set_add x xs) = insert x (set xs)" "distinct (set_add x xs) \<longleftrightarrow> distinct xs"
  by (auto simp: set_add_def)

lemma reconcile_fold:
  "foldl (\<lambda>sets row. reconcile_row row sets) (s, t, i) rows = (s', t', i') \<Longrightarrow>
     distinct s \<Longrightarrow> distinct t \<Longrightarrow> distinct i \<Longrightarrow>
     distinct s' \<and> distinct t' \<and> distinct i' \<and> set s' = set s \<union> opened rows
     \<and> set t' = set t \<union> ended True rows \<and> set i' = set i \<union> ended False rows"
proof (induction rows arbitrary: s t i)
  case Nil
  then show ?case by (simp add: opened_def ended_def)
next
  case (Cons r rows)
  obtain s1 t1 i1 where r: "reconcile_row r (s, t, i) = (s1, t1, i1)" by (cases "reconcile_row r (s, t, i)")
  then have one: "distinct s1 \<and> distinct t1 \<and> distinct i1 \<and> set s1 = set s \<union> opened [r]
      \<and> set t1 = set t \<union> ended True [r] \<and> set i1 = set i \<union> ended False [r]"
    using Cons.prems(2-4)
    by (cases "ar_kind r") (auto simp: reconcile_row_def opened_def ended_def split: if_splits)
  have split: "opened (r # rows) = opened [r] \<union> opened rows" "ended b (r # rows) = ended b [r] \<union> ended b rows" for b
    by (auto simp: opened_def ended_def)
  have "foldl (\<lambda>sets row. reconcile_row row sets) (s1, t1, i1) rows = (s', t', i')" using Cons.prems(1) r by simp
  from Cons.IH [OF this] one show ?case by (simp add: split Un_assoc)
qed

lemma sort_texts: "set (sort_texts xs) = set xs" "length (sort_texts xs) = length xs" "sort_texts xs = [] \<longleftrightarrow> xs = []"
  "distinct (sort_texts xs) \<longleftrightarrow> distinct xs"
proof -
  have "mset (sort_texts xs) = mset xs" by (simp add: sort_texts_def)
  then show "distinct (sort_texts xs) \<longleftrightarrow> distinct xs" by (metis mset_eq_imp_distinct_iff)
  show "set (sort_texts xs) = set xs" "length (sort_texts xs) = length xs" by (simp_all add: sort_texts_def)
  then show "sort_texts xs = [] \<longleftrightarrow> xs = []" by (metis length_0_conv)
qed


subsection \<open>What the writer files, the panel renders\<close>

lemma panel_alphabets:
  "panel_CONJUNCT_NAMES = CONJUNCT_NAMES" "panel_CONJUNCT_VERDICTS = CONJUNCT_VERDICTS"
  "panel_FAILING_CONJUNCTS = FAILING_CONJUNCTS" "panel_OUTCOMES = OUTCOMES" "panel_INTERPRETATIONS = INTERPRETATIONS"
  by (simp_all add: panel_CONJUNCT_NAMES_def CONJUNCT_NAMES_def panel_CONJUNCT_VERDICTS_def CONJUNCT_VERDICTS_def
      panel_FAILING_CONJUNCTS_def FAILING_CONJUNCTS_def panel_OUTCOMES_def OUTCOMES_def panel_INTERPRETATIONS_def
      INTERPRETATIONS_def)

lemma member_of_iff: "member_of v alphabet \<longleftrightarrow> (\<exists>n \<in> set alphabet. v = str n)"
  by (auto simp: member_of_def str_def split: jsval.split)

lemma refuse_if_Inr [simp]: "refuse_if bad e r = Inr x \<longleftrightarrow> \<not> bad \<and> r = Inr x"
  by (simp add: refuse_if_def)

lemma string_val_str [simp]: "string_val (str s) = u s" "string_val (JStr t) = t"
  by (simp_all add: string_val_def str_def)

lemma milestones_published: "n \<in> set CONJUNCT_NAMES \<Longrightarrow> \<exists>m. panel_milestone (CONJUNCT_MILESTONE n) = Inr m"
  by (auto simp: CONJUNCT_NAMES_def panel_milestone_def CONJUNCT_MILESTONE_def PENDING_MILESTONES_def)

definition shows_conjunct :: "jsval \<Rightarrow> string \<Rightarrow> conjunct_view \<Rightarrow> bool" where
  "shows_conjunct conjuncts n c \<longleftrightarrow> cv_name c = n \<and> JStr (cv_verdict c) = verdictOf conjuncts n
     \<and> cv_reason c = string_val (obj_get (obj_get conjuncts n) ''reason'')"

lemma accepted_conjunct:
  assumes "in_order (conjunct_checks evidence conjuncts n) = Inr ()" "n \<in> set CONJUNCT_NAMES"
  shows "\<exists>c. conjunct_view_of conjuncts n = Inr c \<and> shows_conjunct conjuncts n c"
proof -
  let ?e = "obj_get conjuncts n"
  note c = assms(1) [unfolded conjunct_checks_def Let_def in_order_append in_order_Cons]
  obtain v where v: "v \<in> set CONJUNCT_VERDICTS" "obj_get ?e ''verdict'' = str v" using c by (auto simp: requireMember_ok)
  have r: "v \<noteq> ''PASS'' \<Longrightarrow> \<exists>t. obj_get ?e ''reason'' = JStr t \<and> js_trim t \<noteq> []"
    using c v(2) by (auto split: jsval.splits)
  obtain m where m: "panel_milestone (CONJUNCT_MILESTONE n) = Inr m" using milestones_published [OF assms(2)] by blast
  have "is_plain_object ?e" using c by (simp add: requireObject_def)
  moreover have "member_of (str v) panel_CONJUNCT_VERDICTS" using v(1) by (auto simp: panel_alphabets member_of_iff)
  ultimately have "conjunct_view_of conjuncts n = Inr \<lparr>cv_name = n, cv_verdict = u v,
      cv_reason = string_val (obj_get ?e ''reason''), cv_milestone = (if v = ''UNEVALUABLE'' then Some m else None)\<rparr>"
    using r by (cases "v = ''PASS''") (auto simp: conjunct_view_of_def Let_def v(2) m)
  then show ?thesis using v(2) by (simp add: shows_conjunct_def verdictOf_def str_def)
qed

lemma map_err_each:
  "(\<And>x. x \<in> set xs \<Longrightarrow> \<exists>y. f x = Inr y \<and> P x y) \<Longrightarrow> \<exists>ys. map_err f xs = Inr ys \<and> list_all2 P xs ys"
proof (induction xs)
  case (Cons x xs)
  then obtain ys y where "map_err f xs = Inr ys" "list_all2 P xs ys" "f x = Inr y" "P x y" by fastforce
  then show ?case by simp
qed simp

lemma accepted_conjuncts:
  assumes "shaped_attempt payload scored_run evidence"
  shows "\<exists>cs. conjunctsOf payload = Inr cs
     \<and> list_all2 (shows_conjunct (obj_get payload ''conjuncts'')) CONJUNCT_NAMES cs"
proof -
  let ?c = "obj_get payload ''conjuncts''"
  have k: "object_keys ?c = map u CONJUNCT_NAMES" using assms by (simp add: shaped_attempt_def)
  then have "is_plain_object ?c" by (cases ?c) (simp_all add: object_keys_def is_plain_object_def CONJUNCT_NAMES_def)
  moreover have "\<exists>cs. map_err (conjunct_view_of ?c) CONJUNCT_NAMES = Inr cs \<and> list_all2 (shows_conjunct ?c) CONJUNCT_NAMES cs"
    by (rule map_err_each) (use assms accepted_conjunct in \<open>auto simp: shaped_attempt_def\<close>)
  ultimately show ?thesis using k by (simp add: conjunctsOf_def Let_def panel_alphabets list_all_iff)
qed

lemma accepted_power:
  assumes "shaped_attempt payload scored_run evidence"
  shows "\<exists>pw. powerOf payload = Inr pw \<and> ((\<exists>a b c. pw = Not_Derived a b c) \<longleftrightarrow> scored_run = None)"
proof -
  let ?p = "obj_get payload ''power''"
  have c: "in_order (power_checks scored_run ?p) = Inr ()" using assms by (simp add: shaped_attempt_def)
  then have obj: "is_plain_object ?p" and un: "\<exists>n \<in> set CI_UNITS. obj_get ?p ''ci_unit'' = str n"
    by (simp_all add: power_checks_def requireObject_def requireMember_ok)
  from un have unit: "\<exists>t. obj_get ?p ''ci_unit'' = JStr t \<and> js_trim t \<noteq> []"
    by (auto simp: CI_UNITS_def str_def u_def js_trim_def is_space_def)
  have q: "case scored_run of None \<Rightarrow> obj_get ?p k = JNull | Some _ \<Rightarrow> is_num (obj_get ?p k)"
    if "k \<in> set POWER_QUANTITIES" for k
    using c that by (auto simp: power_checks_def in_order_each is_num_def split: option.splits jsval.splits)
  show ?thesis
  proof (cases scored_run)
    case None
    then have "\<forall>k \<in> set POWER_QUANTITIES. \<not> is_num (obj_get ?p k)" using q by (simp add: is_num_def)
    then show ?thesis using obj unit None by (auto simp: powerOf_def Let_def POWER_QUANTITIES_def)
  next
    case (Some r)
    then have "\<forall>k \<in> set POWER_QUANTITIES. is_num (obj_get ?p k)" using q by simp
    then show ?thesis using obj unit Some by (auto simp: powerOf_def Let_def POWER_QUANTITIES_def)
  qed
qed

lemma find_conjunct:
  assumes "list_all2 (shows_conjunct conjuncts) CONJUNCT_NAMES cs"
  shows "\<exists>c. List.find (\<lambda>c. cv_name c = ''delta_positive'') cs = Some c \<and> shows_conjunct conjuncts ''delta_positive'' c"
  using assms by (auto simp: CONJUNCT_NAMES_def list_all2_Cons1 shows_conjunct_def)

lemma declared_reason:
  "js_includes (string_val (obj_get (obj_get conjuncts ''delta_positive'') ''reason''))
     (u ''no candidate generation has been proposed'') \<longleftrightarrow> declaresNoCandidate conjuncts"
  by (simp add: declaresNoCandidate_def string_val_def NO_CANDIDATE_PROPOSED_marker_def split: jsval.split)

definition shows_attempt :: "promotion_pair \<Rightarrow> filed_view \<Rightarrow> bool" where
  "shows_attempt pair v \<longleftrightarrow>
     JStr (fv_outcome v) = obj_get (pp_terminal pair) ''outcome''
     \<and> JStr (fv_interpretation v) = obj_get (pp_terminal pair) ''interpretation''
     \<and> (case fv_failing v of None \<Rightarrow> JNull | Some f \<Rightarrow> JStr f) = obj_get (pp_terminal pair) ''failing_conjunct''
     \<and> JStr (fv_candidate v) = obj_get (pp_terminal pair) ''candidate_prompt_version_id''
     \<and> JStr (fv_incumbent v) = obj_get (pp_terminal pair) ''incumbent_prompt_version_id''
     \<and> list_all2 (shows_conjunct (obj_get (pp_terminal pair) ''conjuncts'')) CONJUNCT_NAMES (fv_conjuncts v)
     \<and> ((\<exists>a b c. fv_power v = Not_Derived a b c) \<longleftrightarrow> pp_scored_run pair = None)"

lemma accepted_view:
  assumes "pair_checks pair = Inr x" "ar_output terminal = pp_terminal pair"
  shows "\<exists>v. filed_view_of rec newest terminal = Inr v \<and> shows_attempt pair v \<and> fv_reconciliation v = rec
    \<and> fv_attempts v = rc_starts rec \<and> fv_attempt_id v = ar_attempt_id newest"
proof -
  let ?p = "pp_terminal pair" and ?c = "obj_get (pp_terminal pair) ''conjuncts''"
  have sh: "shaped_attempt ?p (pp_scored_run pair) (pp_evidence pair)" by (rule accepted_pair [OF assms(1)])
  obtain cs where cs: "conjunctsOf ?p = Inr cs" "list_all2 (shows_conjunct ?c) CONJUNCT_NAMES cs"
    using accepted_conjuncts [OF sh] by blast
  obtain pw where pw: "powerOf ?p = Inr pw" "(\<exists>a b c. pw = Not_Derived a b c) \<longleftrightarrow> pp_scored_run pair = None"
    using accepted_power [OF sh] by (elim exE conjE) (rule that)
  obtain c2 where c2: "List.find (\<lambda>c. cv_name c = ''delta_positive'') cs = Some c2"
    "cv_reason c2 = string_val (obj_get (obj_get ?c ''delta_positive'') ''reason'')"
    using find_conjunct [OF cs(2)] by (auto simp: shows_conjunct_def)
  obtain ca inc where sides: "obj_get ?p ''candidate_prompt_version_id'' = JStr ca"
    "obj_get ?p ''incumbent_prompt_version_id'' = JStr inc" using sh by (auto simp: shaped_attempt_def)
  obtain out where out: "out \<in> set OUTCOMES" "obj_get ?p ''outcome'' = str out" using sh by (auto simp: shaped_attempt_def)
  obtain int where int: "int \<in> set INTERPRETATIONS" "obj_get ?p ''interpretation'' = str int"
    using sh by (auto simp: shaped_attempt_def)
  have fail: "obj_get ?p ''failing_conjunct'' = JNull
      \<or> (\<exists>n \<in> set FAILING_CONJUNCTS. obj_get ?p ''failing_conjunct'' = str n)" using sh by (simp add: shaped_attempt_def)
  have "in_order (coherence_checks ?p) = Inr ()" using sh by (simp add: shaped_attempt_def)
  then have agree: "declaresNoCandidate ?c \<Longrightarrow> ca = inc"
    using sides by (auto simp: coherence_checks_def Let_def split: if_splits)
  have members: "member_of (str out) panel_OUTCOMES" "member_of (str int) panel_INTERPRETATIONS"
    "\<And>n. n \<in> set FAILING_CONJUNCTS \<Longrightarrow> member_of (str n) panel_FAILING_CONJUNCTS"
    using out(1) int(1) by (auto simp: panel_alphabets member_of_iff)
  show ?thesis
    using fail agree members cs(2) pw(2)
    by (auto simp: filed_view_of_def Let_def assms(2) cs(1) pw(1) out(2) int(2) sides c2 declared_reason is_text_def
        shows_attempt_def simp del: string_val_str(1)) (auto simp: str_def)
qed

lemma verified_attempt_row:
  "verifyRowHash sha r = Inr ok \<Longrightarrow> is_plain_object (row_output r) \<Longrightarrow>
     attempt_row_of sha r = Inr \<lparr>ar_kind = (if class_of r = Start then Start_Row else Terminal_Row),
       ar_attempt_id = string_val (obj_get (row_output r) ''attempt_id''), ar_run_id = run_id r, ar_seq = seq r,
       ar_ticket_id = ticket_id r, ar_output = row_output r, ar_verified = ok\<rparr>"
  by (cases "row_output r") (simp_all add: attempt_row_of_def is_plain_object_def)

text \<open>
  C29: what the writer files, the panel renders.  When the only attempt rows a session sees are a verified start
  and its verified terminal, holding the payloads of a pair the writer accepts, the read and the view model
  answer with the filed view and not with a refusal: one attempt, reconciled, with the outcome, interpretation,
  failing conjunct, versions and the four verdicts and reasons of the payload, and with figures in the place of
  power exactly when a scored run was named.
\<close>

theorem filed_attempt_is_rendered:
  assumes "pair_checks pair = Inr ()"
    and "filter (\<lambda>r. class_of r \<in> {Start, PromotionAttempt}) (visible org table) = [s, t]"
    and "class_of s = Start" "class_of t = PromotionAttempt" "run_id s = run_id t" "seq s < seq t"
    and "row_output s = pp_start pair" "row_output t = pp_terminal pair"
    and "verifyRowHash sha s = Inr True" "verifyRowHash sha t = Inr True"
  shows "\<exists>rows v. attemptRowsFor sha org table = Inr rows \<and> promotionPanelView rows = Inr (Filed_View v)
     \<and> shows_attempt pair v \<and> fv_attempts v = 1 \<and> rc_verdict (fv_reconciliation v) = Reconciled"
proof -
  obtain a where a: "obj_get (pp_start pair) ''attempt_id'' = JStr a" "obj_get (pp_terminal pair) ''attempt_id'' = JStr a"
    and so: "is_plain_object (pp_start pair)"
    and sh: "shaped_attempt (pp_terminal pair) (pp_scored_run pair) (pp_evidence pair)"
    by (rule accepted_pair [OF assms(1)])
  have po: "is_plain_object (pp_terminal pair)" using a(2) by (cases "pp_terminal pair") (simp_all add: is_plain_object_def)
  have sorted: "panel_rows org table = [s, t]" unfolding panel_rows_def assms(2) using assms(5,6) by (simp add: stable_sort_def)
  let ?s = "\<lparr>ar_kind = Start_Row, ar_attempt_id = a, ar_run_id = run_id s, ar_seq = seq s, ar_ticket_id = ticket_id s,
      ar_output = pp_start pair, ar_verified = True\<rparr>"
  let ?t = "\<lparr>ar_kind = Terminal_Row, ar_attempt_id = a, ar_run_id = run_id t, ar_seq = seq t, ar_ticket_id = ticket_id t,
      ar_output = pp_terminal pair, ar_verified = True\<rparr>"
  have rows: "attemptRowsFor sha org table = Inr [?s, ?t]"
    using verified_attempt_row [OF assms(9)] verified_attempt_row [OF assms(10)] so po a assms(3,4,7,8)
    by (simp add: attemptRowsFor_def sorted)
  have out: "member_of (obj_get (pp_terminal pair) ''outcome'') panel_OUTCOMES"
    using sh by (simp add: panel_alphabets member_of_iff shaped_attempt_def)
  have rec: "reconcileAttempts [?s, ?t] = \<lparr>rc_verdict = Reconciled, rc_starts = 1, rc_terminals = 1,
      rc_dangling = [], rc_orphan = [], rc_invalid = []\<rparr>"
    using out by (simp add: reconcileAttempts_def reconcile_row_def set_add_def sort_texts_def stable_sort_def)
  obtain v where "filed_view_of (reconcileAttempts [?s, ?t]) ?s ?t = Inr v" "shows_attempt pair v"
    "fv_reconciliation v = reconcileAttempts [?s, ?t]" "fv_attempts v = rc_starts (reconcileAttempts [?s, ?t])"
    using accepted_view [OF assms(1), of ?t "reconcileAttempts [?s, ?t]" ?s] by auto
  then show ?thesis
    using rows by (auto simp: promotionPanelView_def stable_sort_def rec)
qed

lemma sample_pair_filed:
  defines "pair \<equiv> capsulePair moving_sha sample_capsule"
  obtains s t where "class_of s = Start" "class_of t = PromotionAttempt" "run_id s = run_id t" "seq s < seq t"
    "org_id s = u ''o''" "org_id t = u ''o''" "row_output s = pp_start pair" "row_output t = pp_terminal pair"
    "verifyRowHash moving_sha s = Inr True" "verifyRowHash moving_sha t = Inr True"
proof -
  have sha: "\<forall>t. isHex64 (moving_sha t)" "\<forall>h t. isHex64 h \<longrightarrow> moving_sha (h @ t) \<noteq> h" using moving_sha by blast+
  note ok = capsule_accepted [OF sha(1) sample_capsule_ready]
  have empty: "ledger_ok moving_sha []" "run_rows r [] = []" "unfiled x []" for r x
    by (simp_all add: ledger_ok_def run_ok_def run_rows_def unfiled_def)
  obtain d where d: "stateHash moving_sha (pp_state pair) = Inr d" "isHex64 d"
    using stateHash_total [of "pp_state pair" moving_sha] ok(2) sha(1)
    by (auto simp: pair_def storable_pair_def stateHash_def digestOf_def split: sum.splits)
  obtain s a where s: "ledger_row.truncate s = system_content (start_row_of pair) d None" "prev_hash s = GENESIS"
    "isHex64 (row_hash s)" "row_hash s \<noteq> prev_hash s" "ledger_ok moving_sha ([] @ [s])"
    using start_is_filed [OF sha empty(1) ok empty(2,3)] d(1) unfolding pair_def by metis
  obtain t where t: "ledger_row.truncate t = terminalRowContent pair d (Some (head_of_row s))"
    "ledger_ok moving_sha ([] @ [s, t])"
    using terminal_is_filed [OF sha ok empty(2,3) d(2)] s unfolding pair_def by metis
  have fs: "class_of s = Start" "run_id s = pp_run_id pair" "org_id s = u ''o''" "seq s = 1" "row_output s = pp_start pair"
    using s(1) by (simp_all add: ledger_row.truncate_def system_content_def start_row_of_def pair_def capsulePair_def
        sample_capsule_def Let_def)
  have ft: "class_of t = PromotionAttempt" "run_id t = pp_run_id pair" "org_id t = u ''o''" "seq t = 2"
    "row_output t = pp_terminal pair"
    using t(1) fs(4) by (simp_all add: ledger_row.truncate_def terminalRowContent_def head_of_row_def pair_def
        capsulePair_def sample_capsule_def Let_def)
  have "run_ok moving_sha (run_rows (pp_run_id pair) [s, t])" using t(2) by (simp add: ledger_ok_def)
  then have "verifyRowHash moving_sha s = Inr True" "verifyRowHash moving_sha t = Inr True"
    using fs(2) ft(2) by (simp_all add: run_rows_def run_ok_def)
  with fs ft that show ?thesis by simp
qed

theorem filed_attempt_is_rendered_witness:
  "\<exists>s t rows v. attemptRowsFor moving_sha (u ''o'') [s, t] = Inr rows \<and> promotionPanelView rows = Inr (Filed_View v)
     \<and> fv_failing v = Some (u ''precondition_underpowered'')"
proof -
  let ?pair = "capsulePair moving_sha sample_capsule"
  have "\<forall>t. isHex64 (moving_sha t)" using moving_sha by blast
  note ok = capsule_accepted(1) [OF this sample_capsule_ready]
  obtain s t where r: "class_of s = Start" "class_of t = PromotionAttempt" "run_id s = run_id t" "seq s < seq t"
    "org_id s = u ''o''" "org_id t = u ''o''" "row_output s = pp_start ?pair" "row_output t = pp_terminal ?pair"
    "verifyRowHash moving_sha s = Inr True" "verifyRowHash moving_sha t = Inr True"
    using sample_pair_filed by blast
  have rows: "filter (\<lambda>r. class_of r \<in> {Start, PromotionAttempt}) (visible (u ''o'') [s, t]) = [s, t]"
    using r by (simp add: visible_def)
  have "obj_get (pp_terminal ?pair) ''failing_conjunct'' = JStr (u ''precondition_underpowered'')"
    by (simp add: capsulePair_def Let_def str_def CAPSULE_FAILING_CONJUNCT_def)
  with filed_attempt_is_rendered [OF ok rows r(1-4,7-10)] show ?thesis
    by (fastforce simp: shows_attempt_def split: option.splits)
qed

end
