(* ===== verification/Retrieval.thy ===== *)
theory Retrieval
  imports Redaction Gap_Channel Json_Text
begin

section \<open>Retrieval from the knowledge base\<close>

text \<open>
  \<open>src/src/alg/retrieval.ts\<close> and \<open>src/src/server/kb/retrieval.ts\<close>: the published constants, the
  identifier of a source, the search and its typed outcome.  What the text search of the database makes of a
  document is a parameter: \<open>ts terms a\<close> is the text of the rank of article \<open>a\<close>, or \<open>None\<close> where the
  article does not match; the model orders, filters and cuts as the statement does.
\<close>

subsection \<open>The published constants\<close>

definition TEXT_SEARCH_CONFIG :: jstr where
  "TEXT_SEARCH_CONFIG = u ''english''"

definition TOP_K :: nat where
  "TOP_K = 4"

definition RANK_FUNCTION :: jstr where
  "RANK_FUNCTION = u ''ts_rank_cd''"

definition MIN_RANK :: jnum where
  "MIN_RANK = lit (1 / 100)"

definition NULL_RULE :: jstr where
  "NULL_RULE =
     u ''A null is zero lexical matches at or above the published minimum rank, against the snapshot named in this record, using the named text search configuration. It is a statement about this corpus at this version and never a statement that the fact is untrue.''"

definition NO_MATCH_STATEMENT :: jstr where
  "NO_MATCH_STATEMENT =
     u ''No lexical match was found in the knowledge base at this snapshot. That is a result about this corpus at this version, not a statement that no answer exists '' @ [8212] @ u '' and it does not determine whether the information is absent or simply was not retrieved.''"

definition PROVENANCE_STATEMENT :: jstr where
  "PROVENANCE_STATEMENT =
     u ''Each citation names the article and the corpus snapshot this reply was drawn from. That is evidence of provenance, not of correctness: the system checks that the reply is anchored to its cited sources '' @ [8212] @ u '' four arithmetic conditions and a model veto '' @ [8212] @ u '' never that the sources themselves are right.''"

definition CITABLE_ONLY :: bool where
  "CITABLE_ONLY = True"

definition retrievalDescription :: jsval where
  "retrievalDescription = JObj
     [(u ''textSearchConfig'', JStr TEXT_SEARCH_CONFIG), (u ''topK'', JNum (Fin (of_nat TOP_K))),
      (u ''rank'', JStr RANK_FUNCTION), (u ''minRank'', JNum MIN_RANK), (u ''nullRule'', JStr NULL_RULE),
      (u ''citableOnly'', JBool CITABLE_ONLY)]"

definition kbIdOf :: "jstr \<Rightarrow> jstr \<Rightarrow> jstr" where
  "kbIdOf canonicalKey articleId = canonicalKey @ [58] @ filter (\<lambda>c. c \<noteq> 45) articleId"

subsection \<open>The search\<close>

record kb_article =
  ka_id :: jstr
  ka_org :: jstr
  ka_snapshot :: jstr
  ka_canonical_key :: jstr
  ka_title :: jstr
  ka_body :: jstr
  ka_body_sha256 :: jstr
  ka_citable :: bool

record retrieved_source =
  rs_kb_id :: jstr
  rs_article_id :: jstr
  rs_canonical_key :: jstr
  rs_title :: jstr
  rs_excerpt :: jstr
  rs_rank :: jstr

datatype retrieval_outcome =
    Zero_Match (ro_terms: jstr) (ro_snapshot: jstr)
  | Below_Threshold (ro_terms: jstr) (ro_snapshot: jstr) (ro_best: jstr)
  | Hits (ro_terms: jstr) (ro_snapshot: jstr) (ro_sources: "retrieved_source list")

fun resultCount :: "retrieval_outcome \<Rightarrow> nat" where
  "resultCount (Hits t s sources) = length sources"
| "resultCount _ = 0"

text \<open>\<open>Number(text)\<close> of the text of a rank.\<close>

definition number_of_text :: "jstr \<Rightarrow> jnum" where
  "number_of_text s = (case parse_number s of Some (n, []) \<Rightarrow> n | _ \<Rightarrow> NaN)"

type_synonym text_search = "jstr \<Rightarrow> kb_article \<Rightarrow> jstr option"

definition rank_of :: "text_search \<Rightarrow> jstr \<Rightarrow> kb_article \<Rightarrow> jnum" where
  "rank_of ts terms a = (case ts terms a of Some r \<Rightarrow> number_of_text r | None \<Rightarrow> NaN)"

text \<open>\<open>order by rank desc, canonical_key collate "C" asc, id asc\<close>: \<open>a\<close> comes after \<open>b\<close>.\<close>

definition ranked_after :: "text_search \<Rightarrow> jstr \<Rightarrow> kb_article \<Rightarrow> kb_article \<Rightarrow> bool" where
  "ranked_after ts terms a b =
     (rank_of ts terms a < rank_of ts terms b
      \<or> rank_of ts terms a = rank_of ts terms b
          \<and> (ka_canonical_key b < ka_canonical_key a
             \<or> ka_canonical_key b = ka_canonical_key a \<and> ka_id b < ka_id a))"

text \<open>Visible to the organisation, in the snapshot, citable, and matched.\<close>

definition matched :: "text_search \<Rightarrow> jstr \<Rightarrow> jstr \<Rightarrow> jstr \<Rightarrow> kb_article \<Rightarrow> bool" where
  "matched ts org terms snapshot a =
     (ka_org a = org \<and> ka_snapshot a = snapshot \<and> ka_citable a \<and> ts terms a \<noteq> None)"

definition searchSql :: "text_search \<Rightarrow> jstr \<Rightarrow> jstr \<Rightarrow> jstr \<Rightarrow> kb_article list \<Rightarrow> kb_article list" where
  "searchSql ts org terms snapshot articles =
     take TOP_K (stable_sort (ranked_after ts terms) (filter (matched ts org terms snapshot) articles))"

definition queryTermsFor :: "jstr \<Rightarrow> jstr \<Rightarrow> jstr" where
  "queryTermsFor subject body = subject @ [10] @ body"

definition source_of :: "text_search \<Rightarrow> jstr \<Rightarrow> nat \<Rightarrow> kb_article \<Rightarrow> retrieved_source" where
  "source_of ts terms excerptMax a =
     \<lparr>rs_kb_id = kbIdOf (ka_canonical_key a) (ka_id a), rs_article_id = ka_id a,
      rs_canonical_key = ka_canonical_key a, rs_title = ka_title a, rs_excerpt = take excerptMax (ka_body a),
      rs_rank = (case ts terms a of Some r \<Rightarrow> r | None \<Rightarrow> [])\<rparr>"

definition retrieveTerms ::
    "text_search \<Rightarrow> jstr \<Rightarrow> jstr \<Rightarrow> jstr \<Rightarrow> nat \<Rightarrow> kb_article list \<Rightarrow> retrieval_outcome" where
  "retrieveTerms ts org terms snapshot excerptMax articles =
     (case searchSql ts org terms snapshot articles of
        [] \<Rightarrow> Zero_Match terms snapshot
      | best # rest \<Rightarrow>
          (let cleared = filter (\<lambda>a. MIN_RANK \<le> rank_of ts terms a) (best # rest)
           in if cleared = [] then Below_Threshold terms snapshot (rs_rank (source_of ts terms excerptMax best))
              else Hits terms snapshot (map (source_of ts terms excerptMax) cleared)))"

definition retrieve ::
    "text_search \<Rightarrow> jstr \<Rightarrow> jstr \<Rightarrow> jstr \<Rightarrow> jstr \<Rightarrow> nat \<Rightarrow> kb_article list \<Rightarrow> retrieval_outcome" where
  "retrieve ts org subject body snapshot excerptMax articles =
     retrieveTerms ts org (queryTermsFor subject body) snapshot excerptMax articles"

subsection \<open>Identifiers name one article\<close>

lemma low_hex_no_dash: "\<forall>c \<in> set s. low_hex c \<Longrightarrow> filter (\<lambda>c. c \<noteq> 45) s = s"
  by (rule filter_True) (auto simp: low_hex_def)

lemma shape_split: "shape (ps @ d # qs) s \<Longrightarrow> \<exists>a c r. s = a @ c # r \<and> shape ps a \<and> d c \<and> shape qs r"
  by (auto simp: shape_def list_all2_append1 list_all2_Cons1)

lemma shape_low_hex: "shape (replicate n low_hex) s \<Longrightarrow> length s = n \<and> (\<forall>c \<in> set s. low_hex c)"
  by (auto simp: shape_def list_all2_conv_all_nth set_conv_nth)

lemma uuid_parts_of:
  assumes "shape uuid_shape s"
  shows "\<exists>a b c d e. s = a @ 45 # b @ 45 # c @ 45 # d @ 45 # e \<and> length a = 8 \<and> length b = 4 \<and> length c = 4
    \<and> length d = 4 \<and> filter (\<lambda>c. c \<noteq> 45) s = a @ b @ c @ d @ e"
proof -
  obtain a b c d e where s: "s = a @ 45 # b @ 45 # c @ 45 # d @ 45 # e" and p: "shape (replicate 8 low_hex) a"
    "shape (replicate 4 low_hex) b" "shape (replicate 4 low_hex) c" "shape (replicate 4 low_hex) d"
    "shape (replicate 12 low_hex) e"
    using assms unfolding uuid_shape_def by (fastforce simp: dash_def dest!: shape_split)
  note q = p [THEN shape_low_hex]
  then show ?thesis using s by (intro exI [of _ a] exI [of _ b] exI [of _ c] exI [of _ d] exI [of _ e])
      (simp add: low_hex_no_dash)
qed

lemma undashed_inject:
  assumes "shape uuid_shape s" "shape uuid_shape t" "filter (\<lambda>c. c \<noteq> 45) s = filter (\<lambda>c. c \<noteq> 45) t"
  shows "s = t"
  using uuid_parts_of [OF assms(1)] uuid_parts_of [OF assms(2)] assms(3) by auto

lemma kbIdOf_inject:
  assumes "58 \<notin> set k" "58 \<notin> set k'" "shape uuid_shape s" "shape uuid_shape t" "kbIdOf k s = kbIdOf k' t"
  shows "k = k' \<and> s = t"
proof -
  have "takeWhile (\<lambda>c. c \<noteq> 58) (k @ 58 # r) = k" if "58 \<notin> set k" for k r :: "nat list"
    using that by (induction k) auto
  then have "k = k'" using assms(1,2,5) by (metis kbIdOf_def append_Cons append_Nil)
  then show ?thesis using assms(3-5) undashed_inject by (simp add: kbIdOf_def)
qed

subsection \<open>The order of the search\<close>

definition key_le :: "kb_article \<Rightarrow> kb_article \<Rightarrow> bool" where
  "key_le a b = (ka_canonical_key a < ka_canonical_key b
     \<or> ka_canonical_key a = ka_canonical_key b \<and> ka_id a \<le> ka_id b)"

lemma key_le_trans: "key_le a b \<Longrightarrow> key_le b c \<Longrightarrow> key_le a c"
  by (auto simp: key_le_def)

lemma not_after:
  assumes "rank_of ts terms a \<noteq> NaN" "rank_of ts terms b \<noteq> NaN"
  shows "\<not> ranked_after ts terms a b \<longleftrightarrow>
    rank_of ts terms b < rank_of ts terms a \<or> rank_of ts terms a = rank_of ts terms b \<and> key_le a b"
proof -
  have "\<not> (ka_canonical_key b < ka_canonical_key a \<or> ka_canonical_key b = ka_canonical_key a \<and> ka_id b < ka_id a)
      \<longleftrightarrow> key_le a b"
    by (auto simp: key_le_def not_less)
  moreover have "\<not> rank_of ts terms a < rank_of ts terms b \<or> \<not> rank_of ts terms b < rank_of ts terms a"
    using jnum_less_trans jnum_less_irrefl by blast
  ultimately show ?thesis
    using jnum_less_linear [OF assms] unfolding ranked_after_def by auto
qed

interpretation retrieval_order: comparator "ranked_after ts terms" "\<lambda>a. rank_of ts terms a \<noteq> NaN" for ts terms
proof unfold_locales
  fix x y z
  assume ok: "rank_of ts terms x \<noteq> NaN" "rank_of ts terms y \<noteq> NaN"
  {
    assume "ranked_after ts terms x y"
    then have "rank_of ts terms x < rank_of ts terms y \<or> rank_of ts terms y = rank_of ts terms x \<and> key_le y x"
      by (auto simp: ranked_after_def key_le_def)
    then show "\<not> ranked_after ts terms y x" unfolding not_after [OF ok(2,1)] .
  next
    assume z: "rank_of ts terms z \<noteq> NaN" and "\<not> ranked_after ts terms x y" "\<not> ranked_after ts terms y z"
    then show "\<not> ranked_after ts terms x z"
      unfolding not_after [OF ok] not_after [OF ok(2) z] not_after [OF ok(1) z]
      by (auto dest: jnum_less_trans key_le_trans)
  }
qed

lemma sorted_take_drop:
  "sorted_wrt P xs \<Longrightarrow> x \<in> set (take n xs) \<Longrightarrow> y \<in> set (drop n xs) \<Longrightarrow> P x y"
  by (metis append_take_drop_id sorted_wrt_append)

lemma rank_not_after:
  assumes "rank_of ts terms a \<noteq> NaN" "rank_of ts terms b \<noteq> NaN" "\<not> ranked_after ts terms a b"
  shows "rank_of ts terms b \<le> rank_of ts terms a"
  using assms(3) jnum_not_less [OF assms(1,2)] jnum_less_irrefl jnum_less_trans
  unfolding not_after [OF assms(1,2)] by (metis jnum_le_refl assms(1))

subsection \<open>What a retrieval answers\<close>

lemma searchSql_rows:
  fixes org terms snapshot
  assumes "\<forall>a \<in> set articles. \<forall>r. ts terms a = Some r \<longrightarrow> number_of_text r \<noteq> NaN"
  defines "M \<equiv> filter (matched ts org terms snapshot) articles"
    and "rows \<equiv> searchSql ts org terms snapshot articles"
  shows "set rows \<subseteq> set M" "length rows \<le> TOP_K" "M \<noteq> [] \<Longrightarrow> rows \<noteq> []" "distinct articles \<Longrightarrow> distinct rows"
    "sorted_wrt (\<lambda>a b. \<not> ranked_after ts terms a b) rows" "\<And>a. a \<in> set M \<Longrightarrow> rank_of ts terms a \<noteq> NaN"
    "\<And>a b. a \<in> set M \<Longrightarrow> a \<notin> set rows \<Longrightarrow> b \<in> set rows \<Longrightarrow> length rows = TOP_K \<and> \<not> ranked_after ts terms b a"
proof -
  let ?S = "stable_sort (ranked_after ts terms) M"
  have rows: "rows = take TOP_K ?S" by (simp add: rows_def M_def searchSql_def)
  show num: "\<And>a. a \<in> set M \<Longrightarrow> rank_of ts terms a \<noteq> NaN"
    using assms(1) by (auto simp: M_def matched_def rank_of_def)
  then have sorted: "sorted_wrt (\<lambda>a b. \<not> ranked_after ts terms a b) ?S"
    using retrieval_order.sorted_stable_sort by blast
  then show "sorted_wrt (\<lambda>a b. \<not> ranked_after ts terms a b) rows" unfolding rows by (rule sorted_wrt_take)
  show "set rows \<subseteq> set M" unfolding rows by (metis set_stable_sort set_take_subset)
  show "length rows \<le> TOP_K" by (simp add: rows)
  show "M \<noteq> [] \<Longrightarrow> rows \<noteq> []"
    unfolding rows using length_stable_sort [of "ranked_after ts terms" M] by (auto simp: TOP_K_def simp del: length_stable_sort)
  have "mset ?S = mset M" by simp
  then show "distinct articles \<Longrightarrow> distinct rows"
    unfolding rows by (metis M_def distinct_filter distinct_take mset_eq_imp_distinct_iff)
  fix a b assume "a \<in> set M" "a \<notin> set rows" "b \<in> set rows"
  moreover from this have "a \<in> set (drop TOP_K ?S)"
    unfolding rows by (metis append_take_drop_id Un_iff set_append set_stable_sort)
  moreover from this have "drop TOP_K ?S \<noteq> []" by auto
  then have "TOP_K < length ?S" by (simp add: not_le)
  ultimately show "length rows = TOP_K \<and> \<not> ranked_after ts terms b a"
    using sorted_take_drop [OF sorted] by (auto simp: rows)
qed


definition sample_article :: kb_article where
  "sample_article =
     \<lparr>ka_id = u ''12345678-1234-4123-8123-123456789012'', ka_org = u ''o'', ka_snapshot = u ''s'',
      ka_canonical_key = u ''ops/refunds'', ka_title = u ''Refunds'', ka_body = u ''Five days'', ka_body_sha256 = [],
      ka_citable = True\<rparr>"

definition sample_ts :: text_search where
  "sample_ts terms a = (if terms = u ''refund'' then Some (u ''1'') else None)"


subsection \<open>An identifier is within reach of the redaction dictionary\<close>

text \<open>
  The key of an article may be any of 64 characters of the alphabet of \<open>kb_article_canonical_key_shape\<close>, the
  label of an account number among them; the colon and the digits of the identity then read as the number.
\<close>

lemma kb_id_reads_as_an_account:
  "hits (pieces account_label_re [] (kbIdOf (u ''bank'') (u ''12345678-1234-4123-8123-123456789012''))) \<noteq> []"
  by code_simp

end
