(* ===== verification/Kb_Store.thy ===== *)
theory Kb_Store
  imports Retrieval Tickets Ledger_System
begin

section \<open>The knowledge base and the gap records in the database\<close>

text \<open>
  The tables and functions of \<open>src/migrations/0003\<close>, \<open>0009\<close>, \<open>0010\<close> and \<open>0011\<close>: the corpus, its head,
  the gap records, the admissions, the responses and their citations.  The application role may insert
  responses and citations and run the three functions \<open>kb_gap_open\<close>, \<open>kb_snapshot_advance\<close> and
  \<open>kb_gap_close_by_verification\<close>, and nothing else changes these tables; \<open>kb_gap_mark_not_documentable\<close> is
  left to the owner.  The identity of a ledger row is its position in the table.

  What the functions take from outside is \<open>kb_env\<close>: the claims of the session, the clock, the random
  identities, the users, the organisation of a ticket, and the conversions of PostgreSQL (the class
  \<open>[[:space:]]\<close>, the casts to \<open>uuid\<close>, \<open>date\<close> and \<open>jsonb\<close>, the text of a \<open>jsonb\<close> value) with its digest.
\<close>

subsection \<open>Tables\<close>

datatype kb_gap_state = Gap_Open | Gap_Not_Documentable | Gap_Closed

record kb_gap =
  kg_id :: jstr
  kg_org :: jstr
  kg_ticket :: jstr
  kg_query_terms :: jstr
  kg_snapshot :: jstr
  kg_zero_match :: bool
  kg_query_sha256 :: jstr
  kg_question_sha256 :: jstr
  kg_divergent :: "jstr list option"
  kg_owner :: jstr
  kg_committed :: int
  kg_null_rule :: jstr
  kg_state :: kb_gap_state
  kg_created :: int
  kg_closed_at :: "int option"
  kg_opened_ref :: "nat option"
  kg_closing_ref :: "nat option"
  kg_reason :: "jstr option"

record kb_admission =
  ad_id :: jstr
  ad_org :: jstr
  ad_gap :: jstr
  ad_approved_by :: jstr
  ad_snapshot_from :: jstr
  ad_snapshot_to :: jstr
  ad_content_hash :: jstr
  ad_provenance :: jsval
  ad_ledger_ref :: nat
  ad_article :: "jstr option"
  ad_admitted_at :: int

record kb_response =
  kr_id :: jstr
  kr_ticket :: jstr
  kr_draft :: jstr
  kr_snapshot :: "jstr option"
  kr_grounded :: "bool option"
  kr_validated_at :: "int option"
  kr_draft_ref :: "nat option"
  kr_validate_ref :: "nat option"
  kr_unsupported :: "jsval option"
  kr_created :: int

record kb_citation =
  ci_response :: jstr
  ci_article :: jstr
  ci_snapshot :: jstr

record kb_head =
  hd_snapshot :: jstr
  hd_set_by :: "nat option"

record kb_store =
  kb_articles :: "kb_article list"
  kb_heads :: "jstr \<rightharpoonup> kb_head"
  kb_gaps :: "kb_gap list"
  kb_admissions :: "kb_admission list"
  kb_responses :: "kb_response list"
  kb_citations :: "kb_citation list"

record kb_env =
  ke_claims :: claims
  ke_now :: int
  ke_fresh :: "nat \<Rightarrow> jstr"
  ke_users :: "(jstr \<times> jstr) list"
  ke_ticket_org :: "jstr \<Rightarrow> jstr option"
  posix_space :: "nat \<Rightarrow> bool"
  uuid_of :: "jstr \<Rightarrow> jstr option"
  date_of :: "jstr \<Rightarrow> int option"
  jsonb_accepts :: "jsval \<Rightarrow> bool"
  jsonb_text :: "jsval \<Rightarrow> jstr"
  ke_sha :: "jstr \<Rightarrow> jstr"

text \<open>An error of the database carries a state and a message; \<open>raise exception\<close> has the state P0001.\<close>

datatype kb_error =
    Kb_App app_error_code nat
  | Kb_Sql (sql_state: jstr) (sql_message: jstr)
  | Kb_Thrown js_error

abbreviation raise_sql :: "string \<Rightarrow> kb_error + 'a" where
  "raise_sql name \<equiv> Inl (Kb_Sql (u ''P0001'') (u name))"

abbreviation unique_violation :: "kb_error + 'a" where
  "unique_violation \<equiv> Inl (Kb_Sql (u ''23505'') [])"

abbreviation reference_violation :: "kb_error + 'a" where
  "reference_violation \<equiv> Inl (Kb_Sql (u ''23503'') [])"

abbreviation check_violation :: "kb_error + 'a" where
  "check_violation \<equiv> Inl (Kb_Sql (u ''23514'') [])"

abbreviation not_null_violation :: "kb_error + 'a" where
  "not_null_violation \<equiv> Inl (Kb_Sql (u ''23502'') [])"

abbreviation policy_violation :: "kb_error + 'a" where
  "policy_violation \<equiv> Inl (Kb_Sql (u ''42501'') [])"

abbreviation bad_text :: "kb_error + 'a" where
  "bad_text \<equiv> Inl (Kb_Sql (u ''22P02'') [])"

definition US_PER_DAY :: int where
  "US_PER_DAY = 86400000000"

definition sha_shape :: "jstr \<Rightarrow> bool" where
  "sha_shape s = shape (replicate 64 low_hex) s"

subsection \<open>Opening a gap record\<close>

record gap_opening =
  go_gap :: jstr
  go_org :: jstr
  go_ticket :: jstr
  go_query_terms :: "jstr option"
  go_kb_snapshot :: "jstr option"
  go_zero_match :: "bool option"
  go_query_sha256 :: "jstr option"
  go_question_sha256 :: "jstr option"
  go_owner :: "jstr option"
  go_committed_date :: "int option"
  go_null_rule :: "jstr option"
  go_divergent :: "jstr list option"
  go_ledger :: "nat option"

definition says_something :: "kb_env \<Rightarrow> jstr option \<Rightarrow> bool" where
  "says_something env t = (case t of None \<Rightarrow> False | Some s \<Rightarrow> list_ex (\<lambda>c. \<not> posix_space env c) s)"

definition standing_for :: "jstr \<Rightarrow> jstr \<Rightarrow> kb_gap \<Rightarrow> bool" where
  "standing_for ticket question g = (kg_ticket g = ticket \<and> kg_question_sha256 g = question \<and> kg_state g \<noteq> Gap_Closed)"

definition same_query :: "jstr \<Rightarrow> jstr \<Rightarrow> kb_gap \<Rightarrow> bool" where
  "same_query ticket query g = (kg_ticket g = ticket \<and> kg_query_sha256 g = query)"

text \<open>The standing record of the question, and failing that the record of the query.\<close>

definition find_gap :: "gap_opening \<Rightarrow> kb_gap list \<Rightarrow> kb_gap option" where
  "find_gap p gs =
     (case List.find (standing_for (go_ticket p) (the (go_question_sha256 p))) gs of
        Some g \<Rightarrow> Some g
      | None \<Rightarrow> List.find (same_query (go_ticket p) (the (go_query_sha256 p))) gs)"

definition opened_gap :: "kb_env \<Rightarrow> gap_opening \<Rightarrow> kb_gap" where
  "opened_gap env p =
     \<lparr>kg_id = go_gap p, kg_org = go_org p, kg_ticket = go_ticket p, kg_query_terms = the (go_query_terms p),
      kg_snapshot = the (go_kb_snapshot p), kg_zero_match = the (go_zero_match p),
      kg_query_sha256 = the (go_query_sha256 p), kg_question_sha256 = the (go_question_sha256 p),
      kg_divergent = go_divergent p, kg_owner = the (go_owner p), kg_committed = the (go_committed_date p),
      kg_null_rule = the (go_null_rule p), kg_state = Gap_Open, kg_created = ke_now env, kg_closed_at = None,
      kg_opened_ref = go_ledger p, kg_closing_ref = None, kg_reason = None\<rparr>"

text \<open>The primary key and the two unique indexes, and the checks, of \<open>kb_gap\<close>.\<close>

definition gap_conflicts :: "kb_gap list \<Rightarrow> kb_gap \<Rightarrow> bool" where
  "gap_conflicts gs g =
     list_ex (\<lambda>x. kg_id x = kg_id g \<or> same_query (kg_ticket g) (kg_query_sha256 g) x
        \<or> kg_state g \<noteq> Gap_Closed \<and> standing_for (kg_ticket g) (kg_question_sha256 g) x) gs"

definition gap_checks :: "kb_gap \<Rightarrow> bool" where
  "gap_checks g =
     ((kg_state g \<noteq> Gap_Closed \<or> kg_closed_at g \<noteq> None \<and> kg_closing_ref g \<noteq> None)
      \<and> (kg_state g = Gap_Not_Documentable \<longleftrightarrow> kg_reason g \<noteq> None)
      \<and> sha_shape (kg_question_sha256 g)
      \<and> kg_created g div US_PER_DAY \<le> kg_committed g
      \<and> (case kg_reason g of None \<Rightarrow> True | Some r \<Rightarrow> byteLength r \<le> 512))"

definition gap_references :: "kb_env \<Rightarrow> nat \<Rightarrow> kb_gap \<Rightarrow> bool" where
  "gap_references env rows g =
     (ke_ticket_org env (kg_ticket g) \<noteq> None \<and> (kg_owner g, kg_org g) \<in> set (ke_users env)
      \<and> (case kg_opened_ref g of None \<Rightarrow> True | Some l \<Rightarrow> l < rows))"

text \<open>\<open>insert \<dots> on conflict do nothing\<close>.\<close>

definition insert_gap :: "kb_env \<Rightarrow> nat \<Rightarrow> kb_gap \<Rightarrow> kb_gap list \<Rightarrow> kb_error + kb_gap list" where
  "insert_gap env rows g gs =
     (if \<not> gap_checks g then check_violation
      else if gap_conflicts gs g then Inr gs
      else if \<not> gap_references env rows g then reference_violation
      else Inr (gs @ [g]))"

text \<open>
  \<open>others\<close> is what other sessions commit to \<open>kb_gap\<close> between the lookups and the insert; \<open>rows\<close> is the
  number of ledger rows.
\<close>

definition kb_gap_open ::
    "kb_env \<Rightarrow> nat \<Rightarrow> (kb_gap list \<Rightarrow> kb_gap list) \<Rightarrow> gap_opening \<Rightarrow> kb_gap list \<Rightarrow> kb_error + jstr \<times> kb_gap list" where
  "kb_gap_open env rows others p gs =
     (if go_org p \<noteq> cl_org (ke_claims env) then raise_sql ''E_KB_GAP_FOREIGN_ORG''
      else if \<not> says_something env (go_query_terms p) then raise_sql ''E_KB_GAP_EVIDENCE_MISSING''
      else if \<not> says_something env (go_kb_snapshot p) then raise_sql ''E_KB_GAP_EVIDENCE_MISSING''
      else if go_zero_match p = None then raise_sql ''E_KB_GAP_EVIDENCE_MISSING''
      else if \<not> (\<exists>q \<in> set_option (go_query_sha256 p). sha_shape q) then raise_sql ''E_KB_GAP_EVIDENCE_MISSING''
      else if \<not> (\<exists>q \<in> set_option (go_question_sha256 p). sha_shape q) then raise_sql ''E_KB_GAP_EVIDENCE_MISSING''
      else if go_owner p = None then raise_sql ''E_KB_GAP_OWNER_MISSING''
      else if go_committed_date p = None then raise_sql ''E_KB_GAP_DATE_MISSING''
      else if \<not> says_something env (go_null_rule p) then raise_sql ''E_KB_GAP_NULL_RULE_MISSING''
      else (case find_gap p gs of
              Some g \<Rightarrow> Inr (kg_id g, gs)
            | None \<Rightarrow>
                bind_err (insert_gap env rows (opened_gap env p) (others gs)) (\<lambda>now.
                  (case find_gap p now of
                     None \<Rightarrow> raise_sql ''E_KB_GAP_NOT_WRITTEN''
                   | Some g \<Rightarrow> Inr (kg_id g, now)))))"

subsection \<open>Letting one document into the corpus\<close>

definition json_text :: "kb_env \<Rightarrow> jsval \<Rightarrow> string \<Rightarrow> jstr option" where
  "json_text env v k =
     (case obj_get v k of JUndef \<Rightarrow> None | JNull \<Rightarrow> None | JStr s \<Rightarrow> Some s | w \<Rightarrow> Some (jsonb_text env w))"

definition to_uuid :: "kb_env \<Rightarrow> jstr option \<Rightarrow> kb_error + jstr option" where
  "to_uuid env t =
     (case t of None \<Rightarrow> Inr None | Some s \<Rightarrow> (case uuid_of env s of None \<Rightarrow> bad_text | Some i \<Rightarrow> Inr (Some i)))"

definition key_unit :: "nat \<Rightarrow> bool" where
  "key_unit c = (97 \<le> c \<and> c \<le> 122 \<or> 65 \<le> c \<and> c \<le> 90 \<or> 48 \<le> c \<and> c \<le> 57 \<or> c \<in> {95, 47, 45})"

definition canonical_key_shape :: "jstr \<Rightarrow> bool" where
  "canonical_key_shape s = (1 \<le> length s \<and> length s \<le> 64 \<and> list_all key_unit s)"

definition snapshot_shape :: "jstr \<Rightarrow> bool" where
  "snapshot_shape s = (1 \<le> length s \<and> length s \<le> 64 \<and> list_all snapshot_unit s)"

definition in_snapshot :: "jstr \<Rightarrow> jstr \<Rightarrow> kb_article \<Rightarrow> bool" where
  "in_snapshot org snap a = (ka_org a = org \<and> ka_snapshot a = snap)"

definition snapshot_of :: "kb_store \<Rightarrow> jstr \<Rightarrow> jstr \<Rightarrow> kb_article list" where
  "snapshot_of st org snap = filter (in_snapshot org snap) (kb_articles st)"

text \<open>\<open>insert into kb_article select gen_random_uuid(), \<dots>\<close>: every row of one snapshot under another.\<close>

definition copied_articles :: "(nat \<Rightarrow> jstr) \<Rightarrow> jstr \<Rightarrow> kb_article list \<Rightarrow> kb_article list" where
  "copied_articles fresh snap as = map (\<lambda>(i, a). a\<lparr>ka_id := fresh i, ka_snapshot := snap\<rparr>) (zip [0..<length as] as)"

definition insert_articles :: "kb_article list \<Rightarrow> kb_article list \<Rightarrow> kb_error + kb_article list" where
  "insert_articles new as =
     (if \<not> list_all (\<lambda>a. canonical_key_shape (ka_canonical_key a)) new then check_violation
      else if \<not> distinct (map ka_id new) \<or> list_ex (\<lambda>a. ka_id a \<in> ka_id ` set as) new then unique_violation
      else Inr (as @ new))"

record admitted_row =
  aw_article_id :: jstr
  aw_canonical_key :: jstr
  aw_body_sha256 :: jstr

definition insert_admission :: "kb_env \<Rightarrow> kb_admission \<Rightarrow> kb_store \<Rightarrow> kb_error + kb_store" where
  "insert_admission env m st =
     (if ad_snapshot_from m = ad_snapshot_to m \<or> \<not> snapshot_shape (ad_snapshot_from m)
         \<or> \<not> snapshot_shape (ad_snapshot_to m) then check_violation
      else if list_ex (\<lambda>x. ad_id x = ad_id m) (kb_admissions st) then unique_violation
      else if (ad_approved_by m, ad_org m) \<notin> set (ke_users env) then reference_violation
      else Inr (st\<lparr>kb_admissions := kb_admissions st @ [m]\<rparr>))"

text \<open>The material: one object with a key, a title, a body that fits an excerpt and its declared flag.\<close>

definition admitted_item :: "kb_env \<Rightarrow> jsval \<Rightarrow> jsval \<Rightarrow> kb_error + kb_article" where
  "admitted_item env row_out material =
     (case material of
        JArr [item] \<Rightarrow>
          (case (json_text env item ''canonical_key'', json_text env item ''title'', json_text env item ''body'') of
             (Some key, Some title, Some body) \<Rightarrow>
               (case obj_get item ''citable'' of
                  JBool citable \<Rightarrow>
                    if 2048 < code_points body then raise_sql ''E_KB_ADMISSION_EXCEEDS_EXCERPT''
                    else if json_text env row_out ''content_hash'' \<noteq> Some (ke_sha env body)
                    then raise_sql ''E_KB_ADMISSION_HASH_MISMATCH''
                    else Inr \<lparr>ka_id = [], ka_org = [], ka_snapshot = [], ka_canonical_key = key, ka_title = title,
                              ka_body = body, ka_body_sha256 = ke_sha env body, ka_citable = citable\<rparr>
                | _ \<Rightarrow> raise_sql ''E_KB_ADMISSION_CITABLE_MISSING'')
           | _ \<Rightarrow> raise_sql ''E_KB_ADMISSION_INCOMPLETE'')
      | _ \<Rightarrow> raise_sql ''E_KB_ADMISSION_NOT_EXACTLY_ONE'')"

definition ledger_row_at :: "ledger_table \<Rightarrow> nat \<Rightarrow> chained_row option" where
  "ledger_row_at table k = (if k < length table then Some (table ! k) else None)"

definition admission_row_at :: "ledger_table \<Rightarrow> nat \<Rightarrow> chained_row option" where
  "admission_row_at table k =
     (case ledger_row_at table k of Some r \<Rightarrow> if class_of r = KbAdmission then Some r else None | None \<Rightarrow> None)"

text \<open>The admission, every column of it read out of the row of the chain or computed from the body.\<close>

definition admission_from :: "kb_env \<Rightarrow> nat \<Rightarrow> chained_row \<Rightarrow> jstr \<Rightarrow> jstr \<Rightarrow> jstr \<Rightarrow> jstr \<Rightarrow> kb_admission" where
  "admission_from env k r i gap approver digest =
     \<lparr>ad_id = i, ad_org = org_id r, ad_gap = gap, ad_approved_by = approver,
      ad_snapshot_from = the (json_text env (row_output r) ''snapshot_from''),
      ad_snapshot_to = the (json_text env (row_output r) ''snapshot_to''),
      ad_content_hash = digest, ad_provenance = obj_get (row_output r) ''provenance'',
      ad_ledger_ref = k, ad_article = None, ad_admitted_at = ke_now env\<rparr>"

text \<open>What the function writes once every refusal is behind it.\<close>

definition write_advance ::
    "kb_env \<Rightarrow> nat \<Rightarrow> kb_admission \<Rightarrow> kb_article \<Rightarrow> kb_store \<Rightarrow> kb_error + admitted_row \<times> kb_store" where
  "write_advance env k m item st =
     (let org = ad_org m;
          old = snapshot_of st org (ad_snapshot_from m);
          minted = ke_fresh env (length old);
          article = item\<lparr>ka_id := minted, ka_org := org, ka_snapshot := ad_snapshot_to m\<rparr>
      in bind_err (insert_articles (copied_articles (ke_fresh env) (ad_snapshot_to m) old @ [article]) (kb_articles st))
           (\<lambda>as. bind_err (insert_admission env (m\<lparr>ad_article := Some minted\<rparr>) (st\<lparr>kb_articles := as\<rparr>)) (\<lambda>st'.
              Inr (\<lparr>aw_article_id = minted, aw_canonical_key = ka_canonical_key item, aw_body_sha256 = ka_body_sha256 item\<rparr>,
                   st'\<lparr>kb_heads := (kb_heads st)(org \<mapsto> \<lparr>hd_snapshot = ad_snapshot_to m, hd_set_by = Some k\<rparr>)\<rparr>))))"

definition kb_snapshot_advance ::
    "kb_env \<Rightarrow> ledger_table \<Rightarrow> nat \<Rightarrow> jsval \<Rightarrow> kb_store \<Rightarrow> kb_error + admitted_row \<times> kb_store" where
  "kb_snapshot_advance env table k material st =
     (if \<not> jsonb_accepts env material then Inl (Kb_Sql (u ''22P05'') [])
      else case admission_row_at table k of
        None \<Rightarrow> raise_sql ''E_KB_ADVANCE_LEDGER_ROW_MISSING''
      | Some r \<Rightarrow>
          if org_id r \<noteq> cl_org (ke_claims env) then raise_sql ''E_KB_ADVANCE_FOREIGN_ORG''
          else
            (let org = org_id r; out = row_output r;
                 snapshot_from = json_text env out ''snapshot_from''; snapshot_to = json_text env out ''snapshot_to''
             in bind_err (to_uuid env (json_text env out ''admission_id'')) (\<lambda>admission.
                bind_err (to_uuid env (json_text env out ''gap_id'')) (\<lambda>gap.
                bind_err (to_uuid env (json_text env out ''approved_by'')) (\<lambda>approver.
                  if approver = None \<or> cl_sub (ke_claims env) \<noteq> approver
                  then raise_sql ''E_KB_ADVANCE_CALLER_NOT_APPROVER''
                  else if snapshot_from = None \<or> snapshot_to = None \<or> snapshot_from = snapshot_to
                  then raise_sql ''E_KB_SNAPSHOT_NOT_ADVANCING''
                  else if list_ex (in_snapshot org (the snapshot_to)) (kb_articles st)
                  then raise_sql ''E_KB_SNAPSHOT_ALREADY_EXISTS''
                  else if map_option hd_snapshot (kb_heads st org) \<noteq> snapshot_from
                  then raise_sql ''E_KB_SNAPSHOT_MOVED''
                  else (case List.find (\<lambda>g. Some (kg_id g) = gap \<and> kg_org g = org) (kb_gaps st) of
                          None \<Rightarrow> raise_sql ''E_KB_ADMISSION_GAP_MISSING''
                        | Some g \<Rightarrow>
                            if ticket_id r \<noteq> Some (kg_ticket g) then raise_sql ''E_KB_ADMISSION_TICKET_MISMATCH''
                            else if \<not> is_plain_object (obj_get out ''provenance'')
                            then raise_sql ''E_KB_ADMISSION_PROVENANCE_MISSING''
                            else bind_err (admitted_item env out material) (\<lambda>item.
                              case admission of
                                None \<Rightarrow> not_null_violation
                              | Some i \<Rightarrow> write_advance env k
                                  (admission_from env k r i (kg_id g) (the approver) (ka_body_sha256 item))
                                  item st)))))))"

subsection \<open>Closing a gap record\<close>

definition update_gap :: "jstr \<Rightarrow> (kb_gap \<Rightarrow> kb_gap) \<Rightarrow> kb_gap list \<Rightarrow> kb_gap list" where
  "update_gap i f gs = map (\<lambda>g. if kg_id g = i then f g else g) gs"

text \<open>The join of the fourth clause: an admission for the gap, its article, the article standing under its key, its citation.\<close>

definition cites_admitted :: "kb_store \<Rightarrow> kb_gap \<Rightarrow> kb_response \<Rightarrow> bool" where
  "cites_admitted st g r =
     list_ex (\<lambda>m. ad_gap m = kg_id g \<and> ad_org m = kg_org g
       \<and> list_ex (\<lambda>a. Some (ka_id a) = ad_article m \<and> ka_snapshot a = ad_snapshot_to m
           \<and> list_ex (\<lambda>s. ka_canonical_key s = ka_canonical_key a \<and> ka_org s = kg_org g
               \<and> Some (ka_snapshot s) = kr_snapshot r
               \<and> list_ex (\<lambda>c. ci_article c = ka_id s \<and> ci_snapshot c = ka_snapshot s \<and> ci_response c = kr_id r)
                   (kb_citations st))
               (kb_articles st))
           (kb_articles st))
       (kb_admissions st)"

definition kb_gap_close_by_verification :: "kb_env \<Rightarrow> jstr \<Rightarrow> jstr \<Rightarrow> kb_store \<Rightarrow> kb_error + kb_store" where
  "kb_gap_close_by_verification env i response st =
     (case List.find (\<lambda>g. kg_id g = i \<and> kg_org g = cl_org (ke_claims env)) (kb_gaps st) of
        None \<Rightarrow> raise_sql ''E_KB_CLOSURE_GAP_NOT_VISIBLE''
      | Some g \<Rightarrow>
          if kg_state g \<noteq> Gap_Open then raise_sql ''E_KB_CLOSURE_GAP_NOT_OPEN''
          else (case List.find (\<lambda>r. kr_id r = response \<and> ke_ticket_org env (kr_ticket r) \<noteq> None) (kb_responses st) of
                  None \<Rightarrow> raise_sql ''E_KB_CLOSURE_RESPONSE_MISSING''
                | Some r \<Rightarrow>
                    if ke_ticket_org env (kr_ticket r) \<noteq> Some (kg_org g) then raise_sql ''E_KB_CLOSURE_FOREIGN_ORG''
                    else if kr_grounded r \<noteq> Some True then raise_sql ''E_KB_CLOSURE_NOT_GROUNDED''
                    else if kr_validate_ref r = None then raise_sql ''E_KB_CLOSURE_WITNESS_MISSING''
                    else if kr_snapshot r = None
                         \<or> map_option hd_snapshot (kb_heads st (kg_org g)) \<noteq> kr_snapshot r
                    then raise_sql ''E_KB_CLOSURE_SNAPSHOT_NOT_CURRENT''
                    else if \<not> cites_admitted st g r then raise_sql ''E_KB_CLOSURE_ADMISSION_NOT_CITED''
                    else Inr (st\<lparr>kb_gaps := update_gap i (\<lambda>g. g\<lparr>kg_state := Gap_Closed,
                           kg_closed_at := Some (ke_now env), kg_closing_ref := kr_validate_ref r\<rparr>) (kb_gaps st)\<rparr>)))"

definition only_spaces :: "jstr \<Rightarrow> bool" where
  "only_spaces s = list_all (\<lambda>c. c = 32) s"

definition kb_gap_mark_not_documentable :: "jstr \<Rightarrow> jstr option \<Rightarrow> kb_store \<Rightarrow> kb_error + kb_store" where
  "kb_gap_mark_not_documentable i reason st =
     (case reason of
        None \<Rightarrow> raise_sql ''E_KB_GAP_REASON_MISSING''
      | Some why \<Rightarrow>
          if only_spaces why then raise_sql ''E_KB_GAP_REASON_MISSING''
          else (let f = (\<lambda>g. g\<lparr>kg_state := Gap_Not_Documentable, kg_reason := Some why\<rparr>);
                    hit = (\<lambda>g. kg_id g = i \<and> kg_state g = Gap_Open)
                in if list_all (\<lambda>g. gap_checks (f g)) (filter hit (kb_gaps st))
                   then Inr (st\<lparr>kb_gaps := map (\<lambda>g. if hit g then f g else g) (kb_gaps st)\<rparr>)
                   else check_violation))"

subsection \<open>Responses and citations\<close>

text \<open>
  The inserts the application role holds: staff of the organisation of the ticket, the check that a
  grounded answer names its snapshot, the references to the ledger and to the corpus.
\<close>

definition response_visible :: "kb_env \<Rightarrow> kb_response \<Rightarrow> bool" where
  "response_visible env r = (ke_ticket_org env (kr_ticket r) = Some (cl_org (ke_claims env)))"

definition insert_response :: "kb_env \<Rightarrow> nat \<Rightarrow> kb_response \<Rightarrow> kb_store \<Rightarrow> kb_error + kb_store" where
  "insert_response env rows r st =
     (if \<not> is_staff (ke_claims env) \<or> \<not> response_visible env r then policy_violation
      else if kr_grounded r \<noteq> None \<and> kr_snapshot r = None
           \<or> (case kr_unsupported r of Some (JArr _) \<Rightarrow> False | None \<Rightarrow> False | _ \<Rightarrow> True) then check_violation
      else if list_ex (\<lambda>x. kr_id x = kr_id r) (kb_responses st) then unique_violation
      else if \<not> list_all (\<lambda>l. l < rows) (case kr_draft_ref r of None \<Rightarrow> [] | Some l \<Rightarrow> [l])
           \<or> \<not> list_all (\<lambda>l. l < rows) (case kr_validate_ref r of None \<Rightarrow> [] | Some l \<Rightarrow> [l]) then reference_violation
      else Inr (st\<lparr>kb_responses := kb_responses st @ [r]\<rparr>))"

definition insert_citation :: "kb_env \<Rightarrow> kb_citation \<Rightarrow> kb_store \<Rightarrow> kb_error + kb_store" where
  "insert_citation env c st =
     (if \<not> is_staff (ke_claims env)
         \<or> \<not> list_ex (\<lambda>r. kr_id r = ci_response c \<and> response_visible env r) (kb_responses st) then policy_violation
      else if list_ex (\<lambda>x. ci_response x = ci_response c \<and> ci_article x = ci_article c) (kb_citations st)
      then unique_violation
      else if \<not> list_ex (\<lambda>a. ka_id a = ci_article c \<and> ka_snapshot a = ci_snapshot c) (kb_articles st)
      then reference_violation
      else Inr (st\<lparr>kb_citations := kb_citations st @ [c]\<rparr>))"

end
