(* ===== verification/Kb_Invariant.thy ===== *)
theory Kb_Invariant
  imports Kb_Store
begin

section \<open>What the knowledge base keeps\<close>

text \<open>
  The histories the application role can produce (\<open>kb_run\<close>): ledger rows appended by any writer, gap records
  opened with other sessions committing in between, advances, closures, gaps marked by the owner, responses
  and citations.  Shown here: a snapshot never changes once another stands on it, a question has one standing
  record, and a closed gap rests on an answer that cites what was admitted for it.
\<close>

subsection \<open>What each function returns\<close>

lemma if_refused_Inr: "(if c then Inl e else r) = Inr x \<longleftrightarrow> \<not> c \<and> r = Inr x"
  by auto

lemma advance_cases:
  assumes "kb_snapshot_advance env t k material st = Inr (w, st')"
  obtains r g item admission approver where
    "admission_row_at t k = Some r" "org_id r = cl_org (ke_claims env)"
    "to_uuid env (json_text env (row_output r) ''approved_by'') = Inr (Some approver)"
    "cl_sub (ke_claims env) = Some approver"
    "json_text env (row_output r) ''snapshot_from'' \<noteq> None" "json_text env (row_output r) ''snapshot_to'' \<noteq> None"
    "json_text env (row_output r) ''snapshot_from'' \<noteq> json_text env (row_output r) ''snapshot_to''"
    "\<not> list_ex (in_snapshot (org_id r) (the (json_text env (row_output r) ''snapshot_to''))) (kb_articles st)"
    "map_option hd_snapshot (kb_heads st (org_id r)) = json_text env (row_output r) ''snapshot_from''"
    "to_uuid env (json_text env (row_output r) ''gap_id'') = Inr (Some (kg_id g))" "g \<in> set (kb_gaps st)"
    "kg_org g = org_id r" "ticket_id r = Some (kg_ticket g)"
    "admitted_item env (row_output r) material = Inr item"
    "write_advance env k
       (admission_from env k r admission (kg_id g) approver (ka_body_sha256 item)) item st = Inr (w, st')"
proof -
  let ?out = "\<lambda>r. row_output r"
  obtain r where r: "admission_row_at t k = Some r"
    using assms by (auto simp: kb_snapshot_advance_def split: if_splits option.splits)
  have a: "kb_snapshot_advance env t k material st = Inr (w, st')" by (rule assms)
  from a r obtain admission gap approver where ids:
      "to_uuid env (json_text env (?out r) ''admission_id'') = Inr admission"
      "to_uuid env (json_text env (?out r) ''gap_id'') = Inr gap"
      "to_uuid env (json_text env (?out r) ''approved_by'') = Inr approver"
    unfolding kb_snapshot_advance_def by (simp add: Let_def if_refused_Inr bind_err_Inr) blast
  from a r ids have main: "org_id r = cl_org (ke_claims env)" "approver \<noteq> None" "cl_sub (ke_claims env) = approver"
      "json_text env (?out r) ''snapshot_from'' \<noteq> None" "json_text env (?out r) ''snapshot_to'' \<noteq> None"
      "json_text env (?out r) ''snapshot_from'' \<noteq> json_text env (?out r) ''snapshot_to''"
      "\<not> list_ex (in_snapshot (org_id r) (the (json_text env (?out r) ''snapshot_to''))) (kb_articles st)"
      "map_option hd_snapshot (kb_heads st (org_id r)) = json_text env (?out r) ''snapshot_from''"
    unfolding kb_snapshot_advance_def by (auto simp: Let_def if_refused_Inr)
  from a r ids main obtain g where g: "List.find (\<lambda>g. Some (kg_id g) = gap \<and> kg_org g = org_id r) (kb_gaps st) = Some g"
    unfolding kb_snapshot_advance_def by (cases "List.find (\<lambda>g. Some (kg_id g) = gap \<and> kg_org g = org_id r) (kb_gaps st)")
      (simp_all add: Let_def if_refused_Inr)
  then have g': "g \<in> set (kb_gaps st)" "gap = Some (kg_id g)" "kg_org g = org_id r"
    by (auto simp: find_Some_iff)
  from a r ids main g obtain item where item: "ticket_id r = Some (kg_ticket g)"
      "admitted_item env (?out r) material = Inr item"
    unfolding kb_snapshot_advance_def by (simp add: Let_def if_refused_Inr bind_err_Inr) blast
  from a r ids main g item obtain i where i: "admission = Some i"
    unfolding kb_snapshot_advance_def by (cases admission) (simp_all add: Let_def if_refused_Inr)
  obtain ap where ap: "approver = Some ap" using main(2) by auto
  have "write_advance env k
       (admission_from env k r i (kg_id g) ap (ka_body_sha256 item)) item st = Inr (w, st')"
    using a r ids main g item i ap unfolding kb_snapshot_advance_def by (simp add: Let_def if_refused_Inr)
  then show ?thesis using that r main ids ap g' item by metis
qed

lemma advance_write:
  assumes "kb_snapshot_advance env t k material st = Inr (w, st')"
  obtains r item admission gap approver where "admission_row_at t k = Some r"
    "admitted_item env (row_output r) material = Inr item"
    "write_advance env k (admission_from env k r admission gap approver (ka_body_sha256 item)) item st = Inr (w, st')"
proof (rule advance_cases [OF assms])
  fix r item admission approver and g :: kb_gap
  assume "admission_row_at t k = Some r" "admitted_item env (row_output r) material = Inr item"
    "write_advance env k (admission_from env k r admission (kg_id g) approver (ka_body_sha256 item)) item st = Inr (w, st')"
  then show thesis by (rule that)
qed

lemma admitted_item_result:
  assumes "admitted_item env out material = Inr item"
  shows "json_text env out ''content_hash'' = Some (ka_body_sha256 item)" "ka_body_sha256 item = ke_sha env (ka_body item)"
    "code_points (ka_body item) \<le> 2048"
  using assms unfolding admitted_item_def
  by (auto split: jsval.splits list.splits option.splits if_splits simp del: One_nat_def)

lemma write_advance_cases:
  assumes "write_advance env k m item st = Inr (w, st')"
  defines "old \<equiv> snapshot_of st (ad_org m) (ad_snapshot_from m)"
  defines "minted \<equiv> ke_fresh env (length old)"
  defines "new \<equiv> copied_articles (ke_fresh env) (ad_snapshot_to m) old
      @ [item\<lparr>ka_id := minted, ka_org := ad_org m, ka_snapshot := ad_snapshot_to m\<rparr>]"
  shows "insert_articles new (kb_articles st) = Inr (kb_articles st @ new)"
    "st' = st\<lparr>kb_articles := kb_articles st @ new,
       kb_admissions := kb_admissions st @ [m\<lparr>ad_article := Some minted\<rparr>],
       kb_heads := (kb_heads st)(ad_org m \<mapsto> \<lparr>hd_snapshot = ad_snapshot_to m, hd_set_by = Some k\<rparr>)\<rparr>"
    "(ad_approved_by m, ad_org m) \<in> set (ke_users env)" "ad_id m \<notin> ad_id ` set (kb_admissions st)"
    "w = \<lparr>aw_article_id = minted, aw_canonical_key = ka_canonical_key item, aw_body_sha256 = ka_body_sha256 item\<rparr>"
proof -
  from assms(1) obtain as where as: "insert_articles new (kb_articles st) = Inr as"
    unfolding write_advance_def Let_def old_def minted_def new_def bind_err_Inr by blast
  then have as': "as = kb_articles st @ new" by (auto simp: insert_articles_def split: if_splits)
  show "insert_articles new (kb_articles st) = Inr (kb_articles st @ new)" using as as' by simp
  from assms(1) as obtain st1 where st1: "insert_admission env (m\<lparr>ad_article := Some minted\<rparr>) (st\<lparr>kb_articles := as\<rparr>) = Inr st1"
      and fin: "w = \<lparr>aw_article_id = minted, aw_canonical_key = ka_canonical_key item, aw_body_sha256 = ka_body_sha256 item\<rparr>"
        "st' = st1\<lparr>kb_heads := (kb_heads st)(ad_org m \<mapsto> \<lparr>hd_snapshot = ad_snapshot_to m, hd_set_by = Some k\<rparr>)\<rparr>"
    unfolding write_advance_def Let_def old_def minted_def new_def bind_err_Inr by auto
  have adm: "(ad_approved_by m, ad_org m) \<in> set (ke_users env)" "ad_id m \<notin> ad_id ` set (kb_admissions st)"
      "st1 = st\<lparr>kb_articles := as, kb_admissions := kb_admissions st @ [m\<lparr>ad_article := Some minted\<rparr>]\<rparr>"
    using st1 by (auto simp: insert_admission_def list_ex_iff if_refused_Inr)
  show "(ad_approved_by m, ad_org m) \<in> set (ke_users env)" "ad_id m \<notin> ad_id ` set (kb_admissions st)" by (rule adm)+
  show "w = \<lparr>aw_article_id = minted, aw_canonical_key = ka_canonical_key item, aw_body_sha256 = ka_body_sha256 item\<rparr>" by (rule fin)
  show "st' = st\<lparr>kb_articles := kb_articles st @ new,
       kb_admissions := kb_admissions st @ [m\<lparr>ad_article := Some minted\<rparr>],
       kb_heads := (kb_heads st)(ad_org m \<mapsto> \<lparr>hd_snapshot = ad_snapshot_to m, hd_set_by = Some k\<rparr>)\<rparr>"
    unfolding fin adm as' by simp
qed

lemma close_cases:
  assumes "kb_gap_close_by_verification env i response st = Inr st'"
  obtains g r where "g \<in> set (kb_gaps st)" "kg_id g = i" "kg_org g = cl_org (ke_claims env)" "kg_state g = Gap_Open"
    "r \<in> set (kb_responses st)" "kr_id r = response" "ke_ticket_org env (kr_ticket r) = Some (kg_org g)"
    "kr_grounded r = Some True" "kr_validate_ref r \<noteq> None" "kr_snapshot r \<noteq> None"
    "map_option hd_snapshot (kb_heads st (kg_org g)) = kr_snapshot r" "cites_admitted st g r"
    "st' = st\<lparr>kb_gaps := update_gap i (\<lambda>g. g\<lparr>kg_state := Gap_Closed,
       kg_closed_at := Some (ke_now env), kg_closing_ref := kr_validate_ref r\<rparr>) (kb_gaps st)\<rparr>"
proof -
  let ?p = "\<lambda>g. kg_id g = i \<and> kg_org g = cl_org (ke_claims env)"
    and ?q = "\<lambda>r. kr_id r = response \<and> ke_ticket_org env (kr_ticket r) \<noteq> None"
  have a: "kb_gap_close_by_verification env i response st = Inr st'" by (rule assms)
  obtain g where g: "List.find ?p (kb_gaps st) = Some g"
    using a unfolding kb_gap_close_by_verification_def by (cases "List.find ?p (kb_gaps st)") simp_all
  obtain r where r: "List.find ?q (kb_responses st) = Some r" and open_g: "kg_state g = Gap_Open"
    using a g unfolding kb_gap_close_by_verification_def
    by (cases "List.find ?q (kb_responses st)") (simp_all add: if_refused_Inr)
  have "g \<in> set (kb_gaps st)" "?p g" "r \<in> set (kb_responses st)" "?q r" using g r by (auto simp: find_Some_iff)
  moreover have "ke_ticket_org env (kr_ticket r) = Some (kg_org g) \<and> kr_grounded r = Some True
      \<and> kr_validate_ref r \<noteq> None \<and> kr_snapshot r \<noteq> None
      \<and> map_option hd_snapshot (kb_heads st (kg_org g)) = kr_snapshot r \<and> cites_admitted st g r
      \<and> st' = st\<lparr>kb_gaps := update_gap i (\<lambda>g. g\<lparr>kg_state := Gap_Closed,
           kg_closed_at := Some (ke_now env), kg_closing_ref := kr_validate_ref r\<rparr>) (kb_gaps st)\<rparr>"
    using a g r open_g unfolding kb_gap_close_by_verification_def by (auto simp: if_refused_Inr)
  ultimately show ?thesis using that open_g by blast
qed

lemma open_cases:
  assumes "kb_gap_open env rows others p gs = Inr (i, gs')"
  obtains g where "find_gap p gs = Some g" "i = kg_id g" "gs' = gs"
  | g where "find_gap p gs = None" "insert_gap env rows (opened_gap env p) (others gs) = Inr gs'"
      "find_gap p gs' = Some g" "i = kg_id g"
proof -
  have a: "kb_gap_open env rows others p gs = Inr (i, gs')" by (rule assms)
  show ?thesis
  proof (cases "find_gap p gs")
    case None
    let ?rest = "\<lambda>now. (case find_gap p now of None \<Rightarrow> raise_sql ''E_KB_GAP_NOT_WRITTEN'' | Some g \<Rightarrow> Inr (kg_id g, now))"
    have "bind_err (insert_gap env rows (opened_gap env p) (others gs)) ?rest = Inr (i, gs')"
      using a None unfolding kb_gap_open_def by (simp only: if_refused_Inr option.case)
    then obtain now where n: "insert_gap env rows (opened_gap env p) (others gs) = Inr now" "?rest now = Inr (i, gs')"
      unfolding bind_err_Inr by (elim exE conjE) (rule that)
    from n(2) obtain g where "find_gap p now = Some g" "i = kg_id g" "now = gs'" by (cases "find_gap p now") simp_all
    then show ?thesis using that(2) None n(1) by blast
  next
    case (Some g)
    have "Inr (kg_id g, gs) = (Inr (i, gs') :: kb_error + jstr \<times> kb_gap list)"
      using a Some unfolding kb_gap_open_def by (simp only: if_refused_Inr option.case)
    then have "i = kg_id g" "gs' = gs" by simp_all
    with Some show ?thesis by (rule that(1))
  qed
qed

subsection \<open>Histories\<close>

text \<open>
  One transaction after another; the opening of a gap, whose statements see what others committed since it
  began, may have a history of its own between its lookups and its insert.
\<close>

inductive kb_run :: "(jstr \<Rightarrow> jstr) \<Rightarrow> ledger_table \<times> kb_store \<Rightarrow> ledger_table \<times> kb_store \<Rightarrow> bool" for sha where
  begun: "kb_run sha s s"
| chained: "kb_run sha s (t, st) \<Longrightarrow> kb_run sha s (t @ rows, st)"
| opened: "kb_run sha s (t0, st0) \<Longrightarrow> kb_run sha (t0, st0) (t, st) \<Longrightarrow>
     kb_gap_open env (length t) (\<lambda>_. kb_gaps st) p (kb_gaps st0) = Inr (i, gs) \<Longrightarrow> find_gap p (kb_gaps st0) = None \<Longrightarrow>
     kb_run sha s (t, st\<lparr>kb_gaps := gs\<rparr>)"
| advanced: "kb_run sha s (t, st) \<Longrightarrow> ke_sha env = sha \<Longrightarrow> kb_snapshot_advance env t k material st = Inr (w, st') \<Longrightarrow>
     kb_run sha s (t, st')"
| closed: "kb_run sha s (t, st) \<Longrightarrow> kb_gap_close_by_verification env i response st = Inr st' \<Longrightarrow> kb_run sha s (t, st')"
| marked: "kb_run sha s (t, st) \<Longrightarrow> kb_gap_mark_not_documentable i reason st = Inr st' \<Longrightarrow> kb_run sha s (t, st')"
| responded: "kb_run sha s (t, st) \<Longrightarrow> insert_response env (length t) r st = Inr st' \<Longrightarrow> kb_run sha s (t, st')"
| cited: "kb_run sha s (t, st) \<Longrightarrow> insert_citation env c st = Inr st' \<Longrightarrow> kb_run sha s (t, st')"

text \<open>What a history never loses.\<close>

definition kb_grows :: "ledger_table \<times> kb_store \<Rightarrow> ledger_table \<times> kb_store \<Rightarrow> bool" where
  "kb_grows s s' =
     ((\<exists>rows. fst s' = fst s @ rows)
      \<and> set (kb_articles (snd s)) \<subseteq> set (kb_articles (snd s')) \<and> set (kb_admissions (snd s)) \<subseteq> set (kb_admissions (snd s'))
      \<and> set (kb_responses (snd s)) \<subseteq> set (kb_responses (snd s')) \<and> set (kb_citations (snd s)) \<subseteq> set (kb_citations (snd s')))"

lemma kb_grows_refl [simp]: "kb_grows s s"
  by (simp add: kb_grows_def)

lemma kb_grows_trans: "kb_grows s s' \<Longrightarrow> kb_grows s' s'' \<Longrightarrow> kb_grows s s''"
  by (auto simp: kb_grows_def)

lemma advance_grows: "kb_snapshot_advance env t k material st = Inr (w, st') \<Longrightarrow> kb_grows (t, st) (t, st')"
  by (erule advance_cases, drule write_advance_cases(2)) (auto simp: kb_grows_def)

lemma close_grows: "kb_gap_close_by_verification env i response st = Inr st' \<Longrightarrow> kb_grows (t, st) (t, st')"
  by (erule close_cases) (simp add: kb_grows_def)

lemma mark_result:
  assumes "kb_gap_mark_not_documentable i reason st = Inr st'"
  obtains why where "\<forall>g \<in> set (kb_gaps st). kg_id g = i \<and> kg_state g = Gap_Open \<longrightarrow>
      gap_checks (g\<lparr>kg_state := Gap_Not_Documentable, kg_reason := Some why\<rparr>)"
    "st' = st\<lparr>kb_gaps := map (\<lambda>g. if kg_id g = i \<and> kg_state g = Gap_Open
       then g\<lparr>kg_state := Gap_Not_Documentable, kg_reason := Some why\<rparr> else g) (kb_gaps st)\<rparr>"
  using assms unfolding kb_gap_mark_not_documentable_def
  by (cases reason) (auto simp: Let_def if_refused_Inr list_all_iff split: if_splits)

lemma mark_grows: "kb_gap_mark_not_documentable i reason st = Inr st' \<Longrightarrow> kb_grows (t, st) (t, st')"
  by (erule mark_result) (simp add: kb_grows_def)

lemma response_result: "insert_response env rows r st = Inr st' \<Longrightarrow> st' = st\<lparr>kb_responses := kb_responses st @ [r]\<rparr>"
  by (auto simp: insert_response_def if_refused_Inr)

lemma citation_result: "insert_citation env c st = Inr st' \<Longrightarrow> st' = st\<lparr>kb_citations := kb_citations st @ [c]\<rparr>"
  by (auto simp: insert_citation_def if_refused_Inr)

lemma run_grows: "kb_run sha s s' \<Longrightarrow> kb_grows s s'"
proof (induction rule: kb_run.induct)
  case (chained s t st rows)
  then show ?case by (auto simp: kb_grows_def)
next
  case (opened s t0 st0 t st env p i gs)
  have "kb_grows s (t, st)" using opened by (blast intro: kb_grows_trans)
  then show ?case by (simp add: kb_grows_def)
next
  case (advanced s t st env k material w st')
  then show ?case by (blast intro: kb_grows_trans advance_grows)
next
  case (closed s t st env i response st')
  then show ?case by (blast intro: kb_grows_trans close_grows)
next
  case (marked s t st i reason st')
  then show ?case by (blast intro: kb_grows_trans mark_grows)
next
  case (responded s t st env r st')
  then show ?case using response_result [OF responded(2)] by (auto simp: kb_grows_def)
next
  case (cited s t st env c st')
  then show ?case using citation_result [OF cited(2)] by (auto simp: kb_grows_def)
qed simp

subsection \<open>The gap records\<close>

text \<open>Two records of one ticket under one question, or under one query.\<close>

definition clash :: "kb_gap \<Rightarrow> kb_gap \<Rightarrow> bool" where
  "clash g h = (kg_ticket g = kg_ticket h
     \<and> (kg_query_sha256 g = kg_query_sha256 h
        \<or> kg_question_sha256 g = kg_question_sha256 h \<and> kg_state g \<noteq> Gap_Closed \<and> kg_state h \<noteq> Gap_Closed))"

definition gaps_ok :: "kb_gap list \<Rightarrow> bool" where
  "gaps_ok gs =
     (distinct (map kg_id gs) \<and> (\<forall>g \<in> set gs. gap_checks g) \<and> (\<forall>g \<in> set gs. \<forall>h \<in> set gs. clash g h \<longrightarrow> kg_id g = kg_id h))"

lemma clash_sym: "clash g h = clash h g"
  by (auto simp: clash_def)

lemma no_conflict: "\<not> gap_conflicts gs g \<Longrightarrow> x \<in> set gs \<Longrightarrow> kg_id x \<noteq> kg_id g \<and> \<not> clash g x"
  by (auto simp: gap_conflicts_def list_ex_iff standing_for_def same_query_def clash_def)

lemma gaps_ok_snoc:
  assumes "gaps_ok gs" "gap_checks g" "\<not> gap_conflicts gs g"
  shows "gaps_ok (gs @ [g])"
proof -
  have "kg_id g \<notin> set (map kg_id gs)" using no_conflict [OF assms(3)] by (metis in_set_conv_nth length_map nth_map)
  moreover have "kg_id x = kg_id y" if "x \<in> set (gs @ [g])" "y \<in> set (gs @ [g])" "clash x y" for x y
  proof -
    from that(1,2) consider "x \<in> set gs" "y \<in> set gs" | "x = g" "y \<in> set gs" | "y = g" "x \<in> set gs" | "x = y" by auto
    then show ?thesis
    proof cases
      case 1
      then show ?thesis using that(3) assms(1) by (simp add: gaps_ok_def)
    next
      case 2
      then show ?thesis using that(3) no_conflict [OF assms(3) 2(2)] by simp
    next
      case 3
      then show ?thesis using that(3) no_conflict [OF assms(3) 3(2)] clash_sym by blast
    qed simp
  qed
  moreover have "distinct (map kg_id gs)" "\<forall>x \<in> set gs. gap_checks x" using assms(1) by (simp_all add: gaps_ok_def)
  moreover have "\<forall>x \<in> set (gs @ [g]). gap_checks x" using calculation(4) assms(2) by simp
  moreover have "distinct (map kg_id (gs @ [g]))" using calculation(1,3) by simp
  ultimately show ?thesis unfolding gaps_ok_def by blast
qed

lemma insert_gap_result:
  assumes "insert_gap env rows g gs = Inr gs'"
  shows "gap_checks g" "gs' = gs \<or> \<not> gap_conflicts gs g \<and> gs' = gs @ [g]"
  using assms unfolding insert_gap_def by (simp_all only: if_refused_Inr) (auto split: if_splits)

lemma gaps_ok_insert: "gaps_ok gs \<Longrightarrow> insert_gap env rows g gs = Inr gs' \<Longrightarrow> gaps_ok gs' \<and> (gs' = gs \<or> gs' = gs @ [g])"
  using insert_gap_result [of env rows g gs gs'] gaps_ok_snoc [of gs g] by blast

lemma gaps_ok_map:
  assumes ok: "gaps_ok gs"
    and keys: "\<And>g. g \<in> set gs \<Longrightarrow> kg_id (f g) = kg_id g \<and> kg_ticket (f g) = kg_ticket g
       \<and> kg_question_sha256 (f g) = kg_question_sha256 g \<and> kg_query_sha256 (f g) = kg_query_sha256 g"
    and state: "\<And>g. g \<in> set gs \<Longrightarrow> kg_state (f g) \<noteq> Gap_Closed \<Longrightarrow> kg_state g \<noteq> Gap_Closed"
    and checks: "\<And>g. g \<in> set gs \<Longrightarrow> gap_checks (f g)"
  shows "gaps_ok (map f gs)"
proof -
  have "map kg_id (map f gs) = map kg_id gs" using keys by simp
  moreover have "kg_id (f g) = kg_id (f h)" if "g \<in> set gs" "h \<in> set gs" "clash (f g) (f h)" for g h
  proof -
    have "clash g h" using that(3) keys [OF that(1)] keys [OF that(2)] state [OF that(1)] state [OF that(2)]
      unfolding clash_def by metis
    then show ?thesis using ok that(1,2) keys unfolding gaps_ok_def by metis
  qed
  ultimately show ?thesis using ok checks unfolding gaps_ok_def set_map by (metis (no_types, lifting) imageE)
qed

lemma gap_checks_close:
  "gap_checks g \<Longrightarrow> kg_state g = Gap_Open \<Longrightarrow>
     gap_checks (g\<lparr>kg_state := Gap_Closed, kg_closed_at := Some n, kg_closing_ref := Some l\<rparr>)"
  by (simp add: gap_checks_def)

subsection \<open>Answers, articles and admissions\<close>

text \<open>What a closed gap rests on.\<close>

definition answered :: "ledger_table \<Rightarrow> kb_store \<Rightarrow> kb_gap \<Rightarrow> bool" where
  "answered t st g =
     (\<exists>r \<in> set (kb_responses st). \<exists>m \<in> set (kb_admissions st). \<exists>a \<in> set (kb_articles st). \<exists>s \<in> set (kb_articles st).
        kr_grounded r = Some True \<and> kr_validate_ref r \<noteq> None \<and> kr_validate_ref r = kg_closing_ref g
        \<and> ad_gap m = kg_id g \<and> ad_org m = kg_org g
        \<and> ad_article m = Some (ka_id a) \<and> ka_snapshot a = ad_snapshot_to m
        \<and> ka_canonical_key s = ka_canonical_key a \<and> ka_org s = kg_org g \<and> kr_snapshot r = Some (ka_snapshot s)
        \<and> (\<exists>c \<in> set (kb_citations st). ci_response c = kr_id r \<and> ci_article c = ka_id s \<and> ci_snapshot c = ka_snapshot s))"

lemma answered_grows: "answered t st g \<Longrightarrow> kb_grows (t, st) (t', st') \<Longrightarrow> answered t' st' g"
  unfolding answered_def kb_grows_def by (simp only: fst_conv snd_conv subset_iff Bex_def) blast

lemma answered_same: "kg_id g = kg_id h \<Longrightarrow> kg_org g = kg_org h \<Longrightarrow> kg_closing_ref g = kg_closing_ref h \<Longrightarrow>
    answered t st g = answered t st h"
  by (simp add: answered_def)

text \<open>What every admission rests on: the row of the chain, and the article whose body it hashed.\<close>

definition admission_backed :: "(jstr \<Rightarrow> jstr) \<Rightarrow> ledger_table \<Rightarrow> kb_store \<Rightarrow> kb_admission \<Rightarrow> bool" where
  "admission_backed sha t st m =
     ((\<exists>r. admission_row_at t (ad_ledger_ref m) = Some r \<and> org_id r = ad_org m)
      \<and> (\<exists>a \<in> set (kb_articles st). ad_article m = Some (ka_id a) \<and> in_snapshot (ad_org m) (ad_snapshot_to m) a
           \<and> ka_body_sha256 a = ad_content_hash m \<and> ad_content_hash m = sha (ka_body a) \<and> code_points (ka_body a) \<le> 2048))"

lemma admission_row_append: "admission_row_at t k = Some r \<Longrightarrow> admission_row_at (t @ rows) k = Some r"
  by (auto simp: admission_row_at_def ledger_row_at_def nth_append split: if_splits)

lemma backed_grows: "admission_backed sha t st m \<Longrightarrow> kb_grows (t, st) (t', st') \<Longrightarrow> admission_backed sha t' st' m"
  unfolding admission_backed_def kb_grows_def using admission_row_append by fastforce

definition articles_ok :: "(jstr \<Rightarrow> jstr) \<Rightarrow> kb_article list \<Rightarrow> bool" where
  "articles_ok sha as =
     (distinct (map ka_id as) \<and> list_all (\<lambda>a. ka_body_sha256 a = sha (ka_body a)) as)"

definition kb_good :: "(jstr \<Rightarrow> jstr) \<Rightarrow> ledger_table \<times> kb_store \<Rightarrow> bool" where
  "kb_good sha s =
     (gaps_ok (kb_gaps (snd s)) \<and> articles_ok sha (kb_articles (snd s))
      \<and> (\<forall>m \<in> set (kb_admissions (snd s)). admission_backed sha (fst s) (snd s) m)
      \<and> (\<forall>g \<in> set (kb_gaps (snd s)). kg_state g = Gap_Closed \<longrightarrow> answered (fst s) (snd s) g))"

lemma insert_articles_ok:
  "articles_ok sha as \<Longrightarrow> list_all (\<lambda>a. ka_body_sha256 a = sha (ka_body a)) new \<Longrightarrow> insert_articles new as = Inr as' \<Longrightarrow>
     articles_ok sha as'"
proof -
  assume as: "articles_ok sha as" "list_all (\<lambda>a. ka_body_sha256 a = sha (ka_body a)) new" "insert_articles new as = Inr as'"
  then have "distinct (map ka_id new)" "set (map ka_id new) \<inter> set (map ka_id as) = {}" "as' = as @ new"
    unfolding insert_articles_def by (auto simp: if_refused_Inr list_ex_iff)
  then show "articles_ok sha as'" using as(1,2) unfolding articles_ok_def map_append distinct_append by auto
qed

lemma copied_bodies:
  "list_all (\<lambda>a. ka_body_sha256 a = sha (ka_body a)) as \<Longrightarrow>
     list_all (\<lambda>a. ka_body_sha256 a = sha (ka_body a)) (copied_articles fresh snap as)"
  by (auto simp: copied_articles_def list_all_iff dest: set_zip_rightD)

lemma good_articles: "kb_good sha (t, st) \<Longrightarrow> articles_ok sha (kb_articles st)"
  by (simp add: kb_good_def)

text \<open>A step that leaves the gap records alone keeps the state good when its new articles and admissions are.\<close>

lemma good_growing:
  assumes "kb_good sha (t, st)" "kb_grows (t, st) (t', st')" "kb_gaps st' = kb_gaps st" "articles_ok sha (kb_articles st')"
    "\<forall>m \<in> set (kb_admissions st') - set (kb_admissions st). admission_backed sha t' st' m"
  shows "kb_good sha (t', st')"
proof -
  have "admission_backed sha t' st' m" if "m \<in> set (kb_admissions st')" for m
    using assms that backed_grows [OF _ assms(2)] by (cases "m \<in> set (kb_admissions st)") (auto simp: kb_good_def)
  moreover have "answered t' st' g" if "g \<in> set (kb_gaps st)" "kg_state g = Gap_Closed" for g
    using assms(1) that answered_grows [OF _ assms(2)] by (simp add: kb_good_def)
  ultimately show ?thesis using assms(1,3,4) by (simp add: kb_good_def)
qed

text \<open>And a step that only rewrites the gap records.\<close>

lemma good_gaps:
  assumes "kb_good sha (t, st)" "gaps_ok gs"
    "\<forall>g \<in> set gs. kg_state g = Gap_Closed \<longrightarrow> answered t st g"
  shows "kb_good sha (t, st\<lparr>kb_gaps := gs\<rparr>)"
proof -
  have "admission_backed sha t (st\<lparr>kb_gaps := gs\<rparr>) m = admission_backed sha t st m" for m by (simp add: admission_backed_def)
  moreover have "answered t (st\<lparr>kb_gaps := gs\<rparr>) g = answered t st g" for g by (simp add: answered_def)
  ultimately show ?thesis using assms by (simp add: kb_good_def)
qed

lemma good_advance:
  assumes good: "kb_good (ke_sha env) (t, st)" and step: "kb_snapshot_advance env t k material st = Inr (w, st')"
  shows "kb_good (ke_sha env) (t, st')"
proof -
  obtain r item admission gap approver where r: "admission_row_at t k = Some r"
    and item: "admitted_item env (row_output r) material = Inr item"
    and wr: "write_advance env k
       (admission_from env k r admission gap approver (ka_body_sha256 item)) item st = Inr (w, st')"
    using step by (rule advance_write)
  let ?m = "admission_from env k r admission gap approver (ka_body_sha256 item)"
  note res = write_advance_cases [OF wr]
  note hash = admitted_item_result(2,3) [OF item]
  have arts: "articles_ok (ke_sha env) (kb_articles st)" using good by (simp add: kb_good_def)
  have articles: "kb_articles st' = kb_articles st @ copied_articles (ke_fresh env) (ad_snapshot_to ?m)
      (snapshot_of st (ad_org ?m) (ad_snapshot_from ?m))
      @ [item\<lparr>ka_id := ke_fresh env (length (snapshot_of st (ad_org ?m) (ad_snapshot_from ?m))), ka_org := ad_org ?m,
              ka_snapshot := ad_snapshot_to ?m\<rparr>]"
    by (simp add: res(2))
  have bodies: "list_all (\<lambda>a. ka_body_sha256 a = ke_sha env (ka_body a)) (kb_articles st)" using arts by (simp add: articles_ok_def)
  have "list_all (\<lambda>a. ka_body_sha256 a = ke_sha env (ka_body a)) (copied_articles (ke_fresh env) (ad_snapshot_to ?m)
      (snapshot_of st (ad_org ?m) (ad_snapshot_from ?m)))"
    by (rule copied_bodies) (use bodies in \<open>simp add: snapshot_of_def list_all_iff\<close>)
  then have art': "articles_ok (ke_sha env) (kb_articles st')" unfolding articles
    by (intro insert_articles_ok [OF arts _ res(1)]) (simp add: hash(1))
  show ?thesis
    by (rule good_growing [OF good advance_grows [OF step] _ art'])
      (use r hash in \<open>auto simp: res(2) admission_from_def admission_backed_def in_snapshot_def\<close>)
qed

lemma cites_answered:
  assumes "r \<in> set (kb_responses st)" "kr_grounded r = Some True" "kr_validate_ref r \<noteq> None" "cites_admitted st g r"
    "kg_closing_ref h = kr_validate_ref r" "kg_id h = kg_id g" "kg_org h = kg_org g"
  shows "answered t st h"
  using assms unfolding cites_admitted_def list_ex_iff answered_def by simp metis

lemma good_close:
  assumes good: "kb_good sha (t, st)" and step: "kb_gap_close_by_verification env i response st = Inr st'"
  shows "kb_good sha (t, st')"
proof -
  obtain g r where g: "g \<in> set (kb_gaps st)" "kg_id g = i" "kg_state g = Gap_Open"
    and r: "r \<in> set (kb_responses st)" "kr_grounded r = Some True" "kr_validate_ref r \<noteq> None" "cites_admitted st g r"
    and st': "st' = st\<lparr>kb_gaps := update_gap i (\<lambda>g. g\<lparr>kg_state := Gap_Closed,
       kg_closed_at := Some (ke_now env), kg_closing_ref := kr_validate_ref r\<rparr>) (kb_gaps st)\<rparr>"
    using step by (rule close_cases)
  let ?f = "\<lambda>h. if kg_id h = i then h\<lparr>kg_state := Gap_Closed, kg_closed_at := Some (ke_now env),
      kg_closing_ref := kr_validate_ref r\<rparr> else h"
  have gs: "gaps_ok (kb_gaps st)" using good by (simp add: kb_good_def)
  have same: "h = g" if "h \<in> set (kb_gaps st)" "kg_id h = i" for h
    using that g gs by (auto simp: gaps_ok_def distinct_map inj_on_def)
  have checks: "gap_checks h" if "h \<in> set (kb_gaps st)" for h using gs that by (simp add: gaps_ok_def)
  obtain l where l: "kr_validate_ref r = Some l" using r(3) by blast
  have "gap_checks (?f h)" if h: "h \<in> set (kb_gaps st)" for h
  proof (cases "kg_id h = i")
    case True
    then show ?thesis using gap_checks_close [OF checks [OF h]] same [OF h True] g(3) l by simp
  qed (use checks [OF h] in simp)
  then have "gaps_ok (map ?f (kb_gaps st))" by (intro gaps_ok_map [OF gs]) (simp_all split: if_splits)
  moreover have "answered t st (?f h)" if "h \<in> set (kb_gaps st)" "kg_state (?f h) = Gap_Closed" for h
    using that good same [OF that(1)] cites_answered [OF r, of "?f h"] by (auto simp: kb_good_def split: if_splits)
  ultimately show ?thesis unfolding st' update_gap_def 
    by (intro good_gaps [OF good]) (simp_all only: set_map ball_simps, blast)
qed

lemma good_mark:
  assumes good: "kb_good sha (t, st)" and step: "kb_gap_mark_not_documentable i reason st = Inr st'"
  shows "kb_good sha (t, st')"
proof -
  obtain why where why: "\<forall>g \<in> set (kb_gaps st). kg_id g = i \<and> kg_state g = Gap_Open \<longrightarrow>
      gap_checks (g\<lparr>kg_state := Gap_Not_Documentable, kg_reason := Some why\<rparr>)"
    and st': "st' = st\<lparr>kb_gaps := map (\<lambda>g. if kg_id g = i \<and> kg_state g = Gap_Open
       then g\<lparr>kg_state := Gap_Not_Documentable, kg_reason := Some why\<rparr> else g) (kb_gaps st)\<rparr>"
    using step by (rule mark_result)
  have gs: "gaps_ok (kb_gaps st)" using good by (simp add: kb_good_def)
  have checks: "gap_checks h" if "h \<in> set (kb_gaps st)" for h using gs that by (simp add: gaps_ok_def)
  let ?gs = "map (\<lambda>g. if kg_id g = i \<and> kg_state g = Gap_Open
       then g\<lparr>kg_state := Gap_Not_Documentable, kg_reason := Some why\<rparr> else g) (kb_gaps st)"
  have "gaps_ok ?gs"
    by (rule gaps_ok_map [OF gs]) (use why checks in \<open>simp_all split: if_splits\<close>)
  moreover have "answered t st h" if "h \<in> set ?gs" "kg_state h = Gap_Closed" for h
    using that good by (auto simp: kb_good_def split: if_splits)
  ultimately show ?thesis unfolding st' by (intro good_gaps [OF good]) blast+
qed

lemma run_good: "kb_run sha s s' \<Longrightarrow> kb_good sha s \<Longrightarrow> kb_good sha s'"
proof (induction rule: kb_run.induct)
  case (chained s t st rows)
  then have good: "kb_good sha (t, st)" by blast
  then show ?case by (rule good_growing) (use good_articles [OF good] in \<open>simp_all add: kb_grows_def\<close>)
next
  case (opened s t0 st0 t st env p i gs)
  have good: "kb_good sha (t, st)" using opened by blast
  then have ok: "gaps_ok (kb_gaps st)" by (simp add: kb_good_def)
  have "insert_gap env (length t) (opened_gap env p) (kb_gaps st) = Inr gs"
    using opened(3,4) by (auto elim: open_cases)
  note ins = gaps_ok_insert [OF ok this]
  then show ?case by (intro good_gaps [OF good]) (use good in \<open>auto simp: kb_good_def opened_gap_def\<close>)
next
  case (advanced s t st env k material w st')
  then show ?case using good_advance by blast
next
  case (closed s t st env i response st')
  then show ?case using good_close by blast
next
  case (marked s t st i reason st')
  then show ?case using good_mark by blast
next
  case (responded s t st env r st')
  then have good: "kb_good sha (t, st)" by blast
  then show ?case
    by (rule good_growing) (use response_result [OF responded(2)] good_articles [OF good] in \<open>simp_all add: kb_grows_def subset_insertI\<close>)
next
  case (cited s t st env c st')
  then have good: "kb_good sha (t, st)" by blast
  then show ?case
    by (rule good_growing) (use citation_result [OF cited(2)] good_articles [OF good] in \<open>simp_all add: kb_grows_def subset_insertI\<close>)
qed simp

subsection \<open>The properties\<close>

text \<open>A corpus as it is seeded: documents with their digests, and no gap, admission or answer yet.\<close>

definition kb_seeded :: "(jstr \<Rightarrow> jstr) \<Rightarrow> kb_store \<Rightarrow> bool" where
  "kb_seeded sha st = (articles_ok sha (kb_articles st) \<and> kb_gaps st = [] \<and> kb_admissions st = [])"

lemma seeded_good: "kb_seeded sha st \<Longrightarrow> kb_good sha (t, st)"
  by (simp add: kb_seeded_def kb_good_def gaps_ok_def)

text \<open>
  C33: However sessions interleave, a gap record that reads CLOSED rests on evidence in the tables: an answer
  marked grounded, whose validation row is the closing row of the gap, and which cites, in its own snapshot and
  in the organisation of the gap, an article standing under the key of a document that was admitted for this
  gap; the admission names a row of the chain of class \<open>kb_admission\<close> of that organisation, and the document
  has the digest the admission declares and fits an excerpt.
\<close>

theorem closed_gap_cites_what_was_admitted_for_it:
  assumes "kb_seeded sha st0" "kb_run sha (t0, st0) (t, st)" "g \<in> set (kb_gaps st)" "kg_state g = Gap_Closed"
  shows "\<exists>r \<in> set (kb_responses st). \<exists>m \<in> set (kb_admissions st). \<exists>a \<in> set (kb_articles st). \<exists>s \<in> set (kb_articles st).
      kr_grounded r = Some True \<and> kr_validate_ref r \<noteq> None \<and> kr_validate_ref r = kg_closing_ref g
      \<and> (\<exists>c \<in> set (kb_citations st). ci_response c = kr_id r \<and> ci_article c = ka_id s \<and> ci_snapshot c = ka_snapshot s)
      \<and> kr_snapshot r = Some (ka_snapshot s) \<and> ka_org s = kg_org g \<and> ka_canonical_key s = ka_canonical_key a
      \<and> ad_gap m = kg_id g \<and> ad_org m = kg_org g
      \<and> ad_article m = Some (ka_id a) \<and> in_snapshot (kg_org g) (ad_snapshot_to m) a
      \<and> ad_content_hash m = sha (ka_body a) \<and> code_points (ka_body a) \<le> 2048
      \<and> (\<exists>row. admission_row_at t (ad_ledger_ref m) = Some row \<and> org_id row = kg_org g)"
proof -
  have good: "kb_good sha (t, st)" using run_good [OF assms(2) seeded_good [OF assms(1)]] .
  then obtain r m a s where r: "r \<in> set (kb_responses st)" and m: "m \<in> set (kb_admissions st)"
    and a: "a \<in> set (kb_articles st)" "s \<in> set (kb_articles st)"
    and facts: "kr_grounded r = Some True" "kr_validate_ref r \<noteq> None" "kr_validate_ref r = kg_closing_ref g"
      "ad_gap m = kg_id g" "ad_org m = kg_org g" "ad_article m = Some (ka_id a)" "ka_snapshot a = ad_snapshot_to m"
      "ka_canonical_key s = ka_canonical_key a" "ka_org s = kg_org g" "kr_snapshot r = Some (ka_snapshot s)"
      "\<exists>c \<in> set (kb_citations st). ci_response c = kr_id r \<and> ci_article c = ka_id s \<and> ci_snapshot c = ka_snapshot s"
  proof -
    have "answered t st g" using good assms(3,4) by (simp add: kb_good_def)
    then show thesis using that unfolding answered_def by blast
  qed
  obtain row b where row: "admission_row_at t (ad_ledger_ref m) = Some row" "org_id row = ad_org m"
    and b: "b \<in> set (kb_articles st)" "ad_article m = Some (ka_id b)" "in_snapshot (ad_org m) (ad_snapshot_to m) b"
      "ad_content_hash m = sha (ka_body b)" "code_points (ka_body b) \<le> 2048"
    using good m unfolding kb_good_def admission_backed_def by auto
  have "ka_id a = ka_id b" using facts(6) b(2) by simp
  then have "b = a" using good_articles [OF good] a(1) b(1) unfolding articles_ok_def distinct_map inj_on_def by blast
  then show ?thesis using r m a facts row b
    by (intro bexI [of _ r] bexI [of _ m] bexI [of _ a] bexI [of _ s] conjI exI [of _ row]) simp_all
qed

text \<open>
  C34: A question has one standing record.  In every state the sessions can produce, opening a gap, with other
  sessions committing between its lookups and its insert, answers with the identity of a record that is in the
  table, for the same ticket, and for the same question while it stands or the same query; two records of one
  ticket and question that are both not closed are one record, and a question that already had a standing record
  when the writer began keeps it.
\<close>

theorem one_standing_record_per_question:
  assumes "kb_seeded sha st0" "kb_run sha (t0, st0) (t1, st1)" "kb_run sha (t1, st1) (t, st)"
    and opened: "kb_gap_open env (length t) (\<lambda>_. kb_gaps st) p (kb_gaps st1) = Inr (i, gs)"
  shows "(\<exists>g \<in> set gs. kg_id g = i \<and> (standing_for (go_ticket p) (the (go_question_sha256 p)) g
        \<or> same_query (go_ticket p) (the (go_query_sha256 p)) g))
    \<and> (\<forall>g \<in> set gs. \<forall>h \<in> set gs. kg_ticket g = kg_ticket h \<and> kg_question_sha256 g = kg_question_sha256 h
        \<and> kg_state g \<noteq> Gap_Closed \<and> kg_state h \<noteq> Gap_Closed \<longrightarrow> g = h)
    \<and> (\<forall>g \<in> set (kb_gaps st1). standing_for (go_ticket p) (the (go_question_sha256 p)) g \<longrightarrow>
        i = kg_id g \<and> gs = kb_gaps st1)"
proof -
  have "kb_good sha (t1, st1)" "kb_good sha (t, st)"
    using run_good [OF assms(2) seeded_good [OF assms(1)]] run_good [OF assms(3)] by blast+
  then have ok: "gaps_ok (kb_gaps st1)" "gaps_ok (kb_gaps st)" by (simp_all add: kb_good_def)
  have found: "\<exists>g \<in> set gs'. g = x \<and> (standing_for (go_ticket p) (the (go_question_sha256 p)) g
        \<or> same_query (go_ticket p) (the (go_query_sha256 p)) g)" if "find_gap p gs' = Some x" for gs' x
    using that unfolding find_gap_def by (auto simp: find_Some_iff split: option.splits)
  have gs: "gaps_ok gs" using opened
    by (rule open_cases) (use ok gaps_ok_insert in blast)+
  have 1: "\<exists>g \<in> set gs. kg_id g = i \<and> (standing_for (go_ticket p) (the (go_question_sha256 p)) g
        \<or> same_query (go_ticket p) (the (go_query_sha256 p)) g)"
    using opened by (rule open_cases) (use found in blast)+
  have 2: "g = h" if "g \<in> set gs" "h \<in> set gs" "kg_ticket g = kg_ticket h" "kg_question_sha256 g = kg_question_sha256 h"
    "kg_state g \<noteq> Gap_Closed" "kg_state h \<noteq> Gap_Closed" for g h
  proof -
    have "kg_id g = kg_id h" using gs that unfolding gaps_ok_def clash_def by blast
    then show ?thesis using gs that unfolding gaps_ok_def distinct_map inj_on_def by blast
  qed
  have 3: "i = kg_id g \<and> gs = kb_gaps st1"
    if g: "g \<in> set (kb_gaps st1)" "standing_for (go_ticket p) (the (go_question_sha256 p)) g" for g
  proof -
    let ?p = "standing_for (go_ticket p) (the (go_question_sha256 p))"
    obtain x where x: "List.find ?p (kb_gaps st1) = Some x"
      using g by (cases "List.find ?p (kb_gaps st1)") (auto simp: find_None_iff)
    then have "x \<in> set (kb_gaps st1)" "?p x" by (auto simp: find_Some_iff)
    then have "kg_id x = kg_id g" using g ok(1) unfolding gaps_ok_def clash_def standing_for_def by metis
    moreover have "find_gap p (kb_gaps st1) = Some x" using x by (simp add: find_gap_def)
    ultimately show ?thesis using opened by (auto elim: open_cases)
  qed
  show ?thesis using 1 2 3 by blast
qed

text \<open>What of an article a copy keeps.\<close>

definition document :: "kb_article \<Rightarrow> jstr \<times> jstr \<times> jstr \<times> jstr \<times> bool" where
  "document a = (ka_canonical_key a, ka_title a, ka_body a, ka_body_sha256 a, ka_citable a)"

lemma copied_document: "map document (copied_articles fresh snap as) = map document as"
proof -
  have "map document (copied_articles fresh snap as) = map document (map snd (zip [0..<length as] as))"
    unfolding copied_articles_def map_map by (rule map_cong [OF refl]) (auto simp: document_def)
  then show ?thesis by simp
qed

lemma copied_in_snapshot: "a \<in> set (copied_articles fresh snap as) \<Longrightarrow> ka_snapshot a = snap \<and> (\<exists>b \<in> set as. ka_org a = ka_org b)"
  by (auto simp: copied_articles_def dest: set_zip_rightD)

text \<open>
  C35: An advance adds one document and disturbs nothing.  When it succeeds, a person is advancing under the
  identity the row of the chain names as approver, the corpus was at the snapshot the row calls the outgoing
  one, and the row's new label was free; every snapshot of every organisation reads as before, except the new
  one, which holds the outgoing one document for document and then the admitted one; the head of that
  organisation alone moves, and gaps, answers and citations are untouched.
\<close>

theorem advance_adds_one_document:
  assumes "kb_snapshot_advance env t k material st = Inr (w, st')"
  shows "\<exists>r old new item. admission_row_at t k = Some r \<and> org_id r = cl_org (ke_claims env)
      \<and> json_text env (row_output r) ''snapshot_from'' = Some old \<and> json_text env (row_output r) ''snapshot_to'' = Some new
      \<and> old \<noteq> new \<and> map_option hd_snapshot (kb_heads st (org_id r)) = Some old
      \<and> (\<exists>who. to_uuid env (json_text env (row_output r) ''approved_by'') = Inr (Some who) \<and> cl_sub (ke_claims env) = Some who)
      \<and> snapshot_of st (org_id r) new = []
      \<and> map document (snapshot_of st' (org_id r) new) = map document (snapshot_of st (org_id r) old) @ [document item]
      \<and> admitted_item env (row_output r) material = Inr item
      \<and> (\<forall>org snap. (org, snap) \<noteq> (org_id r, new) \<longrightarrow> snapshot_of st' org snap = snapshot_of st org snap)
      \<and> kb_heads st' = (kb_heads st)(org_id r \<mapsto> \<lparr>hd_snapshot = new, hd_set_by = Some k\<rparr>)
      \<and> kb_gaps st' = kb_gaps st \<and> kb_responses st' = kb_responses st \<and> kb_citations st' = kb_citations st
      \<and> (\<exists>m. kb_admissions st' = kb_admissions st @ [m] \<and> ad_ledger_ref m = k)"
  using assms
proof (rule advance_cases)
  fix r item admission approver and g :: kb_gap
  assume r: "admission_row_at t k = Some r" "org_id r = cl_org (ke_claims env)"
    and who: "to_uuid env (json_text env (row_output r) ''approved_by'') = Inr (Some approver)" "cl_sub (ke_claims env) = Some approver"
    and some: "json_text env (row_output r) ''snapshot_from'' \<noteq> None" "json_text env (row_output r) ''snapshot_to'' \<noteq> None"
    and ne: "json_text env (row_output r) ''snapshot_from'' \<noteq> json_text env (row_output r) ''snapshot_to''"
    and free: "\<not> list_ex (in_snapshot (org_id r) (the (json_text env (row_output r) ''snapshot_to''))) (kb_articles st)"
    and head: "map_option hd_snapshot (kb_heads st (org_id r)) = json_text env (row_output r) ''snapshot_from''"
    and item: "admitted_item env (row_output r) material = Inr item"
    and wr: "write_advance env k (admission_from env k r admission (kg_id g) approver (ka_body_sha256 item)) item st = Inr (w, st')"
  obtain old new where on: "json_text env (row_output r) ''snapshot_from'' = Some old" "json_text env (row_output r) ''snapshot_to'' = Some new"
    using some by blast
  define m where "m = admission_from env k r admission (kg_id g) approver (ka_body_sha256 item)"
  have m: "ad_org m = org_id r" "ad_snapshot_from m = old" "ad_snapshot_to m = new" "ad_ledger_ref m = k"
    by (simp_all add: m_def admission_from_def on)
  define was where "was = snapshot_of st (org_id r) old"
  define more where "more = copied_articles (ke_fresh env) new was
      @ [item\<lparr>ka_id := ke_fresh env (length was), ka_org := org_id r, ka_snapshot := new\<rparr>]"
  have st': "st' = st\<lparr>kb_articles := kb_articles st @ more,
       kb_admissions := kb_admissions st @ [m\<lparr>ad_article := Some (ke_fresh env (length was))\<rparr>],
       kb_heads := (kb_heads st)(org_id r \<mapsto> \<lparr>hd_snapshot = new, hd_set_by = Some k\<rparr>)\<rparr>"
    using write_advance_cases(2) [OF wr [folded m_def]] by (simp add: m more_def was_def)
  have inside: "in_snapshot (org_id r) new a" if "a \<in> set more" for a
    using that copied_in_snapshot [of a "ke_fresh env" new was] by (auto simp: more_def was_def snapshot_of_def in_snapshot_def)
  have none: "snapshot_of st (org_id r) new = []" using free on by (simp add: snapshot_of_def filter_empty_conv list_ex_iff)
  have "snapshot_of st' (org_id r) new = more" using none inside by (simp add: snapshot_of_def st' filter_id_conv)
  then have "map document (snapshot_of st' (org_id r) new) = map document was @ [document item]"
    by (simp add: more_def copied_document document_def)
  moreover have "snapshot_of st' org snap = snapshot_of st org snap" if "(org, snap) \<noteq> (org_id r, new)" for org snap
  proof -
    have "filter (in_snapshot org snap) more = []" using inside that by (auto simp: filter_empty_conv in_snapshot_def)
    then show ?thesis by (simp add: snapshot_of_def st')
  qed
  ultimately show ?thesis using r who on ne head item none
    by (intro exI [of _ r] exI [of _ old] exI [of _ new] exI [of _ item]) (simp add: st' m was_def)
qed

subsection \<open>One cycle on concrete tables\<close>

definition sample_kb_env :: kb_env where
  "sample_kb_env = \<lparr>ke_claims = \<lparr>cl_org = u ''o'', cl_role = Some Supervisor, cl_sub = Some (u ''p'')\<rparr>, ke_now = 0,
     ke_fresh = (\<lambda>i. u ''n'' @ nat_digits i), ke_users = [(u ''p'', u ''o'')],
     ke_ticket_org = (\<lambda>t. if t = u ''t'' then Some (u ''o'') else None), posix_space = (\<lambda>c. c = 32), uuid_of = Some,
     date_of = (\<lambda>_. None), jsonb_accepts = (\<lambda>_. True), jsonb_text = (\<lambda>_. []), ke_sha = sample_sha\<rparr>"

definition sample_kb :: kb_store where
  "sample_kb = \<lparr>kb_articles = [\<lparr>ka_id = u ''a'', ka_org = u ''o'', ka_snapshot = u ''s1'', ka_canonical_key = u ''k'',
       ka_title = u ''T'', ka_body = u ''B'', ka_body_sha256 = sample_sha [], ka_citable = True\<rparr>],
     kb_heads = [u ''o'' \<mapsto> \<lparr>hd_snapshot = u ''s1'', hd_set_by = None\<rparr>], kb_gaps = [], kb_admissions = [],
     kb_responses = [], kb_citations = []\<rparr>"

definition sample_opening :: gap_opening where
  "sample_opening = \<lparr>go_gap = u ''g'', go_org = u ''o'', go_ticket = u ''t'', go_query_terms = Some (u ''why''),
     go_kb_snapshot = Some (u ''s1''), go_zero_match = Some True, go_query_sha256 = Some (sample_sha []),
     go_question_sha256 = Some (sample_sha []), go_owner = Some (u ''p''), go_committed_date = Some 1,
     go_null_rule = Some (u ''rule''), go_divergent = None, go_ledger = None\<rparr>"

definition sample_chain :: ledger_table where
  "sample_chain = [sample_linked\<lparr>class_of := KbAdmission, ticket_id := Some (u ''t''), row_output := JObj
     [(u ''admission_id'', JStr (u ''ad'')), (u ''gap_id'', JStr (u ''g'')), (u ''approved_by'', JStr (u ''p'')),
      (u ''snapshot_from'', JStr (u ''s1'')), (u ''snapshot_to'', JStr (u ''s2'')),
      (u ''content_hash'', JStr (sample_sha [])), (u ''provenance'', JObj [])]\<rparr>]"

definition sample_material :: jsval where
  "sample_material = JArr [JObj [(u ''canonical_key'', JStr (u ''new'')), (u ''title'', JStr (u ''N'')),
     (u ''body'', JStr (u ''answer'')), (u ''citable'', JBool True)]]"

definition sample_answer :: kb_response where
  "sample_answer = \<lparr>kr_id = u ''r'', kr_ticket = u ''t'', kr_draft = u ''d'', kr_snapshot = Some (u ''s2''),
     kr_grounded = Some True, kr_validated_at = Some 0, kr_draft_ref = Some 0, kr_validate_ref = Some 0,
     kr_unsupported = Some (JArr []), kr_created = 0\<rparr>"

definition sample_gap_open :: kb_store where
  "sample_gap_open = sample_kb\<lparr>kb_gaps :=
     snd (projr (kb_gap_open sample_kb_env 1 (\<lambda>_. []) sample_opening []))\<rparr>"

definition sample_admitted :: kb_store where
  "sample_admitted = snd (projr (kb_snapshot_advance sample_kb_env sample_chain 0 sample_material sample_gap_open))"

definition sample_responded :: kb_store where
  "sample_responded = projr (insert_response sample_kb_env 1 sample_answer sample_admitted)"

definition sample_cited :: kb_store where
  "sample_cited = projr (insert_citation sample_kb_env
     \<lparr>ci_response = u ''r'', ci_article = u ''n1'', ci_snapshot = u ''s2''\<rparr> sample_responded)"

definition sample_closed :: kb_store where
  "sample_closed = projr (kb_gap_close_by_verification sample_kb_env (u ''g'') (u ''r'') sample_cited)"

lemma sample_outcomes:
  "\<not> isl (kb_gap_open sample_kb_env 1 (\<lambda>_. []) sample_opening [])" "find_gap sample_opening [] = None"
  "\<not> isl (kb_snapshot_advance sample_kb_env sample_chain 0 sample_material sample_gap_open)"
  "\<not> isl (insert_response sample_kb_env 1 sample_answer sample_admitted)"
  "\<not> isl (insert_citation sample_kb_env \<lparr>ci_response = u ''r'', ci_article = u ''n1'', ci_snapshot = u ''s2''\<rparr> sample_responded)"
  "\<not> isl (kb_gap_close_by_verification sample_kb_env (u ''g'') (u ''r'') sample_cited)"
  "map kg_state (kb_gaps sample_closed) = [Gap_Closed]" "length sample_chain = 1"
  by code_simp+

lemma sample_digest: "ke_sha sample_kb_env = sample_sha"
  by (simp add: sample_kb_env_def)

lemma Inr_pair: "\<not> isl x \<Longrightarrow> x = Inr (fst (projr x), snd (projr x))"
  by (cases x) simp_all

lemma sample_seeded: "kb_seeded sample_sha sample_kb"
  by (simp add: kb_seeded_def sample_kb_def articles_ok_def sample_sha_def)

lemma sample_run_open: "kb_run sample_sha ([], sample_kb) (sample_chain, sample_gap_open)"
proof -
  have "kb_run sample_sha ([], sample_kb) ([] @ sample_chain, sample_kb)" by (rule chained [OF begun])
  then have r: "kb_run sample_sha ([], sample_kb) (sample_chain, sample_kb)" by simp
  have gaps: "kb_gaps sample_kb = []" by (simp add: sample_kb_def)
  show ?thesis unfolding sample_gap_open_def
  proof (rule opened [OF r begun])
    show "kb_gap_open sample_kb_env (length sample_chain) (\<lambda>_. kb_gaps sample_kb) sample_opening (kb_gaps sample_kb)
        = Inr (fst (projr (kb_gap_open sample_kb_env 1 (\<lambda>_. []) sample_opening [])),
               snd (projr (kb_gap_open sample_kb_env 1 (\<lambda>_. []) sample_opening [])))"
      unfolding gaps sample_outcomes(8) by (rule Inr_pair [OF sample_outcomes(1)])
    show "find_gap sample_opening (kb_gaps sample_kb) = None" unfolding gaps by (rule sample_outcomes(2))
  qed
qed

lemma sample_advance:
  "kb_snapshot_advance sample_kb_env sample_chain 0 sample_material sample_gap_open
     = Inr (fst (projr (kb_snapshot_advance sample_kb_env sample_chain 0 sample_material sample_gap_open)), sample_admitted)"
  unfolding sample_admitted_def by (rule Inr_pair [OF sample_outcomes(3)])

lemma sample_run_closed: "kb_run sample_sha ([], sample_kb) (sample_chain, sample_closed)"
proof -
  have ok: "x = Inr (projr x)" if "\<not> isl x" for x :: "kb_error + kb_store" using that by (cases x) simp_all
  have "kb_run sample_sha ([], sample_kb) (sample_chain, sample_admitted)"
    by (rule advanced [OF sample_run_open sample_digest sample_advance])
  then have "kb_run sample_sha ([], sample_kb) (sample_chain, sample_responded)"
    by (rule responded) (use ok [OF sample_outcomes(4)] in \<open>simp only: sample_responded_def sample_outcomes(8)\<close>)
  then have "kb_run sample_sha ([], sample_kb) (sample_chain, sample_cited)"
    by (rule cited) (use ok [OF sample_outcomes(5)] in \<open>simp only: sample_cited_def\<close>)
  then show ?thesis
    by (rule closed) (use ok [OF sample_outcomes(6)] in \<open>simp only: sample_closed_def\<close>)
qed

theorem closed_gap_cites_what_was_admitted_for_it_witness:
  "\<exists>g \<in> set (kb_gaps sample_closed). kg_state g = Gap_Closed \<and>
     (\<exists>r \<in> set (kb_responses sample_closed). kr_grounded r = Some True \<and> kr_validate_ref r = kg_closing_ref g)"
proof -
  obtain g where g: "g \<in> set (kb_gaps sample_closed)" "kg_state g = Gap_Closed"
    using sample_outcomes(7) by (cases "kb_gaps sample_closed") auto
  show ?thesis
    using closed_gap_cites_what_was_admitted_for_it [OF sample_seeded sample_run_closed g] g by blast
qed

theorem one_standing_record_per_question_witness:
  "\<exists>i gs. kb_gap_open sample_kb_env (length sample_chain) (\<lambda>_. kb_gaps sample_gap_open)
       (sample_opening\<lparr>go_gap := u ''h''\<rparr>) (kb_gaps sample_gap_open) = Inr (i, gs)
     \<and> (\<exists>g \<in> set gs. kg_id g = i)"
proof -
  let ?r = "kb_gap_open sample_kb_env (length sample_chain) (\<lambda>_. kb_gaps sample_gap_open)
       (sample_opening\<lparr>go_gap := u ''h''\<rparr>) (kb_gaps sample_gap_open)"
  have "\<not> isl ?r" by code_simp
  note eq = Inr_pair [OF this]
  show ?thesis
    using one_standing_record_per_question [OF sample_seeded sample_run_open begun eq] eq by blast
qed

theorem advance_adds_one_document_witness:
  "kb_heads sample_admitted (u ''o'') = Some \<lparr>hd_snapshot = u ''s2'', hd_set_by = Some 0\<rparr>
   \<and> (\<exists>item. map document (snapshot_of sample_admitted (u ''o'') (u ''s2''))
        = map document (snapshot_of sample_gap_open (u ''o'') (u ''s1'')) @ [document item])"
proof -
  have r: "admission_row_at sample_chain 0 = Some (hd sample_chain)" "org_id (hd sample_chain) = u ''o''"
    "json_text sample_kb_env (row_output (hd sample_chain)) ''snapshot_from'' = Some (u ''s1'')"
    "json_text sample_kb_env (row_output (hd sample_chain)) ''snapshot_to'' = Some (u ''s2'')"
    by code_simp+
  obtain x old new item where x: "admission_row_at sample_chain 0 = Some x"
      "json_text sample_kb_env (row_output x) ''snapshot_from'' = Some old" "json_text sample_kb_env (row_output x) ''snapshot_to'' = Some new"
    and docs: "map document (snapshot_of sample_admitted (org_id x) new)
        = map document (snapshot_of sample_gap_open (org_id x) old) @ [document item]"
    and heads: "kb_heads sample_admitted = (kb_heads sample_gap_open)(org_id x \<mapsto> \<lparr>hd_snapshot = new, hd_set_by = Some 0\<rparr>)"
    using advance_adds_one_document [OF sample_advance] by blast
  have row: "x = hd sample_chain" using x(1) r(1) by simp
  have labels: "old = u ''s1''" "new = u ''s2''" using x(2,3) r(3,4) unfolding row by simp_all
  show ?thesis using docs heads unfolding row labels r(2) by auto
qed

end
