(* ===== verification/Js_Calendar.thy ===== *)
theory Js_Calendar
  imports Js_Date
begin

section \<open>The order of dates and the order of their text\<close>

text \<open>
  Days in text, as \<open>toISOString().slice(0, 10)\<close> writes them, compare as the days do while the year has four
  digits.  The years of an era of 146097 days start at \<open>year_start\<close>; that the formula of \<open>civil_of_days\<close> finds
  the year of a day is checked at both ends of each of the 400 years and holds between them, because what it
  divides by 365 never decreases.
\<close>

definition year_start :: "int \<Rightarrow> int" where
  "year_start y = (if y = 400 then 146097 else 365 * y + y div 4 - y div 100)"

definition year_sum :: "int \<Rightarrow> int" where
  "year_sum doe = doe - doe div 1460 + doe div 36524 - doe div 146096"

lemma sum_grows:
  fixes d :: int
  shows "s' \<le> s + 1 \<Longrightarrow> q' = q \<and> r' = r \<or> q' = q + 1 \<and> r' \<le> r + 1 \<Longrightarrow> d - s + q - r \<le> d + 1 - s' + q' - r'"
  by linarith

lemma year_sum_step: "year_sum doe \<le> year_sum (doe + 1)"
proof -
  have quarter: "x div 146096 = x div 36524 div 4" for x :: int using zdiv_zmult2_eq [of 4 x 36524] by simp
  have step: "(x + 1) div n = x div n \<or> (x + 1) div n = x div n + 1" if "0 < n" for x n :: int
  proof -
    have "x div n \<le> (x + 1) div n" "(x + 1) div n \<le> (x + n) div n" by (rule zdiv_mono1, use that in linarith, rule that)+
    moreover have "(x + n) div n = x div n + 1" using that by simp
    ultimately show ?thesis by linarith
  qed
  show ?thesis unfolding year_sum_def quarter
  proof (rule sum_grows)
    show "(doe + 1) div 1460 \<le> doe div 1460 + 1" using step [of 1460 doe] by linarith
    show "(doe + 1) div 36524 = doe div 36524 \<and> (doe + 1) div 36524 div 4 = doe div 36524 div 4
        \<or> (doe + 1) div 36524 = doe div 36524 + 1 \<and> (doe + 1) div 36524 div 4 \<le> doe div 36524 div 4 + 1"
      using step [of 36524 doe, OF zero_less_numeral]
    proof
      assume up: "(doe + 1) div 36524 = doe div 36524 + 1"
      have "(doe div 36524 + 1) div 4 \<le> doe div 36524 div 4 + 1" using step [of 4 "doe div 36524"] by linarith
      then show ?thesis unfolding up by (intro disjI2 conjI refl)
    next
      assume "(doe + 1) div 36524 = doe div 36524"
      then show ?thesis by (intro disjI1 conjI) (simp_all only:)
    qed
  qed
qed

lemma year_sum_mono: "0 \<le> a \<Longrightarrow> a \<le> b \<Longrightarrow> year_sum a \<le> year_sum b"
proof (induction "nat (b - a)" arbitrary: b)
  case (Suc n)
  then have "year_sum a \<le> year_sum (b - 1)" by simp
  also have "\<dots> \<le> year_sum b" using year_sum_step [of "b - 1"] by simp
  finally show ?case .
qed simp

lemma year_ends:
  "list_all (\<lambda>y. year_sum (year_start y) div 365 = y \<and> year_sum (year_start (y + 1) - 1) div 365 = y
      \<and> year_start (y + 1) - year_start y \<le> 366) [0..399]"
  by code_simp

lemma year_of_day:
  assumes "0 \<le> y" "y < 400" "year_start y \<le> doe" "doe < year_start (y + 1)"
  shows "year_sum doe div 365 = y" "doe - year_start y \<le> 365"
proof -
  have y: "y \<in> set [0..399]" using assms by simp
  have start: "0 \<le> year_start y" using assms by (simp add: year_start_def)
  have "year_sum (year_start y) div 365 = y" "year_sum (year_start (y + 1) - 1) div 365 = y"
    and len: "year_start (y + 1) - year_start y \<le> 366"
    using year_ends y unfolding list_all_iff by blast+
  moreover have "year_sum (year_start y) \<le> year_sum doe" "year_sum doe \<le> year_sum (year_start (y + 1) - 1)"
    using start assms by (auto intro!: year_sum_mono)
  ultimately show "year_sum doe div 365 = y"
    by (metis antisym zdiv_mono1 zero_less_numeral)
  show "doe - year_start y \<le> 365" using len assms(4) by linarith
qed

lemma day_in_some_year: "0 \<le> doe \<Longrightarrow> doe < year_start (int k) \<Longrightarrow> \<exists>y. 0 \<le> y \<and> y < int k \<and> year_start y \<le> doe \<and> doe < year_start (y + 1)"
proof (induction k)
  case (Suc k)
  show ?case
  proof (cases "doe < year_start (int k)")
    case True
    then obtain y where "0 \<le> y \<and> y < int k \<and> year_start y \<le> doe \<and> doe < year_start (y + 1)" using Suc by blast
    then show ?thesis by (intro exI [of _ y]) auto
  next
    case False
    then show ?thesis using Suc.prems by (intro exI [of _ "int k"]) (auto simp: algebra_simps)
  qed
qed (simp add: year_start_def)

text \<open>The shifted calendar, whose year starts in March: its year, the day in it and its month.\<close>

definition shifted_year :: "int \<Rightarrow> int" where
  "shifted_year days = year_sum ((days + 719468) mod 146097) div 365 + (days + 719468) div 146097 * 400"

definition day_of_year :: "int \<Rightarrow> int" where
  "day_of_year days =
     (let doe = (days + 719468) mod 146097; y = year_sum doe div 365 in doe - (365 * y + y div 4 - y div 100))"

definition month_index :: "int \<Rightarrow> int" where
  "month_index doy = (5 * doy + 2) div 153"

lemma civil_shifted:
  "civil_of_days days =
     (let mp = month_index (day_of_year days); m = (if mp < 10 then mp + 3 else mp - 9)
      in (shifted_year days + (if m \<le> 2 then 1 else 0), m, day_of_year days - (153 * mp + 2) div 5 + 1))"
  unfolding civil_of_days_def shifted_year_def day_of_year_def month_index_def year_sum_def Let_def by (rule refl)

lemma year_days:
  obtains y where "0 \<le> y" "y < 400" "shifted_year days = y + (days + 719468) div 146097 * 400"
    "day_of_year days = (days + 719468) mod 146097 - year_start y" "0 \<le> day_of_year days" "day_of_year days \<le> 365"
proof -
  let ?doe = "(days + 719468) mod 146097"
  have "0 \<le> ?doe" "?doe < year_start (int 400)" by (simp_all add: year_start_def)
  from day_in_some_year [OF this] obtain y where y: "0 \<le> y" "y < 400" "year_start y \<le> ?doe" "?doe < year_start (y + 1)" by auto
  note year = year_of_day [OF y]
  have start: "365 * y + y div 4 - y div 100 = year_start y" using y(2) by (simp add: year_start_def)
  show ?thesis
    by (rule that [of y]) (use y year start in \<open>simp_all add: shifted_year_def day_of_year_def Let_def\<close>)
qed

lemma month_range:
  assumes "0 \<le> doy" "doy \<le> 365"
  shows "0 \<le> month_index doy" "month_index doy \<le> 11"
    "1 \<le> doy - (153 * month_index doy + 2) div 5 + 1" "doy - (153 * month_index doy + 2) div 5 + 1 \<le> 31"
proof -
  define mp q where "mp = month_index doy" and "q = (153 * mp + 2) div 5"
  have mp: "153 * mp \<le> 5 * doy + 2" "5 * doy + 2 < 153 * mp + 153" unfolding mp_def month_index_def by linarith+
  have q: "5 * q \<le> 153 * mp + 2" "153 * mp + 2 < 5 * q + 5" unfolding q_def by linarith+
  show "0 \<le> month_index doy" "month_index doy \<le> 11" using mp assms unfolding mp_def [symmetric] by linarith+
  have "q \<le> doy" "doy - q \<le> 30" using mp q by linarith+
  then show "1 \<le> doy - (153 * month_index doy + 2) div 5 + 1" "doy - (153 * month_index doy + 2) div 5 + 1 \<le> 31"
    unfolding q_def mp_def by simp_all
qed

text \<open>A day counted by month and then by the day of the month.\<close>

fun day_key :: "int \<times> int \<times> int \<Rightarrow> int \<times> int" where
  "day_key (y, m, d) = (12 * y + m, d)"

lemma day_key_civil:
  "day_key (civil_of_days days) = (12 * shifted_year days + month_index (day_of_year days) + 3,
     day_of_year days - (153 * month_index (day_of_year days) + 2) div 5 + 1)"
proof -
  obtain y where "0 \<le> day_of_year days" "day_of_year days \<le> 365" by (rule year_days)
  then have "0 \<le> month_index (day_of_year days)" "month_index (day_of_year days) \<le> 11" by (rule month_range)+
  then show ?thesis unfolding civil_shifted Let_def by auto
qed

lemma era_years: "0 \<le> y \<Longrightarrow> y < 400 \<Longrightarrow> 0 \<le> z \<Longrightarrow> z < 400 \<Longrightarrow> y + e * 400 = z + f * 400 \<Longrightarrow> y = z \<and> e = (f :: int)"
proof -
  assume a: "0 \<le> y" "y < 400" "0 \<le> z" "z < 400" "y + e * 400 = z + f * 400"
  then have "e \<le> f" "f \<le> e" by linarith+
  then show "y = z \<and> e = f" using a(5) by simp
qed

lemma day_key_mono:
  assumes "a \<le> b"
  shows "fst (day_key (civil_of_days a)) < fst (day_key (civil_of_days b))
    \<or> fst (day_key (civil_of_days a)) = fst (day_key (civil_of_days b))
        \<and> snd (day_key (civil_of_days a)) \<le> snd (day_key (civil_of_days b))"
proof -
  define e f p q where "e = (a + 719468) div 146097" and "f = (b + 719468) div 146097"
    and "p = (a + 719468) mod 146097" and "q = (b + 719468) mod 146097"
  have split: "a + 719468 = e * 146097 + p" "b + 719468 = f * 146097 + q"
    unfolding e_def f_def p_def q_def by (rule div_mult_mod_eq [symmetric])+
  have pq: "0 \<le> p" "p < 146097" "0 \<le> q" "q < 146097" unfolding p_def q_def by simp_all
  obtain y where y: "0 \<le> y" "y < 400" "shifted_year a = y + e * 400" "day_of_year a = p - year_start y"
      "0 \<le> day_of_year a" "day_of_year a \<le> 365"
    using year_days [of a] unfolding e_def p_def by metis
  obtain z where z: "0 \<le> z" "z < 400" "shifted_year b = z + f * 400" "day_of_year b = q - year_start z"
      "0 \<le> day_of_year b" "day_of_year b \<le> 365"
    using year_days [of b] unfolding f_def q_def by metis
  note ma = month_range [OF y(5,6)] and mb = month_range [OF z(5,6)]
  have era: "e \<le> f" using assms unfolding e_def f_def by (simp add: zdiv_mono1)
  have years: "shifted_year a \<le> shifted_year b"
  proof (cases "e = f")
    case True
    then have doe: "p \<le> q" using assms split by linarith
    have "year_sum p div 365 \<le> year_sum q div 365" using year_sum_mono [OF pq(1) doe] by (simp add: zdiv_mono1)
    then show ?thesis using True unfolding shifted_year_def e_def [symmetric] f_def [symmetric] p_def [symmetric] q_def [symmetric] by simp
  next
    case False
    then show ?thesis using era y(1-3) z(1-3) by linarith
  qed
  show ?thesis
  proof (cases "shifted_year a = shifted_year b")
    case True
    then have "y + e * 400 = z + f * 400" using y(3) z(3) by linarith
    then have same: "y = z" "e = f" using era_years [OF y(1,2) z(1,2)] by blast+
    have "p \<le> q" using assms split same(2) by linarith
    then have doy: "day_of_year a \<le> day_of_year b" using y(4) z(4) same(1) by simp
    then have "month_index (day_of_year a) \<le> month_index (day_of_year b)" unfolding month_index_def by (simp add: zdiv_mono1)
    then show ?thesis unfolding day_key_civil True fst_conv snd_conv
      by (cases "month_index (day_of_year a) = month_index (day_of_year b)") (simp_all only: doy diff_right_mono add_right_mono less_le, simp_all)
  next
    case False
    have "fst (day_key (civil_of_days a)) < fst (day_key (civil_of_days b))"
      unfolding day_key_civil fst_conv using False years ma(1,2) mb(1,2) by linarith
    then show ?thesis by (rule disjI1)
  qed
qed

lemma civil_ranges:
  assumes "civil_of_days days = (y, m, d)"
  shows "1 \<le> m" "m \<le> 12" "1 \<le> d" "d \<le> 31"
proof -
  obtain v where "0 \<le> day_of_year days" "day_of_year days \<le> 365" by (rule year_days)
  note r = month_range [OF this]
  show "1 \<le> m" "m \<le> 12" "1 \<le> d" "d \<le> 31" using assms r unfolding civil_shifted Let_def by (auto split: if_splits)
qed

subsection \<open>The text of a day\<close>

lemma padded_digits: "\<forall>c \<in> set (padded w n). 48 \<le> c \<and> c \<le> 57"
  unfolding padded_def by (rule pad_start_digits)

lemma padded_length: "0 < w \<Longrightarrow> n < 10 ^ w \<Longrightarrow> length (padded w n) = w"
proof -
  assume w: "0 < w" "n < 10 ^ w"
  then have "nat n < 10 ^ w" by (simp add: nat_less_iff)
  then have "length (nat_digits (nat n)) \<le> w" using w(1) by (rule length_nat_digits_bound)
  then show ?thesis unfolding padded_def by (rule length_pad_start)
qed

lemma padded_less: "0 < w \<Longrightarrow> 0 \<le> a \<Longrightarrow> 0 \<le> b \<Longrightarrow> a < 10 ^ w \<Longrightarrow> b < 10 ^ w \<Longrightarrow> padded w a < padded w b \<longleftrightarrow> a < b"
  using digits_less_iff [of "padded w a" "padded w b"] padded_digits padded_length [of w a] padded_length [of w b]
  by (auto simp: padded_def nat_less_iff)

definition iso_day_text :: "int \<Rightarrow> jstr" where
  "iso_day_text days = (case civil_of_days days of (y, m, d) \<Rightarrow> year_text y @ u ''-'' @ padded 2 m @ u ''-'' @ padded 2 d)"

definition plain_year :: "int \<Rightarrow> bool" where
  "plain_year days = (case civil_of_days days of (y, _) \<Rightarrow> 0 \<le> y \<and> y \<le> 9999)"

lemma day_text_form:
  assumes "plain_year days" "civil_of_days days = (y, m, d)"
  shows "iso_day_text days = padded 4 y @ u ''-'' @ padded 2 m @ u ''-'' @ padded 2 d"
  using assms by (simp add: plain_year_def iso_day_text_def year_text_def)

lemma take_iso:
  assumes "plain_year (ms div MS_PER_DAY)"
  shows "take 10 (toISOString ms) = iso_day_text (ms div MS_PER_DAY)"
proof -
  obtain y m d where c: "civil_of_days (ms div MS_PER_DAY) = (y, m, d)" by (cases "civil_of_days (ms div MS_PER_DAY)")
  have y: "0 \<le> y" "y \<le> 9999" using assms c by (simp_all add: plain_year_def)
  note r = civil_ranges [OF c]
  have len: "length (padded 4 y) = 4" "length (padded 2 m) = 2" "length (padded 2 d) = 2"
    using y r by (auto intro!: padded_length)
  have "toISOString ms = iso_day_text (ms div MS_PER_DAY) @ drop 10 (toISOString ms)"
    using y len by (simp add: toISOString_def iso_day_text_def c year_text_def Let_def)
  moreover have "length (iso_day_text (ms div MS_PER_DAY)) = 10" using y len by (simp add: iso_day_text_def c year_text_def)
  ultimately show ?thesis by (metis append_eq_conv_conj)
qed

theorem day_text_mono:
  assumes "a \<le> b" "plain_year a" "plain_year b"
  shows "\<not> iso_day_text b < iso_day_text a"
proof -
  obtain y m d where a: "civil_of_days a = (y, m, d)" by (cases "civil_of_days a")
  obtain y' m' d' where b: "civil_of_days b = (y', m', d')" by (cases "civil_of_days b")
  note ra = civil_ranges [OF a] and rb = civil_ranges [OF b]
  have ya: "0 \<le> y" "y \<le> 9999" "0 \<le> y'" "y' \<le> 9999" using assms(2,3) a b by (simp_all add: plain_year_def)
  have key: "12 * y + m < 12 * y' + m' \<or> 12 * y + m = 12 * y' + m' \<and> d \<le> d'" using day_key_mono [OF assms(1)] a b by simp
  have later: "y < y' \<or> y = y' \<and> (m < m' \<or> m = m' \<and> d \<le> d')"
    using key
  proof
    assume "12 * y + m < 12 * y' + m'"
    then show ?thesis using ra(1,2) rb(1,2) by linarith
  next
    assume same: "12 * y + m = 12 * y' + m' \<and> d \<le> d'"
    then have "y = y'" using ra(1,2) rb(1,2) by linarith
    then show ?thesis using same by simp
  qed
  have eqs: "length (padded 4 y') = length (padded 4 y)" "length (padded 2 m') = length (padded 2 m)"
    using ya ra rb padded_length [of 4 y] padded_length [of 4 y'] padded_length [of 2 m] padded_length [of 2 m'] by simp_all
  have less: "padded 4 y' < padded 4 y \<longleftrightarrow> y' < y" "padded 2 m' < padded 2 m \<longleftrightarrow> m' < m" "padded 2 d' < padded 2 d \<longleftrightarrow> d' < d"
    "padded 4 y < padded 4 y' \<longleftrightarrow> y < y'" "padded 2 m < padded 2 m' \<longleftrightarrow> m < m'"
    using ya ra rb by (simp_all add: padded_less)
  have "\<not> padded 4 y' < padded 4 y" "padded 4 y' = padded 4 y \<longrightarrow> \<not> padded 2 m' < padded 2 m"
    "padded 4 y' = padded 4 y \<and> padded 2 m' = padded 2 m \<longrightarrow> \<not> padded 2 d' < padded 2 d"
    using later less by auto
  moreover have "u ''-'' = [45]" by code_simp
  ultimately show ?thesis
    unfolding day_text_form [OF assms(2) a] day_text_form [OF assms(3) b] append_less_same_length [OF eqs(1)]
    by (simp add: append_less_same_length [OF eqs(2)])
qed

end
