(* ===== verification/Kb_Gap.thy ===== *)
theory Kb_Gap
  imports Kb_Invariant Js_Calendar
begin

section \<open>The two ends of the gap channel\<close>

text \<open>
  \<open>src/src/server/kb/gap.ts\<close> and \<open>src/src/server/kb/commitment.ts\<close>: the commitments declared in advance,
  the record the producer builds from one, the receiver that checks it against the query it mediated and
  hands it to the writer of the database, and the emission whose refusals never take the escalation down.
\<close>

subsection \<open>Commitments\<close>

record gap_commitment =
  gc_ref :: jstr
  gc_org_id :: jstr
  gc_owner_id :: jstr
  gc_declared_by :: jstr
  gc_declared_on :: jstr
  gc_term_days :: int
  gc_statement :: jstr

definition GAP_COMMITMENTS :: "gap_commitment list" where
  "GAP_COMMITMENTS =
     [\<lparr>gc_ref = u ''northwind-knowledge-gap-commitment@1'',
       gc_org_id = u ''11111111-1111-4111-8111-111111111111'',
       gc_owner_id = u ''1a000000-0000-4000-8000-000000000003'',
       gc_declared_by = u ''1a000000-0000-4000-8000-000000000003'',
       gc_declared_on = u ''2026-08-24'', gc_term_days = 5,
       gc_statement = u ''Knowledge gaps raised against Northwind Freight are owned by the support supervisor and answered within five days of being opened.''\<rparr>,
      \<lparr>gc_ref = u ''corella-knowledge-gap-commitment@1'',
       gc_org_id = u ''22222222-2222-4222-8222-222222222222'',
       gc_owner_id = u ''2b000000-0000-4000-8000-000000000002'',
       gc_declared_by = u ''2b000000-0000-4000-8000-000000000002'',
       gc_declared_on = u ''2026-08-24'', gc_term_days = 3,
       gc_statement = u ''Knowledge gaps raised against Corella Health are owned by the duty agent and answered within three days of being opened.''\<rparr>]"

definition gapCommitmentFor :: "jstr \<Rightarrow> kb_error + gap_commitment" where
  "gapCommitmentFor org =
     (case List.find (\<lambda>e. gc_org_id e = org) GAP_COMMITMENTS of
        None \<Rightarrow> Inl (Kb_App E_GAP_COMMITMENT_MISSING 500)
      | Some found \<Rightarrow> Inr found)"

text \<open>A time value outside the range of \<open>Date\<close> is not a date, and its text is an error.\<close>

definition MAX_TIME :: int where
  "MAX_TIME = 8640000000000000"

definition iso_day :: "int \<Rightarrow> kb_error + jstr" where
  "iso_day ms = (if \<bar>ms\<bar> \<le> MAX_TIME then Inr (take 10 (toISOString ms)) else Inl (Kb_Thrown RangeError))"

definition committedDateFrom :: "int \<Rightarrow> int \<Rightarrow> kb_error + jstr" where
  "committedDateFrom now termDays = iso_day (now + termDays * 24 * 60 * 60 * 1000)"

definition todayUtc :: "int \<Rightarrow> kb_error + jstr" where
  "todayUtc now = iso_day now"

datatype commitment_fault = Commits_To_Nothing | Statement_Too_Long nat | No_Words | Not_A_Day | Not_Identities

definition commitmentViolations :: "gap_commitment \<Rightarrow> commitment_fault list" where
  "commitmentViolations c =
     (if gc_term_days c \<le> 0 then [Commits_To_Nothing] else [])
     @ (if GAP_CHANNEL_BYTES (u ''note'') < byteLength (gc_statement c) then [Statement_Too_Long (byteLength (gc_statement c))] else [])
     @ (if byteLength (gc_ref c) = 0 \<or> js_trim (gc_statement c) = [] then [No_Words] else [])
     @ (if \<not> shape iso_shape (gc_declared_on c) then [Not_A_Day] else [])
     @ (if \<not> shape uuid_shape (gc_owner_id c) \<or> \<not> shape uuid_shape (gc_declared_by c) then [Not_Identities] else [])"

subsection \<open>The producer\<close>

record gap_evidence =
  ge_terms :: jstr
  ge_snapshot :: jstr
  ge_zero_match :: bool
  ge_divergent :: "jstr list"

text \<open>The conversions of text the digests rest on.\<close>

record text_env =
  te_sha :: "jstr \<Rightarrow> jstr"
  te_nfkc :: "jstr \<Rightarrow> jstr"
  te_lower :: "jstr \<Rightarrow> jstr"

definition queryDigest :: "text_env \<Rightarrow> jstr \<Rightarrow> jstr \<Rightarrow> jstr" where
  "queryDigest te terms snapshot = te_sha te (terms @ snapshot)"

definition questionDigest :: "text_env \<Rightarrow> jstr \<Rightarrow> jstr" where
  "questionDigest te terms = te_sha te (canonicalQueryForm (te_nfkc te) (te_lower te) terms)"

text \<open>\<open>fresh\<close> is the identity \<open>randomUUID\<close> returns.\<close>

definition gapChannelRecordFor :: "text_env \<Rightarrow> jstr \<Rightarrow> jstr \<Rightarrow> gap_evidence \<Rightarrow> int \<Rightarrow> kb_error + gap_record" where
  "gapChannelRecordFor te fresh org e now =
     bind_err (gapCommitmentFor org) (\<lambda>c.
     bind_err (committedDateFrom now (gc_term_days c)) (\<lambda>date.
       Inr \<lparr>gr_gap_id = fresh, gr_canonical_key_sha256 = questionDigest te (ge_terms e),
            gr_query_sha256 = queryDigest te (ge_terms e) (ge_snapshot e), gr_kb_snapshot = ge_snapshot e,
            gr_owner_id = gc_owner_id c, gr_committed_date = date, gr_state = GAP_CHANNEL_EMISSION_STATE,
            gr_divergent_kb_ids = ge_divergent e, gr_note = gc_statement c\<rparr>))"

subsection \<open>The receiver\<close>

record mediated_facts =
  mf_org_id :: jstr
  mf_ticket_id :: jstr
  mf_terms :: jstr
  mf_snapshot :: jstr
  mf_zero_match :: bool
  mf_null_rule :: jstr
  mf_now :: int

definition gap_record_value :: "gap_record \<Rightarrow> jsval" where
  "gap_record_value r = JObj
     [(u ''gap_id'', JStr (gr_gap_id r)), (u ''canonical_key_sha256'', JStr (gr_canonical_key_sha256 r)),
      (u ''query_sha256'', JStr (gr_query_sha256 r)), (u ''kb_snapshot'', JStr (gr_kb_snapshot r)),
      (u ''owner_id'', JStr (gr_owner_id r)), (u ''committed_date'', JStr (gr_committed_date r)),
      (u ''state'', JStr (gr_state r)), (u ''divergent_kb_ids'', JArr (map JStr (gr_divergent_kb_ids r))),
      (u ''note'', JStr (gr_note r))]"

abbreviation contract_violation :: "kb_error + 'a" where
  "contract_violation \<equiv> Inl (Kb_App E_CONTRACT_VIOLATION 422)"

definition opening_of :: "gap_record \<Rightarrow> mediated_facts \<Rightarrow> int \<Rightarrow> gap_opening" where
  "opening_of r m day =
     \<lparr>go_gap = gr_gap_id r, go_org = mf_org_id m, go_ticket = mf_ticket_id m, go_query_terms = Some (mf_terms m),
      go_kb_snapshot = Some (mf_snapshot m), go_zero_match = Some (mf_zero_match m),
      go_query_sha256 = Some (gr_query_sha256 r), go_question_sha256 = Some (gr_canonical_key_sha256 r),
      go_owner = Some (gr_owner_id r), go_committed_date = Some day, go_null_rule = Some (mf_null_rule m),
      go_divergent = (if gr_divergent_kb_ids r \<noteq> [] then Some (gr_divergent_kb_ids r) else None), go_ledger = None\<rparr>"

definition openGapFromChannel ::
    "text_env \<Rightarrow> kb_env \<Rightarrow> nat \<Rightarrow> (kb_gap list \<Rightarrow> kb_gap list) \<Rightarrow> gap_record \<Rightarrow> mediated_facts \<Rightarrow> kb_gap list
       \<Rightarrow> kb_error + jstr \<times> kb_gap list" where
  "openGapFromChannel te env rows others r m gs =
     (if validateGapChannelRecord (gap_record_value r) \<noteq> [] then contract_violation
      else if gr_state r \<noteq> GAP_CHANNEL_EMISSION_STATE then contract_violation
      else if gr_kb_snapshot r \<noteq> mf_snapshot m then contract_violation
      else if gr_query_sha256 r \<noteq> queryDigest te (mf_terms m) (mf_snapshot m) then contract_violation
      else if gr_canonical_key_sha256 r \<noteq> questionDigest te (mf_terms m) then contract_violation
      else bind_err (todayUtc (mf_now m)) (\<lambda>today.
             if gr_committed_date r < today then contract_violation
             else if (gr_owner_id r, mf_org_id m) \<notin> set (ke_users env) then contract_violation
             else (case date_of env (gr_committed_date r) of
                     None \<Rightarrow> Inl (Kb_Sql (u ''22008'') [])
                   | Some day \<Rightarrow>
                       bind_err (kb_gap_open env rows others (opening_of r m day) gs) (\<lambda>(gapId, gs').
                         if gapId = [] then Inl (Kb_App E_INTERNAL 500) else Inr (gapId, gs')))))"

record visible_gap =
  vg_id :: jstr
  vg_org_id :: jstr
  vg_ticket_id :: jstr
  vg_state :: kb_gap_state
  vg_kb_snapshot :: jstr

definition gap_readable :: "claims \<Rightarrow> kb_gap \<Rightarrow> bool" where
  "gap_readable c g = (kg_org g = cl_org c \<and> is_staff c)"

definition gapVisibleTo :: "claims \<Rightarrow> jstr \<Rightarrow> kb_gap list \<Rightarrow> visible_gap option" where
  "gapVisibleTo c i gs =
     (case List.find (\<lambda>g. kg_id g = i \<and> gap_readable c g) gs of
        None \<Rightarrow> None
      | Some g \<Rightarrow> Some \<lparr>vg_id = kg_id g, vg_org_id = kg_org g, vg_ticket_id = kg_ticket g, vg_state = kg_state g,
                        vg_kb_snapshot = kg_snapshot g\<rparr>)"

subsection \<open>The emission\<close>

fun app_code_text :: "app_error_code \<Rightarrow> jstr" where
  "app_code_text E_NO_SESSION = u ''E_NO_SESSION''"
| "app_code_text E_ROLE_NOT_PERMITTED = u ''E_ROLE_NOT_PERMITTED''"
| "app_code_text E_DEV_IDENTITY_DISABLED = u ''E_DEV_IDENTITY_DISABLED''"
| "app_code_text E_FIELD_INVALID = u ''E_FIELD_INVALID''"
| "app_code_text E_TICKET_NOT_VISIBLE = u ''E_TICKET_NOT_VISIBLE''"
| "app_code_text E_TRANSITION_ILLEGAL = u ''E_TRANSITION_ILLEGAL''"
| "app_code_text E_TRANSITION_GUARD_UNAVAILABLE = u ''E_TRANSITION_GUARD_UNAVAILABLE''"
| "app_code_text E_TRANSITION_STALE = u ''E_TRANSITION_STALE''"
| "app_code_text E_NO_ACCOUNT_FOR_ORG = u ''E_NO_ACCOUNT_FOR_ORG''"
| "app_code_text E_ACCOUNT_AMBIGUOUS = u ''E_ACCOUNT_AMBIGUOUS''"
| "app_code_text E_CONTRACT_VIOLATION = u ''E_CONTRACT_VIOLATION''"
| "app_code_text E_GAP_COMMITMENT_MISSING = u ''E_GAP_COMMITMENT_MISSING''"
| "app_code_text E_RUNTIME_SNAPSHOT_STALE = u ''E_RUNTIME_SNAPSHOT_STALE''"
| "app_code_text E_INTERNAL = u ''E_INTERNAL''"

text \<open>\<open>message.match(/E_[A-Z_]+/)\<close>.\<close>

definition named_code :: "jstr \<Rightarrow> jstr list" where
  "named_code message =
     hits (pieces (seqs [word_lit ''E_'', plus (Cls (\<lambda>c. 65 \<le> c \<and> c \<le> 90 \<or> c = 95))]) [] message)"

definition refusalCodeOf :: "kb_error \<Rightarrow> jstr" where
  "refusalCodeOf e =
     (case e of
        Kb_App code _ \<Rightarrow> app_code_text code
      | Kb_Sql state message \<Rightarrow>
          if state \<noteq> [] then state else (case named_code message of n # _ \<Rightarrow> n | [] \<Rightarrow> u ''E_INTERNAL'')
      | Kb_Thrown _ \<Rightarrow> u ''E_INTERNAL'')"

record emitted_gap =
  eg_gap_id :: "jstr option"
  eg_refused :: "jstr option"

definition emitGapRecord ::
    "text_env \<Rightarrow> kb_env \<Rightarrow> nat \<Rightarrow> (kb_gap list \<Rightarrow> kb_gap list) \<Rightarrow> jstr \<Rightarrow> jstr \<Rightarrow> jstr \<Rightarrow> gap_evidence \<Rightarrow> jstr \<Rightarrow> int
       \<Rightarrow> kb_gap list \<Rightarrow> kb_gap list \<times> emitted_gap" where
  "emitGapRecord te env rows others fresh org tkt e nullRule now gs =
     (case bind_err (gapChannelRecordFor te fresh org e now) (\<lambda>r.
             openGapFromChannel te env rows others r
               \<lparr>mf_org_id = org, mf_ticket_id = tkt, mf_terms = ge_terms e, mf_snapshot = ge_snapshot e,
                mf_zero_match = ge_zero_match e, mf_null_rule = nullRule, mf_now = now\<rparr> gs) of
        Inr (gapId, gs') \<Rightarrow> (gs', \<lparr>eg_gap_id = Some gapId, eg_refused = None\<rparr>)
      | Inl error \<Rightarrow> (gs, \<lparr>eg_gap_id = None, eg_refused = Some (refusalCodeOf error)\<rparr>))"

subsection \<open>A well-formed record passes the receiver\<close>

lemma field_ok: "matches_pattern pat s \<Longrightarrow> byteLength s \<le> GAP_CHANNEL_BYTES f \<Longrightarrow> faults_of (checkString (JStr s) f pat) = []"
  by (simp add: checked_string)

lemma shape_bytes: "shape ps s \<Longrightarrow> \<forall>p \<in> set ps. \<forall>c. p c \<longrightarrow> c < 128 \<Longrightarrow> byteLength s = length ps"
  using shape_ascii ascii_bytes by (fastforce simp: shape_def)

lemma patterns_apart:
  "SHA256_PATTERN \<noteq> UUID_PATTERN" "ISO_DATE_PATTERN \<noteq> UUID_PATTERN" "ISO_DATE_PATTERN \<noteq> SHA256_PATTERN"
  "SNAPSHOT_PATTERN \<noteq> UUID_PATTERN" "SNAPSHOT_PATTERN \<noteq> SHA256_PATTERN" "SNAPSHOT_PATTERN \<noteq> ISO_DATE_PATTERN"
  by code_simp+

lemma pattern_shapes:
  "matches_pattern UUID_PATTERN s = shape uuid_shape s" "matches_pattern SHA256_PATTERN s = sha_shape s"
  "matches_pattern ISO_DATE_PATTERN s = shape iso_shape s" "matches_pattern SNAPSHOT_PATTERN s = snapshot_shape s"
  using patterns_apart by (auto simp: matches_pattern_def sha_shape_def snapshot_shape_def)

lemma pattern_bytes:
  "shape uuid_shape s \<Longrightarrow> byteLength s = 36" "sha_shape s \<Longrightarrow> byteLength s = 64" "shape iso_shape s \<Longrightarrow> byteLength s = 10"
  "snapshot_shape s \<Longrightarrow> byteLength s \<le> 64"
proof -
  show "byteLength s = 36" if "shape uuid_shape s" using uuid_bytes that by (simp add: pattern_shapes)
  show "byteLength s = 64" if "sha_shape s" using shape_bytes [OF that [unfolded sha_shape_def]] by (auto simp: low_hex_def)
  show "byteLength s = 10" if "shape iso_shape s"
    using shape_bytes [OF that] by (auto simp: iso_shape_def is_digit_unit_def dash_def)
  show "byteLength s \<le> 64" if "snapshot_shape s"
  proof -
    have "list_all (\<lambda>c. c < 128) s" using that by (fastforce simp: snapshot_shape_def snapshot_unit_def is_digit_unit_def list_all_iff)
    then show ?thesis using that ascii_bytes by (simp add: snapshot_shape_def)
  qed
qed

definition well_formed_record :: "gap_record \<Rightarrow> bool" where
  "well_formed_record r =
     (shape uuid_shape (gr_gap_id r) \<and> sha_shape (gr_canonical_key_sha256 r) \<and> sha_shape (gr_query_sha256 r)
      \<and> snapshot_shape (gr_kb_snapshot r) \<and> shape uuid_shape (gr_owner_id r) \<and> shape iso_shape (gr_committed_date r)
      \<and> gr_state r = GAP_CHANNEL_EMISSION_STATE \<and> length (gr_divergent_kb_ids r) \<le> 4
      \<and> list_all (shape uuid_shape) (gr_divergent_kb_ids r) \<and> byteLength (gr_note r) \<le> 512)"

lemma divergent_ok:
  assumes "length ids \<le> 4" "list_all (shape uuid_shape) ids"
  shows "divergent_faults (JArr (map JStr ids)) = []"
proof -
  have "identity_ok x" if "x \<in> set (map JStr ids)" for x
    using assms(2) that by (auto simp: identity_ok_iff pattern_shapes list_all_iff)
  then have "filter (\<lambda>(_, x). \<not> identity_ok x) (zip [0..<length (map JStr ids)] (map JStr ids)) = []"
    by (auto simp: filter_empty_conv dest: set_zip_rightD)
  then show ?thesis using assms(1) by (simp add: divergent_faults_def GAP_CHANNEL_MAX_DIVERGENT_def)
qed

lemma well_formed_accepted: "well_formed_record r \<Longrightarrow> validateGapChannelRecord (gap_record_value r) = []"
proof -
  assume w: "well_formed_record r"
  have fields: "filter (\<lambda>(k, _). k \<notin> set GAP_CHANNEL_FIELDS) [(u ''gap_id'', JStr (gr_gap_id r)),
      (u ''canonical_key_sha256'', JStr (gr_canonical_key_sha256 r)),
      (u ''query_sha256'', JStr (gr_query_sha256 r)), (u ''kb_snapshot'', JStr (gr_kb_snapshot r)),
      (u ''owner_id'', JStr (gr_owner_id r)), (u ''committed_date'', JStr (gr_committed_date r)),
      (u ''state'', JStr (gr_state r)), (u ''divergent_kb_ids'', JArr (map JStr (gr_divergent_kb_ids r))),
      (u ''note'', JStr (gr_note r))] = []"
    by (simp add: GAP_CHANNEL_FIELDS_def)
  have state: "state_faults (JStr GAP_CHANNEL_EMISSION_STATE) = []" by code_simp
  have prose: "faults_of (checkString (JStr (gr_note r)) (u ''note'') []) = []"
    using w by (simp add: checked_string well_formed_record_def)
  show ?thesis
    unfolding validateGapChannelRecord_def gap_record_value_def jsval.case fields
    using w prose state divergent_ok [of "gr_divergent_kb_ids r"]
    by (simp add: get_prop_def checked_fields_def field_ok well_formed_record_def pattern_shapes pattern_bytes)
qed

lemma plain_year_between: "0 \<le> days \<Longrightarrow> days < 2786860 \<Longrightarrow> plain_year days"
proof -
  assume d: "0 \<le> days" "days < 2786860"
  obtain y m t where c: "civil_of_days days = (y, m, t)" by (cases "civil_of_days days")
  obtain v where v: "0 \<le> v" "v < 400" "shifted_year days = v + (days + 719468) div 146097 * 400" by (rule year_days)
  have "0 \<le> (days + 719468) div 146097" "(days + 719468) div 146097 \<le> 23" using d by linarith+
  then have "0 \<le> shifted_year days" "shifted_year days \<le> 9998" using v by linarith+
  moreover have "y = shifted_year days \<or> y = shifted_year days + 1" using c unfolding civil_shifted Let_def by (auto split: if_splits)
  ultimately show ?thesis unfolding plain_year_def c by auto
qed

lemma iso_day_shape: "plain_year days \<Longrightarrow> shape iso_shape (iso_day_text days)"
proof -
  assume p: "plain_year days"
  obtain y m d where c: "civil_of_days days = (y, m, d)" by (cases "civil_of_days days")
  have y: "0 \<le> y" "y \<le> 9999" using p c by (simp_all add: plain_year_def)
  note r = civil_ranges [OF c]
  have digits: "shape (replicate w is_digit_unit) (padded w n)" if "0 < w" "n < 10 ^ w" for w n
    using padded_digits [of w n] padded_length [OF that]
    by (auto simp: shape_def list_all2_conv_all_nth is_digit_unit_def set_conv_nth)
  have "u ''-'' = [45]" by code_simp
  then show ?thesis using digits [of 4 y] digits [of 2 m] digits [of 2 d] y r
    unfolding day_text_form [OF p c] iso_shape_def shape_def
    by (auto simp: dash_def list_all2_Cons1 intro!: list_all2_appendI)
qed

lemma commitments_sound: "list_all (\<lambda>c. commitmentViolations c = [] \<and> gc_term_days c \<le> 5) GAP_COMMITMENTS"
  by code_simp

subsection \<open>The emission settles\<close>

lemma commitment_facts:
  assumes "c \<in> set GAP_COMMITMENTS"
  shows "0 < gc_term_days c" "gc_term_days c \<le> 5" "byteLength (gc_statement c) \<le> 512" "shape uuid_shape (gc_owner_id c)"
    "gapCommitmentFor (gc_org_id c) = Inr c"
proof -
  have "commitmentViolations c = []" and t: "gc_term_days c \<le> 5" using commitments_sound assms by (auto simp: list_all_iff)
  then show "0 < gc_term_days c" "byteLength (gc_statement c) \<le> 512" "shape uuid_shape (gc_owner_id c)"
    by (auto simp: commitmentViolations_def split: if_splits)
  show "gc_term_days c \<le> 5" by (rule t)
  show "gapCommitmentFor (gc_org_id c) = Inr c"
    using assms by (auto simp: GAP_COMMITMENTS_def gapCommitmentFor_def)
qed

lemma iso_day_at: "plain_year (ms div MS_PER_DAY) \<Longrightarrow> \<bar>ms\<bar> \<le> MAX_TIME \<Longrightarrow> iso_day ms = Inr (iso_day_text (ms div MS_PER_DAY))"
  by (simp add: iso_day_def take_iso)

lemma finds_something: "find_gap p gs = None \<Longrightarrow> g \<in> set gs \<Longrightarrow> \<not> standing_for (go_ticket p) (the (go_question_sha256 p)) g
    \<and> \<not> same_query (go_ticket p) (the (go_query_sha256 p)) g"
  by (auto simp: find_gap_def find_None_iff split: option.splits)

lemma found_gap: "find_gap p gs = Some g \<Longrightarrow> g \<in> set gs \<and> (standing_for (go_ticket p) (the (go_question_sha256 p)) g
    \<or> same_query (go_ticket p) (the (go_query_sha256 p)) g)"
  by (auto simp: find_gap_def find_Some_iff split: option.splits)

text \<open>An opening none of whose checks refuses ends in a record, its own or the one that stood.\<close>

lemma insert_then_found:
  assumes "gap_checks (opened_gap env p)" "gap_references env rows (opened_gap env p)"
    "\<forall>g \<in> set gs. kg_id g \<noteq> go_gap p"
  shows "\<exists>gs' g. insert_gap env rows (opened_gap env p) gs = Inr gs' \<and> find_gap p gs' = Some g
      \<and> (g \<in> set gs \<or> g = opened_gap env p)"
proof (cases "gap_conflicts gs (opened_gap env p)")
  case True
  then obtain x where "x \<in> set gs" "standing_for (go_ticket p) (the (go_question_sha256 p)) x \<or> same_query (go_ticket p) (the (go_query_sha256 p)) x"
    using assms(3) by (auto simp: gap_conflicts_def list_ex_iff opened_gap_def)
  then obtain g where g: "find_gap p gs = Some g" using finds_something [of p gs x] by (cases "find_gap p gs") auto
  then show ?thesis using True assms(1) found_gap [OF g] by (auto simp: insert_gap_def)
next
  case False
  have "standing_for (go_ticket p) (the (go_question_sha256 p)) (opened_gap env p)" by (simp add: standing_for_def opened_gap_def)
  then obtain g where g: "find_gap p (gs @ [opened_gap env p]) = Some g"
    using finds_something [of p "gs @ [opened_gap env p]" "opened_gap env p"] by (cases "find_gap p (gs @ [opened_gap env p])") auto
  then show ?thesis using False assms(1,2) found_gap [OF g] by (auto simp: insert_gap_def)
qed



text \<open>A refusal leaves the table as it was, and what the writer names is filed under the state of the exception.\<close>

lemma refused_emission_changes_nothing:
  "emitGapRecord te env rows others fresh org tkt e nullRule now gs = (gs', r) \<Longrightarrow> eg_gap_id r = None \<Longrightarrow>
     gs' = gs \<and> eg_refused r \<noteq> None"
  by (auto simp: emitGapRecord_def split: sum.splits)

text \<open>
  Every exception \<open>kb_gap_open\<close> raises by name arrives with the state P0001, so the branch that would read the
  name out of the message is not reached and the decision is filed as P0001.
\<close>

lemma named_refusals_lose_their_name:
  "refusalCodeOf (Kb_Sql (u ''P0001'') (u name)) = u ''P0001''"
  by (simp add: refusalCodeOf_def)

end
