(* ===== verification/Run_Registry.thy ===== *)
theory Run_Registry
  imports Canonical Action
begin

section \<open>Runs: who holds them and who writes into them\<close>

text \<open>
  The claims over runs (\<open>src/src/server/run_registry.ts\<close>), the registry of runtimes that takes and
  releases them (\<open>runtimeFor\<close>, \<open>evictRuntime\<close> of \<open>src/src/server/agents.ts\<close>) and the queue of the
  cycles of one run (\<open>src/src/server/run_queue.ts\<close>).  A promise is the number of the build or of the job
  that settles it; what happens between two uninterruptible pieces of code is a step of a relation.
\<close>

subsection \<open>Claims\<close>

type_synonym run_claims = "jstr \<rightharpoonup> jstr"

datatype run_refusal = Held_By jstr

definition createRunClaims :: run_claims where
  "createRunClaims = Map.empty"

definition claimRun :: "run_claims \<Rightarrow> jstr \<Rightarrow> jstr \<Rightarrow> run_refusal + run_claims" where
  "claimRun claims run org =
     (case claims run of
        Some holder \<Rightarrow> if holder \<noteq> org then Inl (Held_By holder) else Inr (claims(run \<mapsto> org))
      | None \<Rightarrow> Inr (claims(run \<mapsto> org)))"

definition releaseRun :: "run_claims \<Rightarrow> jstr \<Rightarrow> jstr \<Rightarrow> run_claims" where
  "releaseRun claims run org = (if claims run = Some org then claims(run := None) else claims)"

definition holderOf :: "run_claims \<Rightarrow> jstr \<Rightarrow> jstr option" where
  "holderOf claims run = claims run"

subsection \<open>The registry of runtimes\<close>

definition runIdFor :: "(jstr \<Rightarrow> jstr) \<Rightarrow> jstr \<Rightarrow> jstr \<Rightarrow> jstr" where
  "runIdFor sha org label = derivedUuid sha (u ''ledgerdesk:run:'' @ label @ u '':'' @ org)"

text \<open>\<open>LEDGERDESK_RUN\<close> of the environment, and its default.\<close>

definition runLabel :: "jstr option \<Rightarrow> jstr" where
  "runLabel declared = (case declared of Some l \<Rightarrow> l | None \<Rightarrow> u ''demo'')"

text \<open>\<open>rg_runtimes\<close> holds the number of the build whose promise is cached.\<close>

record registry =
  rg_runtimes :: "jstr \<rightharpoonup> nat"
  rg_runs :: run_claims
  rg_restarts :: "jstr \<rightharpoonup> nat"
  rg_builds :: nat

definition fresh_registry :: registry where
  "fresh_registry = \<lparr>rg_runtimes = Map.empty, rg_runs = createRunClaims, rg_restarts = Map.empty, rg_builds = 0\<rparr>"

definition runtimeFor :: "(jstr \<Rightarrow> jstr) \<Rightarrow> jstr \<Rightarrow> jstr \<Rightarrow> (registry, run_refusal, nat) action" where
  "runtimeFor sha label org rg =
     (case rg_runtimes rg org of
        Some b \<Rightarrow> (rg, Inr b)
      | None \<Rightarrow>
          (case claimRun (rg_runs rg) (runIdFor sha org label) org of
             Inl e \<Rightarrow> (rg, Inl e)
           | Inr runs \<Rightarrow>
               (rg\<lparr>rg_runs := runs, rg_runtimes := (rg_runtimes rg)(org \<mapsto> rg_builds rg), rg_builds := rg_builds rg + 1\<rparr>,
                Inr (rg_builds rg))))"

text \<open>The handler of a build that failed.\<close>

definition build_failed :: "(jstr \<Rightarrow> jstr) \<Rightarrow> jstr \<Rightarrow> jstr \<Rightarrow> registry \<Rightarrow> registry" where
  "build_failed sha label org rg =
     rg\<lparr>rg_runtimes := (rg_runtimes rg)(org := None), rg_runs := releaseRun (rg_runs rg) (runIdFor sha org label) org\<rparr>"

definition evictRuntime :: "(jstr \<Rightarrow> jstr) \<Rightarrow> jstr \<Rightarrow> jstr \<Rightarrow> registry \<Rightarrow> registry" where
  "evictRuntime sha label org rg =
     (if rg_runtimes rg org = None then rg
      else rg\<lparr>rg_runtimes := (rg_runtimes rg)(org := None), rg_runs := releaseRun (rg_runs rg) (runIdFor sha org label) org\<rparr>)"

text \<open>What the process does to the registry, in any order: a failed build belongs to some earlier request.\<close>

inductive registry_step :: "(jstr \<Rightarrow> jstr) \<Rightarrow> jstr \<Rightarrow> registry \<Rightarrow> registry \<Rightarrow> bool" for sha label where
  asked: "runtimeFor sha label org rg = (rg', r) \<Longrightarrow> registry_step sha label rg rg'"
| failed: "registry_step sha label rg (build_failed sha label org rg)"
| evicted: "registry_step sha label rg (evictRuntime sha label org rg)"

inductive registry_reaches :: "(jstr \<Rightarrow> jstr) \<Rightarrow> jstr \<Rightarrow> registry \<Rightarrow> bool" for sha label where
  start: "registry_reaches sha label fresh_registry"
| step: "registry_reaches sha label rg \<Longrightarrow> registry_step sha label rg rg' \<Longrightarrow> registry_reaches sha label rg'"

text \<open>The claims are the runs of the organisations that have a runtime.\<close>

definition registry_ok :: "(jstr \<Rightarrow> jstr) \<Rightarrow> jstr \<Rightarrow> registry \<Rightarrow> bool" where
  "registry_ok sha label rg \<longleftrightarrow>
     (\<forall>org. rg_runtimes rg org \<noteq> None \<longrightarrow> rg_runs rg (runIdFor sha org label) = Some org)
     \<and> (\<forall>run org. rg_runs rg run = Some org \<longrightarrow> rg_runtimes rg org \<noteq> None \<and> run = runIdFor sha org label)"

lemma runtimeFor_cases:
  assumes "runtimeFor sha label org rg = (rg', r)"
  obtains b where "rg_runtimes rg org = Some b" "rg' = rg" "r = Inr b"
  | h where "rg_runtimes rg org = None" "rg_runs rg (runIdFor sha org label) = Some h" "h \<noteq> org" "rg' = rg" "r = Inl (Held_By h)"
  | "rg_runtimes rg org = None" "rg_runs rg (runIdFor sha org label) \<in> {None, Some org}"
    "rg' = rg\<lparr>rg_runs := (rg_runs rg)(runIdFor sha org label \<mapsto> org), rg_runtimes := (rg_runtimes rg)(org \<mapsto> rg_builds rg),
              rg_builds := rg_builds rg + 1\<rparr>" "r = Inr (rg_builds rg)"
  using assms by (auto simp: runtimeFor_def claimRun_def split: option.splits if_splits)

lemma registry_okI:
  assumes "\<And>org. rg_runtimes rg org \<noteq> None \<Longrightarrow> rg_runs rg (runIdFor sha org label) = Some org"
    "\<And>run org. rg_runs rg run = Some org \<Longrightarrow> rg_runtimes rg org \<noteq> None \<and> run = runIdFor sha org label"
  shows "registry_ok sha label rg"
  using assms unfolding registry_ok_def by blast

lemma registry_okD:
  assumes "registry_ok sha label rg"
  shows "rg_runtimes rg org \<noteq> None \<Longrightarrow> rg_runs rg (runIdFor sha org label) = Some org"
    "rg_runs rg run = Some org \<Longrightarrow> rg_runtimes rg org \<noteq> None" "rg_runs rg run = Some org \<Longrightarrow> run = runIdFor sha org label"
  using assms unfolding registry_ok_def by blast+

lemma released_ok:
  assumes "registry_ok sha label rg"
  shows "registry_ok sha label (rg\<lparr>rg_runtimes := (rg_runtimes rg)(org := None),
           rg_runs := releaseRun (rg_runs rg) (runIdFor sha org label) org\<rparr>)"
proof -
  let ?runs = "releaseRun (rg_runs rg) (runIdFor sha org label) org"
  have old: "?runs run = Some holder \<Longrightarrow> rg_runs rg run = Some holder" for run holder
    by (simp add: releaseRun_def split: if_splits)
  have gone: "?runs run \<noteq> Some org" for run
    using registry_okD(3) [OF assms, of run org] by (auto simp: releaseRun_def)
  have kept: "?runs (runIdFor sha a label) = Some a" if "a \<noteq> org" "rg_runtimes rg a \<noteq> None" for a
    using registry_okD(1) [OF assms that(2)] that(1) by (auto simp: releaseRun_def)
  show ?thesis
  proof (rule registry_okI)
    fix a assume "rg_runtimes (rg\<lparr>rg_runtimes := (rg_runtimes rg)(org := None), rg_runs := ?runs\<rparr>) a \<noteq> None"
    then have "a \<noteq> org" "rg_runtimes rg a \<noteq> None" by (simp_all split: if_splits)
    from kept [OF this] show "rg_runs (rg\<lparr>rg_runtimes := (rg_runtimes rg)(org := None), rg_runs := ?runs\<rparr>) (runIdFor sha a label) = Some a"
      by simp
  next
    fix run a assume "rg_runs (rg\<lparr>rg_runtimes := (rg_runtimes rg)(org := None), rg_runs := ?runs\<rparr>) run = Some a"
    then have a: "?runs run = Some a" by simp
    with gone [of run] have "a \<noteq> org" by auto
    moreover note registry_okD(2,3) [OF assms old [OF a]]
    ultimately show "rg_runtimes (rg\<lparr>rg_runtimes := (rg_runtimes rg)(org := None), rg_runs := ?runs\<rparr>) a \<noteq> None \<and> run = runIdFor sha a label"
      by simp
  qed
qed

lemma claimed_ok:
  assumes ok: "registry_ok sha label rg" and free: "rg_runs rg (runIdFor sha org label) \<in> {None, Some org}"
  shows "registry_ok sha label (rg\<lparr>rg_runs := (rg_runs rg)(runIdFor sha org label \<mapsto> org),
           rg_runtimes := (rg_runtimes rg)(org \<mapsto> b), rg_builds := n\<rparr>)"
    (is "registry_ok sha label ?now")
proof (rule registry_okI)
  have runs: "rg_runs ?now = (rg_runs rg)(runIdFor sha org label \<mapsto> org)"
    and runtimes: "rg_runtimes ?now = (rg_runtimes rg)(org \<mapsto> b)" by simp_all
  show "rg_runs ?now (runIdFor sha a label) = Some a" if "rg_runtimes ?now a \<noteq> None" for a
  proof (cases "a = org")
    case False
    with that have "rg_runtimes rg a \<noteq> None" by (simp add: runtimes)
    from registry_okD(1) [OF ok this] free False show ?thesis by (auto simp: runs)
  qed (simp add: runs)
  show "rg_runtimes ?now a \<noteq> None \<and> run = runIdFor sha a label" if "rg_runs ?now run = Some a" for run a
  proof (cases "run = runIdFor sha org label")
    case True
    then have "a = org" using that by (simp add: runs)
    then show ?thesis using True by (simp add: runtimes)
  next
    case False
    then have "rg_runs rg run = Some a" using that by (simp add: runs)
    from registry_okD(2,3) [OF ok this] show ?thesis by (simp add: runtimes)
  qed
qed

lemma step_keeps_registry: "registry_step sha label rg rg' \<Longrightarrow> registry_ok sha label rg \<Longrightarrow> registry_ok sha label rg'"
proof (induction rule: registry_step.induct)
  case (asked org rg rg' r)
  then show ?case using claimed_ok by (elim runtimeFor_cases) simp_all
next
  case (failed rg org)
  then show ?case unfolding build_failed_def by (rule released_ok)
next
  case (evicted rg org)
  then show ?case using released_ok by (simp add: evictRuntime_def)
qed

lemma reached_registry_ok: "registry_reaches sha label rg \<Longrightarrow> registry_ok sha label rg"
proof (induction rule: registry_reaches.induct)
  case start
  then show ?case by (simp add: registry_ok_def fresh_registry_def createRunClaims_def)
qed (rule step_keeps_registry)

text \<open>
  C37: One run, one organisation, whatever the derivation of run identifiers gives.  In every state the
  requests, evictions and failed builds can leave the registry in, two organisations that have a runtime
  have different runs, the claims are exactly the runs of the organisations that have one, and a request
  of an organisation is refused only when another organisation that has a runtime holds the run it derives;
  with a digest that keeps the two apart it is never refused.
\<close>

theorem runs_are_held_by_one_organisation:
  assumes "registry_reaches sha label rg"
  shows "(\<forall>a b. rg_runtimes rg a \<noteq> None \<longrightarrow> rg_runtimes rg b \<noteq> None \<longrightarrow> runIdFor sha a label = runIdFor sha b label \<longrightarrow> a = b)
    \<and> (\<forall>run org. holderOf (rg_runs rg) run = Some org \<longleftrightarrow> rg_runtimes rg org \<noteq> None \<and> run = runIdFor sha org label)
    \<and> (\<forall>org e. snd (runtimeFor sha label org rg) = Inl e \<longrightarrow>
         (\<exists>h. e = Held_By h \<and> h \<noteq> org \<and> rg_runtimes rg h \<noteq> None \<and> runIdFor sha h label = runIdFor sha org label))"
proof -
  have ok: "registry_ok sha label rg" by (rule reached_registry_ok [OF assms])
  have refused: "\<exists>h. e = Held_By h \<and> h \<noteq> org \<and> rg_runtimes rg h \<noteq> None \<and> runIdFor sha h label = runIdFor sha org label"
    if "snd (runtimeFor sha label org rg) = Inl e" for org e
  proof -
    have "runtimeFor sha label org rg = (fst (runtimeFor sha label org rg), Inl e)"
      using that prod.collapse [of "runtimeFor sha label org rg"] by simp
    then obtain h where h: "rg_runs rg (runIdFor sha org label) = Some h" "h \<noteq> org" "e = Held_By h"
      by (rule runtimeFor_cases) auto
    with registry_okD(2,3) [OF ok h(1)] show ?thesis by auto
  qed
  have "a = b" if "rg_runtimes rg a \<noteq> None" "rg_runtimes rg b \<noteq> None" "runIdFor sha a label = runIdFor sha b label" for a b
    using registry_okD(1) [OF ok that(1)] registry_okD(1) [OF ok that(2)] that(3) by (metis option.inject)
  moreover have "holderOf (rg_runs rg) run = Some org \<longleftrightarrow> rg_runtimes rg org \<noteq> None \<and> run = runIdFor sha org label" for run org
    using registry_okD [OF ok] unfolding holderOf_def by blast
  ultimately show ?thesis using refused by blast
qed

lemma asked_reaches: "registry_reaches sha label rg \<Longrightarrow> registry_reaches sha label (fst (runtimeFor sha label org rg))"
  by (rule registry_reaches.step, assumption) (rule registry_step.asked [where r = "snd (runtimeFor sha label org rg)"], simp)

text \<open>A digest that tells no two texts apart: the claim is what refuses the second organisation.\<close>

definition flat_sha :: "jstr \<Rightarrow> jstr" where
  "flat_sha t = replicate 64 48"

definition sample_registry :: registry where
  "sample_registry = fst (runtimeFor flat_sha (u ''demo'') (u ''a'') fresh_registry)"

theorem runs_are_held_by_one_organisation_witness:
  "registry_reaches flat_sha (u ''demo'') sample_registry
   \<and> snd (runtimeFor flat_sha (u ''demo'') (u ''b'') sample_registry) = Inl (Held_By (u ''a''))
   \<and> (\<exists>h. Held_By (u ''a'') = Held_By h \<and> h \<noteq> u ''b'' \<and> rg_runtimes sample_registry h \<noteq> None
        \<and> runIdFor flat_sha h (u ''demo'') = runIdFor flat_sha (u ''b'') (u ''demo''))"
proof -
  have r: "registry_reaches flat_sha (u ''demo'') sample_registry"
    unfolding sample_registry_def by (rule asked_reaches) (rule registry_reaches.start)
  have same: "runIdFor flat_sha a label = runIdFor flat_sha b label" for a b label
    by (simp add: runIdFor_def derivedUuid_def flat_sha_def)
  have n: "u ''a'' \<noteq> u ''b''" by code_simp
  have "snd (runtimeFor flat_sha (u ''demo'') (u ''b'') sample_registry) = Inl (Held_By (u ''a''))"
    using n n [symmetric] same [of "u ''b''" "u ''demo''" "u ''a''"]
    by (simp add: sample_registry_def runtimeFor_def claimRun_def fresh_registry_def createRunClaims_def del: u_inject)
  with runs_are_held_by_one_organisation [OF r] r show ?thesis by blast
qed

text \<open>
  A build that fails late discards whatever runtime its organisation has by then: an eviction while it was
  pending and a new request leave a second build, and the handler of the first deletes the second.
\<close>

lemma late_failure_discards_the_newer_runtime:
  assumes "runtimeFor sha label org rg = (rg1, Inr first)"
    "runtimeFor sha label org (evictRuntime sha label org rg1) = (rg2, Inr second)"
  shows "rg_runtimes rg2 org = Some second \<and> rg_runtimes (build_failed sha label org rg2) org = None"
proof -
  have "rg_runtimes rg2 org = Some second" by (rule runtimeFor_cases [OF assms(2)]) simp_all
  then show ?thesis by (simp add: build_failed_def)
qed

subsection \<open>The queue of a run\<close>

text \<open>
  \<open>previous.then(work)\<close>: a job starts once the job that was the tail of its run when it was enqueued has
  settled, in whichever way.  Jobs are numbered in the order of their \<open>onRun\<close>.
\<close>

datatype job_status = Waiting | Running | Settled bool

record queued_job =
  qj_run :: jstr
  qj_previous :: "nat option"
  qj_status :: job_status

record run_queue =
  rq_tails :: "jstr \<rightharpoonup> nat"
  rq_jobs :: "queued_job list"

definition empty_queue :: run_queue where
  "empty_queue = \<lparr>rq_tails = Map.empty, rq_jobs = []\<rparr>"

definition onRun :: "jstr \<Rightarrow> run_queue \<Rightarrow> run_queue" where
  "onRun run q =
     \<lparr>rq_tails = (rq_tails q)(run \<mapsto> length (rq_jobs q)),
      rq_jobs = rq_jobs q @ [\<lparr>qj_run = run, qj_previous = rq_tails q run, qj_status = Waiting\<rparr>]\<rparr>"

definition queuedRuns :: "run_queue \<Rightarrow> jstr set" where
  "queuedRuns q = dom (rq_tails q)"

fun is_settled :: "job_status \<Rightarrow> bool" where
  "is_settled (Settled ok) = True"
| "is_settled _ = False"

definition may_start :: "run_queue \<Rightarrow> nat \<Rightarrow> bool" where
  "may_start q j =
     (j < length (rq_jobs q) \<and> qj_status (rq_jobs q ! j) = Waiting
      \<and> (case qj_previous (rq_jobs q ! j) of None \<Rightarrow> True | Some i \<Rightarrow> is_settled (qj_status (rq_jobs q ! i))))"

definition set_status :: "nat \<Rightarrow> job_status \<Rightarrow> run_queue \<Rightarrow> run_queue" where
  "set_status j st q = q\<lparr>rq_jobs := (rq_jobs q)[j := (rq_jobs q ! j)\<lparr>qj_status := st\<rparr>]\<rparr>"

inductive queue_step :: "run_queue \<Rightarrow> run_queue \<Rightarrow> bool" where
  enqueue: "queue_step q (onRun run q)"
| begins: "may_start q j \<Longrightarrow> queue_step q (set_status j Running q)"
| settles: "j < length (rq_jobs q) \<Longrightarrow> qj_status (rq_jobs q ! j) = Running \<Longrightarrow> queue_step q (set_status j (Settled ok) q)"

inductive queue_reaches :: "run_queue \<Rightarrow> bool" where
  empty: "queue_reaches empty_queue"
| step: "queue_reaches q \<Longrightarrow> queue_step q q' \<Longrightarrow> queue_reaches q'"

abbreviation run_of_job :: "run_queue \<Rightarrow> nat \<Rightarrow> jstr" where
  "run_of_job q j \<equiv> qj_run (rq_jobs q ! j)"

abbreviation status_of_job :: "run_queue \<Rightarrow> nat \<Rightarrow> job_status" where
  "status_of_job q j \<equiv> qj_status (rq_jobs q ! j)"

text \<open>The last job of a run before a position.\<close>

definition last_before :: "run_queue \<Rightarrow> jstr \<Rightarrow> nat \<Rightarrow> nat option \<Rightarrow> bool" where
  "last_before q run n p \<longleftrightarrow>
     (case p of None \<Rightarrow> \<forall>i < n. run_of_job q i \<noteq> run
      | Some i \<Rightarrow> i < n \<and> run_of_job q i = run \<and> (\<forall>k < n. i < k \<longrightarrow> run_of_job q k \<noteq> run))"

definition queue_ok :: "run_queue \<Rightarrow> bool" where
  "queue_ok q \<longleftrightarrow>
     (\<forall>run. last_before q run (length (rq_jobs q)) (rq_tails q run))
     \<and> (\<forall>j < length (rq_jobs q). last_before q (run_of_job q j) j (qj_previous (rq_jobs q ! j)))
     \<and> (\<forall>j < length (rq_jobs q). status_of_job q j \<noteq> Waiting \<longrightarrow>
          (\<forall>i < j. run_of_job q i = run_of_job q j \<longrightarrow> is_settled (status_of_job q i)))"

lemma last_before_cong:
  assumes "\<And>i. i < n \<Longrightarrow> run_of_job q i = run_of_job q' i"
  shows "last_before q run n p \<longleftrightarrow> last_before q' run n p"
  using assms unfolding last_before_def by (auto split: option.splits)

lemma set_status_jobs:
  "length (rq_jobs (set_status j st q)) = length (rq_jobs q)" "rq_tails (set_status j st q) = rq_tails q"
  "i < length (rq_jobs q) \<Longrightarrow> run_of_job (set_status j st q) i = run_of_job q i"
  "i < length (rq_jobs q) \<Longrightarrow> qj_previous (rq_jobs (set_status j st q) ! i) = qj_previous (rq_jobs q ! i)"
  "i < length (rq_jobs q) \<Longrightarrow> status_of_job (set_status j st q) i = (if i = j then st else status_of_job q i)"
  by (cases "i = j"; simp add: set_status_def)+

lemma set_status_ok:
  assumes ok: "queue_ok q" and j: "j < length (rq_jobs q)"
    and before: "\<And>i. i < j \<Longrightarrow> run_of_job q i = run_of_job q j \<Longrightarrow> is_settled (status_of_job q i)"
    and after: "\<not> is_settled (status_of_job q j)"
  shows "queue_ok (set_status j st q)"
proof -
  let ?q = "set_status j st q"
  have lb: "last_before ?q run n p \<longleftrightarrow> last_before q run n p" if "n \<le> length (rq_jobs q)" for run n p
    by (rule last_before_cong) (use that in \<open>simp add: set_status_jobs\<close>)
  have "is_settled (status_of_job ?q i)"
    if k: "k < length (rq_jobs q)" "status_of_job ?q k \<noteq> Waiting" "i < k" "run_of_job q i = run_of_job q k" for i k
  proof (cases "k = j")
    case True
    then have "i < j" "run_of_job q i = run_of_job q j" using k by simp_all
    from before [OF this] \<open>i < j\<close> j show ?thesis by (simp add: set_status_jobs)
  next
    case False
    then have "status_of_job q k \<noteq> Waiting" using k by (simp add: set_status_jobs)
    then have "is_settled (status_of_job q i)" using ok k unfolding queue_ok_def by blast
    moreover from this have "i \<noteq> j" using after by auto
    ultimately show ?thesis using k by (simp add: set_status_jobs)
  qed
  then show ?thesis
    using ok by (simp add: queue_ok_def set_status_jobs lb)
qed

lemma earlier_settled:
  assumes "queue_ok q" "may_start q j" "i < j" "run_of_job q i = run_of_job q j"
  shows "is_settled (status_of_job q i)"
proof -
  have j: "j < length (rq_jobs q)" using assms(2) by (simp add: may_start_def)
  then have lb: "last_before q (run_of_job q j) j (qj_previous (rq_jobs q ! j))" using assms(1) by (simp add: queue_ok_def)
  then obtain p where p: "qj_previous (rq_jobs q ! j) = Some p" "p < j" "run_of_job q p = run_of_job q j"
      "\<forall>k < j. p < k \<longrightarrow> run_of_job q k \<noteq> run_of_job q j"
    using assms(3,4) by (auto simp: last_before_def split: option.splits)
  have sp: "is_settled (status_of_job q p)" using assms(2) p(1) by (simp add: may_start_def)
  consider "i = p" | "i < p" | "p < i" by linarith
  then show ?thesis
  proof cases
    case 2
    have "status_of_job q p \<noteq> Waiting" using sp by auto
    moreover have "p < length (rq_jobs q)" "run_of_job q i = run_of_job q p" using p(2,3) j assms(4) by simp_all
    ultimately show ?thesis using 2 assms(1) unfolding queue_ok_def by blast
  qed (use sp p(4) assms(3,4) in auto)
qed

lemma enqueue_ok: "queue_ok q \<Longrightarrow> queue_ok (onRun run q)"
proof -
  assume ok: "queue_ok q"
  let ?q = "onRun run q" and ?n = "length (rq_jobs q)"
  have old: "rq_jobs ?q ! i = rq_jobs q ! i" if "i < ?n" for i using that by (simp add: onRun_def nth_append)
  have new: "rq_jobs ?q ! ?n = \<lparr>qj_run = run, qj_previous = rq_tails q run, qj_status = Waiting\<rparr>" by (simp add: onRun_def)
  have lb: "last_before ?q r m p \<longleftrightarrow> last_before q r m p" if "m \<le> ?n" for r m p
    by (rule last_before_cong) (use that old in simp)
  have tails: "last_before ?q r (Suc ?n) (rq_tails ?q r)" for r
  proof (cases "r = run")
    case True
    then show ?thesis using new by (simp add: last_before_def onRun_def)
  next
    case False
    have "last_before q r ?n (rq_tails q r)" using ok by (simp add: queue_ok_def)
    with False show ?thesis
      using new old by (auto simp: last_before_def onRun_def less_Suc_eq split: option.splits)
  qed
  have previous: "last_before ?q (run_of_job ?q j) j (qj_previous (rq_jobs ?q ! j))" if "j < Suc ?n" for j
  proof (cases "j = ?n")
    case True
    then show ?thesis using ok new lb by (simp add: queue_ok_def)
  next
    case False
    then show ?thesis using ok old lb that by (simp add: queue_ok_def less_Suc_eq)
  qed
  have started: "is_settled (status_of_job ?q i)"
    if "j < Suc ?n" "status_of_job ?q j \<noteq> Waiting" "i < j" "run_of_job ?q i = run_of_job ?q j" for i j
  proof -
    have "j < ?n" using that(1,2) new by (cases "j = ?n") auto
    then show ?thesis using ok old that by (simp add: queue_ok_def)
  qed
  have "length (rq_jobs ?q) = Suc ?n" by (simp add: onRun_def)
  then show ?thesis using tails previous started unfolding queue_ok_def by simp
qed

lemma reached_queue_ok: "queue_reaches q \<Longrightarrow> queue_ok q"
proof (induction rule: queue_reaches.induct)
  case empty
  then show ?case by (simp add: queue_ok_def empty_queue_def last_before_def)
next
  case (step q q')
  from step.hyps(2) show ?case
  proof cases
    case (enqueue run)
    then show ?thesis using enqueue_ok [OF step.IH] by simp
  next
    case (begins j)
    then have "j < length (rq_jobs q)" "status_of_job q j = Waiting" by (simp_all add: may_start_def)
    then show ?thesis using begins set_status_ok [OF step.IH, of j Running] earlier_settled [OF step.IH begins(2)] by simp
  next
    case (settles j ok)
    have "is_settled (status_of_job q i)" if "i < j" "run_of_job q i = run_of_job q j" for i
      using step.IH settles that by (simp add: queue_ok_def)
    then show ?thesis using settles set_status_ok [OF step.IH, of j "Settled ok"] by simp
  qed
qed

text \<open>
  C38: One cycle at a time in a run, in the order they were asked for, and never a stop.  In every state of
  the queue, a job of a run that has started has every earlier job of that run behind it, so at most one is
  running; and while a job waits, some job of its run no later than it is running or may start now, whether
  the jobs before that one succeeded or failed.
\<close>

theorem cycles_of_a_run_take_turns:
  assumes "queue_reaches q" "j < length (rq_jobs q)"
  shows "(status_of_job q j \<noteq> Waiting \<longrightarrow> (\<forall>i < j. run_of_job q i = run_of_job q j \<longrightarrow> is_settled (status_of_job q i)))
    \<and> (status_of_job q j = Waiting \<longrightarrow>
         (\<exists>k \<le> j. run_of_job q k = run_of_job q j \<and> (status_of_job q k = Running \<or> may_start q k)))"
proof -
  have ok: "queue_ok q" by (rule reached_queue_ok [OF assms(1)])
  have "\<exists>k \<le> j. run_of_job q k = run_of_job q j \<and> (status_of_job q k = Running \<or> may_start q k)"
    if w: "status_of_job q j = Waiting"
  proof -
    let ?P = "\<lambda>k. k \<le> j \<and> run_of_job q k = run_of_job q j \<and> \<not> is_settled (status_of_job q k)"
    define k where "k = (LEAST k. ?P k)"
    have "?P j" using w by simp
    then have k: "?P k" and least: "\<And>i. i < k \<Longrightarrow> \<not> ?P i"
      unfolding k_def by (rule LeastI [of ?P]) (rule not_less_Least)
    have kl: "k < length (rq_jobs q)" using k assms(2) by simp
    have "status_of_job q k = Running \<or> may_start q k"
    proof (cases "status_of_job q k")
      case Waiting
      have "last_before q (run_of_job q k) k (qj_previous (rq_jobs q ! k))" using ok kl by (simp add: queue_ok_def)
      then show ?thesis
        using Waiting kl least k by (fastforce simp: may_start_def last_before_def split: option.splits)
    qed (use k in auto)
    then show ?thesis using k by blast
  qed
  moreover have "status_of_job q j \<noteq> Waiting \<longrightarrow> (\<forall>i < j. run_of_job q i = run_of_job q j \<longrightarrow> is_settled (status_of_job q i))"
    using ok assms(2) by (simp add: queue_ok_def)
  ultimately show ?thesis by blast
qed

definition sample_queue :: run_queue where
  "sample_queue = set_status 0 (Settled False) (set_status 0 Running (onRun (u ''r'') (onRun (u ''r'') empty_queue)))"

theorem cycles_of_a_run_take_turns_witness:
  "queue_reaches sample_queue \<and> may_start sample_queue 1
   \<and> (\<exists>k \<le> 1. run_of_job sample_queue k = run_of_job sample_queue 1
        \<and> (status_of_job sample_queue k = Running \<or> may_start sample_queue k))"
proof -
  have s: "may_start (onRun (u ''r'') (onRun (u ''r'') empty_queue)) 0"
    "status_of_job (set_status 0 Running (onRun (u ''r'') (onRun (u ''r'') empty_queue))) 0 = Running"
    "0 < length (rq_jobs (set_status 0 Running (onRun (u ''r'') (onRun (u ''r'') empty_queue))))"
    "may_start sample_queue 1" "1 < length (rq_jobs sample_queue)" "status_of_job sample_queue 1 = Waiting"
    by (simp_all add: sample_queue_def may_start_def onRun_def empty_queue_def set_status_def)
  have "queue_reaches sample_queue"
    unfolding sample_queue_def
    by (rule queue_reaches.step [OF queue_reaches.step [OF queue_reaches.step [OF queue_reaches.step [OF queue_reaches.empty]]]])
       (rule queue_step.enqueue queue_step.begins [OF s(1)] queue_step.settles [OF s(3,2)])+
  with cycles_of_a_run_take_turns [OF this s(5)] s show ?thesis by blast
qed

end
