(* ===== verification/Runtime.thy ===== *)
theory Runtime
  imports Prompts Run_Registry Gateway Policy Kb_Gap
begin

section \<open>The composition root\<close>

text \<open>
  What \<open>src/src/server/agents.ts\<close> wires together for an organisation: the models, the prices, the share of
  the budget, the state every row is written under, and the gateway of its run.  The environment variables,
  the privileges of the role, the versions of the packages and the tables it reads are \<open>build_env\<close>; the
  provider itself is the function of \<open>call_env\<close>.
\<close>

subsection \<open>Models and prices\<close>

datatype provider_mode = Fixture_Mode | Real_Mode

record agent_models =
  am_triage :: jstr
  am_draft :: jstr
  am_validate :: jstr

definition FIXTURE_MODELS :: agent_models where
  "FIXTURE_MODELS = \<lparr>am_triage = u ''fixture-triage-small'', am_draft = u ''fixture-draft-large'',
     am_validate = u ''fixture-validate-small''\<rparr>"

definition ANTHROPIC_SMALL_MODEL :: jstr where
  "ANTHROPIC_SMALL_MODEL = u ''claude-haiku-4-5''"

definition ANTHROPIC_LARGE_MODEL :: jstr where
  "ANTHROPIC_LARGE_MODEL = u ''claude-opus-4-6''"

definition REAL_MODELS :: agent_models where
  "REAL_MODELS = \<lparr>am_triage = ANTHROPIC_SMALL_MODEL, am_draft = ANTHROPIC_LARGE_MODEL, am_validate = ANTHROPIC_SMALL_MODEL\<rparr>"

definition ANTHROPIC_MODELS :: "(jstr \<times> jnum \<times> jnum) list" where
  "ANTHROPIC_MODELS = [(ANTHROPIC_SMALL_MODEL, Fin 1, Fin 5), (ANTHROPIC_LARGE_MODEL, Fin 5, Fin 25)]"

definition AUD_PER_USD :: jnum where
  "AUD_PER_USD = lit (155 / 100)"

definition anthropicPricing :: "(jstr \<times> model_price) list" where
  "anthropicPricing =
     map (\<lambda>(model, inp, out). (model, \<lparr>input_aud_per_1k = jmul (jdiv inp (Fin 1000)) AUD_PER_USD,
                                      output_aud_per_1k = jmul (jdiv out (Fin 1000)) AUD_PER_USD\<rparr>)) ANTHROPIC_MODELS"

definition providerMode :: "jstr option \<Rightarrow> js_error + provider_mode" where
  "providerMode declared =
     (let mode = (case declared of Some m \<Rightarrow> m | None \<Rightarrow> u ''fixture'')
      in if mode = u ''fixture'' then Inr Fixture_Mode else if mode = u ''real'' then Inr Real_Mode else Inl PlainError)"

fun modelsFor :: "provider_mode \<Rightarrow> agent_models" where
  "modelsFor Real_Mode = REAL_MODELS"
| "modelsFor Fixture_Mode = FIXTURE_MODELS"

definition pricingTable :: "(jstr \<times> model_price) list" where
  "pricingTable =
     [(am_triage FIXTURE_MODELS, \<lparr>input_aud_per_1k = lit (1 / 1000), output_aud_per_1k = lit (4 / 1000)\<rparr>),
      (am_draft FIXTURE_MODELS, \<lparr>input_aud_per_1k = lit (4 / 1000), output_aud_per_1k = lit (16 / 1000)\<rparr>),
      (am_validate FIXTURE_MODELS, \<lparr>input_aud_per_1k = lit (1 / 1000), output_aud_per_1k = lit (4 / 1000)\<rparr>)]
     @ anthropicPricing"

definition TRIAGE_SAMPLING :: sampling_options where
  "TRIAGE_SAMPLING = \<lparr>sm_temperature = Fin 0, sm_top_p = Fin 1, sm_max_tokens = Fin 256, sm_stop = None\<rparr>"

definition DRAFT_SAMPLING :: sampling_options where
  "DRAFT_SAMPLING = \<lparr>sm_temperature = Fin 0, sm_top_p = Fin 1, sm_max_tokens = Fin 1536, sm_stop = None\<rparr>"

definition VALIDATE_SAMPLING :: sampling_options where
  "VALIDATE_SAMPLING = \<lparr>sm_temperature = Fin 0, sm_top_p = Fin 1, sm_max_tokens = Fin 512, sm_stop = None\<rparr>"

definition TERM_BUDGET_AUD :: "jnum \<times> jnum" where
  "TERM_BUDGET_AUD = (Fin 120, Fin 100)"

definition NO_KB_SNAPSHOT :: jstr where
  "NO_KB_SNAPSHOT = u ''kb:none''"

definition STATE_SCHEMA_VERSION :: jstr where
  "STATE_SCHEMA_VERSION = u ''1.0''"

definition APP_VERSION :: jstr where
  "APP_VERSION = u ''0.1.0''"

subsection \<open>The parts of a runtime\<close>

definition rulesetHash :: "(jstr \<Rightarrow> jstr) \<Rightarrow> escalation_thresholds \<Rightarrow> js_error + jstr" where
  "rulesetHash sha th = digestOf sha (rulesetDescription th DEFAULT_PRIORITY_WEIGHTS)"

definition kbSnapshotComponent :: "jstr \<Rightarrow> jstr \<Rightarrow> jstr" where
  "kbSnapshotComponent org name = org @ u '':'' @ name"

record prompt_ids =
  pi_triage :: jstr
  pi_draft :: jstr
  pi_validate :: jstr

record org_runtime =
  rt_org_id :: jstr
  rt_run_id :: jstr
  rt_gateway :: gateway
  rt_prompts :: prompt_ids
  rt_models :: agent_models
  rt_kb_snapshot :: jstr
  rt_ruleset_hash :: jstr
  rt_state :: state_parts
  rt_thresholds :: escalation_thresholds
  rt_restarts :: int
  rt_app :: jstr
  rt_ruleset :: jstr
  rt_provider_mode :: provider_mode

text \<open>\<open>R_Invariant\<close> is the plain error a cycle throws when its own reasoning does not hold.\<close>

datatype run_error =
    R_Gateway call_error
  | R_Desk desk_error
  | R_Kb kb_error
  | R_Agent agent_error
  | R_Prompt prompt_error
  | R_Thrown js_error
  | R_Chain_Conflict
  | R_Chain_Refused
  | R_Invariant jstr

abbreviation thrown :: "js_error + 'a \<Rightarrow> run_error + 'a" where
  "thrown r \<equiv> (case r of Inl e \<Rightarrow> Inl (R_Thrown e) | Inr x \<Rightarrow> Inr x)"

abbreviation app_error :: "app_error_code \<Rightarrow> nat \<Rightarrow> run_error" where
  "app_error code status \<equiv> R_Desk (App code status)"

record build_env =
  be_sha :: "jstr \<Rightarrow> jstr"
  be_privileges :: "bool list"
  be_racing :: "agent_kind \<Rightarrow> nat \<Rightarrow> prompt_table"
  be_tenants :: nat
  be_provider :: "jstr option"
  be_replay :: "jstr option"
  be_has_key :: bool
  be_sdk_version :: jstr
  be_node :: jstr

text \<open>What a build reads and writes: the prompts, the heads, the ledger, and the counts the process remembers.\<close>

record build_state =
  bs_prompts :: prompt_table
  bs_heads :: "jstr \<rightharpoonup> kb_head"
  bs_ledger :: ledger_table
  bs_restarts :: "jstr \<rightharpoonup> int"

text \<open>The ten questions about privileges; one answered no is a refusal.\<close>

definition assertPrivileges :: "build_env \<Rightarrow> run_error + unit" where
  "assertPrivileges env = (if list_all (\<lambda>granted. granted) (be_privileges env) then Inr () else Inl (R_Thrown PlainError))"

definition tenantCount :: "build_env \<Rightarrow> nat" where
  "tenantCount env = max 1 (be_tenants env)"

definition rows_of_run :: "jstr \<Rightarrow> jstr \<Rightarrow> ledger_table \<Rightarrow> ledger_table" where
  "rows_of_run org run table = filter (\<lambda>r. run_id r = run) (visible org table)"

definition restartsOf :: "jstr \<Rightarrow> jstr \<Rightarrow> (build_state, run_error, int) action" where
  "restartsOf org run s =
     (case bs_restarts s run of
        Some n \<Rightarrow> (s, Inr n)
      | None \<Rightarrow>
          (let rows = rows_of_run org run (bs_ledger s);
               counted = (if rows = [] then 0 else Max (set (map restarts rows)) + 1)
           in (s\<lparr>bs_restarts := (bs_restarts s)(run \<mapsto> counted)\<rparr>, Inr counted)))"

definition register_prompts ::
    "build_env \<Rightarrow> prompt_registration list \<Rightarrow> (build_state, run_error, jstr) action" where
  "register_prompts env generations s =
     (let (table, r) = ensurePromptLineage (be_sha env)
            (case generations of [] \<Rightarrow> \<lambda>_. [] | g # _ \<Rightarrow> be_racing env (pr_agent g)) generations (bs_prompts s)
      in (s\<lparr>bs_prompts := table\<rparr>, case r of Inl e \<Rightarrow> Inl (R_Prompt e) | Inr i \<Rightarrow> Inr i))"

definition buildProvider :: "build_env \<Rightarrow> provider_mode \<Rightarrow> run_error + jstr" where
  "buildProvider env mode =
     (case mode of
        Real_Mode \<Rightarrow> if be_has_key env then Inr (u ''anthropic-sdk@'' @ be_sdk_version env)
                     else Inl (R_Gateway (refuse E_CONFIG_INVALID))
      | Fixture_Mode \<Rightarrow> Inr (u ''ledgerdesk-fixture@2''))"

definition snapshotHeadFor :: "(jstr \<rightharpoonup> kb_head) \<Rightarrow> jstr \<Rightarrow> jstr option" where
  "snapshotHeadFor heads org = map_option hd_snapshot (heads org)"

definition requireSnapshotHead :: "(jstr \<rightharpoonup> kb_head) \<Rightarrow> jstr \<Rightarrow> run_error + jstr" where
  "requireSnapshotHead heads org =
     (case snapshotHeadFor heads org of
        Some head \<Rightarrow> if head = [] then Inl (app_error E_INTERNAL 500) else Inr head
      | None \<Rightarrow> Inl (app_error E_INTERNAL 500))"

definition gateway_config_for ::
    "build_env \<Rightarrow> jstr \<Rightarrow> state_parts \<Rightarrow> jstr \<Rightarrow> jstr \<Rightarrow> int \<Rightarrow> gateway_config" where
  "gateway_config_for env run state provider ruleset boots =
     (let share = Fin (of_nat (tenantCount env))
      in \<lparr>gc_provider_id = provider, gc_run_id = run, gc_state = state, gc_app = APP_VERSION, gc_node = be_node env,
          gc_ruleset = ruleset, gc_pricing = pricingTable,
          gc_budget = \<lparr>cap_aud = jdiv (fst TERM_BUDGET_AUD) share, cut_aud = jdiv (snd TERM_BUDGET_AUD) share,
                       bc_scope = TermScope\<rparr>,
          gc_timeout_ms = Some (Fin 30000), gc_restarts = Some boots, gc_cache = None,
          gc_replay = Some (be_replay env = Some (u ''1''))\<rparr>)"

definition buildRuntime :: "build_env \<Rightarrow> jstr \<Rightarrow> jstr \<Rightarrow> (build_state, run_error, org_runtime) action" where
  "buildRuntime env org run =
     then_do (lift_err (assertPrivileges env)) (\<lambda>_.
     then_do (register_prompts env (TRIAGE_PROMPT_GENERATIONS (be_sha env))) (\<lambda>triage.
     then_do (register_prompts env (DRAFT_PROMPT_GENERATIONS (be_sha env))) (\<lambda>draft.
     then_do (register_prompts env (VALIDATE_PROMPT_GENERATIONS (be_sha env))) (\<lambda>validate.
     then_do (restartsOf org run) (\<lambda>boots.
     then_do (lift_err (thrown (rulesetHash (be_sha env) DEFAULT_ESCALATION_THRESHOLDS))) (\<lambda>ruleset.
     then_do get_state (\<lambda>s.
     let snapshot = (case snapshotHeadFor (bs_heads s) org of Some h \<Rightarrow> h | None \<Rightarrow> NO_KB_SNAPSHOT)
     in then_do (lift_err (thrown (providerMode (be_provider env)))) (\<lambda>mode.
        then_do (lift_err (buildProvider env mode)) (\<lambda>provider.
        let name = u ''ruleset@'' @ take 12 ruleset;
            state = \<lparr>schema_version = STATE_SCHEMA_VERSION, ruleset_hash = ruleset,
                     kb_snapshot = kbSnapshotComponent org snapshot\<rparr>
        in then_do (lift_err (case createGateway (be_sha env) (gateway_config_for env run state provider name boots) of
                                Inl e \<Rightarrow> Inl (R_Gateway e) | Inr g \<Rightarrow> Inr g)) (\<lambda>g.
           ret \<lparr>rt_org_id = org, rt_run_id = run, rt_gateway = g,
                rt_prompts = \<lparr>pi_triage = triage, pi_draft = draft, pi_validate = validate\<rparr>,
                rt_models = modelsFor mode, rt_kb_snapshot = snapshot, rt_ruleset_hash = ruleset, rt_state = state,
                rt_thresholds = DEFAULT_ESCALATION_THRESHOLDS, rt_restarts = boots, rt_app = APP_VERSION,
                rt_ruleset = name, rt_provider_mode = mode\<rparr>))))))))))"

subsection \<open>A runtime whose corpus has moved\<close>

definition refuseIfRuntimeIsStale ::
    "(jstr \<Rightarrow> jstr) \<Rightarrow> jstr \<Rightarrow> org_runtime \<Rightarrow> jstr \<Rightarrow> (registry, run_error, unit) action" where
  "refuseIfRuntimeIsStale sha run_label rt head rg =
     (if rt_kb_snapshot rt = head then (rg, Inr ())
      else (evictRuntime sha run_label (rt_org_id rt) rg, Inl (app_error E_RUNTIME_SNAPSHOT_STALE 409)))"

subsection \<open>What a runtime says of itself\<close>

lemma error_renamed: "(case r of Inl e \<Rightarrow> Inl (f e) | Inr x \<Rightarrow> Inr x) = Inr y \<longleftrightarrow> r = Inr y"
  by (cases r) simp_all

lemma restartsOf_cases:
  assumes "restartsOf org run s = (s', r)"
  obtains n where "bs_restarts s run = Some n" "s' = s" "r = Inr n"
  | "bs_restarts s run = None" "rows_of_run org run (bs_ledger s) = []" "s' = s\<lparr>bs_restarts := (bs_restarts s)(run \<mapsto> 0)\<rparr>" "r = Inr 0"
  | n where "bs_restarts s run = None" "\<forall>x \<in> set (rows_of_run org run (bs_ledger s)). restarts x < n"
      "\<exists>x \<in> set (rows_of_run org run (bs_ledger s)). restarts x = n - 1"
      "s' = s\<lparr>bs_restarts := (bs_restarts s)(run \<mapsto> n)\<rparr>" "r = Inr n"
proof (cases "bs_restarts s run")
  case None
  let ?rows = "rows_of_run org run (bs_ledger s)"
  show ?thesis
  proof (cases "?rows = []")
    case True
    have "restartsOf org run s = (s\<lparr>bs_restarts := (bs_restarts s)(run \<mapsto> 0)\<rparr>, Inr 0)"
      using None True by (simp add: restartsOf_def Let_def)
    then have "s' = s\<lparr>bs_restarts := (bs_restarts s)(run \<mapsto> 0)\<rparr>" "r = Inr 0" using assms by simp_all
    from that(2) [OF None True this] show ?thesis .
  next
    case False
    let ?n = "Max (set (map restarts ?rows)) + 1"
    have fin: "finite (set (map restarts ?rows))" "set (map restarts ?rows) \<noteq> {}" using False by simp_all
    have below: "\<forall>x \<in> set ?rows. restarts x < ?n"
    proof
      fix x assume "x \<in> set ?rows"
      then have "restarts x \<in> set (map restarts ?rows)" by simp
      from Max_ge [OF fin(1) this] show "restarts x < ?n" by linarith
    qed
    have "Max (set (map restarts ?rows)) \<in> restarts ` set ?rows" using Max_in [OF fin] by simp
    then have top: "\<exists>x \<in> set ?rows. restarts x = ?n - 1" by (elim imageE) auto
    have "restartsOf org run s = (s\<lparr>bs_restarts := (bs_restarts s)(run \<mapsto> ?n)\<rparr>, Inr ?n)"
      using None False by (simp add: restartsOf_def Let_def)
    then have "s' = s\<lparr>bs_restarts := (bs_restarts s)(run \<mapsto> ?n)\<rparr>" "r = Inr ?n" using assms by simp_all
    from that(3) [OF None below top this] show ?thesis .
  qed
next
  case (Some n)
  then have "restartsOf org run s = (s, Inr n)" by (simp add: restartsOf_def)
  then have "s' = s" "r = Inr n" using assms by simp_all
  from that(1) [OF Some this] show ?thesis .
qed

lemma register_prompts_keeps:
  "register_prompts env generations s = (s', r) \<Longrightarrow>
     bs_heads s' = bs_heads s \<and> bs_ledger s' = bs_ledger s \<and> bs_restarts s' = bs_restarts s"
  by (auto simp: register_prompts_def Let_def split: prod.splits)

lemma createGateway_pins:
  "createGateway sha config = Inr g \<Longrightarrow>
     gw_config g = config \<and> stateHash sha (gc_state config) = Inr (gw_state_hash g)
     \<and> (\<forall>n. gc_restarts config = Some n \<longrightarrow> gw_restarts g = n)"
  unfolding createGateway_def Let_def by (auto split: if_splits sum.splits)

text \<open>The whole build, as the values it was put together from.\<close>

lemma built:
  assumes "buildRuntime env org run s = (s', Inr rt)"
  obtains boots where
    "snd (restartsOf org run s) = Inr boots" "bs_restarts s' = bs_restarts (fst (restartsOf org run s))"
    "rt_org_id rt = org" "rt_run_id rt = run" "rt_restarts rt = boots"
    "rt_kb_snapshot rt = (case snapshotHeadFor (bs_heads s) org of Some h \<Rightarrow> h | None \<Rightarrow> NO_KB_SNAPSHOT)"
    "rt_state rt = \<lparr>schema_version = STATE_SCHEMA_VERSION, ruleset_hash = rt_ruleset_hash rt,
                     kb_snapshot = kbSnapshotComponent org (rt_kb_snapshot rt)\<rparr>"
    "rulesetHash (be_sha env) (rt_thresholds rt) = Inr (rt_ruleset_hash rt)"
    "gc_state (gw_config (rt_gateway rt)) = rt_state rt" "gc_run_id (gw_config (rt_gateway rt)) = run"
    "stateHash (be_sha env) (rt_state rt) = Inr (gw_state_hash (rt_gateway rt))" "gw_restarts (rt_gateway rt) = boots"
proof -
  obtain s1 s2 s3 s4 triage draft validate boots ruleset mode provider g where
    p: "register_prompts env (TRIAGE_PROMPT_GENERATIONS (be_sha env)) s = (s1, Inr triage)"
      "register_prompts env (DRAFT_PROMPT_GENERATIONS (be_sha env)) s1 = (s2, Inr draft)"
      "register_prompts env (VALIDATE_PROMPT_GENERATIONS (be_sha env)) s2 = (s3, Inr validate)"
    and r: "restartsOf org run s3 = (s4, Inr boots)"
    and h: "rulesetHash (be_sha env) DEFAULT_ESCALATION_THRESHOLDS = Inr ruleset"
    and g: "createGateway (be_sha env) (gateway_config_for env run
              \<lparr>schema_version = STATE_SCHEMA_VERSION, ruleset_hash = ruleset, kb_snapshot = kbSnapshotComponent org
                 (case snapshotHeadFor (bs_heads s4) org of Some h \<Rightarrow> h | None \<Rightarrow> NO_KB_SNAPSHOT)\<rparr> provider
              (u ''ruleset@'' @ take 12 ruleset) boots) = Inr g"
    and rt: "\<lparr>rt_org_id = org, rt_run_id = run, rt_gateway = g,
        rt_prompts = \<lparr>pi_triage = triage, pi_draft = draft, pi_validate = validate\<rparr>, rt_models = modelsFor mode,
        rt_kb_snapshot = (case snapshotHeadFor (bs_heads s4) org of Some h \<Rightarrow> h | None \<Rightarrow> NO_KB_SNAPSHOT),
        rt_ruleset_hash = ruleset,
        rt_state = \<lparr>schema_version = STATE_SCHEMA_VERSION, ruleset_hash = ruleset, kb_snapshot = kbSnapshotComponent org
          (case snapshotHeadFor (bs_heads s4) org of Some h \<Rightarrow> h | None \<Rightarrow> NO_KB_SNAPSHOT)\<rparr>,
        rt_thresholds = DEFAULT_ESCALATION_THRESHOLDS, rt_restarts = boots, rt_app = APP_VERSION,
        rt_ruleset = u ''ruleset@'' @ take 12 ruleset, rt_provider_mode = mode\<rparr> = rt" "s4 = s'"
    using assms unfolding buildRuntime_def Let_def then_do_Inr action_run prod.inject sum.inject error_renamed
    by (elim exE conjE) (rule that; simp)
  note k = register_prompts_keeps [OF p(1)] register_prompts_keeps [OF p(2)] register_prompts_keeps [OF p(3)]
  have heads: "bs_heads s4 = bs_heads s" using k by (auto intro: restartsOf_cases [OF r])
  have boots: "snd (restartsOf org run s) = Inr boots" "bs_restarts s4 = bs_restarts (fst (restartsOf org run s))"
    using r k by (auto simp: restartsOf_def Let_def split: option.splits)
  note pins = createGateway_pins [OF g]
  show ?thesis
    by (rule that [OF boots(1)])
       (unfold rt(1) [symmetric] rt(2) [symmetric], use h heads boots pins in \<open>simp_all add: gateway_config_for_def Let_def\<close>)
qed


lemma jround_whole: "jround (Fin (numeral n)) = Fin (numeral n)"
proof -
  have "\<lfloor>numeral n + 1 / 2 :: rat\<rfloor> = numeral n" by (simp add: floor_eq_iff)
  then show ?thesis by simp
qed

lemma whole_numbers: "to_num 100 = Fin 100" "to_num 120 = Fin 120" "to_num 100000000 = Fin 100000000"
  using to_num_int [of 100] to_num_int [of 120] to_num_int [of 100000000] by simp_all

lemma term_cut: "audToMicro (Fin 100) = Inr (Fin 100000000)"
  by (simp add: audToMicro_def MICRO_PER_AUD_def whole_numbers jround_whole del: jround.simps)

subsection \<open>A build\<close>

fun json_finite :: "jsval \<Rightarrow> bool" where
  "json_finite JUndef = False"
| "json_finite (JNum n) = is_finite n"
| "json_finite (JArr xs) = list_all json_finite xs"
| "json_finite (JObj fs) = list_all (\<lambda>(k, v). json_finite v) fs"
| "json_finite v = True"

lemma canonicalJson_finite: "json_finite v \<Longrightarrow> \<exists>t. canonicalJson v = Inr t"
  and canonical_items_finite: "list_all json_finite xs \<Longrightarrow> \<exists>ts. canonical_items xs = Inr ts"
  and canonical_members_finite: "list_all (\<lambda>(k, v). json_finite v) fs \<Longrightarrow> \<exists>ms. canonical_members fs = Inr ms"
  by (induction v and xs and fs rule: canonicalJson_canonical_items_canonical_members.induct)
     (auto split: sum.splits)

lemma unit_finite: "\<bar>x\<bar> \<le> 1 \<Longrightarrow> is_finite (lit x)"
  using to_num_bounded [of x 1] rep_of_int [of 1] big_range [of 1] by simp

lemma default_description_finite:
  "json_finite (rulesetDescription DEFAULT_ESCALATION_THRESHOLDS DEFAULT_PRIORITY_WEIGHTS)"
proof -
  have p: "list_all json_finite (map (\<lambda>p. JObj (map (\<lambda>(k, v). (k, JStr v)) p)) policyPatternSources)"
    by (auto simp: list_all_iff)
  show ?thesis
    using p by (simp add: rulesetDescription_def retrievalDescription_def MIN_RANK_def DEFAULT_ESCALATION_THRESHOLDS_def
        DEFAULT_PRIORITY_WEIGHTS_def unit_finite)
qed

definition sample_digest :: "jstr \<Rightarrow> jstr" where
  "sample_digest t = replicate 64 97"

definition sample_boot :: build_env where
  "sample_boot = \<lparr>be_sha = sample_digest, be_privileges = replicate 10 True, be_racing = (\<lambda>_ _. []), be_tenants = 1,
     be_provider = None, be_replay = None, be_has_key = False, be_sdk_version = [], be_node = u ''v22''\<rparr>"

definition sample_boot_state :: build_state where
  "sample_boot_state = \<lparr>bs_prompts = TRIAGE_PROMPT_GENERATIONS sample_digest @ DRAFT_PROMPT_GENERATIONS sample_digest
       @ VALIDATE_PROMPT_GENERATIONS sample_digest, bs_heads = Map.empty, bs_ledger = [], bs_restarts = Map.empty\<rparr>"

lemma sample_prompts_registered:
  assumes "bs_prompts s = bs_prompts sample_boot_state"
  shows "register_prompts sample_boot (TRIAGE_PROMPT_GENERATIONS sample_digest) s = (s, Inr TRIAGE_PROMPT_ID_GEN1)"
    "register_prompts sample_boot (DRAFT_PROMPT_GENERATIONS sample_digest) s = (s, Inr DRAFT_PROMPT_ID)"
    "register_prompts sample_boot (VALIDATE_PROMPT_GENERATIONS sample_digest) s = (s, Inr VALIDATE_PROMPT_ID)"
proof -
  note d = register_prompts_def ensurePromptLineage_def sample_boot_def sample_boot_state_def
    TRIAGE_PROMPT_GENERATIONS_def DRAFT_PROMPT_GENERATIONS_def VALIDATE_PROMPT_GENERATIONS_def same_generation_def
    disagrees_def registered_for_def stable_sort_def AGENT_IO_SCHEMA_SHA256_def TRIAGE_PROMPT_GENERATION_def
  have s: "s\<lparr>bs_prompts := bs_prompts s\<rparr> = s" by simp
  show "register_prompts sample_boot (TRIAGE_PROMPT_GENERATIONS sample_digest) s = (s, Inr TRIAGE_PROMPT_ID_GEN1)"
    "register_prompts sample_boot (DRAFT_PROMPT_GENERATIONS sample_digest) s = (s, Inr DRAFT_PROMPT_ID)"
    "register_prompts sample_boot (VALIDATE_PROMPT_GENERATIONS sample_digest) s = (s, Inr VALIDATE_PROMPT_ID)"
    using s assms by (simp_all add: d)
qed

lemma sample_not_blank:
  "\<not> blank STATE_SCHEMA_VERSION" "\<not> blank (sample_digest t)" "\<not> blank (kbSnapshotComponent (u ''o'') NO_KB_SNAPSHOT)"
  unfolding sample_digest_def by code_simp+

lemma sample_built:
  assumes "bs_prompts s = bs_prompts sample_boot_state" "bs_heads s = Map.empty"
  shows "\<exists>s1 rt. buildRuntime sample_boot (u ''o'') (u ''r'') s = (s1, Inr rt)"
proof -
  obtain t where t: "canonicalJson (rulesetDescription DEFAULT_ESCALATION_THRESHOLDS DEFAULT_PRIORITY_WEIGHTS) = Inr t"
    using canonicalJson_finite [OF default_description_finite] by blast
  have r: "rulesetHash sample_digest DEFAULT_ESCALATION_THRESHOLDS = Inr (sample_digest [])"
    by (simp add: rulesetHash_def digestOf_def t sample_digest_def)
  obtain s1 n where n: "restartsOf (u ''o'') (u ''r'') s = (s1, Inr n)" "bs_heads s1 = Map.empty"
    using assms(2) by (cases "bs_restarts s (u ''r'')") (auto simp: restartsOf_def Let_def)
  let ?state = "\<lparr>schema_version = STATE_SCHEMA_VERSION, ruleset_hash = sample_digest [],
      kb_snapshot = kbSnapshotComponent (u ''o'') NO_KB_SNAPSHOT\<rparr>"
  obtain h where h: "stateHash sample_digest ?state = Inr h"
    using canonicalJson_finite [of "JObj [(u ''schema_version'', JStr (schema_version ?state)),
        (u ''ruleset_hash'', JStr (ruleset_hash ?state)), (u ''kb_snapshot'', JStr (kb_snapshot ?state))]"]
    by (auto simp: stateHash_def digestOf_def)
  have "\<exists>g. createGateway sample_digest (gateway_config_for sample_boot (u ''r'') ?state (u ''ledgerdesk-fixture@2'') name n) = Inr g" for name
    using h sample_not_blank
    by (simp add: createGateway_def gateway_config_for_def tenantCount_def sample_boot_def TERM_BUDGET_AUD_def
        whole_numbers term_cut less_eq_jnum_def Let_def)
  then obtain g where g: "\<And>name. createGateway sample_digest
      (gateway_config_for sample_boot (u ''r'') ?state (u ''ledgerdesk-fixture@2'') name n) = Inr (g name)" by metis
  have env: "be_sha sample_boot = sample_digest" "assertPrivileges sample_boot = Inr ()"
    "providerMode (be_provider sample_boot) = Inr Fixture_Mode" "buildProvider sample_boot Fixture_Mode = Inr (u ''ledgerdesk-fixture@2'')"
    by (simp_all add: sample_boot_def assertPrivileges_def providerMode_def buildProvider_def list_all_iff)
  show ?thesis
    using sample_prompts_registered [OF assms(1)] n r g
    by (simp add: buildRuntime_def env then_do_def action_run snapshotHeadFor_def Let_def)
qed


text \<open>The shares of a term ceiling are rounded one by one: six of them add up to more than the ceiling.\<close>

lemma six_shares_exceed_the_ceiling:
  "audToMicro (jdiv (snd TERM_BUDGET_AUD) (Fin 6)) = Inr (Fin 16666667)
   \<and> audToMicro (snd TERM_BUDGET_AUD) = Inr (Fin 100000000) \<and> 6 * 16666667 > (100000000 :: int)"
proof -
  let ?share = "4691249611844267 * 2 powi (- 48) :: rat" and ?micro = "8947848533333334 * 2 powi (- 29) :: rat"
  have "fl (100 / 6) = ?share" using fl_eval [of 4 "100 / 6" 4691249611844267] by simp
  then have d: "to_num (100 / 6) = Fin ?share"
    using to_num_bounded [of "100 / 6" 100] rep_of_int [of 100] big_range [of 100] by simp
  have "fl (?share * 1000000) = ?micro" using fl_eval [of 23 "?share * 1000000" 8947848533333334] by simp
  then have m: "to_num (?share * 1000000) = Fin ?micro"
    using to_num_bounded [of "?share * 1000000" 100000000] rep_of_int [of 100000000] big_range [of 100000000] by simp
  have f: "\<lfloor>?micro + 1 / 2\<rfloor> = 16666667" by (intro floor_unique) simp_all
  have "jround (Fin ?micro) = Fin 16666667" unfolding jround.simps f by simp
  then show ?thesis
    using d m term_cut by (simp add: audToMicro_def TERM_BUDGET_AUD_def MICRO_PER_AUD_def del: jround.simps)
qed

end
