(* ===== verification/Desk.thy ===== *)
theory Desk
  imports Runtime Features
begin

section \<open>What the cycles of a ticket share\<close>

text \<open>
  The state a triage or a drafting cycle runs on: the ledger and the audit chain with the gateway of the
  run, the tickets, the knowledge base and the registry of runtimes.  A decision is an audit event written
  in the transaction of the transition it explains (\<open>src/src/server/decisions.ts\<close>), and that transaction is
  run again when the audit chain has moved (\<open>inTransaction\<close>, the same code in
  \<open>src/src/server/triage/runner.ts\<close> and \<open>src/src/server/draft/runner.ts\<close>).

  What other sessions do is an argument.  \<open>cy_others m\<close> is what they commit before the moment \<open>m\<close> of a
  cycle, and \<open>cy_unseen k\<close> says how many of the last events of the chain are committed after attempt \<open>k\<close>
  has read its head and before it inserts: the trigger takes the lock of the organisation at the insert, so
  only the first insert of a transaction can find a stale head.
\<close>

record desk =
  dk_world :: world
  dk_tickets :: ticket_table
  dk_kb :: kb_store
  dk_registry :: registry

type_synonym 'a cycle = "(desk, run_error, 'a) action"

datatype moment = Before_Read | Before_Head | Before_Bump nat | Before_Attempt nat

record cycle_env =
  cy_sha :: "jstr \<Rightarrow> jstr"
  cy_nfkc :: "jstr \<Rightarrow> jstr"
  cy_lower :: "jstr \<Rightarrow> jstr"
  cy_desk :: desk_env
  cy_kb :: kb_env
  cy_text :: text_env
  cy_search :: text_search
  cy_calls :: "nat \<Rightarrow> call_env"
  cy_accounts :: "jstr \<Rightarrow> (jstr \<times> int) option"
  cy_language :: "jstr \<Rightarrow> jstr"
  cy_sla :: "jstr \<Rightarrow> int \<Rightarrow> (jstr \<times> int) option"
  cy_now :: int
  cy_label :: jstr
  cy_response_id :: jstr
  cy_gap_id :: jstr
  cy_others :: "moment \<Rightarrow> desk \<Rightarrow> desk"
  cy_gap_others :: "kb_gap list \<Rightarrow> kb_gap list"
  cy_unseen :: "nat \<Rightarrow> nat"

subsection \<open>Actions on a part of the state\<close>

definition on_tickets :: "(ticket_table, desk_error, 'a) action \<Rightarrow> 'a cycle" where
  "on_tickets m d =
     (case m (dk_tickets d) of
        (t, Inl e) \<Rightarrow> (d\<lparr>dk_tickets := t\<rparr>, Inl (R_Desk e))
      | (t, Inr x) \<Rightarrow> (d\<lparr>dk_tickets := t\<rparr>, Inr x))"

definition on_world :: "'a gateway_action \<Rightarrow> 'a cycle" where
  "on_world m d =
     (case m (dk_world d) of
        (w, Inl e) \<Rightarrow> (d\<lparr>dk_world := w\<rparr>, Inl (R_Gateway e))
      | (w, Inr x) \<Rightarrow> (d\<lparr>dk_world := w\<rparr>, Inr x))"

definition on_registry :: "(registry, run_error, 'a) action \<Rightarrow> 'a cycle" where
  "on_registry m d = (case m (dk_registry d) of (g, r) \<Rightarrow> (d\<lparr>dk_registry := g\<rparr>, r))"

definition on_kb :: "(kb_store \<Rightarrow> kb_error + kb_store) \<Rightarrow> unit cycle" where
  "on_kb f d = (case f (dk_kb d) of Inl e \<Rightarrow> (d, Inl (R_Kb e)) | Inr k \<Rightarrow> (d\<lparr>dk_kb := k\<rparr>, Inr ()))"

text \<open>The evidence trigger of the tickets reads the responses of the same database.\<close>

definition evidence_env :: "cycle_env \<Rightarrow> desk \<Rightarrow> desk_env" where
  "evidence_env env d = (cy_desk env)\<lparr>grounded_response :=
     (\<lambda>t. list_ex (\<lambda>r. kr_ticket r = t \<and> kr_grounded r = Some True) (kb_responses (dk_kb d)))\<rparr>"

definition move_ticket :: "cycle_env \<Rightarrow> jstr \<Rightarrow> component_transition \<Rightarrow> unit cycle" where
  "move_ticket env org ct d = on_tickets (applyComponentTransitionOn (evidence_env env d) (componentClaims org) ct) d"

definition component_kb_env :: "cycle_env \<Rightarrow> jstr \<Rightarrow> kb_env" where
  "component_kb_env env org = (cy_kb env)\<lparr>ke_claims := componentClaims org\<rparr>"

subsection \<open>Decisions\<close>

datatype decision_action = Ticket_Triaged | Ticket_Escalated | Ticket_Drafted | Ticket_Validated

fun action_name :: "decision_action \<Rightarrow> jstr" where
  "action_name Ticket_Triaged = u ''TICKET_TRIAGED''"
| "action_name Ticket_Escalated = u ''TICKET_ESCALATED''"
| "action_name Ticket_Drafted = u ''TICKET_DRAFTED''"
| "action_name Ticket_Validated = u ''TICKET_VALIDATED''"

definition DECISION_ACTIONS :: "jstr list" where
  "DECISION_ACTIONS = map action_name [Ticket_Triaged, Ticket_Escalated, Ticket_Drafted, Ticket_Validated]"

record decision =
  dc_org_id :: jstr
  dc_action :: decision_action
  dc_ticket_id :: jstr
  dc_detail :: jsval
  dc_ts :: jstr

definition decision_event :: "decision \<Rightarrow> audit_event" where
  "decision_event c = \<lparr>ae_org_id = dc_org_id c, actor_id = None, action = action_name (dc_action c),
     object_type = u ''ticket'', object_id = dc_ticket_id c, ae_detail = dc_detail c, ae_ts = dc_ts c\<rparr>"

definition recordDecision :: "(jstr \<Rightarrow> jstr) \<Rightarrow> nat \<Rightarrow> decision \<Rightarrow> jstr cycle" where
  "recordDecision sha unseen c d =
     (let table = w_audit (dk_world d);
          head_hash = audit_head (dc_org_id c) (take (length table - unseen) table)
      in case linkAuditRow sha (decision_event c) head_hash of
           Inl e \<Rightarrow> (d, Inl (R_Thrown e))
         | Inr row \<Rightarrow>
             (case canonicalJson (ae_detail row) of
                Inl e \<Rightarrow> (d, Inl (R_Thrown e))
              | Inr _ \<Rightarrow>
                  (case audit_insert table row of
                     Inl Conflict \<Rightarrow> (d, Inl R_Chain_Conflict)
                   | Inl Refused \<Rightarrow> (d, Inl R_Chain_Refused)
                   | Inr table' \<Rightarrow> (d\<lparr>dk_world := (dk_world d)\<lparr>w_audit := table'\<rparr>\<rparr>, Inr (ae_row_hash row)))))"

subsection \<open>The transaction of a decision\<close>

definition CHAIN_ATTEMPTS :: nat where
  "CHAIN_ATTEMPTS = 3"

text \<open>Code 23505, whichever index raised it, or the message of the trigger.\<close>

definition isChainConflict :: "run_error \<Rightarrow> bool" where
  "isChainConflict e =
     (case e of
        R_Chain_Conflict \<Rightarrow> True
      | R_Kb (Kb_Sql st m) \<Rightarrow> st = u ''23505'' \<or> js_includes m (u ''E_LEDGER_CHAIN_BROKEN'')
      | R_Desk Dedupe_Key_Conflict \<Rightarrow> True
      | _ \<Rightarrow> False)"

fun chain_attempts :: "(moment \<Rightarrow> desk \<Rightarrow> desk) \<Rightarrow> (nat \<Rightarrow> 'a cycle) \<Rightarrow> nat \<Rightarrow> nat \<Rightarrow> 'a cycle" where
  "chain_attempts others work 0 k d = (d, Inl (app_error E_INTERNAL 500))"
| "chain_attempts others work (Suc left) k d =
     (case in_transaction (work k) (others (Before_Attempt k) d) of
        (d', Inr x) \<Rightarrow> (d', Inr x)
      | (d', Inl e) \<Rightarrow> if isChainConflict e then chain_attempts others work left (k + 1) d' else (d', Inl e))"

definition inTransaction :: "cycle_env \<Rightarrow> (nat \<Rightarrow> 'a cycle) \<Rightarrow> 'a cycle" where
  "inTransaction env work = chain_attempts (cy_others env) work CHAIN_ATTEMPTS 0"

subsection \<open>The ticket a cycle reads\<close>

record cycle_ticket =
  tt_row :: ticket_row
  tt_tier :: jstr
  tt_band :: int
  tt_language :: jstr

text \<open>The join with the account of the ticket.\<close>

definition read_ticket :: "cycle_env \<Rightarrow> jstr \<Rightarrow> jstr \<Rightarrow> cycle_ticket option cycle" where
  "read_ticket env org ticketId d =
     (d, Inr (case List.find (\<lambda>r. visible_to (componentClaims org) r \<and> tk_id r = ticketId) (dk_tickets d) of
                None \<Rightarrow> None
              | Some r \<Rightarrow> map_option (\<lambda>(t, b). \<lparr>tt_row = r, tt_tier = t, tt_band = b, tt_language = cy_language env (tk_id r)\<rparr>)
                            (cy_accounts env (tk_account r))))"

definition retries_of :: "ticket_row \<Rightarrow> int" where
  "retries_of r = (case tk_retries r of Some n \<Rightarrow> n | None \<Rightarrow> 0)"

definition j_whole :: "int \<Rightarrow> jnum" where
  "j_whole n = Fin (of_int n)"

definition facts_of :: "cycle_ticket \<Rightarrow> int \<Rightarrow> ticket_facts" where
  "facts_of t tries =
     \<lparr>tf_id = tk_id (tt_row t), tf_createdAt = j_whole (ms_of (tk_created (tt_row t))),
      tf_slaDueAt = map_option (\<lambda>x. j_whole (ms_of x)) (tk_sla_due (tt_row t)),
      tf_language = tt_language t, tf_retries = j_whole tries\<rparr>"

definition account_of_ticket :: "cycle_ticket \<Rightarrow> account_facts" where
  "account_of_ticket t = \<lparr>af_tier = JStr (tt_tier t), af_valueBand = JNum (j_whole (tt_band t))\<rparr>"

definition flags_of :: "cycle_env \<Rightarrow> cycle_ticket \<Rightarrow> policy_flag list" where
  "flags_of env t = matchPolicyFlags (policyInput (cy_nfkc env) (cy_lower env) (tk_subject (tt_row t)) (tk_body_raw (tt_row t)))"

subsection \<open>What a decision says\<close>

fun reason_text :: "escalation_reason \<Rightarrow> jstr" where
  "reason_text CONF = u ''CONF''"
| "reason_text escalation_reason.SENT = u ''SENT''"
| "reason_text TIER = u ''TIER''"
| "reason_text RETRY = u ''RETRY''"
| "reason_text SLA = u ''SLA''"
| "reason_text GROUND = u ''GROUND''"
| "reason_text POLICY = u ''POLICY''"
| "reason_text LANG = u ''LANG''"

definition iso_instant :: "int \<Rightarrow> js_error + jstr" where
  "iso_instant ms = (if \<bar>ms\<bar> \<le> MAX_TIME then Inr (toISOString ms) else Inl RangeError)"

text \<open>The members every decision of a cycle starts with.\<close>

definition verdict_members ::
    "org_runtime \<Rightarrow> jstr \<Rightarrow> escalation_reason option \<Rightarrow> jstr option \<Rightarrow> clause_outcome list \<Rightarrow> jstr \<Rightarrow> (jstr \<times> jsval) list" where
  "verdict_members rt stage reason clause clauses at_text =
     [(u ''stage'', JStr stage), (u ''reason'', j_opt (\<lambda>r. JStr (reason_text r)) reason), (u ''clause'', j_opt JStr clause),
      (u ''clauses'', JArr (map (\<lambda>c. JObj [(u ''clause'', JStr (o_clause c)), (u ''reason'', JStr (reason_text (o_reason c))),
                                         (u ''fired'', JBool (o_fired c))]) clauses)),
      (u ''ruleset_hash'', JStr (rt_ruleset_hash rt)), (u ''run_id'', JStr (rt_run_id rt)),
      (u ''evaluated_at'', JStr at_text)]"

text \<open>\<open>{ \<dots>fs, \<dots>gs }\<close>: a later member of the same key replaces the value of the earlier.\<close>

definition spread :: "(jstr \<times> jsval) list \<Rightarrow> (jstr \<times> jsval) list \<Rightarrow> (jstr \<times> jsval) list" where
  "spread fs gs = foldl (\<lambda>m (k, v). put_member k v m) fs gs"

definition fileDecision ::
    "cycle_env \<Rightarrow> org_runtime \<Rightarrow> nat \<Rightarrow> jstr \<Rightarrow> decision_action \<Rightarrow> escalation_features \<Rightarrow> jstr
       \<Rightarrow> escalation_reason option \<Rightarrow> jstr option \<Rightarrow> (jstr \<times> jsval) list \<Rightarrow> jstr cycle" where
  "fileDecision env rt unseen ticketId act features stage reason clause extra =
     then_do (lift_err (thrown (evaluateEscalationClauses (cy_lower env) features (j_whole (cy_now env)) (rt_thresholds rt)))) (\<lambda>clauses.
     then_do (lift_err (thrown (iso_instant (cy_now env)))) (\<lambda>at_text.
     recordDecision (cy_sha env) unseen
       \<lparr>dc_org_id = rt_org_id rt, dc_action = act, dc_ticket_id = ticketId,
        dc_detail = JObj (spread (verdict_members rt stage reason clause clauses at_text) extra), dc_ts = at_text\<rparr>))"

definition escalation_columns :: "escalation_reason \<Rightarrow> jstr \<Rightarrow> (jstr \<times> column_value) list" where
  "escalation_columns reason clause =
     [(u ''escalation_reason'', V_Text (reason_text reason)), (u ''escalation_clause'', V_Text clause)]"

text \<open>The moves of a decision on the tickets, and the decision itself, in one transaction.\<close>

fun move_all :: "cycle_env \<Rightarrow> jstr \<Rightarrow> component_transition list \<Rightarrow> unit cycle" where
  "move_all env org [] = ret ()"
| "move_all env org (ct # cts) = then_do (move_ticket env org ct) (\<lambda>_. move_all env org cts)"

subsection \<open>What a move changes\<close>

definition ticket_hit :: "jstr \<Rightarrow> component_transition \<Rightarrow> ticket_row \<Rightarrow> bool" where
  "ticket_hit org ct r \<longleftrightarrow> updatable (componentClaims org) r \<and> tk_id r = ct_ticket ct \<and> tk_status r = ct_from ct"

definition written :: "component_transition \<Rightarrow> ticket_row \<Rightarrow> ticket_row" where
  "written ct r = (assign_columns (ct_assign ct) r)\<lparr>tk_status := ct_to ct\<rparr>"

lemma assign_columns_id [simp]: "tk_id (assign_columns cs r) = tk_id r"
proof (induction cs arbitrary: r)
  case (Cons c cs)
  have "tk_id (set_column (fst c) (snd c) r) = tk_id r" by (simp add: set_column_def)
  then show ?case using Cons [of "set_column (fst c) (snd c) r"] by (simp add: assign_columns_def case_prod_beta)
qed (simp add: assign_columns_def)

lemma written_row [simp]: "tk_id (written ct r) = tk_id r" "tk_status (written ct r) = ct_to ct"
  by (simp_all add: written_def)

lemma moved:
  assumes "move_ticket env org ct d = (d', Inr x)"
  obtains row where "filter (ticket_hit org ct) (dk_tickets d) = [row]"
    "d' = d\<lparr>dk_tickets := map (\<lambda>r. if ticket_hit org ct r then written ct r else r) (dk_tickets d)\<rparr>"
proof -
  have hit: "ticket_hit org ct = (\<lambda>r. updatable (componentClaims org) r \<and> tk_id r = ct_ticket ct \<and> tk_status r = ct_from ct)"
    by (simp add: fun_eq_iff ticket_hit_def)
  obtain t where t: "applyComponentTransitionOn (evidence_env env d) (componentClaims org) ct (dk_tickets d) = (t, Inr ())"
      "d' = d\<lparr>dk_tickets := t\<rparr>"
    using assms by (auto simp: move_ticket_def on_tickets_def split: prod.splits sum.splits)
  from t(1) have "length (filter (ticket_hit org ct) (dk_tickets d)) = 1
      \<and> t = map (\<lambda>r. if ticket_hit org ct r then written ct r else r) (dk_tickets d)"
    by (auto simp: applyComponentTransitionOn_def then_do_def action_run update_ticket_def Let_def hit written_def
        split: option.splits if_splits)
  with t(2) that show ?thesis by (auto simp: length_Suc_conv)
qed

lemma moved_row:
  assumes "filter (ticket_hit org ct) rows = [row]"
  shows "row \<in> set rows" "tk_id row = ct_ticket ct" "tk_status row = ct_from ct"
    "written ct row \<in> set (map (\<lambda>r. if ticket_hit org ct r then written ct r else r) rows)"
proof -
  have "row \<in> set (filter (ticket_hit org ct) rows)" by (simp add: assms)
  then have r: "row \<in> set rows" "ticket_hit org ct row" by auto
  then show "row \<in> set rows" "tk_id row = ct_ticket ct" "tk_status row = ct_from ct"
    "written ct row \<in> set (map (\<lambda>r. if ticket_hit org ct r then written ct r else r) rows)"
    by (auto simp: ticket_hit_def)
qed

lemma moved_others:
  "filter (\<lambda>r. tk_id r \<noteq> ct_ticket ct) (map (\<lambda>r. if ticket_hit org ct r then written ct r else r) rows)
     = filter (\<lambda>r. tk_id r \<noteq> ct_ticket ct) rows"
  by (induction rows) (auto simp: ticket_hit_def)

text \<open>The moves of one ticket: it is one row before and after, and no other row changes.\<close>

lemma moved_all:
  assumes "move_all env org cts d = (d', Inr x)" "cts \<noteq> []" "\<forall>ct \<in> set cts. ct_ticket ct = i"
  obtains row row' where "row \<in> set (dk_tickets d)" "tk_id row = i" "tk_status row = ct_from (hd cts)"
    "written (last cts) row' \<in> set (dk_tickets d')" "tk_id row' = i"
    "filter (\<lambda>r. tk_id r \<noteq> i) (dk_tickets d') = filter (\<lambda>r. tk_id r \<noteq> i) (dk_tickets d)"
    "dk_world d' = dk_world d" "dk_kb d' = dk_kb d"
proof -
  have "\<exists>row row'. row \<in> set (dk_tickets d) \<and> tk_id row = i \<and> tk_status row = ct_from (hd cts)
     \<and> written (last cts) row' \<in> set (dk_tickets d') \<and> tk_id row' = i
     \<and> filter (\<lambda>r. tk_id r \<noteq> i) (dk_tickets d') = filter (\<lambda>r. tk_id r \<noteq> i) (dk_tickets d)
     \<and> dk_world d' = dk_world d \<and> dk_kb d' = dk_kb d"
    using assms
  proof (induction cts arbitrary: d)
    case (Cons ct cts)
    obtain d1 where d1: "move_ticket env org ct d = (d1, Inr ())" "move_all env org cts d1 = (d', Inr x)"
      using Cons.prems(1) by (auto simp: then_do_Inr)
    obtain row where row: "filter (ticket_hit org ct) (dk_tickets d) = [row]"
        "d1 = d\<lparr>dk_tickets := map (\<lambda>r. if ticket_hit org ct r then written ct r else r) (dk_tickets d)\<rparr>"
      by (rule moved [OF d1(1)])
    have i: "ct_ticket ct = i" using Cons.prems(3) by simp
    note r = moved_row [OF row(1)]
    have o: "filter (\<lambda>r. tk_id r \<noteq> i) (dk_tickets d1) = filter (\<lambda>r. tk_id r \<noteq> i) (dk_tickets d)"
      using moved_others [of ct org "dk_tickets d"] by (simp add: row(2) i)
    show ?case
    proof (cases "cts = []")
      case True
      then have "d' = d1" using d1(2) by (simp add: action_run)
      with True r o i row(2) show ?thesis by (intro exI [of _ row]) auto
    next
      case False
      then obtain a b where ab: "a \<in> set (dk_tickets d1)" "tk_id a = i" "written (last cts) b \<in> set (dk_tickets d')" "tk_id b = i"
          "filter (\<lambda>r. tk_id r \<noteq> i) (dk_tickets d') = filter (\<lambda>r. tk_id r \<noteq> i) (dk_tickets d1)"
          "dk_world d' = dk_world d1" "dk_kb d' = dk_kb d1"
        using Cons.IH [OF d1(2)] Cons.prems(3) by auto
      with False r o i ab row(2) show ?thesis by (intro exI [of _ row] exI [of _ b]) auto
    qed
  qed simp
  then show ?thesis by (elim exE conjE) (rule that)
qed

subsection \<open>What a decision leaves\<close>

lemma recorded:
  assumes "recordDecision sha unseen c d = (d', Inr h)"
  obtains prev ev where "linkAuditRow sha (decision_event c) prev = Inr ev" "h = ae_row_hash ev"
    "d' = d\<lparr>dk_world := (dk_world d)\<lparr>w_audit := w_audit (dk_world d) @ [ev]\<rparr>\<rparr>"
    "\<forall>t. isHex64 (sha t) \<Longrightarrow> audit_ok sha (w_audit (dk_world d)) \<Longrightarrow> audit_ok sha (w_audit (dk_world d) @ [ev])"
proof -
  let ?table = "w_audit (dk_world d)"
  obtain prev ev where l: "linkAuditRow sha (decision_event c) prev = Inr ev"
    and e: "audit_insert ?table ev = Inr (?table @ [ev])" "h = ae_row_hash ev"
      "d' = d\<lparr>dk_world := (dk_world d)\<lparr>w_audit := ?table @ [ev]\<rparr>\<rparr>"
    using assms by (auto simp: recordDecision_def Let_def audit_insert_def split: sum.splits db_error.splits if_splits)
  show ?thesis by (rule that [OF l e(2,3)]) (use audit_insert_ok e(1) linkAuditRow_Inr(1) [OF l] in blast)
qed

lemma linked_event:
  "linkAuditRow sha row prev = Inr ev \<Longrightarrow>
     ae_org_id ev = ae_org_id row \<and> action ev = action row \<and> object_id ev = object_id row \<and> ae_detail ev = ae_detail row"
  by (auto simp: linkAuditRow_def Let_def audit_event.extend_def split: sum.splits)

lemma spread_get:
  "u k \<notin> fst ` set gs \<Longrightarrow> get_prop (spread fs gs) k = get_prop fs k"
proof (induction gs arbitrary: fs)
  case (Cons g gs)
  have "map_of (put_member (fst g) (snd g) fs) (u k) = map_of fs (u k)"
  proof -
    have "fst g \<noteq> u k" using Cons.prems by auto
    then have "map_of (map (\<lambda>(a, b). if a = fst g then (fst g, snd g) else (a, b)) fs) (u k) = map_of fs (u k)"
      by (induction fs) (auto split: if_splits)
    then show ?thesis using \<open>fst g \<noteq> u k\<close> by (auto simp: put_member_def map_add_def split: option.splits)
  qed
  then show ?case using Cons.IH [of "put_member (fst g) (snd g) fs"] Cons.prems
    by (simp add: spread_def get_prop_def case_prod_beta)
qed (simp add: spread_def)

text \<open>The event of a decision says what was decided, whatever else its caller adds.\<close>

definition says :: "org_runtime \<Rightarrow> jstr \<Rightarrow> decision_action \<Rightarrow> escalation_reason option \<Rightarrow> jstr option \<Rightarrow> chained_audit \<Rightarrow> bool" where
  "says rt ticketId act reason clause ev \<longleftrightarrow>
     ae_org_id ev = rt_org_id rt \<and> object_id ev = ticketId \<and> action ev = action_name act
     \<and> (\<exists>fs. ae_detail ev = JObj fs \<and> get_prop fs ''reason'' = j_opt (\<lambda>r. JStr (reason_text r)) reason
            \<and> get_prop fs ''clause'' = j_opt JStr clause \<and> get_prop fs ''run_id'' = JStr (rt_run_id rt)
            \<and> get_prop fs ''ruleset_hash'' = JStr (rt_ruleset_hash rt))"

lemma filed:
  assumes "fileDecision env rt unseen ticketId act f stage reason clause extra d = (d', Inr h)"
    "\<forall>k \<in> {''reason'', ''clause'', ''run_id'', ''ruleset_hash''}. u k \<notin> fst ` set extra"
  obtains ev where "says rt ticketId act reason clause ev" "h = ae_row_hash ev"
    "d' = d\<lparr>dk_world := (dk_world d)\<lparr>w_audit := w_audit (dk_world d) @ [ev]\<rparr>\<rparr>"
    "\<forall>t. isHex64 (cy_sha env t) \<Longrightarrow> audit_ok (cy_sha env) (w_audit (dk_world d)) \<Longrightarrow> audit_ok (cy_sha env) (w_audit (dk_world d) @ [ev])"
proof -
  obtain clauses at_text c where r: "recordDecision (cy_sha env) unseen c d = (d', Inr h)"
    and c: "c = \<lparr>dc_org_id = rt_org_id rt, dc_action = act, dc_ticket_id = ticketId,
        dc_detail = JObj (spread (verdict_members rt stage reason clause clauses at_text) extra), dc_ts = at_text\<rparr>"
    using assms(1) unfolding fileDecision_def then_do_Inr action_run by auto
  from recorded [OF r] obtain prev ev where ev: "h = ae_row_hash ev"
      "d' = d\<lparr>dk_world := (dk_world d)\<lparr>w_audit := w_audit (dk_world d) @ [ev]\<rparr>\<rparr>"
    and l: "linkAuditRow (cy_sha env) (decision_event c) prev = Inr ev"
    and ok: "\<forall>t. isHex64 (cy_sha env t) \<Longrightarrow> audit_ok (cy_sha env) (w_audit (dk_world d)) \<Longrightarrow>
       audit_ok (cy_sha env) (w_audit (dk_world d) @ [ev])"
    by metis
  have get: "get_prop (spread (verdict_members rt stage reason clause clauses at_text) extra) k
      = get_prop (verdict_members rt stage reason clause clauses at_text) k"
    if "k \<in> {''reason'', ''clause'', ''run_id'', ''ruleset_hash''}" for k
    using assms(2) that by (intro spread_get) auto
  have "says rt ticketId act reason clause ev"
    using linked_event [OF l] get by (auto simp: c says_def decision_event_def verdict_members_def get_prop_def)
  from that [OF this ev ok] show ?thesis .
qed

lemma transaction_done:
  assumes "inTransaction env work d = (d', Inr x)"
  obtains k d1 where "work k (cy_others env (Before_Attempt k) d1) = (d', Inr x)"
proof -
  have "\<exists>k d1. work k (others (Before_Attempt k) d1) = (d', Inr x)"
    if "chain_attempts others work n k0 d0 = (d', Inr x)" for others n k0 d0
    using that
  proof (induction n arbitrary: k0 d0)
    case (Suc n)
    then show ?case by (auto simp: in_transaction_def split: prod.splits sum.splits if_splits)
  qed simp
  then show ?thesis using assms that unfolding inTransaction_def by metis
qed

subsection \<open>Cycles whose reasoning holds\<close>

definition reasoned :: "'a cycle \<Rightarrow> bool" where
  "reasoned m \<longleftrightarrow> (\<forall>d s. snd (m d) \<noteq> Inl (R_Invariant s))"

lemma reasonedD: "reasoned m \<Longrightarrow> m d \<noteq> (d', Inl (R_Invariant s))"
  unfolding reasoned_def by (metis snd_conv)

named_theorems reasoned_intros

lemma reasoned_steps [reasoned_intros]:
  "reasoned (ret x)" "reasoned get_state" "reasoned (change f)" "reasoned (on_tickets m1)" "reasoned (on_world m2)" "reasoned (on_kb g)"
  "reasoned (lift_err (thrown r))" "reasoned (fail (R_Desk e))" "reasoned (recordDecision sha n c)"
  "reasoned (read_ticket env org i)"
  by (simp_all add: reasoned_def action_run on_tickets_def on_world_def on_kb_def recordDecision_def read_ticket_def Let_def
      split: prod.splits sum.splits db_error.splits)

lemma reasoned_then_do [reasoned_intros]: "reasoned m \<Longrightarrow> (\<And>x. reasoned (f x)) \<Longrightarrow> reasoned (then_do m f)"
  unfolding reasoned_def then_do_def by (auto split: prod.splits sum.splits) (metis snd_conv)

lemma reasoned_file [reasoned_intros]: "reasoned (fileDecision env rt n i act f stage reason clause extra)"
  unfolding fileDecision_def by (intro reasoned_intros)

lemma reasoned_move [reasoned_intros]: "reasoned (move_ticket env org ct)"
  by (simp add: reasoned_def move_ticket_def on_tickets_def split: prod.splits sum.splits)

lemma reasoned_moves [reasoned_intros]: "reasoned (move_all env org cts)"
  by (induction cts) (simp_all add: reasoned_intros)

lemma reasoned_stale [reasoned_intros]: "reasoned (on_registry (refuseIfRuntimeIsStale sha run rt head))"
  by (simp add: reasoned_def on_registry_def refuseIfRuntimeIsStale_def)

lemma reasoned_transaction [reasoned_intros]:
  assumes "\<And>k. reasoned (work k)" shows "reasoned (inTransaction env work)"
proof -
  have "snd (chain_attempts others work n k d) \<noteq> Inl (R_Invariant s)" for others n k d s
  proof (induction n arbitrary: k d)
    case (Suc n)
    have "in_transaction (work k) (others (Before_Attempt k) d) \<noteq> (d', Inl (R_Invariant s))" for d'
      using reasonedD [OF assms] by (auto simp: in_transaction_def split: prod.splits sum.splits)
    then show ?case using Suc by (auto split: prod.splits sum.splits)
  qed simp
  then show ?thesis by (simp add: reasoned_def inTransaction_def)
qed

text \<open>A verdict that escalates names its reason and its clause, and one that does not names neither.\<close>

lemma verdict_shape:
  assumes "evaluateEscalation lower f now th = Inr v"
  obtains "\<not> escalate v" "v_reason v = None" "v_clause v = None"
  | c where "c \<in> set (ESCALATION_CLAUSES lower)" "fires c f now th" "escalate v" "v_reason v = Some (c_reason c)"
      "v_clause v = Some (c_name c)"
  using assms by (auto simp: evaluateEscalation_Inr first_fired_find find_Some_iff in_set_conv_nth split: option.splits)

end
