(* ===== verification/Triage_Runner.thy ===== *)
theory Triage_Runner
  imports Desk Gateway_Safety
begin

section \<open>The triage cycle (src/src/server/triage/runner.ts)\<close>

text \<open>
  One cycle of one ticket: the clauses the record decides, the calls to the model with their tries, and
  the answer or the failure, each filed in the transaction that moves the ticket.  The runtime is the one
  \<open>runtimeFor\<close> answered, the organisation is its own, and \<open>onRun\<close> (Run_Registry) orders the cycles of its run.

  The loop of the calls may go on as long as other sessions lower \<open>retries\<close>: it has fuel, and running out
  is the value None.
\<close>

definition RETRYABLE :: "jstr list" where
  "RETRYABLE = [u ''E_SCHEMA'', u ''E_PROVIDER_TIMEOUT'', u ''E_PROVIDER_FAILED'', u ''E_MODEL_UNEXPECTED'']"

definition SYSTEMIC :: "jstr list" where
  "SYSTEMIC =
     [u ''E_BUDGET_EXHAUSTED'', u ''E_CONFIG_INVALID'', u ''E_MODEL_PRICE_UNKNOWN'', u ''E_LEDGER_WRITE_FAILED'',
      u ''E_INPUT_PATH_MISSING'', u ''E_REPLAY_CACHE_MISS'', u ''E_CANARY_NOT_REDACTED'', u ''E_CANARY_EGRESS'',
      u ''E_CANARY_IN_RESPONSE'', u ''E_PII_EGRESS'', u ''E_PII_IN_RESPONSE'']"

definition TRIAGEABLE :: "ticket_state list" where
  "TRIAGEABLE = [NEW, REOPENED]"

datatype triage_outcome =
    T_Skipped ticket_state
  | T_Escalated_At_Record escalation_reason jstr
  | T_Triaged bool "escalation_reason option" "jstr option"
  | T_Failed escalation_reason jstr jstr
  | T_Abandoned jstr

subsection \<open>What the record decides\<close>

definition record_input :: "cycle_env \<Rightarrow> cycle_ticket \<Rightarrow> int \<Rightarrow> jnum option \<Rightarrow> feature_input" where
  "record_input env t tries len =
     \<lparr>fi_ticket = facts_of t tries, fi_account = account_of_ticket t, fi_triage = None, fi_redactedBodyLength = len,
      fi_retrieval = None, fi_validation = None, fi_policyFlags = flags_of env t\<rparr>"

definition escalation_of :: "cycle_ticket \<Rightarrow> ticket_state \<Rightarrow> escalation_reason \<Rightarrow> jstr \<Rightarrow> component_transition" where
  "escalation_of t s reason clause =
     \<lparr>ct_ticket = tk_id (tt_row t), ct_from = s, ct_to = ESCALATED, ct_owner = Escalation_Rule,
      ct_assign = escalation_columns reason clause\<rparr>"

text \<open>The transaction of the three stages: the moves, then the decision that explains them.\<close>

definition decide ::
    "cycle_env \<Rightarrow> org_runtime \<Rightarrow> jstr \<Rightarrow> component_transition list \<Rightarrow> decision_action \<Rightarrow> escalation_features \<Rightarrow> jstr
       \<Rightarrow> escalation_reason option \<Rightarrow> jstr option \<Rightarrow> jstr option \<Rightarrow> jstr option \<Rightarrow> jstr cycle" where
  "decide env rt ticketId moves act features stage reason clause code ledger =
     inTransaction env (\<lambda>k. then_do (move_all env (rt_org_id rt) moves) (\<lambda>_.
       fileDecision env rt (cy_unseen env k) ticketId act features stage reason clause
         [(u ''failure_code'', j_opt JStr code), (u ''ledger_row_hash'', j_opt JStr ledger)]))"

definition escalate_at_record :: "cycle_env \<Rightarrow> org_runtime \<Rightarrow> cycle_ticket \<Rightarrow> triage_outcome option cycle" where
  "escalate_at_record env rt t =
     then_do (lift_err (thrown (featuresFromTicket (record_input env t (retries_of (tt_row t)) None)))) (\<lambda>f.
     then_do (lift_err (thrown (evaluateEscalation (cy_lower env) (fr_features f) (j_whole (cy_now env)) (rt_thresholds rt)))) (\<lambda>v.
     case (escalate v, v_reason v, v_clause v) of
       (True, Some reason, Some clause) \<Rightarrow>
         then_do (guard (CLAUSE_STAGE clause = Some AtRecord) (R_Invariant (u ''record stage''))) (\<lambda>_.
         then_do (decide env rt (tk_id (tt_row t)) [escalation_of t (tk_status (tt_row t)) reason clause] Ticket_Escalated
                    (fr_features f) (u ''record'') (Some reason) (Some clause) None None) (\<lambda>_.
         ret (Some (T_Escalated_At_Record reason clause))))
     | _ \<Rightarrow> ret None))"

text \<open>Up to the first call: a ticket to go on with, or the outcome.\<close>

definition triage_entry :: "cycle_env \<Rightarrow> org_runtime \<Rightarrow> jstr \<Rightarrow> (cycle_ticket + triage_outcome) cycle" where
  "triage_entry env rt ticketId =
     then_do (change (cy_others env Before_Read)) (\<lambda>_.
     then_do (read_ticket env (rt_org_id rt) ticketId) (\<lambda>found. case found of
       None \<Rightarrow> fail (app_error E_TICKET_NOT_VISIBLE 404)
     | Some t \<Rightarrow>
         if tk_status (tt_row t) \<notin> set TRIAGEABLE then ret (Inr (T_Skipped (tk_status (tt_row t))))
         else
           then_do (change (cy_others env Before_Head)) (\<lambda>_.
           then_do get_state (\<lambda>d.
           then_do (on_registry (refuseIfRuntimeIsStale (cy_sha env) (cy_label env) rt
                      (case snapshotHeadFor (kb_heads (dk_kb d)) (rt_org_id rt) of Some h \<Rightarrow> h | None \<Rightarrow> NO_KB_SNAPSHOT))) (\<lambda>_.
           then_do (escalate_at_record env rt t) (\<lambda>settled.
           ret (case settled of Some out \<Rightarrow> Inr out | None \<Rightarrow> Inl t)))))))"

subsection \<open>The calls\<close>

definition triage_call :: "org_runtime \<Rightarrow> cycle_ticket \<Rightarrow> int \<Rightarrow> gateway_call" where
  "triage_call rt t tries =
     \<lparr>gq_agent = Triage, gq_org_id = rt_org_id rt, gq_ticket_id = Some (tk_id (tt_row t)),
      gq_prompt_version_id = pi_triage (rt_prompts rt), gq_prompt_text = TRIAGE_PROMPT_TEXT,
      gq_body = tk_body_raw (tt_row t), gq_literals = [], gq_kb_context = [], gq_locale = tt_language t,
      gq_model_requested = am_triage (rt_models rt), gq_sampling = TRIAGE_SAMPLING, gq_seed = Some tries,
      gq_input_path = u ''db://ticket/'' @ tk_id (tt_row t) @ u ''#body_raw'', gq_split_id = None, gq_pin_model = True\<rparr>"

text \<open>One row changed, or the ticket has moved.\<close>

definition bumpRetries :: "cycle_env \<Rightarrow> jstr \<Rightarrow> jstr \<Rightarrow> ticket_state \<Rightarrow> int cycle" where
  "bumpRetries env org ticketId from d =
     on_tickets (in_transaction
       (then_do (update_ticket (evidence_env env d) (componentClaims org) ticketId from
                   (\<lambda>r. r\<lparr>tk_retries := map_option (\<lambda>n. n + 1) (tk_retries r)\<rparr>)) (\<lambda>applied.
        case applied of
          [r] \<Rightarrow> ret (retries_of r)
        | _ \<Rightarrow> fail (App E_TRANSITION_STALE 409)))) d"

datatype triage_end =
    Answered_With gateway_result triage_reading int
  | Unanswered bool int jstr
  | Abandoned_With jstr

datatype triage_try = Done triage_end | Again jstr

fun agent_code_name :: "agent_error_code \<Rightarrow> jstr" where
  "agent_code_name agent_error_code.E_SCHEMA = u ''E_SCHEMA''"
| "agent_code_name E_PROMPT_NOT_REGISTERED = u ''E_PROMPT_NOT_REGISTERED''"
| "agent_code_name E_NO_GROUNDING = u ''E_NO_GROUNDING''"

text \<open>The severity of an accepted envelope is one of the four (\<open>accepted_severity\<close> below).\<close>

definition reading_of :: "triage_envelope \<Rightarrow> triage_reading" where
  "reading_of e =
     \<lparr>tr_category = te_category e,
      tr_severity = (case isSeverity (JNum (te_severity e)) of Some s \<Rightarrow> s | None \<Rightarrow> UNTRIAGED_SEVERITY),
      tr_sentiment = te_sentiment e, tr_confidence = te_confidence e\<rparr>"

definition triage_try :: "cycle_env \<Rightarrow> org_runtime \<Rightarrow> cycle_ticket \<Rightarrow> nat \<Rightarrow> int \<Rightarrow> triage_try cycle" where
  "triage_try env rt t k tries d =
     (case on_world (call (rt_gateway rt) (cy_calls env k) (triage_call rt t tries)) d of
        (d', Inl (R_Gateway (GatewayError code detail))) \<Rightarrow>
          if code_name code \<in> set SYSTEMIC then (d', Inr (Done (Abandoned_With (code_name code))))
          else if code = E_EMPTY_AFTER_REDACTION then (d', Inr (Done (Unanswered True tries (code_name code))))
          else if code_name code \<notin> set RETRYABLE then (d', Inl (R_Gateway (GatewayError code detail)))
          else (d', Inr (Again (code_name code)))
      | (d', Inl e) \<Rightarrow> (d', Inl e)
      | (d', Inr result) \<Rightarrow>
          (case parseTriageEnvelope (gr_response_text result) of
             Inr e \<Rightarrow> (d', Inr (Done (Answered_With result (reading_of e) tries)))
           | Inl (Agent_Error c m) \<Rightarrow> (d', Inr (Again (agent_code_name c)))))"

fun triage_loop ::
    "nat \<Rightarrow> cycle_env \<Rightarrow> org_runtime \<Rightarrow> cycle_ticket \<Rightarrow> nat \<Rightarrow> int \<Rightarrow> desk \<Rightarrow> (desk \<times> (run_error + triage_end)) option" where
  "triage_loop 0 env rt t k tries d = None"
| "triage_loop (Suc fuel) env rt t k tries d =
     (case triage_try env rt t k tries d of
        (d', Inl e) \<Rightarrow> Some (d', Inl e)
      | (d', Inr (Done end_of)) \<Rightarrow> Some (d', Inr end_of)
      | (d', Inr (Again code)) \<Rightarrow>
          (case bumpRetries env (rt_org_id rt) (tk_id (tt_row t)) (tk_status (tt_row t)) (cy_others env (Before_Bump k) d') of
             (d'', Inl e) \<Rightarrow> Some (d'', Inl e)
           | (d'', Inr n) \<Rightarrow>
               if j_whole n > maxRetries (rt_thresholds rt) then Some (d'', Inr (Unanswered False n code))
               else triage_loop fuel env rt t (k + 1) n d''))"

subsection \<open>The answer\<close>

fun severity_number :: "severity \<Rightarrow> int" where
  "severity_number Sev1 = 1"
| "severity_number Sev2 = 2"
| "severity_number Sev3 = 3"
| "severity_number Sev4 = 4"

definition sla_due :: "cycle_ticket \<Rightarrow> (jstr \<times> int) option \<Rightarrow> int option" where
  "sla_due t policy = map_option (\<lambda>(i, minutes). ms_of (tk_created (tt_row t)) + minutes * 60000) policy"

definition answer_input :: "cycle_env \<Rightarrow> cycle_ticket \<Rightarrow> int \<Rightarrow> int option \<Rightarrow> gateway_result \<Rightarrow> triage_reading \<Rightarrow> feature_input" where
  "answer_input env t tries due result reading =
     \<lparr>fi_ticket = (facts_of t tries)\<lparr>tf_slaDueAt := map_option j_whole due\<rparr>, fi_account = account_of_ticket t,
      fi_triage = Some reading, fi_redactedBodyLength = Some (Fin (of_nat (length (gr_body_redacted result)))),
      fi_retrieval = None, fi_validation = None, fi_policyFlags = flags_of env t\<rparr>"

definition answer_columns ::
    "triage_reading \<Rightarrow> gateway_result \<Rightarrow> (jstr \<times> int) option \<Rightarrow> int option \<Rightarrow> jnum \<Rightarrow> js_error + (jstr \<times> column_value) list" where
  "answer_columns stored result policy due priority =
     bind_err (formatStored (tr_sentiment stored)) (\<lambda>sentiment.
     bind_err (formatStored (tr_confidence stored)) (\<lambda>confidence.
     bind_err (case due of None \<Rightarrow> Inr V_Null | Some ms \<Rightarrow> bind_err (iso_instant ms) (\<lambda>_. Inr (V_Time (1000 * ms)))) (\<lambda>due_at.
       Inr [(u ''category'', V_Text (tr_category stored)), (u ''severity'', V_Int (severity_number (tr_severity stored))),
            (u ''sentiment'', V_Text sentiment), (u ''confidence'', V_Text confidence),
            (u ''body_redacted'', V_Text (gr_body_redacted result)),
            (u ''sla_policy_id'', case policy of None \<Rightarrow> V_Null | Some (i, _) \<Rightarrow> V_Text i),
            (u ''sla_due_at'', due_at), (u ''priority'', V_Text (toFixed PRIORITY_DECIMALS priority))])))"

definition applyAnswer ::
    "cycle_env \<Rightarrow> org_runtime \<Rightarrow> cycle_ticket \<Rightarrow> int \<Rightarrow> gateway_result \<Rightarrow> triage_reading \<Rightarrow> triage_outcome cycle" where
  "applyAnswer env rt t tries result reading =
     (let policy = cy_sla env (tt_tier t) (severity_number (tr_severity reading)); due = sla_due t policy
      in then_do (lift_err (thrown (featuresFromTicket (answer_input env t tries due result reading)))) (\<lambda>f.
         case fr_stored f of
           None \<Rightarrow> fail (R_Invariant (u ''no stored reading''))
         | Some stored \<Rightarrow>
             then_do (lift_err (thrown (computePriority (fr_features f) (j_whole (cy_now env)) DEFAULT_PRIORITY_WEIGHTS))) (\<lambda>p.
             then_do (lift_err (thrown (evaluateEscalation (cy_lower env) (fr_features f) (j_whole (cy_now env)) (rt_thresholds rt)))) (\<lambda>v.
             then_do (lift_err (thrown (answer_columns stored result policy due (storedScore p)))) (\<lambda>columns.
             then_do (decide env rt (tk_id (tt_row t))
                        (\<lparr>ct_ticket = tk_id (tt_row t), ct_from = tk_status (tt_row t), ct_to = TRIAGED,
                          ct_owner = Triage_Agent, ct_assign = columns\<rparr>
                         # (case (escalate v, v_reason v, v_clause v) of
                              (True, Some reason, Some clause) \<Rightarrow> [escalation_of t TRIAGED reason clause] | _ \<Rightarrow> []))
                        (if escalate v then Ticket_Escalated else Ticket_Triaged) (fr_features f) (u ''triage'')
                        (v_reason v) (v_clause v) None (Some (ap_row_hash (gr_ledger result)))) (\<lambda>_.
             ret (T_Triaged (escalate v) (v_reason v) (v_clause v))))))))"

subsection \<open>The failure\<close>

definition failure_moves :: "cycle_ticket \<Rightarrow> escalation_reason \<Rightarrow> jstr \<Rightarrow> component_transition list" where
  "failure_moves t reason clause =
     (if tk_status (tt_row t) = REOPENED then [escalation_of t REOPENED reason clause]
      else [\<lparr>ct_ticket = tk_id (tt_row t), ct_from = tk_status (tt_row t), ct_to = TRIAGE_FAILED, ct_owner = Triage_Agent,
             ct_assign = []\<rparr>,
            escalation_of t TRIAGE_FAILED reason clause])"

definition applyFailure :: "cycle_env \<Rightarrow> org_runtime \<Rightarrow> cycle_ticket \<Rightarrow> bool \<Rightarrow> int \<Rightarrow> jstr \<Rightarrow> triage_outcome cycle" where
  "applyFailure env rt t emptied tries code =
     then_do (lift_err (thrown (featuresFromTicket (record_input env t tries (if emptied then Some (Fin 0) else None))))) (\<lambda>f.
     then_do (lift_err (thrown (evaluateEscalation (cy_lower env) (fr_features f) (j_whole (cy_now env)) (rt_thresholds rt)))) (\<lambda>v.
     case (escalate v, v_reason v, v_clause v) of
       (True, Some reason, Some clause) \<Rightarrow>
         then_do (decide env rt (tk_id (tt_row t)) (failure_moves t reason clause) Ticket_Escalated (fr_features f)
                    (u ''failure'') (Some reason) (Some clause) (Some code) None) (\<lambda>_.
         ret (T_Failed reason clause code))
     | _ \<Rightarrow> fail (R_Invariant (u ''stranded''))))"

fun settle :: "cycle_env \<Rightarrow> org_runtime \<Rightarrow> cycle_ticket \<Rightarrow> triage_end \<Rightarrow> triage_outcome cycle" where
  "settle env rt t (Answered_With result reading tries) = applyAnswer env rt t tries result reading"
| "settle env rt t (Unanswered emptied tries code) = applyFailure env rt t emptied tries code"
| "settle env rt t (Abandoned_With code) = ret (T_Abandoned code)"

definition triageCycle ::
    "nat \<Rightarrow> cycle_env \<Rightarrow> org_runtime \<Rightarrow> jstr \<Rightarrow> desk \<Rightarrow> (desk \<times> (run_error + triage_outcome)) option" where
  "triageCycle fuel env rt ticketId d =
     (case triage_entry env rt ticketId d of
        (d', Inl e) \<Rightarrow> Some (d', Inl e)
      | (d', Inr (Inr out)) \<Rightarrow> Some (d', Inr out)
      | (d', Inr (Inl t)) \<Rightarrow>
          (case triage_loop fuel env rt t 0 (retries_of (tt_row t)) d' of
             None \<Rightarrow> None
           | Some (d'', Inl e) \<Rightarrow> Some (d'', Inl e)
           | Some (d'', Inr end_of) \<Rightarrow> Some (settle env rt t end_of d'')))"

subsection \<open>What an accepted answer says of severity\<close>

lemma accepted_severity:
  assumes "parseTriageEnvelope answer = Inr e"
  obtains s where "isSeverity (JNum (te_severity e)) = Some s"
proof -
  have "is_triage_severity (JNum (te_severity e))"
    using assms by (auto simp: parseTriageEnvelope_def number_or_def split: sum.splits prod.splits jsval.splits)
  then have "isSeverity (JNum (te_severity e)) \<noteq> None" by (auto simp: is_triage_severity_def)
  with that show ?thesis by auto
qed

subsection \<open>The clauses of a ticket without an answer\<close>

lemma record_clause_stage:
  assumes "c \<in> set (ESCALATION_CLAUSES lower)" "c_reason c \<in> {POLICY, RETRY, LANG, SLA}"
  shows "CLAUSE_STAGE (c_name c) = Some AtRecord"
  using assms by (auto simp: ESCALATION_CLAUSES_def CLAUSE_STAGE_def)

lemma default_literals_apart: "lit (1 / 4) = Fin (1 / 4)" "lit (3 / 4) = Fin (3 / 4)"
  using to_num_rep [of "1 / 4"] to_num_rep [of "3 / 4"] rep_quarter [of 1] rep_quarter [of 3]
    max_range_gt1 [of "1 / 4"] max_range_gt1 [of "3 / 4"] by simp_all

lemma record_stage_holds:
  assumes "featuresFromTicket (record_input env t n None) = Inr f"
    "evaluateEscalation lower (fr_features f) now DEFAULT_ESCALATION_THRESHOLDS = Inr v" "v_clause v = Some clause"
  shows "CLAUSE_STAGE clause = Some AtRecord"
proof -
  have th: "premiumSeverity DEFAULT_ESCALATION_THRESHOLDS > lit (1 / 4)"
    by (simp add: default_literals_apart DEFAULT_ESCALATION_THRESHOLDS_def)
  have r: "\<forall>r. v_reason v = Some r \<longrightarrow> r \<in> {POLICY, RETRY, LANG, SLA}"
    using untriaged_ticket_raises_only_record_reasons [OF assms(1) _ _ _ _ th assms(2)] by (simp add: record_input_def)
  show ?thesis
    by (rule verdict_shape [OF assms(2)]) (use r record_clause_stage assms(3) in auto)
qed

lemma failure_escalates:
  assumes "featuresFromTicket (record_input env t n (if emptied then Some (Fin 0) else None)) = Inr f"
    "evaluateEscalation lower (fr_features f) now DEFAULT_ESCALATION_THRESHOLDS = Inr v"
    "emptied \<or> j_whole n > Fin 3"
  shows "escalate v"
proof -
  have v: "v = first_fired (ESCALATION_CLAUSES lower) (fr_features f) now DEFAULT_ESCALATION_THRESHOLDS"
    using assms(2) by (simp add: evaluateEscalation_Inr)
  have f: "redactedBodyLength (fr_features f) = (if emptied then Some (Fin 0) else None)" "retries (fr_features f) = j_whole n"
    using assms(1) by (auto simp: featuresFromTicket_def store_reading_def record_input_def facts_of_def Let_def)
  show ?thesis
  proof (cases emptied)
    case True
    then have "effectiveConfidence (fr_features f) DEFAULT_ESCALATION_THRESHOLDS = Some (Fin 0)"
      using f by (simp add: effectiveConfidence_def)
    then show ?thesis unfolding v escalate_iff
      by (simp add: ESCALATION_CLAUSES_def DEFAULT_ESCALATION_THRESHOLDS_def default_literals_apart)
  next
    case False
    then have "retries (fr_features f) > maxRetries DEFAULT_ESCALATION_THRESHOLDS"
      using f assms(3) by (simp add: DEFAULT_ESCALATION_THRESHOLDS_def)
    then show ?thesis unfolding v escalate_iff by (simp add: ESCALATION_CLAUSES_def)
  qed
qed

subsection \<open>The loop gives up only when the budget is spent or the body is empty\<close>

lemma loop_gives_up:
  "triage_loop fuel env rt t k n d = Some (d', Inr (Unanswered emptied m code)) \<Longrightarrow>
     emptied \<or> j_whole m > maxRetries (rt_thresholds rt)"
proof (induction fuel arbitrary: k n d)
  case (Suc fuel)
  have "triage_try env rt t k n d = (d1, Inr (Done (Unanswered e m' code'))) \<Longrightarrow> e" for d1 e m' code'
    by (auto simp: triage_try_def split: prod.splits sum.splits run_error.splits call_error.splits if_splits agent_error.splits)
  then show ?case using Suc by (auto split: prod.splits sum.splits triage_try.splits if_splits)
qed simp

lemma reasoned_try [reasoned_intros]: "reasoned (triage_try env rt t k n)"
  using reasonedD [OF reasoned_steps(5)]
  by (auto simp: reasoned_def triage_try_def
      split: prod.splits sum.splits run_error.splits call_error.splits if_splits agent_error.splits)

lemma reasoned_bump [reasoned_intros]: "reasoned (bumpRetries env org i s)"
  by (simp add: reasoned_def bumpRetries_def on_tickets_def split: prod.splits sum.splits)

lemma reasoned_loop: "triage_loop fuel env rt t k n d \<noteq> Some (d', Inl (R_Invariant s))"
proof (induction fuel arbitrary: k n d)
  case (Suc fuel)
  then show ?case using reasonedD [OF reasoned_try] reasonedD [OF reasoned_bump]
    by (auto split: prod.splits sum.splits triage_try.splits)
qed simp

subsection \<open>The errors the cycle throws when its reasoning fails\<close>

lemma reasoned_decide [reasoned_intros]: "reasoned (decide env rt i moves act f stage reason clause code ledger)"
  unfolding decide_def by (intro reasoned_intros)

lemma reasoned_lift: "(\<And>x. r = Inr x \<Longrightarrow> reasoned (f x)) \<Longrightarrow> reasoned (then_do (lift_err (thrown r)) f)"
  by (cases r) (simp_all add: reasoned_def then_do_def action_run)

lemma reasoned_record:
  assumes "rt_thresholds rt = DEFAULT_ESCALATION_THRESHOLDS" shows "reasoned (escalate_at_record env rt t)"
  unfolding escalate_at_record_def assms
proof (intro reasoned_lift, goal_cases)
  case (1 f v)
  have "v_clause v = Some clause \<Longrightarrow> reasoned (guard (CLAUSE_STAGE clause = Some AtRecord) (R_Invariant s))" for clause s
    using record_stage_holds [OF 1] by (simp add: reasoned_def action_run)
  then show ?case by (auto split: bool.splits option.splits intro!: reasoned_intros)
qed

lemma reasoned_entry:
  assumes "rt_thresholds rt = DEFAULT_ESCALATION_THRESHOLDS" shows "reasoned (triage_entry env rt i)"
  unfolding triage_entry_def
  by (intro reasoned_intros reasoned_record [OF assms]) (auto split: option.splits intro!: reasoned_intros reasoned_record [OF assms])

lemma stored_answer:
  "featuresFromTicket (answer_input env t n due result reading) = Inr f \<Longrightarrow> fr_stored f \<noteq> None"
  by (auto simp: featuresFromTicket_def store_reading_def answer_input_def Let_def split: sum.splits)

lemma reasoned_answer: "reasoned (applyAnswer env rt t n result reading)"
  unfolding applyAnswer_def Let_def
proof (intro reasoned_lift, goal_cases)
  case (1 f)
  show ?case using stored_answer [OF 1] by (auto intro!: reasoned_intros)
qed

lemma reasoned_failure:
  assumes "rt_thresholds rt = DEFAULT_ESCALATION_THRESHOLDS" "emptied \<or> j_whole n > Fin 3"
  shows "reasoned (applyFailure env rt t emptied n code)"
  unfolding applyFailure_def assms(1)
proof (intro reasoned_lift, goal_cases)
  case (1 f v)
  have "escalate v" by (rule failure_escalates [OF 1 assms(2)])
  moreover from this have "v_reason v \<noteq> None" "v_clause v \<noteq> None" by (auto intro: verdict_shape [OF 1(2)])
  ultimately show ?case by (auto intro!: reasoned_intros)
qed

text \<open>
  C0: the impossibilities the triage cycle throws on (a record stage that fires a clause decidable later, an
  answer without a stored reading, a failure no clause of the rule takes up, which would strand the ticket) are
  impossible under the published thresholds, whatever the model answers, however many calls fail and whatever
  other sessions do meanwhile.
\<close>

theorem triage_never_strands_a_ticket:
  assumes "rt_thresholds rt = DEFAULT_ESCALATION_THRESHOLDS"
  shows "triageCycle fuel env rt i d \<noteq> Some (d', Inl (R_Invariant s))"
proof
  assume run: "triageCycle fuel env rt i d = Some (d', Inl (R_Invariant s))"
  have m: "maxRetries (rt_thresholds rt) = Fin 3" by (simp add: assms DEFAULT_ESCALATION_THRESHOLDS_def)
  have "settle env rt t end_of d1 \<noteq> (d', Inl (R_Invariant s))"
    if loop: "triage_loop fuel env rt t 0 n d0 = Some (d1, Inr end_of)" for t n d0 d1 end_of
  proof (cases end_of)
    case (Unanswered emptied tries code)
    with loop_gives_up [of fuel env rt t 0 n d0 d1] loop have "emptied \<or> j_whole tries > Fin 3" by (simp add: m)
    from reasonedD [OF reasoned_failure [OF assms this]] show ?thesis by (simp add: Unanswered)
  qed (use reasonedD [OF reasoned_answer] in \<open>auto simp: action_run\<close>)
  with run reasonedD [OF reasoned_entry [OF assms]] reasoned_loop show False
    by (fastforce simp: triageCycle_def split: prod.splits sum.splits option.splits)
qed

subsection \<open>The loop returns\<close>

text \<open>The ticket is one row and its retries are at least \<open>n\<close>; other sessions do not take them back.\<close>

definition tried :: "jstr \<Rightarrow> int \<Rightarrow> desk \<Rightarrow> bool" where
  "tried i n d \<longleftrightarrow> length (filter (\<lambda>r. tk_id r = i) (dk_tickets d)) \<le> 1
     \<and> (\<forall>r \<in> set (dk_tickets d). tk_id r = i \<longrightarrow> n \<le> retries_of r)"

definition retries_kept :: "cycle_env \<Rightarrow> jstr \<Rightarrow> bool" where
  "retries_kept env i \<longleftrightarrow> (\<forall>m n d. tried i n d \<longrightarrow> tried i n (cy_others env m d))"

lemma filter_one: "length (filter P xs) \<le> 1 \<Longrightarrow> x \<in> set xs \<Longrightarrow> P x \<Longrightarrow> filter P xs = [x]"
  by (induction xs) (auto split: if_splits simp: filter_empty_conv)

lemma bumped:
  assumes "bumpRetries env org i s d = (d', Inr n)" "tried i m d"
  shows "m + 1 \<le> n" "tried i (m + 1) d'"
proof -
  let ?hit = "\<lambda>r. updatable (componentClaims org) r \<and> tk_id r = i \<and> tk_status r = s"
  let ?bump = "\<lambda>r. r\<lparr>tk_retries := map_option (\<lambda>n. n + 1) (tk_retries r)\<rparr>"
  obtain r where r: "filter ?hit (dk_tickets d) = [r]" "row_accepted (evidence_env env d) (?bump r)" "n = retries_of (?bump r)"
    and d': "dk_tickets d' = map (\<lambda>r. if ?hit r then ?bump r else r) (dk_tickets d)"
    using assms(1)
    by (auto simp: bumpRetries_def on_tickets_def in_transaction_def then_do_def update_ticket_def Let_def action_run
        length_Suc_conv split: prod.splits sum.splits list.splits if_splits)
  have "r \<in> set (filter ?hit (dk_tickets d))" by (simp add: r(1))
  then have hit: "r \<in> set (dk_tickets d)" "?hit r" by auto
  obtain k where k: "tk_retries r = Some k" using r(2) by (auto simp: row_accepted_def ticket_checks_def)
  have "m \<le> k" using assms(2) hit k by (auto simp: tried_def retries_of_def)
  then show n: "m + 1 \<le> n" using r(3) k by (simp add: retries_of_def)
  have one: "filter (\<lambda>r. tk_id r = i) (dk_tickets d) = [r]"
    using filter_one [of "\<lambda>r. tk_id r = i"] assms(2) hit by (auto simp: tried_def)
  then have only: "x \<in> set (dk_tickets d) \<Longrightarrow> tk_id x = i \<Longrightarrow> x = r" for x
    using filter_one [of "\<lambda>r. tk_id r = i" "dk_tickets d" x] by simp
  have "length (filter (\<lambda>r. tk_id r = i) (dk_tickets d')) = length (filter (\<lambda>r. tk_id r = i) (dk_tickets d))"
    unfolding d' filter_map length_map by (rule arg_cong [where f = length], rule filter_cong) auto
  moreover have "m + 1 \<le> retries_of x" if "x \<in> set (dk_tickets d')" "tk_id x = i" for x
    using that hit(2) n r(3) by (auto simp: d' dest!: only split: if_splits)
  ultimately show "tried i (m + 1) d'" using one by (simp add: tried_def)
qed

lemma triage_try_tickets: "triage_try env rt t k n d = (d', r) \<Longrightarrow> dk_tickets d' = dk_tickets d"
  by (auto simp: triage_try_def on_world_def
      split: prod.splits sum.splits run_error.splits call_error.splits if_splits agent_error.splits)

lemma loop_returns:
  assumes "retries_kept env (tk_id (tt_row t))" "maxRetries (rt_thresholds rt) = Fin 3"
    "tried (tk_id (tt_row t)) n d" "4 \<le> n + int fuel" "n \<le> 3"
  shows "triage_loop fuel env rt t k tries d \<noteq> None"
  using assms(3-5)
proof (induction fuel arbitrary: k tries n d)
  case (Suc fuel)
  let ?i = "tk_id (tt_row t)"
  have next_try: "triage_loop fuel env rt t (k + 1) tries' d2 \<noteq> None"
    if "triage_try env rt t k tries d = (d1, Inr (Again code))"
      "bumpRetries env (rt_org_id rt) ?i (tk_status (tt_row t)) (cy_others env (Before_Bump k) d1) = (d2, Inr tries')"
      "\<not> j_whole tries' > Fin 3" for d1 code d2 tries'
  proof -
    have "tried ?i n d1" using Suc.prems(1) triage_try_tickets [OF that(1)] by (simp add: tried_def)
    then have "tried ?i n (cy_others env (Before_Bump k) d1)" using assms(1) unfolding retries_kept_def by blast
    from bumped [OF that(2) this] have "n + 1 \<le> tries'" "tried ?i (n + 1) d2" .
    moreover from this that(3) have "n + 1 \<le> 3" by (simp add: j_whole_def)
    ultimately show ?thesis using Suc.IH [of "n + 1" d2] Suc.prems(2) by simp
  qed
  show ?case using next_try by (auto simp: assms(2) split: prod.splits sum.splits triage_try.splits)
qed simp

lemma loop_more_fuel:
  "triage_loop fuel env rt t k n d = Some x \<Longrightarrow> fuel \<le> fuel' \<Longrightarrow> triage_loop fuel' env rt t k n d = Some x"
proof (induction fuel arbitrary: fuel' k n d)
  case (Suc fuel)
  then obtain f where f: "fuel' = Suc f" "fuel \<le> f" by (cases fuel') auto
  show ?case using Suc.prems(1) Suc.IH [OF _ f(2)]
    by (auto simp: f(1) split: prod.splits sum.splits triage_try.splits if_splits)
qed simp

lemma entry_tickets:
  assumes "triage_entry env rt i d = (d', Inr (Inl t))"
  shows "tk_id (tt_row t) = i" "tk_status (tt_row t) \<in> {NEW, REOPENED}"
    "dk_tickets d' = dk_tickets (cy_others env Before_Head (cy_others env Before_Read d))"
proof -
  have same: "escalate_at_record env rt t d1 = (d2, Inr None) \<Longrightarrow> dk_tickets d2 = dk_tickets d1" for t d1 d2
    by (auto simp: escalate_at_record_def then_do_def action_run split: prod.splits sum.splits option.splits bool.splits if_splits)
  have stale: "on_registry m d1 = (d2, r) \<Longrightarrow> dk_tickets d2 = dk_tickets d1"
    for m :: "(registry, run_error, unit) action" and d1 d2 r by (auto simp: on_registry_def split: prod.splits)
  show "tk_id (tt_row t) = i" "tk_status (tt_row t) \<in> {NEW, REOPENED}"
    "dk_tickets d' = dk_tickets (cy_others env Before_Head (cy_others env Before_Read d))"
    using assms
    by (auto simp: triage_entry_def then_do_Inr action_run read_ticket_def TRIAGEABLE_def find_Some_iff
        dest!: same stale split: option.splits if_splits)
qed

text \<open>
  C0: a triage cycle returns.  If the ticket is one row and no other session takes its retries back, four turns
  of the loop are enough under the published thresholds, and more fuel gives the same result: each failed call
  is one more retry, and the fourth is over the budget.
\<close>

theorem triage_cycle_returns:
  assumes "rt_thresholds rt = DEFAULT_ESCALATION_THRESHOLDS" "retries_kept env i" "tried i 0 d" "4 \<le> fuel"
  shows "\<exists>d' r. triageCycle 4 env rt i d = Some (d', r) \<and> triageCycle fuel env rt i d = Some (d', r)"
proof (cases "triage_entry env rt i d")
  case (Pair d1 r)
  have m: "maxRetries (rt_thresholds rt) = Fin 3" by (simp add: assms(1) DEFAULT_ESCALATION_THRESHOLDS_def)
  show ?thesis
  proof (cases "\<exists>t. r = Inr (Inl t)")
    case True
    then obtain t where t: "triage_entry env rt i d = (d1, Inr (Inl t))" using Pair by auto
    note e = entry_tickets [OF t]
    have "tried i 0 (cy_others env Before_Head (cy_others env Before_Read d))" using assms(2,3) unfolding retries_kept_def by blast
    then have "tried i 0 d1" using e(3) by (simp add: tried_def)
    then have "triage_loop 4 env rt t 0 (retries_of (tt_row t)) d1 \<noteq> None"
      using loop_returns [of env t rt 0 d1 4] assms(2) m e(1) by simp
    then obtain x where x: "triage_loop 4 env rt t 0 (retries_of (tt_row t)) d1 = Some x" by auto
    then have same: "triageCycle fuel env rt i d = triageCycle 4 env rt i d"
      using loop_more_fuel [OF x assms(4)] t by (simp add: triageCycle_def del: triage_loop.simps)
    have "triageCycle 4 env rt i d \<noteq> None"
      using x t by (auto simp: triageCycle_def simp del: triage_loop.simps split: prod.splits sum.splits)
    with same show ?thesis by auto
  next
    case False
    then show ?thesis using Pair by (auto simp: triageCycle_def split: sum.splits)
  qed
qed

subsection \<open>What a settled cycle leaves\<close>

fun outcome_escalates :: "triage_outcome \<Rightarrow> bool" where
  "outcome_escalates (T_Triaged b _ _) = b"
| "outcome_escalates (T_Escalated_At_Record _ _) = True"
| "outcome_escalates (T_Failed _ _ _) = True"
| "outcome_escalates _ = False"

fun outcome_reason :: "triage_outcome \<Rightarrow> escalation_reason option" where
  "outcome_reason (T_Triaged _ r _) = r"
| "outcome_reason (T_Escalated_At_Record r _) = Some r"
| "outcome_reason (T_Failed r _ _) = Some r"
| "outcome_reason _ = None"

fun outcome_clause :: "triage_outcome \<Rightarrow> jstr option" where
  "outcome_clause (T_Triaged _ _ c) = c"
| "outcome_clause (T_Escalated_At_Record _ c) = Some c"
| "outcome_clause (T_Failed _ c _) = Some c"
| "outcome_clause _ = None"

fun settled :: "triage_outcome \<Rightarrow> bool" where
  "settled (T_Skipped _) = False"
| "settled (T_Abandoned _) = False"
| "settled _ = True"

text \<open>One transaction from \<open>d1\<close> to \<open>d'\<close> that moves the ticket and files what the outcome says.\<close>

definition commits_verdict :: "org_runtime \<Rightarrow> jstr \<Rightarrow> bool \<Rightarrow> escalation_reason option \<Rightarrow> jstr option \<Rightarrow> desk \<Rightarrow> desk \<Rightarrow> bool" where
  "commits_verdict rt i escalated reason clause d1 d' \<longleftrightarrow>
     (\<exists>row row' ev. row \<in> set (dk_tickets d1) \<and> tk_id row = i \<and> tk_status row \<in> {NEW, REOPENED}
        \<and> row' \<in> set (dk_tickets d') \<and> tk_id row' = i \<and> tk_status row' = (if escalated then ESCALATED else TRIAGED)
        \<and> (escalated \<longrightarrow> reason \<noteq> None \<and> clause \<noteq> None \<and> tk_escalation_reason row' = map_option reason_text reason
                           \<and> tk_escalation_clause row' = clause)
        \<and> filter (\<lambda>r. tk_id r \<noteq> i) (dk_tickets d') = filter (\<lambda>r. tk_id r \<noteq> i) (dk_tickets d1)
        \<and> dk_world d' = (dk_world d1)\<lparr>w_audit := w_audit (dk_world d1) @ [ev]\<rparr>
        \<and> dk_kb d' = dk_kb d1
        \<and> says rt i (if escalated then Ticket_Escalated else Ticket_Triaged) reason clause ev)"

lemma decided:
  assumes "decide env rt i moves act f stage reason clause code ledger d = (d', Inr h)"
    "moves \<noteq> []" "\<forall>ct \<in> set moves. ct_ticket ct = i"
  obtains k d0 row row' ev where "row \<in> set (dk_tickets (cy_others env (Before_Attempt k) d0))" "tk_id row = i" "tk_status row = ct_from (hd moves)"
    "written (last moves) row' \<in> set (dk_tickets d')" "tk_id row' = i"
    "filter (\<lambda>r. tk_id r \<noteq> i) (dk_tickets d') = filter (\<lambda>r. tk_id r \<noteq> i) (dk_tickets (cy_others env (Before_Attempt k) d0))"
    "dk_world d' = (dk_world (cy_others env (Before_Attempt k) d0))\<lparr>w_audit := w_audit (dk_world (cy_others env (Before_Attempt k) d0)) @ [ev]\<rparr>"
    "dk_kb d' = dk_kb (cy_others env (Before_Attempt k) d0)" "says rt i act reason clause ev"
proof -
  obtain k d0 d2 where m: "move_all env (rt_org_id rt) moves (cy_others env (Before_Attempt k) d0) = (d2, Inr ())"
    and f: "fileDecision env rt (cy_unseen env k) i act f stage reason clause
              [(u ''failure_code'', j_opt JStr code), (u ''ledger_row_hash'', j_opt JStr ledger)] d2 = (d', Inr h)"
    using assms(1) unfolding decide_def by (elim transaction_done) (auto simp: then_do_Inr)
  obtain ev where ev: "says rt i act reason clause ev"
      "d' = d2\<lparr>dk_world := (dk_world d2)\<lparr>w_audit := w_audit (dk_world d2) @ [ev]\<rparr>\<rparr>"
    by (rule filed [OF f]) auto
  obtain row row' where r: "row \<in> set (dk_tickets (cy_others env (Before_Attempt k) d0))" "tk_id row = i" "tk_status row = ct_from (hd moves)"
      "written (last moves) row' \<in> set (dk_tickets d2)" "tk_id row' = i"
      "filter (\<lambda>r. tk_id r \<noteq> i) (dk_tickets d2) = filter (\<lambda>r. tk_id r \<noteq> i) (dk_tickets (cy_others env (Before_Attempt k) d0))"
      "dk_world d2 = dk_world (cy_others env (Before_Attempt k) d0)" "dk_kb d2 = dk_kb (cy_others env (Before_Attempt k) d0)"
    by (rule moved_all [OF m assms(2,3)])
  show ?thesis by (rule that [of row k d0 row' ev]) (use r ev in simp_all)
qed

lemma escalation_written:
  "tk_escalation_reason (written (escalation_of t s reason clause) r) = Some (reason_text reason)"
  "tk_escalation_clause (written (escalation_of t s reason clause) r) = Some clause"
  by (simp_all add: written_def escalation_of_def escalation_columns_def assign_columns_def set_column_def)

text \<open>The three ways a cycle settles, as the decision each files.\<close>

definition files_decision :: "cycle_env \<Rightarrow> org_runtime \<Rightarrow> jstr \<Rightarrow> triage_outcome \<Rightarrow> desk \<Rightarrow> bool" where
  "files_decision env rt i out d' \<longleftrightarrow>
     (\<exists>moves f stage code ledger d1 h t.
        decide env rt i moves (if outcome_escalates out then Ticket_Escalated else Ticket_Triaged) f stage
          (outcome_reason out) (outcome_clause out) code ledger d1 = (d', Inr h)
        \<and> moves \<noteq> [] \<and> (\<forall>ct \<in> set moves. ct_ticket ct = i) \<and> ct_from (hd moves) \<in> {NEW, REOPENED}
        \<and> (if outcome_escalates out then \<exists>s reason clause. last moves = escalation_of t s reason clause
              \<and> outcome_reason out = Some reason \<and> outcome_clause out = Some clause else ct_to (last moves) = TRIAGED))"

lemma escalation_of_simps [simp]:
  "ct_ticket (escalation_of t s reason clause) = tk_id (tt_row t)" "ct_from (escalation_of t s reason clause) = s"
  "ct_to (escalation_of t s reason clause) = ESCALATED"
  by (simp_all add: escalation_of_def)

lemma record_settles:
  assumes "escalate_at_record env rt t d = (d', Inr (Some out))" "tk_status (tt_row t) \<in> {NEW, REOPENED}"
  shows "files_decision env rt (tk_id (tt_row t)) out d'"
proof -
  obtain f reason clause d1 h where "decide env rt (tk_id (tt_row t)) [escalation_of t (tk_status (tt_row t)) reason clause]
      Ticket_Escalated f (u ''record'') (Some reason) (Some clause) None None d1 = (d', Inr h)"
    and "out = T_Escalated_At_Record reason clause"
    using assms(1)
    by (auto simp: escalate_at_record_def then_do_Inr action_run split: option.splits bool.splits if_splits)
  then show ?thesis unfolding files_decision_def using assms(2) by (auto intro!: exI)
qed

lemma answer_settles:
  assumes "applyAnswer env rt t n result reading d = (d', Inr out)" "tk_status (tt_row t) \<in> {NEW, REOPENED}"
  shows "files_decision env rt (tk_id (tt_row t)) out d'"
proof -
  obtain f th v columns ledger d1 h where v: "evaluateEscalation (cy_lower env) f (j_whole (cy_now env)) th = Inr v"
    and d: "decide env rt (tk_id (tt_row t))
        (\<lparr>ct_ticket = tk_id (tt_row t), ct_from = tk_status (tt_row t), ct_to = TRIAGED, ct_owner = Triage_Agent, ct_assign = columns\<rparr>
          # (case (escalate v, v_reason v, v_clause v) of
               (True, Some reason, Some clause) \<Rightarrow> [escalation_of t TRIAGED reason clause] | _ \<Rightarrow> []))
        (if escalate v then Ticket_Escalated else Ticket_Triaged) f (u ''triage'') (v_reason v) (v_clause v) None ledger d1 = (d', Inr h)"
    and out: "out = T_Triaged (escalate v) (v_reason v) (v_clause v)"
    using assms(1) unfolding applyAnswer_def Let_def then_do_Inr action_run prod.inject sum.inject error_renamed
    by (elim exE conjE) (auto simp: then_do_Inr action_run error_renamed split: option.splits)
  show ?thesis
  proof (rule verdict_shape [OF v])
    assume "\<not> escalate v" "v_reason v = None" "v_clause v = None"
    with d show ?thesis unfolding files_decision_def out using assms(2) by (auto intro!: exI)
  next
    fix c assume "escalate v" "v_reason v = Some (c_reason c)" "v_clause v = Some (c_name c)"
    with d show ?thesis unfolding files_decision_def out using assms(2) by (auto intro!: exI)
  qed
qed

lemma failure_settles:
  assumes "applyFailure env rt t emptied n code d = (d', Inr out)" "tk_status (tt_row t) \<in> {NEW, REOPENED}"
  shows "files_decision env rt (tk_id (tt_row t)) out d'"
proof -
  obtain f reason clause d1 h where "decide env rt (tk_id (tt_row t)) (failure_moves t reason clause)
      Ticket_Escalated f (u ''failure'') (Some reason) (Some clause) (Some code) None d1 = (d', Inr h)"
    and "out = T_Failed reason clause code"
    using assms(1) by (auto simp: applyFailure_def then_do_Inr action_run split: option.splits bool.splits if_splits)
  then show ?thesis unfolding files_decision_def using assms(2)
    by (intro exI [of _ "failure_moves t reason clause"] exI) (auto simp: failure_moves_def)
qed

lemma settled_decision:
  assumes "triageCycle fuel env rt i d = Some (d', Inr out)" "settled out"
  shows "files_decision env rt i out d'"
proof (cases "triage_entry env rt i d")
  case (Pair d1 r)
  consider (now) "r = Inr (Inr out)" "d1 = d'"
    | (later) t d2 end_of where "r = Inr (Inl t)" "settle env rt t end_of d2 = (d', Inr out)"
    using assms(1) Pair by (auto simp: triageCycle_def split: sum.splits option.splits prod.splits)
  then show ?thesis
  proof cases
    case now
    obtain t d0 where "escalate_at_record env rt t d0 = (d', Inr (Some out))" "tk_id (tt_row t) = i" "tk_status (tt_row t) \<in> {NEW, REOPENED}"
      using Pair now assms(2)
      by (auto simp: triage_entry_def then_do_Inr action_run read_ticket_def TRIAGEABLE_def find_Some_iff split: option.splits if_splits)
    with record_settles show ?thesis by blast
  next
    case later
    note e = entry_tickets(1,2) [OF Pair [unfolded later(1)]]
    show ?thesis
      using later(2) assms(2) answer_settles [OF _ e(2)] failure_settles [OF _ e(2)] by (cases end_of) (auto simp: e(1) action_run)
  qed
qed

text \<open>
  C0: a triage cycle that settles a ticket does it in one transaction.  From the state the transaction begins in,
  one row, the ticket, which is NEW or REOPENED there, becomes ESCALATED with the reason and the clause of the
  outcome in its columns, or TRIAGED; no other ticket changes, nor the ledger, nor the knowledge base; and the
  audit chain of the organisation grows by exactly one event, TICKET_ESCALATED or TICKET_TRIAGED accordingly,
  about that ticket, whose detail says the same reason and clause under the run and the ruleset of the runtime.
\<close>

theorem triage_verdict_commits_with_its_move:
  assumes "triageCycle fuel env rt i d = Some (d', Inr out)" "settled out"
  shows "\<exists>k d0. commits_verdict rt i (outcome_escalates out) (outcome_reason out) (outcome_clause out)
     (cy_others env (Before_Attempt k) d0) d'"
proof -
  obtain moves f stage code ledger d1 h t where
    m: "decide env rt i moves (if outcome_escalates out then Ticket_Escalated else Ticket_Triaged) f stage
       (outcome_reason out) (outcome_clause out) code ledger d1 = (d', Inr h)"
      "moves \<noteq> []" "\<forall>ct \<in> set moves. ct_ticket ct = i"
    and from_to: "ct_from (hd moves) \<in> {NEW, REOPENED}"
      "if outcome_escalates out then \<exists>s reason clause. last moves = escalation_of t s reason clause
        \<and> outcome_reason out = Some reason \<and> outcome_clause out = Some clause else ct_to (last moves) = TRIAGED"
    using settled_decision [OF assms] unfolding files_decision_def by blast
  obtain k d0 row row' ev where r: "row \<in> set (dk_tickets (cy_others env (Before_Attempt k) d0))" "tk_id row = i" "tk_status row = ct_from (hd moves)"
      "written (last moves) row' \<in> set (dk_tickets d')" "tk_id row' = i"
      "filter (\<lambda>r. tk_id r \<noteq> i) (dk_tickets d') = filter (\<lambda>r. tk_id r \<noteq> i) (dk_tickets (cy_others env (Before_Attempt k) d0))"
      "dk_world d' = (dk_world (cy_others env (Before_Attempt k) d0))\<lparr>w_audit := w_audit (dk_world (cy_others env (Before_Attempt k) d0)) @ [ev]\<rparr>"
      "dk_kb d' = dk_kb (cy_others env (Before_Attempt k) d0)"
      "says rt i (if outcome_escalates out then Ticket_Escalated else Ticket_Triaged) (outcome_reason out) (outcome_clause out) ev"
    by (rule decided [OF m])
  have to: "ct_to (last moves) = (if outcome_escalates out then ESCALATED else TRIAGED)"
    "outcome_escalates out \<longrightarrow> outcome_reason out \<noteq> None \<and> outcome_clause out \<noteq> None
       \<and> tk_escalation_reason (written (last moves) row') = map_option reason_text (outcome_reason out)
       \<and> tk_escalation_clause (written (last moves) row') = outcome_clause out"
    using from_to(2) escalation_written by (auto split: if_splits)
  have "commits_verdict rt i (outcome_escalates out) (outcome_reason out) (outcome_clause out)
     (cy_others env (Before_Attempt k) d0) d'"
    unfolding commits_verdict_def
    by (intro exI [of _ row] exI [of _ "written (last moves) row'"] exI [of _ ev]) (use r to from_to(1) in simp)
  then show ?thesis by blast
qed

subsection \<open>A cycle on concrete tables\<close>

definition sample_cycle :: cycle_env where
  "sample_cycle =
     \<lparr>cy_sha = sample_sha, cy_nfkc = (\<lambda>s. s), cy_lower = ascii_lower,
      cy_desk = \<lparr>approved_and_sent = (\<lambda>_. False), grounded_response = (\<lambda>_. False), numeric_accepts = (\<lambda>_ _. True),
                 accounts = [], clock_us = 0, fresh_id = [], body_digest = (\<lambda>b. b)\<rparr>,
      cy_kb = sample_kb_env, cy_text = \<lparr>te_sha = sample_sha, te_nfkc = (\<lambda>s. s), te_lower = ascii_lower\<rparr>,
      cy_search = sample_ts, cy_calls = (\<lambda>_. sample_env), cy_accounts = (\<lambda>_. Some (u ''standard'', 1)),
      cy_language = (\<lambda>_. u ''fr''), cy_sla = (\<lambda>_ _. None), cy_now = 0, cy_label = u ''demo'', cy_response_id = u ''r'',
      cy_gap_id = u ''g'', cy_others = (\<lambda>_ d. d), cy_gap_others = (\<lambda>gs. gs), cy_unseen = (\<lambda>_. 0)\<rparr>"

definition sample_ticket_row :: ticket_row where
  "sample_ticket_row =
     \<lparr>tk_id = u ''t'', tk_org = u ''o'', tk_account = u ''a'', tk_customer = u ''c'', tk_subject = u ''x'', tk_body_raw = u ''y'',
      tk_body_redacted = None, tk_created = 0, tk_status = NEW, tk_category = None, tk_severity = None, tk_sentiment = None,
      tk_confidence = None, tk_sla_policy = None, tk_sla_due = None, tk_retries = Some 0, tk_priority = None,
      tk_escalation_reason = None, tk_escalation_clause = None, tk_body_sha256 = None, tk_dedupe_key = None\<rparr>"

definition sample_cycle_desk :: desk where
  "sample_cycle_desk = \<lparr>dk_world = sample_world, dk_tickets = [sample_ticket_row], dk_kb = sample_kb, dk_registry = fresh_registry\<rparr>"

definition sample_cycle_runtime :: org_runtime where
  "sample_cycle_runtime =
     \<lparr>rt_org_id = u ''o'', rt_run_id = u ''r'', rt_gateway = sample_gateway,
      rt_prompts = \<lparr>pi_triage = TRIAGE_PROMPT_ID, pi_draft = DRAFT_PROMPT_ID, pi_validate = VALIDATE_PROMPT_ID\<rparr>,
      rt_models = FIXTURE_MODELS, rt_kb_snapshot = u ''s1'', rt_ruleset_hash = sample_sha [],
      rt_state = gc_state sample_config, rt_thresholds = DEFAULT_ESCALATION_THRESHOLDS, rt_restarts = 0,
      rt_app = APP_VERSION, rt_ruleset = u ''x'', rt_provider_mode = Fixture_Mode\<rparr>"

lemma sample_patient: "retries_kept sample_cycle i" "tried (u ''t'') 0 sample_cycle_desk"
  by (simp_all add: retries_kept_def tried_def sample_cycle_def sample_cycle_desk_def sample_ticket_row_def retries_of_def)

theorem triage_never_strands_a_ticket_witness:
  "triageCycle 4 sample_cycle sample_cycle_runtime (u ''t'') sample_cycle_desk \<noteq> Some (sample_cycle_desk, Inl (R_Invariant []))"
  by (rule triage_never_strands_a_ticket) (simp add: sample_cycle_runtime_def)

theorem triage_cycle_returns_witness:
  "\<exists>d' r. triageCycle 7 sample_cycle sample_cycle_runtime (u ''t'') sample_cycle_desk = Some (d', r)"
  using triage_cycle_returns [OF _ sample_patient, of sample_cycle_runtime 7] by (auto simp: sample_cycle_runtime_def)

text \<open>The first decision of a chain is filed.\<close>

lemma first_decision:
  assumes "cy_sha env = sample_sha" "w_audit (dk_world d) = []" "\<bar>cy_now env\<bar> \<le> MAX_TIME" "list_all (\<lambda>(k, v). json_finite v) extra"
  shows "\<exists>d' h. fileDecision env rt n i act f stage reason clause extra d = (d', Inr h)"
proof -
  have put: "list_all (\<lambda>(k, v). json_finite v) fs \<Longrightarrow> json_finite v \<Longrightarrow> list_all (\<lambda>(k, v). json_finite v) (put_member k v fs)"
    for fs k v by (auto simp: put_member_def list_all_iff split: if_splits)
  have spread: "list_all (\<lambda>(k, v). json_finite v) fs \<Longrightarrow> list_all (\<lambda>(k, v). json_finite v) (spread fs extra)" for fs
    using assms(4) unfolding spread_def by (induction extra arbitrary: fs) (auto simp: put)
  have fin: "list_all (\<lambda>(k, v). json_finite v) (verdict_members rt stage reason clause cs t)" for cs t
    by (cases reason; cases clause) (auto simp: verdict_members_def list_all_iff j_opt_def)
  obtain cs where cs: "evaluateEscalationClauses (cy_lower env) f (j_whole (cy_now env)) (rt_thresholds rt) = Inr cs"
    by (simp add: evaluateEscalationClauses_def assertInstant_def j_whole_def is_finite_def)
  obtain t where t: "iso_instant (cy_now env) = Inr t" using assms(3) by (simp add: iso_instant_def)
  let ?detail = "JObj (spread (verdict_members rt stage reason clause cs t) extra)"
  have detail: "json_finite ?detail" using spread [OF fin] by simp
  obtain a where a: "canonicalJson ?detail = Inr a" using canonicalJson_finite [OF detail] by blast
  obtain b where b: "canonicalJson (JObj [(u ''org_id'', JStr (rt_org_id rt)), (u ''actor_id'', JNull), (u ''action'', JStr (action_name act)),
       (u ''object_type'', JStr (u ''ticket'')), (u ''object_id'', JStr i), (u ''detail'', ?detail), (u ''ts'', JStr t)]) = Inr b"
    using canonicalJson_finite [of "JObj [(u ''org_id'', JStr (rt_org_id rt)), (u ''actor_id'', JNull), (u ''action'', JStr (action_name act)),
       (u ''object_type'', JStr (u ''ticket'')), (u ''object_id'', JStr i), (u ''detail'', ?detail), (u ''ts'', JStr t)]"] detail by auto
  have "length (sample_sha x) = 64" "length GENESIS = 7" for x by (simp_all add: sample_sha_def GENESIS_def u_def)
  then have "sample_sha x \<noteq> GENESIS" for x by (metis numeral_eq_iff num.distinct(5) semiring_norm(88))
  then have hash: "isHex64 (sample_sha x)" "sample_sha x \<noteq> GENESIS" for x using sample_sha_hex by auto
  show ?thesis
    using cs t a b hash assms(1,2)
    by (simp add: fileDecision_def then_do_def action_run recordDecision_def linkAuditRow_def auditRowHash_def canonicalAuditRow_def
        decision_event_def audit_head_def org_events_def audit_event.extend_def audit_insert_def j_opt_def Let_def
        del: canonicalJson.simps canonical_items.simps canonical_members.simps)
qed

lemma sample_settles:
  "\<exists>d'. triageCycle 4 sample_cycle sample_cycle_runtime (u ''t'') sample_cycle_desk
     = Some (d', Inr (T_Escalated_At_Record LANG (u ''language_out_of_scope'')))"
proof -
  let ?t = "\<lparr>tt_row = sample_ticket_row, tt_tier = u ''standard'', tt_band = 1, tt_language = u ''fr''\<rparr>"
  let ?v = "\<lparr>escalate = True, v_reason = Some LANG, v_clause = Some (u ''language_out_of_scope'')\<rparr>"
  have flags: "flags_of sample_cycle ?t = []" by code_simp
  obtain f where f: "featuresFromTicket (record_input sample_cycle ?t 0 None) = Inr f"
    by (simp add: featuresFromTicket_def store_reading_def record_input_def Let_def)
  have facts: "policyFlags (fr_features f) = []" "retries (fr_features f) = Fin 0" "language (fr_features f) = u ''fr''"
    using f flags
    by (auto simp: featuresFromTicket_def store_reading_def record_input_def facts_of_def j_whole_def Let_def)
  have lang: "\<not> isSupportedLanguage ascii_lower (u ''fr'') [u ''en'']" by code_simp
  have v: "evaluateEscalation ascii_lower (fr_features f) (Fin 0) DEFAULT_ESCALATION_THRESHOLDS = Inr ?v"
    using facts lang by (simp add: evaluateEscalation_Inr ESCALATION_CLAUSES_def DEFAULT_ESCALATION_THRESHOLDS_def is_finite_def)
  have env: "cy_others sample_cycle = (\<lambda>_ d. d)" "cy_unseen sample_cycle = (\<lambda>_. 0)" "cy_lower sample_cycle = ascii_lower"
    "cy_now sample_cycle = 0" "rt_org_id sample_cycle_runtime = u ''o''" "rt_kb_snapshot sample_cycle_runtime = u ''s1''"
    "rt_thresholds sample_cycle_runtime = DEFAULT_ESCALATION_THRESHOLDS" "tk_id sample_ticket_row = u ''t''"
    "tk_status sample_ticket_row = NEW" "snapshotHeadFor (kb_heads (dk_kb sample_cycle_desk)) (u ''o'') = Some (u ''s1'')"
    "desk.dk_registry_update (\<lambda>_. dk_registry sample_cycle_desk) sample_cycle_desk = sample_cycle_desk"
    by (simp_all add: sample_cycle_def sample_cycle_runtime_def sample_ticket_row_def sample_cycle_desk_def sample_kb_def snapshotHeadFor_def)
  have read: "read_ticket sample_cycle (u ''o'') (u ''t'') sample_cycle_desk = (sample_cycle_desk, Inr (Some ?t))"
    by (simp add: read_ticket_def sample_cycle_desk_def sample_cycle_def sample_ticket_row_def visible_to_def is_staff_def
        componentClaims_def COMPONENT_ROLE_def)
  let ?moves = "[escalation_of ?t NEW LANG (u ''language_out_of_scope'')]"
  obtain d1 where moved: "move_all sample_cycle (u ''o'') ?moves sample_cycle_desk = (d1, Inr ())"
    and d1: "w_audit (dk_world d1) = []"
  proof -
    have edge: "findTransition NEW ESCALATED = Some \<lparr>tr_from = NEW, tr_to = ESCALATED, tr_guard = ESCALATION_GUARD,
        tr_guardedBy = Escalation_Rule, tr_requiresRole = None\<rparr>" by code_simp
    have cols: "u ''escalation_reason'' \<in> set ASSIGNABLE_COLUMNS" "u ''escalation_clause'' \<in> set ASSIGNABLE_COLUMNS"
        "value_fits (u ''escalation_reason'') (V_Text (u ''LANG''))"
        "value_fits (u ''escalation_clause'') (V_Text (u ''language_out_of_scope''))"
        "u ''LANG'' \<in> set ESCALATION_REASON_TEXTS" by code_simp+
    have "\<exists>d1. move_all sample_cycle (u ''o'') ?moves sample_cycle_desk = (d1, Inr ()) \<and> dk_world d1 = sample_world"
      using edge cols
      by (simp add: then_do_def action_run move_ticket_def on_tickets_def applyComponentTransitionOn_def update_ticket_def
          escalation_of_def escalation_columns_def NEVER_A_COMPONENT_def sample_cycle_desk_def sample_ticket_row_def
          updatable_def visible_to_def is_staff_def componentClaims_def COMPONENT_ROLE_def evidence_env_def sample_cycle_def
          row_accepted_def ticket_checks_def evidence_ok_def assign_columns_def set_column_def Let_def)
    with that show ?thesis by (auto simp: sample_world_def)
  qed
  obtain d' h where d': "fileDecision sample_cycle sample_cycle_runtime 0 (u ''t'') Ticket_Escalated (fr_features f) (u ''record'')
      (Some LANG) (Some (u ''language_out_of_scope'')) [(u ''failure_code'', JNull), (u ''ledger_row_hash'', JNull)] d1 = (d', Inr h)"
    using first_decision [of sample_cycle d1] d1 by (force simp: sample_cycle_def MAX_TIME_def)
  have decided: "decide sample_cycle sample_cycle_runtime (u ''t'') ?moves Ticket_Escalated (fr_features f) (u ''record'')
      (Some LANG) (Some (u ''language_out_of_scope'')) None None sample_cycle_desk = (d', Inr h)"
    using moved d' env
    by (simp add: decide_def inTransaction_def CHAIN_ATTEMPTS_def eval_nat_numeral in_transaction_def then_do_def j_opt_def
        del: move_all.simps)
  have recorded: "escalate_at_record sample_cycle sample_cycle_runtime ?t sample_cycle_desk
      = (d', Inr (Some (T_Escalated_At_Record LANG (u ''language_out_of_scope''))))"
    using f v decided env
    by (simp add: escalate_at_record_def then_do_def action_run retries_of_def sample_ticket_row_def j_whole_def CLAUSE_STAGE_def)
  have "triage_entry sample_cycle sample_cycle_runtime (u ''t'') sample_cycle_desk
      = (d', Inr (Inr (T_Escalated_At_Record LANG (u ''language_out_of_scope''))))"
    using read recorded env
    by (simp add: triage_entry_def then_do_def action_run TRIAGEABLE_def on_registry_def refuseIfRuntimeIsStale_def)
  then show ?thesis by (simp add: triageCycle_def del: triage_loop.simps)
qed

theorem triage_verdict_commits_with_its_move_witness:
  "\<exists>d' d1. triageCycle 4 sample_cycle sample_cycle_runtime (u ''t'') sample_cycle_desk
       = Some (d', Inr (T_Escalated_At_Record LANG (u ''language_out_of_scope'')))
     \<and> commits_verdict sample_cycle_runtime (u ''t'') True (Some LANG) (Some (u ''language_out_of_scope'')) d1 d'"
proof -
  obtain d' where d': "triageCycle 4 sample_cycle sample_cycle_runtime (u ''t'') sample_cycle_desk
       = Some (d', Inr (T_Escalated_At_Record LANG (u ''language_out_of_scope'')))" using sample_settles by blast
  from triage_verdict_commits_with_its_move [OF d'] d' show ?thesis by auto
qed

end
