(* ===== verification/Draft_Runner.thy ===== *)
theory Draft_Runner
  imports Triage_Runner Grounding
begin

section \<open>The drafting cycle (src/src/server/draft/runner.ts)\<close>

text \<open>
  One cycle of one triaged ticket: retrieval under the head, the question whether the budget holds both
  calls, the draft with its retries, the validation, the grounding conjunction, and the transaction that
  writes the response with its citations, moves the ticket and files two decisions.  The literals handed to
  the redactor are empty: the two columns they are read from are the constant null of the statement.
\<close>

definition GROUND_CLAUSE :: jstr where
  "GROUND_CLAUSE = u ''draft_not_grounded''"

definition DRAFT_SYSTEMIC :: "jstr list" where
  "DRAFT_SYSTEMIC =
     [u ''E_BUDGET_EXHAUSTED'', u ''E_CONFIG_INVALID'', u ''E_MODEL_PRICE_UNKNOWN'', u ''E_LEDGER_WRITE_FAILED'',
      u ''E_INPUT_PATH_MISSING'', u ''E_REPLAY_CACHE_MISS'', u ''E_CANARY_NOT_REDACTED'', u ''E_CANARY_EGRESS'',
      u ''E_CANARY_IN_RESPONSE'', u ''E_PII_EGRESS'', u ''E_PII_IN_RESPONSE'', u ''E_EMPTY_AFTER_REDACTION'']"

definition DRAFTABLE :: "ticket_state list" where
  "DRAFTABLE = [TRIAGED]"

datatype draft_outcome =
    D_Skipped ticket_state
  | D_Escalated_No_Sources escalation_reason jstr jstr
  | D_Drafted jstr nat
  | D_Escalated_Not_Grounded "escalation_reason option" "jstr option" jstr "jstr list"
  | D_Failed escalation_reason jstr jstr
  | D_Abandoned jstr

definition ground_fired :: "clause_outcome list \<Rightarrow> bool" where
  "ground_fired clauses = list_ex (\<lambda>c. o_clause c = GROUND_CLAUSE \<and> o_fired c) clauses"

definition assertGroundStage :: "run_error + unit" where
  "assertGroundStage = (if CLAUSE_STAGE GROUND_CLAUSE = Some AtDraft then Inr () else Inl (R_Invariant (u ''ground stage'')))"

definition grounding_input :: "cycle_env \<Rightarrow> cycle_ticket \<Rightarrow> jnum option \<Rightarrow> nat \<Rightarrow> bool \<Rightarrow> feature_input" where
  "grounding_input env t len n grounded_now =
     \<lparr>fi_ticket = facts_of t (retries_of (tt_row t)), fi_account = account_of_ticket t, fi_triage = None,
      fi_redactedBodyLength = len, fi_retrieval = Some (Fin (of_nat n)), fi_validation = Some grounded_now,
      fi_policyFlags = flags_of env t\<rparr>"

subsection \<open>A gap is emitted in the transaction of the verdict\<close>

definition emit_gap :: "cycle_env \<Rightarrow> org_runtime \<Rightarrow> jstr \<Rightarrow> gap_evidence \<Rightarrow> emitted_gap cycle" where
  "emit_gap env rt ticketId e d =
     (case emitGapRecord (cy_text env) (component_kb_env env (rt_org_id rt)) (length (w_ledger (dk_world d)))
             (cy_gap_others env) (cy_gap_id env) (rt_org_id rt) ticketId e NULL_RULE (cy_now env) (kb_gaps (dk_kb d)) of
        (gs, g) \<Rightarrow> (d\<lparr>dk_kb := (dk_kb d)\<lparr>kb_gaps := gs\<rparr>\<rparr>, Inr g))"

definition escalateWithoutGrounding ::
    "cycle_env \<Rightarrow> org_runtime \<Rightarrow> cycle_ticket \<Rightarrow> nat \<Rightarrow> gap_evidence option
       \<Rightarrow> (escalation_reason \<Rightarrow> jstr \<Rightarrow> draft_outcome) \<Rightarrow> (jstr \<times> jsval) list \<Rightarrow> draft_outcome cycle" where
  "escalateWithoutGrounding env rt t n gap outcome detail =
     then_do (lift_err (thrown (featuresFromTicket (grounding_input env t None n False)))) (\<lambda>f.
     then_do (lift_err (thrown (evaluateEscalation (cy_lower env) (fr_features f) (j_whole (cy_now env)) (rt_thresholds rt)))) (\<lambda>v.
     then_do (lift_err (thrown (evaluateEscalationClauses (cy_lower env) (fr_features f) (j_whole (cy_now env)) (rt_thresholds rt)))) (\<lambda>clauses.
     then_do (lift_err assertGroundStage) (\<lambda>_.
     then_do (guard (ground_fired clauses) (R_Invariant (u ''ground clause did not fire''))) (\<lambda>_.
     case (escalate v, v_reason v, v_clause v) of
       (True, Some reason, Some clause) \<Rightarrow>
         then_do (inTransaction env (\<lambda>k.
           then_do (move_all env (rt_org_id rt) [escalation_of t (tk_status (tt_row t)) reason clause]) (\<lambda>_.
           then_do (case gap of Some e \<Rightarrow> emit_gap env rt (tk_id (tt_row t)) e
                              | None \<Rightarrow> ret \<lparr>eg_gap_id = None, eg_refused = None\<rparr>) (\<lambda>g.
           fileDecision env rt (cy_unseen env k) (tk_id (tt_row t)) Ticket_Escalated (fr_features f) (u ''draft'')
             (Some reason) (Some clause)
             (spread detail [(u ''gap_id'', j_opt JStr (eg_gap_id g)), (u ''gap_refused'', j_opt JStr (eg_refused g))]))))) (\<lambda>_.
         ret (outcome reason clause))
     | _ \<Rightarrow> fail (R_Invariant (u ''no escalation'')))))))"

subsection \<open>The draft and its retries\<close>

definition kb_context_of :: "retrieved_source list \<Rightarrow> kb_excerpt list" where
  "kb_context_of sources = map (\<lambda>s. \<lparr>kb_id = rs_kb_id s, excerpt = rs_excerpt s\<rparr>) sources"

definition as_sent :: "gateway_result \<Rightarrow> draft_source list" where
  "as_sent result = map (\<lambda>e. \<lparr>src_kb_id = kb_id e, src_excerpt = excerpt e\<rparr>) (gr_kb_context_redacted result)"

definition draft_call :: "org_runtime \<Rightarrow> cycle_ticket \<Rightarrow> kb_excerpt list \<Rightarrow> jstr \<Rightarrow> nat \<Rightarrow> gateway_call" where
  "draft_call rt t excerpts snapshot attempt =
     \<lparr>gq_agent = Draft, gq_org_id = rt_org_id rt, gq_ticket_id = Some (tk_id (tt_row t)),
      gq_prompt_version_id = pi_draft (rt_prompts rt), gq_prompt_text = DRAFT_PROMPT_TEXT,
      gq_body = tk_body_raw (tt_row t), gq_literals = [], gq_kb_context = excerpts, gq_locale = tt_language t,
      gq_model_requested = am_draft (rt_models rt), gq_sampling = DRAFT_SAMPLING, gq_seed = Some (int attempt),
      gq_input_path = u ''db://ticket/'' @ tk_id (tt_row t) @ u ''#body_raw+kb/'' @ snapshot, gq_split_id = None,
      gq_pin_model = True\<rparr>"

definition validate_call ::
    "org_runtime \<Rightarrow> cycle_ticket \<Rightarrow> kb_excerpt list \<Rightarrow> jstr \<Rightarrow> jstr \<Rightarrow> jstr \<Rightarrow> gateway_call" where
  "validate_call rt t excerpts snapshot responseId reply =
     \<lparr>gq_agent = Validate, gq_org_id = rt_org_id rt, gq_ticket_id = Some (tk_id (tt_row t)),
      gq_prompt_version_id = pi_validate (rt_prompts rt), gq_prompt_text = VALIDATE_PROMPT_TEXT,
      gq_body = reply, gq_literals = [], gq_kb_context = excerpts, gq_locale = tt_language t,
      gq_model_requested = am_validate (rt_models rt), gq_sampling = VALIDATE_SAMPLING, gq_seed = Some 0,
      gq_input_path = u ''db://ticket/'' @ tk_id (tt_row t) @ u ''#draft/'' @ responseId @ u ''+kb/'' @ snapshot,
      gq_split_id = None, gq_pin_model = True\<rparr>"

text \<open>The two calls the cycle will make, asked for together; the second with the largest draft there can be.\<close>

definition cycle_probes :: "org_runtime \<Rightarrow> cycle_ticket \<Rightarrow> kb_excerpt list \<Rightarrow> budget_probe list" where
  "cycle_probes rt t excerpts =
     [\<lparr>bp_model_requested = am_draft (rt_models rt), bp_prompt_text = DRAFT_PROMPT_TEXT, bp_body = tk_body_raw (tt_row t),
       bp_kb_context = excerpts, bp_sampling = DRAFT_SAMPLING\<rparr>,
      \<lparr>bp_model_requested = am_validate (rt_models rt), bp_prompt_text = VALIDATE_PROMPT_TEXT,
       bp_body = replicate (1536 * 4) 120, bp_kb_context = excerpts, bp_sampling = VALIDATE_SAMPLING\<rparr>]"

text \<open>\<open>Produced result envelope lastCode calls\<close>: the code of the last failed attempt stays with the draft.\<close>

datatype draft_end =
    Produced gateway_result draft_envelope jstr nat
  | Not_Produced jstr
  | Draft_Abandoned jstr

datatype draft_try = Draft_Done draft_end | Draft_Again jstr

definition draft_try :: "cycle_env \<Rightarrow> org_runtime \<Rightarrow> gateway_call \<Rightarrow> nat \<Rightarrow> jstr \<Rightarrow> draft_try cycle" where
  "draft_try env rt q attempt lastCode d =
     (case on_world (call (rt_gateway rt) (cy_calls env attempt) q) d of
        (d', Inl (R_Gateway (GatewayError code detail))) \<Rightarrow>
          if code_name code \<in> set DRAFT_SYSTEMIC then (d', Inr (Draft_Done (Draft_Abandoned (code_name code))))
          else if code_name code \<notin> set RETRYABLE then (d', Inl (R_Gateway (GatewayError code detail)))
          else (d', Inr (Draft_Again (code_name code)))
      | (d', Inl e) \<Rightarrow> (d', Inl e)
      | (d', Inr result) \<Rightarrow>
          (case parseDraftEnvelope (gr_response_text result) (as_sent result) of
             Inr e \<Rightarrow> (d', Inr (Draft_Done (Produced result e lastCode (attempt + 1))))
           | Inl (Agent_Error c m) \<Rightarrow>
               if c = E_NO_GROUNDING then (d', Inr (Draft_Done (Not_Produced (agent_code_name c))))
               else (d', Inr (Draft_Again (agent_code_name c)))))"

fun draft_loop ::
    "nat \<Rightarrow> cycle_env \<Rightarrow> org_runtime \<Rightarrow> cycle_ticket \<Rightarrow> kb_excerpt list \<Rightarrow> jstr \<Rightarrow> nat \<Rightarrow> jstr \<Rightarrow> desk
       \<Rightarrow> (desk \<times> (run_error + draft_end)) option" where
  "draft_loop 0 env rt t excerpts snapshot attempt lastCode d = None"
| "draft_loop (Suc fuel) env rt t excerpts snapshot attempt lastCode d =
     (case draft_try env rt (draft_call rt t excerpts snapshot attempt) attempt lastCode d of
        (d', Inl e) \<Rightarrow> Some (d', Inl e)
      | (d', Inr (Draft_Done end_of)) \<Rightarrow> Some (d', Inr end_of)
      | (d', Inr (Draft_Again code)) \<Rightarrow>
          if j_whole (int attempt + 1) > maxRetries (rt_thresholds rt) then Some (d', Inr (Not_Produced code))
          else draft_loop fuel env rt t excerpts snapshot (attempt + 1) code d')"

subsection \<open>The response and its citations\<close>

text \<open>The identity of an appended row: its place in the table.\<close>

definition ledger_id :: "jstr \<Rightarrow> appended_row \<Rightarrow> ledger_table \<Rightarrow> nat option" where
  "ledger_id run a table =
     List.find (\<lambda>i. run_id (table ! i) = run \<and> seq (table ! i) = ap_seq a \<and> row_hash (table ! i) = ap_row_hash a)
       [0..<length table]"

fun cite_all :: "kb_env \<Rightarrow> jstr \<Rightarrow> jstr \<Rightarrow> retrieved_source list \<Rightarrow> kb_store \<Rightarrow> kb_error + kb_store" where
  "cite_all env responseId snapshot [] st = Inr st"
| "cite_all env responseId snapshot (s # ss) st =
     bind_err (insert_citation env \<lparr>ci_response = responseId, ci_article = rs_article_id s, ci_snapshot = snapshot\<rparr> st)
       (cite_all env responseId snapshot ss)"

definition response_row ::
    "cycle_env \<Rightarrow> jstr \<Rightarrow> jstr \<Rightarrow> jstr \<Rightarrow> bool \<Rightarrow> nat option \<Rightarrow> nat option \<Rightarrow> jstr list \<Rightarrow> kb_response" where
  "response_row env ticketId reply snapshot is_grounded draftRef validateRef unsupported =
     \<lparr>kr_id = cy_response_id env, kr_ticket = ticketId, kr_draft = reply, kr_snapshot = Some snapshot,
      kr_grounded = Some is_grounded, kr_validated_at = Some (ke_now (cy_kb env)), kr_draft_ref = draftRef,
      kr_validate_ref = validateRef, kr_unsupported = Some (JArr (map JStr unsupported)), kr_created = ke_now (cy_kb env)\<rparr>"

definition insertResponse :: "cycle_env \<Rightarrow> jstr \<Rightarrow> kb_response \<Rightarrow> jstr \<Rightarrow> retrieved_source list \<Rightarrow> unit cycle" where
  "insertResponse env org r snapshot cited d =
     on_kb (\<lambda>st. bind_err (insert_response (component_kb_env env org) (length (w_ledger (dk_world d))) r st)
                   (cite_all (component_kb_env env org) (kr_id r) snapshot cited)) d"

subsection \<open>The verdict\<close>

definition conjuncts_json :: "grounding_conjuncts \<Rightarrow> jsval" where
  "conjuncts_json c = JObj
     [(u ''sources_present'', JBool (sources_present c)), (u ''citations_present'', JBool (citations_present c)),
      (u ''citations_offered'', JBool (citations_offered c)), (u ''citations_overlap'', JBool (citations_overlap c)),
      (u ''model_agrees'', JBool (model_agrees c))]"

record judged_draft =
  jd_ticket :: cycle_ticket
  jd_terms :: jstr
  jd_snapshot :: jstr
  jd_sources :: "retrieved_source list"
  jd_draft :: gateway_result
  jd_envelope :: draft_envelope
  jd_validation :: gateway_result
  jd_model_agrees :: bool
  jd_unsupported :: "jstr list"
  jd_last_code :: jstr

definition grounding_of :: "cycle_env \<Rightarrow> judged_draft \<Rightarrow> grounding_verdict" where
  "grounding_of env j =
     evaluateGrounding (cy_lower env) (as_sent (jd_draft j)) (de_kb_ids (jd_envelope j)) (de_text (jd_envelope j))
       (jd_model_agrees j)"

definition cited_sources :: "judged_draft \<Rightarrow> retrieved_source list" where
  "cited_sources j = filter (\<lambda>s. rs_kb_id s \<in> set (de_kb_ids (jd_envelope j))) (jd_sources j)"

definition divergent_articles :: "cycle_env \<Rightarrow> judged_draft \<Rightarrow> jstr list" where
  "divergent_articles env j =
     map rs_article_id (filter (\<lambda>s. rs_canonical_key s \<in> set (conflicting_keys (grounding_of env j))) (jd_sources j))"

definition draft_detail :: "cycle_env \<Rightarrow> judged_draft \<Rightarrow> emitted_gap \<Rightarrow> (jstr \<times> jsval) list" where
  "draft_detail env j g =
     (let v = grounding_of env j
      in [(u ''response_id'', JStr (cy_response_id env)), (u ''kb_snapshot'', JStr (jd_snapshot j)),
          (u ''result_count'', j_int (int (length (jd_sources j)))),
          (u ''citations'', JArr (map JStr (de_kb_ids (jd_envelope j)))), (u ''conjuncts'', conjuncts_json (gv_conjuncts v)),
          (u ''unsupported_citations'', JArr (map JStr (unsupported_citations v))),
          (u ''conflicting_keys'', JArr (map JStr (conflicting_keys v))),
          (u ''draft_ledger_row_hash'', JStr (ap_row_hash (gr_ledger (jd_draft j)))),
          (u ''validate_ledger_row_hash'', JStr (ap_row_hash (gr_ledger (jd_validation j)))),
          (u ''gap_id'', j_opt JStr (eg_gap_id g)), (u ''gap_refused'', j_opt JStr (eg_refused g))])"

definition validate_detail :: "cycle_env \<Rightarrow> judged_draft \<Rightarrow> (jstr \<times> jsval) list" where
  "validate_detail env j =
     (let v = grounding_of env j
      in [(u ''response_id'', JStr (cy_response_id env)), (u ''grounded'', JBool (gv_grounded v)),
          (u ''model_agrees'', JBool (jd_model_agrees j)), (u ''conjuncts'', conjuncts_json (gv_conjuncts v)),
          (u ''unsupported_claim_count'', j_int (int (length (jd_unsupported j)))),
          (u ''failure_code'', if jd_last_code j = [] then JNull else JStr (jd_last_code j))])"

text \<open>The transaction: the response, the moves, the gap of an ungrounded draft, the two decisions.\<close>

definition plain_move :: "cycle_ticket \<Rightarrow> ticket_state \<Rightarrow> ticket_state \<Rightarrow> guard_owner \<Rightarrow> component_transition" where
  "plain_move t s s' owner = \<lparr>ct_ticket = tk_id (tt_row t), ct_from = s, ct_to = s', ct_owner = owner, ct_assign = []\<rparr>"

definition verdict_columns :: "escalation_verdict \<Rightarrow> (jstr \<times> column_value) list" where
  "verdict_columns v =
     [(u ''escalation_reason'', case v_reason v of Some r \<Rightarrow> V_Text (reason_text r) | None \<Rightarrow> V_Null),
      (u ''escalation_clause'', case v_clause v of Some c \<Rightarrow> V_Text c | None \<Rightarrow> V_Null)]"

definition verdict_moves :: "cycle_ticket \<Rightarrow> bool \<Rightarrow> escalation_verdict \<Rightarrow> component_transition list" where
  "verdict_moves t is_grounded v =
     [plain_move t TRIAGED DRAFTED Draft_Agent,
      if is_grounded then plain_move t DRAFTED AWAITING_AGENT Grounding_Validator
      else (plain_move t DRAFTED ESCALATED Escalation_Rule)\<lparr>ct_assign := verdict_columns v\<rparr>]"

definition file_verdict ::
    "cycle_env \<Rightarrow> org_runtime \<Rightarrow> judged_draft \<Rightarrow> escalation_features \<Rightarrow> escalation_verdict \<Rightarrow> nat \<Rightarrow> jstr cycle" where
  "file_verdict env rt j features v k =
     (let t = jd_ticket j; i = tk_id (tt_row t); g = gv_grounded (grounding_of env j); run = rt_run_id rt
      in then_do get_state (\<lambda>d.
         then_do (insertResponse env (rt_org_id rt)
                    (response_row env i (de_text (jd_envelope j)) (jd_snapshot j) g
                       (ledger_id run (gr_ledger (jd_draft j)) (w_ledger (dk_world d)))
                       (ledger_id run (gr_ledger (jd_validation j)) (w_ledger (dk_world d))) (jd_unsupported j))
                    (jd_snapshot j) (cited_sources j)) (\<lambda>_.
         then_do (move_all env (rt_org_id rt) (verdict_moves t g v)) (\<lambda>_.
         then_do (if g then ret \<lparr>eg_gap_id = None, eg_refused = None\<rparr>
                  else emit_gap env rt i
                         \<lparr>ge_terms = jd_terms j, ge_snapshot = jd_snapshot j, ge_zero_match = False,
                          ge_divergent = divergent_articles env j\<rparr>) (\<lambda>gap.
         then_do (fileDecision env rt (cy_unseen env k) i (if g then Ticket_Drafted else Ticket_Escalated) features (u ''draft'')
                    (if g then None else v_reason v) (if g then None else v_clause v) (draft_detail env j gap)) (\<lambda>_.
         fileDecision env rt 0 i Ticket_Validated features (u ''validate'') None None (validate_detail env j)))))))"

definition judge :: "cycle_env \<Rightarrow> org_runtime \<Rightarrow> judged_draft \<Rightarrow> draft_outcome cycle" where
  "judge env rt j =
     (let v0 = grounding_of env j
      in then_do (lift_err (thrown (featuresFromTicket (grounding_input env (jd_ticket j)
                    (Some (Fin (of_nat (length (gr_body_redacted (jd_draft j)))))) (length (jd_sources j)) (gv_grounded v0))))) (\<lambda>f.
         then_do (lift_err (thrown (evaluateEscalation (cy_lower env) (fr_features f) (j_whole (cy_now env)) (rt_thresholds rt)))) (\<lambda>v.
         then_do (lift_err (thrown (evaluateEscalationClauses (cy_lower env) (fr_features f) (j_whole (cy_now env)) (rt_thresholds rt)))) (\<lambda>clauses.
         then_do (lift_err assertGroundStage) (\<lambda>_.
         then_do (guard (\<not> (gv_grounded v0 \<and> ground_fired clauses)) (R_Invariant (u ''grounded and fired''))) (\<lambda>_.
         then_do (guard (gv_grounded v0 \<or> ground_fired clauses) (R_Invariant (u ''neither grounded nor fired''))) (\<lambda>_.
         then_do (inTransaction env (file_verdict env rt j (fr_features f) v)) (\<lambda>_.
         ret (if gv_grounded v0 then D_Drafted (cy_response_id env) (length (de_kb_ids (jd_envelope j)))
              else D_Escalated_Not_Grounded (v_reason v) (v_clause v) (cy_response_id env) (jd_unsupported j))))))))))"

definition validate_draft ::
    "cycle_env \<Rightarrow> org_runtime \<Rightarrow> cycle_ticket \<Rightarrow> jstr \<Rightarrow> jstr \<Rightarrow> retrieved_source list \<Rightarrow> gateway_result \<Rightarrow> draft_envelope
       \<Rightarrow> jstr \<Rightarrow> nat \<Rightarrow> draft_outcome cycle" where
  "validate_draft env rt t terms snapshot sources result e lastCode k d =
     (case on_world (call (rt_gateway rt) (cy_calls env k)
             (validate_call rt t (kb_context_of sources) snapshot (cy_response_id env) (de_text e))) d of
        (d', Inl (R_Gateway (GatewayError code detail))) \<Rightarrow>
          if code_name code \<in> set DRAFT_SYSTEMIC then (d', Inr (D_Abandoned (code_name code)))
          else escalateWithoutGrounding env rt t (length sources) None (\<lambda>r c. D_Failed r c (code_name code))
                 [(u ''stage'', JStr (u ''validate'')), (u ''failure_code'', JStr (code_name code)),
                  (u ''kb_snapshot'', JStr snapshot)] d'
      | (d', Inl e) \<Rightarrow> (d', Inl e)
      | (d', Inr verdict) \<Rightarrow>
          (let (agrees, unsupported, code) =
                 (case parseValidateEnvelope (gr_response_text verdict) of
                    Inr ve \<Rightarrow> (ve_grounded ve, ve_claims ve, lastCode)
                  | Inl (Agent_Error c m) \<Rightarrow> (False, [], agent_code_name c))
           in judge env rt
                \<lparr>jd_ticket = t, jd_terms = terms, jd_snapshot = snapshot, jd_sources = sources, jd_draft = result,
                 jd_envelope = e, jd_validation = verdict, jd_model_agrees = agrees, jd_unsupported = unsupported,
                 jd_last_code = code\<rparr> d'))"

subsection \<open>The cycle\<close>

fun kind_text :: "retrieval_outcome \<Rightarrow> jstr" where
  "kind_text (Zero_Match _ _) = u ''zero_match''"
| "kind_text (Below_Threshold _ _ _) = u ''below_threshold''"
| "kind_text (Hits _ _ _) = u ''hits''"

definition no_sources :: "cycle_env \<Rightarrow> org_runtime \<Rightarrow> cycle_ticket \<Rightarrow> retrieval_outcome \<Rightarrow> draft_outcome cycle" where
  "no_sources env rt t found =
     escalateWithoutGrounding env rt t 0
       (Some \<lparr>ge_terms = ro_terms found, ge_snapshot = ro_snapshot found,
              ge_zero_match = (case found of Zero_Match _ _ \<Rightarrow> True | _ \<Rightarrow> False), ge_divergent = []\<rparr>)
       (\<lambda>r c. D_Escalated_No_Sources r c (kind_text found))
       [(u ''retrieval_kind'', JStr (kind_text found)), (u ''kb_snapshot'', JStr (ro_snapshot found)), (u ''result_count'', j_int 0),
        (u ''best_rank'', case found of Below_Threshold _ _ best \<Rightarrow> JStr best | _ \<Rightarrow> JNull)]"

text \<open>The ticket, the head and the retrieval, or the outcome of a cycle that ends here.\<close>

definition draft_entry :: "cycle_env \<Rightarrow> org_runtime \<Rightarrow> jstr \<Rightarrow> ((cycle_ticket \<times> jstr \<times> retrieval_outcome) + draft_outcome) cycle" where
  "draft_entry env rt ticketId =
     then_do (change (cy_others env Before_Read)) (\<lambda>_.
     then_do (read_ticket env (rt_org_id rt) ticketId) (\<lambda>found. case found of
       None \<Rightarrow> fail (app_error E_TICKET_NOT_VISIBLE 404)
     | Some t \<Rightarrow>
         if tk_status (tt_row t) \<notin> set DRAFTABLE then ret (Inr (D_Skipped (tk_status (tt_row t))))
         else
           then_do (change (cy_others env Before_Head)) (\<lambda>_.
           then_do get_state (\<lambda>d.
           then_do (lift_err (requireSnapshotHead (kb_heads (dk_kb d)) (rt_org_id rt))) (\<lambda>snapshot.
           then_do (on_registry (refuseIfRuntimeIsStale (cy_sha env) (cy_label env) rt snapshot)) (\<lambda>_.
           ret (Inl (t, snapshot, retrieve (cy_search env) (rt_org_id rt) (tk_subject (tt_row t)) (tk_body_raw (tt_row t))
                                    snapshot EXCERPT_MAX (kb_articles (dk_kb d))))))))))"

definition draftCycle ::
    "nat \<Rightarrow> cycle_env \<Rightarrow> org_runtime \<Rightarrow> jstr \<Rightarrow> desk \<Rightarrow> (desk \<times> (run_error + draft_outcome)) option" where
  "draftCycle fuel env rt ticketId d =
     (case draft_entry env rt ticketId d of
        (d', Inl e) \<Rightarrow> Some (d', Inl e)
      | (d', Inr (Inr out)) \<Rightarrow> Some (d', Inr out)
      | (d', Inr (Inl (t, snapshot, found))) \<Rightarrow>
          (case found of
             Hits terms s sources \<Rightarrow>
               (case on_world (wouldAdmit (rt_gateway rt) (rt_org_id rt) (cycle_probes rt t (kb_context_of sources))) d' of
                  (d1, Inl (R_Gateway (GatewayError code detail))) \<Rightarrow>
                    if code_name code \<in> set DRAFT_SYSTEMIC then Some (d1, Inr (D_Abandoned (code_name code)))
                    else Some (d1, Inl (R_Gateway (GatewayError code detail)))
                | (d1, Inl e) \<Rightarrow> Some (d1, Inl e)
                | (d1, Inr _) \<Rightarrow>
                    (case draft_loop fuel env rt t (kb_context_of sources) snapshot 0 [] d1 of
                       None \<Rightarrow> None
                     | Some (d2, Inl e) \<Rightarrow> Some (d2, Inl e)
                     | Some (d2, Inr (Draft_Abandoned code)) \<Rightarrow> Some (d2, Inr (D_Abandoned code))
                     | Some (d2, Inr (Not_Produced code)) \<Rightarrow>
                         Some (escalateWithoutGrounding env rt t (length sources) None (\<lambda>r c. D_Failed r c code)
                                 [(u ''retrieval_kind'', JStr (kind_text found)), (u ''kb_snapshot'', JStr snapshot),
                                  (u ''result_count'', j_int (int (length sources))), (u ''failure_code'', JStr code)] d2)
                     | Some (d2, Inr (Produced result e lastCode k)) \<Rightarrow>
                         Some (validate_draft env rt t terms snapshot sources result e lastCode k d2)))
           | _ \<Rightarrow> Some (no_sources env rt t found d')))"

subsection \<open>The loop returns\<close>

lemma draft_loop_returns:
  assumes "maxRetries (rt_thresholds rt) = Fin 3" "4 \<le> attempt + fuel" "attempt \<le> 3"
  shows "draft_loop fuel env rt t excerpts snapshot attempt lastCode d \<noteq> None"
  using assms(2,3)
proof (induction fuel arbitrary: attempt lastCode d)
  case (Suc fuel)
  have "draft_loop fuel env rt t excerpts snapshot (attempt + 1) code d1 \<noteq> None" if "\<not> j_whole (int attempt + 1) > Fin 3" for code d1
  proof (rule Suc.IH)
    show "4 \<le> attempt + 1 + fuel" using Suc.prems by simp
    from that show "attempt + 1 \<le> 3" by (simp add: j_whole_def)
  qed
  then show ?case by (auto simp: assms(1) split: prod.splits sum.splits draft_try.splits)
qed simp

lemma draft_loop_more_fuel:
  "draft_loop fuel env rt t excerpts snapshot attempt lastCode d = Some x \<Longrightarrow> fuel \<le> fuel' \<Longrightarrow>
     draft_loop fuel' env rt t excerpts snapshot attempt lastCode d = Some x"
proof (induction fuel arbitrary: fuel' attempt lastCode d)
  case (Suc fuel)
  then obtain f where f: "fuel' = Suc f" "fuel \<le> f" by (cases fuel') auto
  show ?case using Suc.prems(1) Suc.IH [OF _ f(2)]
    by (auto simp: f(1) split: prod.splits sum.splits draft_try.splits if_splits)
qed simp

text \<open>
  C0: a drafting cycle returns: under the published thresholds four turns of the loop are enough, more fuel
  gives the same result, and so at most four drafts are asked for, whatever the provider answers.
\<close>

theorem draft_cycle_returns:
  assumes "rt_thresholds rt = DEFAULT_ESCALATION_THRESHOLDS" "4 \<le> fuel"
  shows "\<exists>d' r. draftCycle 4 env rt i d = Some (d', r) \<and> draftCycle fuel env rt i d = Some (d', r)"
proof -
  have m: "maxRetries (rt_thresholds rt) = Fin 3" by (simp add: assms(1) DEFAULT_ESCALATION_THRESHOLDS_def)
  have "\<exists>x. draft_loop 4 env rt t excerpts snapshot 0 [] d1 = Some x \<and> draft_loop fuel env rt t excerpts snapshot 0 [] d1 = Some x"
    for t excerpts snapshot d1
    using draft_loop_returns [OF m, of 0 4 env t excerpts snapshot "[]" d1] draft_loop_more_fuel [OF _ assms(2)] by fastforce
  then obtain x where x: "\<And>t excerpts snapshot d1. draft_loop 4 env rt t excerpts snapshot 0 [] d1 = Some (x t excerpts snapshot d1)"
      "\<And>t excerpts snapshot d1. draft_loop fuel env rt t excerpts snapshot 0 [] d1 = Some (x t excerpts snapshot d1)" by metis
  have same: "draftCycle fuel env rt i d = draftCycle 4 env rt i d"
    unfolding draftCycle_def x by simp
  have "draftCycle 4 env rt i d \<noteq> None"
    unfolding draftCycle_def x by (simp split: prod.splits sum.splits retrieval_outcome.splits run_error.splits call_error.splits draft_end.splits)
  with same show ?thesis by auto
qed

theorem draft_cycle_returns_witness:
  "\<exists>d' r. draftCycle 9 sample_cycle sample_cycle_runtime (u ''t'') sample_cycle_desk = Some (d', r)"
proof -
  have "rt_thresholds sample_cycle_runtime = DEFAULT_ESCALATION_THRESHOLDS" by (simp add: sample_cycle_runtime_def)
  from draft_cycle_returns [OF this, of 9 sample_cycle "u ''t''" sample_cycle_desk] show ?thesis by auto
qed

subsection \<open>The grounding clause fires exactly on what is not grounded\<close>

lemma ground_clause:
  assumes "featuresFromTicket (grounding_input env t len n g) = Inr f"
    "evaluateEscalationClauses lower (fr_features f) now th = Inr clauses" "g \<longrightarrow> n \<noteq> 0"
  shows "ground_fired clauses \<longleftrightarrow> \<not> g"
proof -
  have f: "kbResultCount (fr_features f) = Some (Fin (of_nat n))" "grounded (fr_features f) = Some g"
    using assms(1) by (auto simp: featuresFromTicket_def store_reading_def grounding_input_def Let_def)
  have e: "effectiveGrounded (fr_features f) = Some g" using f assms(3) by (auto simp: effectiveGrounded_def)
  have "clauses = map (\<lambda>c. \<lparr>o_clause = c_name c, o_reason = c_reason c, o_fired = fires c (fr_features f) now th\<rparr>) (ESCALATION_CLAUSES lower)"
    using assms(2) by (auto simp: evaluateEscalationClauses_def assertInstant_def split: if_splits)
  then show ?thesis using e by (simp add: ground_fired_def GROUND_CLAUSE_def ESCALATION_CLAUSES_def)
qed

lemma ground_escalates:
  assumes "evaluateEscalationClauses lower f now th = Inr clauses" "evaluateEscalation lower f now th = Inr v" "ground_fired clauses"
  shows "escalate v" "v_reason v \<noteq> None" "v_clause v \<noteq> None"
proof -
  obtain c where "c \<in> set (ESCALATION_CLAUSES lower)" "fires c f now th"
    using assms(1,3) by (auto simp: evaluateEscalationClauses_def assertInstant_def ground_fired_def list_ex_iff split: if_splits)
  then show e: "escalate v" using assms(2) by (auto simp: evaluateEscalation_Inr escalate_iff)
  then show "v_reason v \<noteq> None" "v_clause v \<noteq> None" by (auto intro: verdict_shape [OF assms(2)])
qed

lemma lift_ok: "lift_err (Inr x) = ret x"
  by (simp add: fun_eq_iff action_run)

lemma ground_stage: "assertGroundStage = Inr ()"
  by (simp add: assertGroundStage_def GROUND_CLAUSE_def CLAUSE_STAGE_def)

lemma reasoned_emit [reasoned_intros]: "reasoned (emit_gap env rt i e)"
  by (simp add: reasoned_def emit_gap_def split: prod.splits)

lemma reasoned_ungrounded: "reasoned (escalateWithoutGrounding env rt t n gap outcome detail)"
  unfolding escalateWithoutGrounding_def
proof (intro reasoned_lift, goal_cases)
  case (1 f v clauses)
  have fired: "ground_fired clauses" using ground_clause [OF 1(1,3)] by simp
  note v = ground_escalates [OF 1(3,2) fired]
  show ?case using v fired by (auto simp: ground_stage action_run then_do_def guard_def intro!: reasoned_intros split: option.splits)
qed

lemma reasoned_verdict [reasoned_intros]: "reasoned (file_verdict env rt j f v k)"
proof -
  have "reasoned (insertResponse env org r snapshot cited)" for org r snapshot cited
    by (simp add: reasoned_def insertResponse_def on_kb_def split: sum.splits)
  then show ?thesis unfolding file_verdict_def Let_def by (auto intro!: reasoned_intros)
qed

lemma reasoned_judge:
  assumes "jd_sources j \<noteq> []" shows "reasoned (judge env rt j)"
  unfolding judge_def Let_def
proof (intro reasoned_lift, goal_cases)
  case (1 f v clauses)
  have "ground_fired clauses \<longleftrightarrow> \<not> gv_grounded (grounding_of env j)" by (rule ground_clause [OF 1(1,3)]) (use assms in simp)
  then show ?case by (cases "ground_fired clauses") (simp_all add: ground_stage lift_ok guard_def reasoned_intros)
qed

lemma retrieved_hits:
  assumes "retrieve search org subject body snapshot most articles = Hits terms snapshot' sources"
  shows "sources \<noteq> []" "snapshot' = snapshot"
  using assms by (auto simp: retrieve_def retrieveTerms_def Let_def split: list.splits if_splits)

lemma reasoned_validate:
  assumes "sources \<noteq> []" shows "reasoned (validate_draft env rt t terms snapshot sources result e lastCode k)"
  unfolding reasoned_def
proof (intro allI)
  fix d s
  show "snd (validate_draft env rt t terms snapshot sources result e lastCode k d) \<noteq> Inl (R_Invariant s)"
    using reasonedD [OF reasoned_steps(5)] assms
    by (auto simp: validate_draft_def reasoned_judge [unfolded reasoned_def] reasoned_ungrounded [unfolded reasoned_def]
        split: prod.splits sum.splits run_error.splits call_error.splits if_splits agent_error.splits)
qed

lemma reasoned_draft_loop: "draft_loop fuel env rt t excerpts snapshot attempt lastCode d \<noteq> Some (d', Inl (R_Invariant s))"
proof (induction fuel arbitrary: attempt lastCode d)
  case (Suc fuel)
  have "draft_try env rt q attempt lastCode d \<noteq> (d1, Inl (R_Invariant s))" for q attempt lastCode d d1
    using reasonedD [OF reasoned_steps(5)]
    by (auto simp: draft_try_def split: prod.splits sum.splits run_error.splits call_error.splits if_splits agent_error.splits)
  then show ?case using Suc by (auto split: prod.splits sum.splits draft_try.splits)
qed simp

lemma reasoned_draft_entry: "reasoned (draft_entry env rt i)"
proof -
  have head: "reasoned (lift_err (requireSnapshotHead heads org))" for heads org
    by (simp add: reasoned_def action_run requireSnapshotHead_def split: option.splits)
  show ?thesis unfolding draft_entry_def by (auto intro!: reasoned_intros head split: option.splits)
qed

lemma draft_entry_found:
  assumes "draft_entry env rt i d = (d1, Inr (Inl (t, snapshot, found)))"
  obtains articles where "tk_id (tt_row t) = i" "tk_status (tt_row t) = TRIAGED"
    "found = retrieve (cy_search env) (rt_org_id rt) (tk_subject (tt_row t)) (tk_body_raw (tt_row t)) snapshot EXCERPT_MAX articles"
  using assms
  by (auto simp: draft_entry_def then_do_Inr action_run read_ticket_def DRAFTABLE_def find_Some_iff split: option.splits if_splits)

text \<open>
  C0: the impossibilities the drafting cycle throws on are impossible: the grounding clause fires exactly when the
  conjunction reports the draft as not grounded, it fires on every ticket escalated without a grounded draft, and
  the rule then reports an escalation with its reason and clause; under any thresholds and whatever is answered.
\<close>

theorem draft_cycle_never_contradicts_itself:
  "draftCycle fuel env rt i d \<noteq> Some (d', Inl (R_Invariant s))"
proof
  assume run: "draftCycle fuel env rt i d = Some (d', Inl (R_Invariant s))"
  obtain d1 r where entry: "draft_entry env rt i d = (d1, r)" by fastforce
  with run reasonedD [OF reasoned_draft_entry] obtain t snapshot found where r: "r = Inr (Inl (t, snapshot, found))"
    by (auto simp: draftCycle_def split: sum.splits)
  have "sources \<noteq> []" if "found = Hits terms snapshot' sources" for terms snapshot' sources
    using draft_entry_found [OF entry [unfolded r that]] retrieved_hits(1) by metis
  then show False
    using run reasonedD [OF reasoned_steps(5)] reasonedD [OF reasoned_ungrounded] reasoned_draft_loop reasonedD [OF reasoned_validate]
    by (auto simp: draftCycle_def entry r no_sources_def
        split: retrieval_outcome.splits prod.splits sum.splits run_error.splits call_error.splits if_splits option.splits draft_end.splits)
qed

subsection \<open>What a judged draft leaves\<close>

lemma zip_ids: "length ps = length es \<Longrightarrow> map kb_id (map (\<lambda>(e, p). \<lparr>kb_id = kb_id e, excerpt = p\<rparr>) (zip es ps)) = map kb_id es"
  by (induction ps es rule: list_induct2) simp_all

lemma redaction_keeps_ids: "redact_request env q = Inr m \<Longrightarrow> map kb_id (rm_kb m) = map kb_id (gq_kb_context q)"
  by (auto simp: redact_request_def Let_def zip_ids simp del: map_map split: sum.splits prod.splits if_splits)

lemma call_keeps_ids:
  assumes "call gw env q w = (w', Inr result)"
  shows "map kb_id (gr_kb_context_redacted result) = map kb_id (gq_kb_context q)"
proof -
  have r: "run_call gw env q w = (w', Inr result)"
    using assms by (auto simp: call_def split: prod.splits sum.splits call_error.splits)
  then obtain m f a where "redact_request env q = Inr m" "result = result_of m f a"
    unfolding run_call_def Let_def then_do_Inr action_run
    by (elim exE conjE)
       (auto simp: serve_cached_def fresh_call_def then_do_Inr action_run Let_def split: option.splits if_splits prod.splits)
  then show ?thesis using redaction_keeps_ids by (simp add: result_of_def)
qed

lemma cited_all:
  "cite_all env rid snapshot ss st = Inr st' \<Longrightarrow>
     st' = st\<lparr>kb_citations := kb_citations st @ map (\<lambda>s. \<lparr>ci_response = rid, ci_article = rs_article_id s, ci_snapshot = snapshot\<rparr>) ss\<rparr>
     \<and> (\<forall>s \<in> set ss. \<exists>a \<in> set (kb_articles st). ka_id a = rs_article_id s \<and> ka_snapshot a = snapshot)"
proof (induction ss arbitrary: st)
  case (Cons s ss)
  let ?c = "\<lparr>ci_response = rid, ci_article = rs_article_id s, ci_snapshot = snapshot\<rparr>"
  obtain st1 where st1: "insert_citation env ?c st = Inr st1" "cite_all env rid snapshot ss st1 = Inr st'"
    using Cons.prems by (auto split: sum.splits)
  have "list_ex (\<lambda>a. ka_id a = rs_article_id s \<and> ka_snapshot a = snapshot) (kb_articles st)"
    using st1(1) by (auto simp: insert_citation_def split: if_splits)
  then show ?case using Cons.IH [OF st1(2)] citation_result [OF st1(1)] by (auto simp: list_ex_iff)
qed simp

definition commits_draft ::
    "org_runtime \<Rightarrow> jstr \<Rightarrow> jstr \<Rightarrow> bool \<Rightarrow> escalation_reason option \<Rightarrow> jstr option \<Rightarrow> desk \<Rightarrow> desk \<Rightarrow> bool" where
  "commits_draft rt i rid is_grounded reason clause d1 d' \<longleftrightarrow>
     (\<exists>row row' r cs ev1 ev2.
        row \<in> set (dk_tickets d1) \<and> tk_id row = i \<and> tk_status row = TRIAGED
        \<and> row' \<in> set (dk_tickets d') \<and> tk_id row' = i \<and> tk_status row' = (if is_grounded then AWAITING_AGENT else ESCALATED)
        \<and> (\<not> is_grounded \<longrightarrow> reason \<noteq> None \<and> clause \<noteq> None \<and> tk_escalation_reason row' = map_option reason_text reason
                               \<and> tk_escalation_clause row' = clause)
        \<and> filter (\<lambda>r. tk_id r \<noteq> i) (dk_tickets d') = filter (\<lambda>r. tk_id r \<noteq> i) (dk_tickets d1)
        \<and> kb_responses (dk_kb d') = kb_responses (dk_kb d1) @ [r] \<and> kr_id r = rid \<and> kr_ticket r = i
        \<and> kr_grounded r = Some is_grounded
        \<and> kb_citations (dk_kb d') = kb_citations (dk_kb d1) @ cs \<and> (is_grounded \<longrightarrow> cs \<noteq> [])
        \<and> (\<forall>c \<in> set cs. ci_response c = rid \<and> kr_snapshot r = Some (ci_snapshot c)
              \<and> (\<exists>a \<in> set (kb_articles (dk_kb d1)). ka_id a = ci_article c \<and> ka_snapshot a = ci_snapshot c))
        \<and> kb_articles (dk_kb d') = kb_articles (dk_kb d1) \<and> (is_grounded \<longrightarrow> kb_gaps (dk_kb d') = kb_gaps (dk_kb d1))
        \<and> dk_world d' = (dk_world d1)\<lparr>w_audit := w_audit (dk_world d1) @ [ev1, ev2]\<rparr>
        \<and> says rt i (if is_grounded then Ticket_Drafted else Ticket_Escalated) (if is_grounded then None else reason)
             (if is_grounded then None else clause) ev1
        \<and> says rt i Ticket_Validated None None ev2)"

lemma verdict_row:
  "tk_escalation_reason (written (last (verdict_moves t False v)) r) = map_option reason_text (v_reason v)"
  "tk_escalation_clause (written (last (verdict_moves t False v)) r) = v_clause v"
  by (cases "v_reason v"; cases "v_clause v";
      simp add: verdict_moves_def plain_move_def verdict_columns_def written_def assign_columns_def set_column_def)+

lemma grounded_cites:
  assumes "gv_grounded (grounding_of env j)" "map kb_id (gr_kb_context_redacted (jd_draft j)) = map rs_kb_id (jd_sources j)"
  shows "cited_sources j \<noteq> []"
proof -
  let ?cited = "unique_list (de_kb_ids (jd_envelope j))"
  have "?cited \<noteq> []" "\<forall>k \<in> set ?cited. offered_excerpts (as_sent (jd_draft j)) k \<noteq> None"
    using assms(1) by (auto simp: grounding_of_def evaluateGrounding_def Let_def list_all_iff)
  then obtain k where k: "k \<in> set (de_kb_ids (jd_envelope j))" "offered_excerpts (as_sent (jd_draft j)) k \<noteq> None"
    by (metis unique_list_props(1) last_in_set)
  then have "k \<in> set (map kb_id (gr_kb_context_redacted (jd_draft j)))"
    by (auto simp: offered_excerpts_def as_sent_def map_of_eq_None_iff [symmetric] dest!: map_of_SomeD)
  with k(1) show ?thesis unfolding assms(2) by (auto simp: cited_sources_def filter_empty_conv)
qed

end
