(* ===== verification/Spec2Isabelle.thy ===== *)
theory Spec2Isabelle
  imports Features Sim_Queue Sim_Rank Gateway_Ceiling Ticket_Safety Grounding Promotion_Panel Policy Kb_Gap Kb_Invariant Draft_Runner
begin

text \<open>
  LedgerDesk: a verification development.
\<close>

end
